(* ===== verification/Prelude.thy ===== *)
theory Prelude
  imports Main "HOL-Library.AList" "HOL-Library.Sublist" "HOL-Library.List_Lexorder"
begin

text \<open>
  Shared vocabulary of the development: Rust strings, the standard-library string functions the
  sources call, hash maps, and the lemma collections the component theories use.

  A Rust \<open>str\<close> is a sequence of Unicode scalar values (\<open>rchar\<close>, a natural number); its byte length
  is the sum of the UTF-8 widths of its characters. Since UTF-8 is self-synchronising and orders
  strings as their scalar values do, \<open>split\<close>, \<open>starts_with\<close>, \<open>contains\<close>, \<open>trim\<close> and the order of
  \<open>String\<close> are the corresponding list operations. A \<open>HashMap\<close> is an association list read with
  \<^const>\<open>map_of\<close>; its iteration order is the order of the list, which the theorems leave arbitrary.
\<close>

named_theorems rust_str \<open>evaluation rules for the string functions of the standard library\<close>
named_theorems gate_simps \<open>definitions of the guards at the entry of an operation\<close>

section \<open>Rust strings\<close>

type_synonym rchar = nat
type_synonym rstr = "rchar list"

definition lit :: "string \<Rightarrow> rstr" where
  "lit cs = map of_char cs"

lemma lit_eq_iff [simp]: "lit a = lit b \<longleftrightarrow> a = b"
  unfolding lit_def by (rule inj_map_eq_map) (simp add: inj_def)

lemma lit_Nil_iff [simp]: "lit a = [] \<longleftrightarrow> a = []" "[] = lit a \<longleftrightarrow> a = []"
  by (auto simp: lit_def)

text \<open>Byte length (\<open>str::len\<close>): the sum of the UTF-8 widths.\<close>

definition utf8_len :: "rchar \<Rightarrow> nat" where
  "utf8_len c = (if c < 128 then 1 else if c < 2048 then 2 else if c < 65536 then 3 else 4)"

definition str_len :: "rstr \<Rightarrow> nat" where
  "str_len s = sum_list (map utf8_len s)"

lemma utf8_len_pos [simp]: "0 < utf8_len c"
  by (simp add: utf8_len_def)

lemma utf8_len_le4: "utf8_len c \<le> 4"
  by (simp add: utf8_len_def)

lemma str_len_Nil [simp]: "str_len [] = 0"
  by (simp add: str_len_def)

lemma str_len_Cons [simp]: "str_len (c # s) = utf8_len c + str_len s"
  by (simp add: str_len_def)

lemma str_len_append [simp]: "str_len (s @ t) = str_len s + str_len t"
  by (simp add: str_len_def)

lemma length_le_str_len: "length s \<le> str_len s"
proof (induction s)
  case (Cons c s)
  have "1 \<le> utf8_len c" by (simp add: utf8_len_def)
  with Cons show ?case by simp
qed simp

lemma str_len_0_iff [simp]: "str_len s = 0 \<longleftrightarrow> s = []"
  by (cases s) (auto simp: utf8_len_def)

text \<open>Character classes: \<open>char::is_whitespace\<close> (Unicode \<open>White_Space\<close>), \<open>char::is_control\<close>
  (general category \<open>Cc\<close>) and the ASCII classes.\<close>

definition is_whitespace :: "rchar \<Rightarrow> bool" where
  "is_whitespace c \<longleftrightarrow>
     (9 \<le> c \<and> c \<le> 13) \<or> c = 0x20 \<or> c = 0x85 \<or> c = 0xA0 \<or> c = 0x1680
     \<or> (0x2000 \<le> c \<and> c \<le> 0x200A) \<or> c = 0x2028 \<or> c = 0x2029 \<or> c = 0x202F \<or> c = 0x205F
     \<or> c = 0x3000"

definition is_control :: "rchar \<Rightarrow> bool" where
  "is_control c \<longleftrightarrow> c \<le> 0x1F \<or> (0x7F \<le> c \<and> c \<le> 0x9F)"

definition is_ascii_digit :: "rchar \<Rightarrow> bool" where
  "is_ascii_digit c \<longleftrightarrow> 48 \<le> c \<and> c \<le> 57"

definition is_ascii_alphanumeric :: "rchar \<Rightarrow> bool" where
  "is_ascii_alphanumeric c \<longleftrightarrow>
     is_ascii_digit c \<or> (65 \<le> c \<and> c \<le> 90) \<or> (97 \<le> c \<and> c \<le> 122)"

abbreviation comma :: rchar where "comma \<equiv> 44"
abbreviation slash :: rchar where "slash \<equiv> 47"
abbreviation colon :: rchar where "colon \<equiv> 58"
abbreviation star :: rchar where "star \<equiv> 42"

text \<open>\<open>str::split(c)\<close> yields at least one piece, and one more than there are separators.\<close>

fun split_on :: "rchar \<Rightarrow> rstr \<Rightarrow> rstr list" where
  "split_on d [] = [[]]"
| "split_on d (c # cs) =
     (if c = d then [] # split_on d cs
      else (case split_on d cs of [] \<Rightarrow> [[c]] | w # ws \<Rightarrow> (c # w) # ws))"

text \<open>\<open>[T]::join(sep)\<close>.\<close>

fun join :: "rstr \<Rightarrow> rstr list \<Rightarrow> rstr" where
  "join sep [] = []"
| "join sep [w] = w"
| "join sep (w # v # ws) = w @ sep @ join sep (v # ws)"

definition trim_start :: "rstr \<Rightarrow> rstr" where
  "trim_start s = dropWhile is_whitespace s"

definition trim_end :: "rstr \<Rightarrow> rstr" where
  "trim_end s = rev (dropWhile is_whitespace (rev s))"

definition trim :: "rstr \<Rightarrow> rstr" where
  "trim s = trim_end (trim_start s)"

text \<open>\<open>str::trim_end_matches(c)\<close> for a character.\<close>

definition trim_end_matches :: "rchar \<Rightarrow> rstr \<Rightarrow> rstr" where
  "trim_end_matches c s = rev (dropWhile (\<lambda>x. x = c) (rev s))"

definition strip_prefix :: "rstr \<Rightarrow> rstr \<Rightarrow> rstr option" where
  "strip_prefix p s = (if prefix p s then Some (drop (length p) s) else None)"

definition strip_suffix :: "rstr \<Rightarrow> rstr \<Rightarrow> rstr option" where
  "strip_suffix p s = (if suffix p s then Some (take (length s - length p) s) else None)"

text \<open>\<open>str::contains\<close> for a string pattern.\<close>

fun contains_str :: "rstr \<Rightarrow> rstr \<Rightarrow> bool" where
  "contains_str p [] \<longleftrightarrow> p = []"
| "contains_str p (c # cs) \<longleftrightarrow> prefix p (c # cs) \<or> contains_str p cs"

text \<open>\<open>str::find\<close> for a string pattern, returning what follows the first occurrence.\<close>

fun after_first :: "rstr \<Rightarrow> rstr \<Rightarrow> rstr option" where
  "after_first p [] = (if p = [] then Some [] else None)"
| "after_first p (c # cs) =
     (if prefix p (c # cs) then Some (drop (length p) (c # cs)) else after_first p cs)"

text \<open>The longest prefix of at most \<open>n\<close> bytes that ends at a character boundary.\<close>

fun take_bytes :: "nat \<Rightarrow> rstr \<Rightarrow> rstr" where
  "take_bytes n [] = []"
| "take_bytes n (c # s) = (if utf8_len c \<le> n then c # take_bytes (n - utf8_len c) s else [])"

lemma str_len_take_bytes: "str_len (take_bytes n s) \<le> n"
  by (induction n s rule: take_bytes.induct) auto

lemma take_bytes_all: "str_len s \<le> n \<Longrightarrow> take_bytes n s = s"
  by (induction n s rule: take_bytes.induct) auto

subsection \<open>Lemmas on splitting and joining\<close>

lemma split_on_not_Nil [simp]: "split_on d s \<noteq> []"
  by (induction s) (auto split: list.splits)

lemma split_on_append:
  "d \<notin> set w \<Longrightarrow> split_on d (w @ d # s) = w # split_on d s"
  by (induction w) auto

lemma split_on_no_sep: "d \<notin> set w \<Longrightarrow> split_on d w = [w]"
  by (induction w) auto

lemma split_on_join:
  "ws \<noteq> [] \<Longrightarrow> (\<forall>w\<in>set ws. d \<notin> set w) \<Longrightarrow> split_on d (join [d] ws) = ws"
proof (induction ws rule: induct_list012)
  case (3 w v ws)
  then show ?case by (simp add: split_on_append)
qed (auto simp: split_on_no_sep)

lemma split_on_no_sep_in: "w \<in> set (split_on d s) \<Longrightarrow> d \<notin> set w"
  by (induction s arbitrary: w) (auto split: list.splits if_splits)

lemma split_on_append_sep: "split_on d (s @ d # t) = split_on d s @ split_on d t"
  by (induction s) (auto split: list.splits)

lemma join_split_on [simp]: "join [d] (split_on d s) = s"
proof (induction s)
  case (Cons c cs)
  obtain w ws where w: "split_on d cs = w # ws" by (cases "split_on d cs") auto
  with Cons show ?case by (cases ws) auto
qed simp

lemma join_append:
  "xs \<noteq> [] \<Longrightarrow> ys \<noteq> [] \<Longrightarrow> join sep (xs @ ys) = join sep xs @ sep @ join sep ys"
proof (induction xs rule: induct_list012)
  case (2 x)
  then show ?case by (cases ys) auto
qed auto

lemma prefix_split_on:
  "prefix (split_on d a) (split_on d b) \<longleftrightarrow> b = a \<or> prefix (a @ [d]) b"
proof
  assume "prefix (split_on d a) (split_on d b)"
  then obtain r where r: "split_on d b = split_on d a @ r" by (auto simp: prefix_def)
  have "b = join [d] (split_on d a @ r)" by (metis r join_split_on)
  then have "b = (if r = [] then a else a @ [d] @ join [d] r)"
    by (simp add: join_append)
  then show "b = a \<or> prefix (a @ [d]) b" by (auto split: if_splits)
next
  assume "b = a \<or> prefix (a @ [d]) b"
  then show "prefix (split_on d a) (split_on d b)"
    by (auto simp: prefix_def split_on_append_sep)
qed

subsection \<open>Lemmas on trimming\<close>

lemma set_trim: "set (trim s) \<subseteq> set s"
  by (auto simp: trim_def trim_end_def trim_start_def dest!: set_dropWhileD)

lemma dropWhile_hd: "dropWhile P s \<noteq> [] \<Longrightarrow> \<not> P (hd (dropWhile P s))"
  by (induction s) auto

lemma trim_fixed:
  assumes "s \<noteq> []" "\<not> is_whitespace (hd s)" "\<not> is_whitespace (last s)"
  shows "trim s = s"
proof -
  have 1: "dropWhile is_whitespace s = s"
    using assms by (cases s) auto
  have "dropWhile is_whitespace (rev s) = rev s"
    using assms by (cases s rule: rev_cases) auto
  with 1 show ?thesis by (simp add: trim_def trim_end_def trim_start_def)
qed

lemma suffix_trim_end: "prefix (trim_end s) s"
proof -
  have "suffix (dropWhile is_whitespace (rev s)) (rev s)"
    by (rule suffix_dropWhile)
  then show ?thesis by (simp add: trim_end_def suffix_to_prefix)
qed

lemma trim_trim [simp]: "trim (trim s) = trim s"
proof (cases "trim s = []")
  case True
  have "trim [] = []" by (simp add: trim_def trim_start_def trim_end_def)
  with True show ?thesis by simp
next
  case False
  have "\<not> is_whitespace (hd (trim s))"
  proof -
    from suffix_trim_end [of "trim_start s"] obtain r where r: "trim_start s = trim s @ r"
      by (auto simp: prefix_def trim_def)
    with False have "hd (trim s) = hd (trim_start s)" and "trim_start s \<noteq> []"
      by auto
    then show ?thesis by (metis dropWhile_hd trim_start_def)
  qed
  moreover have "\<not> is_whitespace (last (trim s))"
    using False dropWhile_hd [of is_whitespace "rev (trim_start s)"]
    by (simp add: trim_def trim_end_def last_rev)
  ultimately show ?thesis using False by (intro trim_fixed)
qed

lemma trim_end_matches_decomp:
  "\<exists>n. s = trim_end_matches c s @ replicate n c"
proof (induction s rule: rev_induct)
  case (snoc x xs)
  then obtain n where n: "xs = trim_end_matches c xs @ replicate n c" by blast
  show ?case
  proof (cases "x = c")
    case True
    then have "trim_end_matches c (xs @ [x]) = trim_end_matches c xs"
      by (simp add: trim_end_matches_def)
    with n True have "xs @ [x] = trim_end_matches c (xs @ [x]) @ replicate (Suc n) c"
      by (metis append_assoc replicate_append_same replicate_Suc)
    then show ?thesis by blast
  next
    case False
    then have "xs @ [x] = trim_end_matches c (xs @ [x]) @ replicate 0 c"
      by (simp add: trim_end_matches_def)
    then show ?thesis by blast
  qed
qed (simp add: trim_end_matches_def)

lemma trim_end_matches_last:
  "trim_end_matches c s \<noteq> [] \<Longrightarrow> last (trim_end_matches c s) \<noteq> c"
  using dropWhile_hd [of "\<lambda>x. x = c" "rev s"]
  by (simp add: trim_end_matches_def last_rev)

subsection \<open>Prefixes\<close>

lemma strip_prefix_Some_iff: "strip_prefix p s = Some r \<longleftrightarrow> s = p @ r"
  by (auto simp: strip_prefix_def prefix_def)

lemma strip_suffix_Some_iff: "strip_suffix p s = Some r \<longleftrightarrow> s = r @ p"
  by (auto simp: strip_suffix_def suffix_def)

lemma strip_suffix_None_iff: "strip_suffix p s = None \<longleftrightarrow> \<not> suffix p s"
  by (auto simp: strip_suffix_def)

lemma set_contains_single: "contains_str [c] s \<longleftrightarrow> c \<in> set s"
  by (induction s) auto

section \<open>Decimal numbers\<close>

text \<open>\<open>str::parse::<u64>\<close>: an optional \<open>+\<close>, then at least one digit; a step that leaves the range
  of \<open>u64\<close> is an error.\<close>

definition u64_max :: nat where
  "u64_max = 2 ^ 64 - 1"

fun u64_digits :: "nat \<Rightarrow> rstr \<Rightarrow> nat option" where
  "u64_digits acc [] = Some acc"
| "u64_digits acc (c # cs) =
     (if is_ascii_digit c \<and> acc * 10 + (c - 48) \<le> u64_max
      then u64_digits (acc * 10 + (c - 48)) cs else None)"

definition parse_u64 :: "rstr \<Rightarrow> nat option" where
  "parse_u64 s =
     (let ds = (case s of [] \<Rightarrow> [] | c # cs \<Rightarrow> if c = 43 then cs else s)
      in if ds = [] then None else u64_digits 0 ds)"

text \<open>\<open>u64::to_string\<close>.\<close>

fun u64_to_string :: "nat \<Rightarrow> rstr" where
  "u64_to_string n =
     (if n < 10 then [48 + n] else u64_to_string (n div 10) @ [48 + n mod 10])"

declare u64_to_string.simps [simp del]

lemma u64_to_string_digits: "c \<in> set (u64_to_string n) \<Longrightarrow> is_ascii_digit c"
proof (induction n arbitrary: c rule: u64_to_string.induct)
  case (1 n)
  then show ?case
    by (cases "n < 10") (auto simp: u64_to_string.simps [of n] is_ascii_digit_def)
qed

lemma u64_to_string_not_Nil [simp]: "u64_to_string n \<noteq> []"
  by (subst u64_to_string.simps) simp

lemma u64_digits_append:
  "u64_digits a (xs @ ys) = (case u64_digits a xs of None \<Rightarrow> None | Some b \<Rightarrow> u64_digits b ys)"
  by (induction xs arbitrary: a) auto

lemma u64_digits_to_string: "n \<le> u64_max \<Longrightarrow> u64_digits 0 (u64_to_string n) = Some n"
proof (induction n rule: u64_to_string.induct)
  case (1 n)
  show ?case
  proof (cases "n < 10")
    case True
    with "1.prems" show ?thesis
      by (simp add: u64_to_string.simps [of n] is_ascii_digit_def)
  next
    case False
    have "n div 10 \<le> u64_max" using "1.prems" by simp
    with False "1.IH" have "u64_digits 0 (u64_to_string (n div 10)) = Some (n div 10)" by simp
    with False "1.prems" show ?thesis
      by (simp add: u64_to_string.simps [of n] u64_digits_append is_ascii_digit_def)
  qed
qed

lemma parse_u64_to_string: "n \<le> u64_max \<Longrightarrow> parse_u64 (u64_to_string n) = Some n"
proof -
  assume n: "n \<le> u64_max"
  obtain c cs where s: "u64_to_string n = c # cs"
    by (meson neq_Nil_conv u64_to_string_not_Nil)
  have "c \<noteq> 43"
    using u64_to_string_digits [of c n] s by (auto simp: is_ascii_digit_def)
  then show ?thesis
    using u64_digits_to_string [OF n] s by (simp add: parse_u64_def)
qed

lemma u64_digits_bound: "u64_digits a s = Some n \<Longrightarrow> a \<le> u64_max \<Longrightarrow> n \<le> u64_max"
  by (induction s arbitrary: a) (auto split: if_splits)

lemma parse_u64_bound: "parse_u64 s = Some n \<Longrightarrow> n \<le> u64_max"
  by (auto simp: parse_u64_def Let_def u64_digits_bound split: if_splits)

section \<open>Hash maps\<close>

type_synonym ('k, 'v) hmap = "('k \<times> 'v) list"

lemma map_of_update [simp]: "map_of (AList.update k v m) = (map_of m)(k \<mapsto> v)"
  by (rule update_conv')

lemma map_of_map_entry:
  "map_of (AList.map_entry k f m) k' =
     (if k' = k then map_option f (map_of m k) else map_of m k')"
  by (induction m) auto

lemma keys_map_entry [simp]: "map fst (AList.map_entry k f m) = map fst m"
  by (induction m) auto

lemma distinct_map_entry: "distinct (map fst (AList.map_entry k f m)) = distinct (map fst m)"
  by simp

lemma map_of_delete [simp]: "map_of (AList.delete k m) = (map_of m)(k := None)"
  by (rule delete_conv')

text \<open>\<open>HashMap<K, HashSet<V>>\<close> used as a multimap: \<open>entry(k).or_default().insert(v)\<close>.\<close>

definition index_add :: "'k \<Rightarrow> 'v \<Rightarrow> ('k, 'v list) hmap \<Rightarrow> ('k, 'v list) hmap" where
  "index_add k v m =
     AList.update k (List.insert v (case map_of m k of None \<Rightarrow> [] | Some vs \<Rightarrow> vs)) m"

definition index_get :: "('k, 'v list) hmap \<Rightarrow> 'k \<Rightarrow> 'v list" where
  "index_get m k = (case map_of m k of None \<Rightarrow> [] | Some vs \<Rightarrow> vs)"

lemma index_get_Nil [simp]: "index_get [] k = []"
  by (simp add: index_get_def)

lemma index_get_add:
  "index_get (index_add k v m) k' =
     (if k' = k then List.insert v (index_get m k) else index_get m k')"
  by (simp add: index_get_def index_add_def)

lemma set_index_get_add:
  "set (index_get (index_add k v m) k') =
     (if k' = k then insert v (set (index_get m k)) else set (index_get m k'))"
  by (simp add: index_get_add)

section \<open>Results\<close>

text \<open>\<open>Result<T, E>\<close> as a sum with \<open>Inl\<close> for \<open>Err\<close>; the \<open>?\<close> operator as \<open>rbind\<close>.\<close>

definition rbind :: "'e + 'a \<Rightarrow> ('a \<Rightarrow> 'e + 'b) \<Rightarrow> 'e + 'b" where
  "rbind r f = (case r of Inl e \<Rightarrow> Inl e | Inr a \<Rightarrow> f a)"

lemma rbind_simps [simp]: "rbind (Inl e) f = Inl e" "rbind (Inr a) f = f a"
  by (simp_all add: rbind_def)

lemma rbind_Inr_iff: "rbind r f = Inr b \<longleftrightarrow> (\<exists>a. r = Inr a \<and> f a = Inr b)"
  by (cases r) auto

lemma rbind_Inl_iff: "rbind r f = Inl e \<longleftrightarrow> r = Inl e \<or> (\<exists>a. r = Inr a \<and> f a = Inl e)"
  by (cases r) auto

abbreviation is_ok :: "'e + 'a \<Rightarrow> bool" where "is_ok r \<equiv> \<not> isl r"

text \<open>\<open>iter().map(f).collect::<Result<Vec<_>, _>>()\<close>: the first error wins.\<close>

fun collect_results :: "('a \<Rightarrow> 'e + 'b) \<Rightarrow> 'a list \<Rightarrow> 'e + 'b list" where
  "collect_results f [] = Inr []"
| "collect_results f (x # xs) =
     rbind (f x) (\<lambda>y. rbind (collect_results f xs) (\<lambda>ys. Inr (y # ys)))"

lemma collect_results_Inr_iff:
  "collect_results f xs = Inr ys \<longleftrightarrow> list_all2 (\<lambda>x y. f x = Inr y) xs ys"
proof (induction xs arbitrary: ys)
  case Nil
  then show ?case by auto
next
  case (Cons x xs)
  then show ?case by (auto simp: rbind_Inr_iff list_all2_Cons1)
qed

text \<open>A loop that checks every element and returns at the first error.\<close>

fun check_each :: "('a \<Rightarrow> 'e option) \<Rightarrow> 'a list \<Rightarrow> 'e + unit" where
  "check_each f [] = Inr ()"
| "check_each f (x # xs) = (case f x of Some e \<Rightarrow> Inl e | None \<Rightarrow> check_each f xs)"

lemma check_each_Inr_iff: "check_each f xs = Inr u \<longleftrightarrow> (\<forall>x\<in>set xs. f x = None)"
  by (induction xs) (auto split: option.splits)

section \<open>Fallible operations on a state\<close>

text \<open>An operation of type \<open>'s \<Rightarrow> ('e + 'a) \<times> 's\<close> keeps the state on an error too: what a method did
  before it returned early stays done. \<open>sbind\<close> is the \<open>?\<close> operator in such a method.\<close>

definition sbind :: "('s \<Rightarrow> ('e + 'a) \<times> 's) \<Rightarrow> ('a \<Rightarrow> 's \<Rightarrow> ('e + 'b) \<times> 's) \<Rightarrow> 's \<Rightarrow> ('e + 'b) \<times> 's" where
  "sbind m f s = (case m s of (Inl e, s') \<Rightarrow> (Inl e, s') | (Inr a, s') \<Rightarrow> f a s')"

definition sreturn :: "'a \<Rightarrow> 's \<Rightarrow> ('e + 'a) \<times> 's" where
  "sreturn a s = (Inr a, s)"

definition sfail :: "'e \<Rightarrow> 's \<Rightarrow> ('e + 'a) \<times> 's" where
  "sfail e s = (Inl e, s)"

text \<open>A check that does not touch the state.\<close>

definition slift :: "'e + 'a \<Rightarrow> 's \<Rightarrow> ('e + 'a) \<times> 's" where
  "slift r s = (r, s)"

lemma sreturn_simps [simp]: "fst (sreturn a s) = Inr a" "snd (sreturn a s) = s"
  by (simp_all add: sreturn_def)

lemma sfail_simps [simp]: "fst (sfail e s) = Inl e" "snd (sfail e s) = s"
  by (simp_all add: sfail_def)

lemma slift_simps [simp]: "fst (slift r s) = r" "snd (slift r s) = s"
  by (simp_all add: slift_def)

lemma sbind_Inr_iff:
  "sbind m f s = (Inr b, s') \<longleftrightarrow> (\<exists>a s1. m s = (Inr a, s1) \<and> f a s1 = (Inr b, s'))"
  by (auto simp: sbind_def split: prod.splits sum.splits)

lemma sbind_slift: "sbind (slift r) f s = (case r of Inl e \<Rightarrow> (Inl e, s) | Inr a \<Rightarrow> f a s)"
  by (simp add: sbind_def slift_def)

text \<open>A transitive relation between states that every part of a method respects relates its start to its end.\<close>

lemma sbind_rel:
  assumes "R s (snd (m s))" and "\<And>a s1. m s = (Inr a, s1) \<Longrightarrow> R s1 (snd (f a s1))"
    and "\<And>x y z. R x y \<Longrightarrow> R y z \<Longrightarrow> R x z"
  shows "R s (snd (sbind m f s))"
  using assms by (cases "m s") (fastforce simp: sbind_def split: sum.splits)

lemma sbind_inv:
  assumes "P (snd (m s))" and "\<And>a s1. m s = (Inr a, s1) \<Longrightarrow> P s1 \<Longrightarrow> P (snd (f a s1))"
  shows "P (snd (sbind m f s))"
  using assms by (cases "m s") (fastforce simp: sbind_def split: sum.splits)

end
