(* ===== verification/GrantData.thy ===== *)
theory GrantData
  imports Prelude
begin

text \<open>
  The data model of the grant layer: \<open>cap-grant/src/data.rs\<close> (grants, drafts, requests, chain
  decisions), \<open>error.rs\<close> (the error type) and \<open>events.rs\<close> (the audit events the operations emit).

  An instant (\<open>chrono::DateTime<Utc>\<close>) is an integer count of time units since the epoch. What the
  code takes from the \<open>chrono\<close> crate is a parameter of the model, the record \<open>chrono\<close>: checked
  addition of milliseconds, the greatest instant, and RFC 3339 text. The message of an error is
  abbreviated to a tag naming the check that failed; error variants are kept.
\<close>

section \<open>Time\<close>

type_synonym instant = int

record chrono =
  checked_add_ms :: "instant \<Rightarrow> int \<Rightarrow> instant option"
  MAX_UTC :: instant
  to_rfc3339 :: "instant \<Rightarrow> rstr"
  parse_rfc3339 :: "rstr \<Rightarrow> instant option"
  four_digit_year :: "instant \<Rightarrow> bool"

text \<open>\<open>i64::try_from(ms).unwrap_or(i64::MAX)\<close>.\<close>

definition i64_max :: int where
  "i64_max = 2 ^ 63 - 1"

definition saturating_i64 :: "nat \<Rightarrow> int" where
  "saturating_i64 ms = min (int ms) i64_max"

definition saturating_deadline :: "chrono \<Rightarrow> instant \<Rightarrow> nat \<Rightarrow> instant" where
  "saturating_deadline ch now ms =
     (case checked_add_ms ch now (saturating_i64 ms) of Some t \<Rightarrow> t | None \<Rightarrow> MAX_UTC ch)"

section \<open>Grants (data.rs)\<close>

datatype grant_ttl = Once | Lifecycle | Persistent | Duration nat | Until instant

datatype grant_issuer = Config | Parent rstr | Resolver rstr | Admin

datatype grant_provenance = StaticConfig | Delegated rstr | Requested | Preset rstr

datatype grant_status = Active | Consumed | Expired | Revoked

fun status_as_str :: "grant_status \<Rightarrow> rstr" where
  "status_as_str Active = lit ''active''"
| "status_as_str Consumed = lit ''consumed''"
| "status_as_str Expired = lit ''expired''"
| "status_as_str Revoked = lit ''revoked''"

record cap_param =
  p_key :: rstr
  p_value :: rstr

record grant =
  g_id :: rstr
  g_grantee :: rstr
  g_capability :: rstr
  g_params :: "cap_param list"
  g_ttl :: grant_ttl
  g_issuer :: grant_issuer
  g_provenance :: grant_provenance
  g_status :: grant_status
  g_created_at :: instant
  g_expires_at :: "instant option"

record grant_draft =
  d_capability :: rstr
  d_params :: "cap_param list"
  d_ttl :: grant_ttl

record grant_request =
  r_caller :: rstr
  r_capability :: rstr
  r_params :: "cap_param list option"
  r_ttl :: grant_ttl
  r_justification :: "rstr option"

datatype resolver_outcome = Approve grant_draft | Deny rstr | Pending | Abstain

datatype chain_decision = ChainApproved rstr | ChainDenied rstr | ChainPending

text \<open>The test \<open>expires_at.map_or(true, |t| t > now)\<close> that every reader of grants makes.\<close>

definition unexpired :: "instant \<Rightarrow> grant \<Rightarrow> bool" where
  "unexpired now g = (case g_expires_at g of None \<Rightarrow> True | Some t \<Rightarrow> now < t)"

text \<open>An active grant that has not reached its deadline: it authorises calls.\<close>

definition live :: "instant \<Rightarrow> grant \<Rightarrow> bool" where
  "live now g \<longleftrightarrow> g_status g = Active \<and> unexpired now g"

text \<open>The order of deadlines, with \<open>None\<close> as no deadline: \<open>deadline_le a b\<close> when a grant with
  deadline \<open>a\<close> never outlives one with deadline \<open>b\<close>.\<close>

fun deadline_le :: "instant option \<Rightarrow> instant option \<Rightarrow> bool" where
  "deadline_le _ None = True"
| "deadline_le None (Some _) = False"
| "deadline_le (Some a) (Some b) = (a \<le> b)"

lemma deadline_le_refl [simp]: "deadline_le a a"
  by (cases a) auto

lemma deadline_le_trans: "deadline_le a b \<Longrightarrow> deadline_le b c \<Longrightarrow> deadline_le a c"
  by (cases a; cases b; cases c) auto

lemma deadline_le_live:
  "deadline_le (g_expires_at g) (g_expires_at h) \<Longrightarrow> unexpired now g \<Longrightarrow> unexpired now h"
  by (auto simp: unexpired_def split: option.splits)

section \<open>Errors (error.rs)\<close>

datatype cap_grant_error =
    NotFound rstr
  | InvalidConfig string
  | SubsetViolation string
  | PresetNotFound rstr
  | PermissionDenied string
  | Db
  | Yaml

type_synonym 'a result = "cap_grant_error + 'a"

section \<open>JSON values (serde\_json::Value)\<close>

text \<open>A JSON number is a non-negative integer, a negative one, or a float kept as its text; only
  the first has an \<open>as_u64\<close>. An object lists its entries in iteration order.\<close>

datatype json_number = PosInt nat | NegInt int | FloatNum rstr

datatype json =
    JNull
  | JBool bool
  | JNumber json_number
  | JString rstr
  | JArray "json list"
  | JObject "(rstr \<times> json) list"

fun as_u64 :: "json_number \<Rightarrow> nat option" where
  "as_u64 (PosInt n) = Some n"
| "as_u64 _ = None"

section \<open>Audit events (events.rs)\<close>

record event =
  ev_agent_id :: rstr
  ev_type :: rstr
  ev_payload :: json

definition new_event :: "rstr \<Rightarrow> string \<Rightarrow> json \<Rightarrow> event" where
  "new_event agent ty payload = \<lparr>ev_agent_id = agent, ev_type = lit ty, ev_payload = payload\<rparr>"

fun ttl_string :: "chrono \<Rightarrow> grant_ttl \<Rightarrow> rstr" where
  "ttl_string ch Once = lit ''once''"
| "ttl_string ch Lifecycle = lit ''lifecycle''"
| "ttl_string ch Persistent = lit ''persistent''"
| "ttl_string ch (Duration ms) = lit ''duration:'' @ u64_to_string ms"
| "ttl_string ch (Until t) = lit ''until:'' @ to_rfc3339 ch t"

fun issuer_string :: "grant_issuer \<Rightarrow> rstr" where
  "issuer_string Config = lit ''config''"
| "issuer_string (Parent i) = lit ''parent:'' @ i"
| "issuer_string (Resolver c) = lit ''resolver:'' @ c"
| "issuer_string Admin = lit ''admin''"

fun provenance_string :: "grant_provenance \<Rightarrow> rstr" where
  "provenance_string StaticConfig = lit ''static-config''"
| "provenance_string (Delegated i) = lit ''delegated:'' @ i"
| "provenance_string Requested = lit ''requested''"
| "provenance_string (Preset n) = lit ''preset:'' @ n"

definition params_json :: "cap_param list \<Rightarrow> json" where
  "params_json ps =
     JArray (map (\<lambda>p. JObject [(lit ''key'', JString (p_key p)),
                               (lit ''value'', JString (p_value p))]) ps)"

definition grant_issued_event :: "chrono \<Rightarrow> grant \<Rightarrow> event" where
  "grant_issued_event ch g = new_event (g_grantee g) ''grant.issued''
     (JObject [(lit ''grant_id'', JString (g_id g)),
               (lit ''grantee'', JString (g_grantee g)),
               (lit ''capability'', JString (g_capability g)),
               (lit ''params'', params_json (g_params g)),
               (lit ''ttl'', JString (ttl_string ch (g_ttl g))),
               (lit ''issuer'', JString (issuer_string (g_issuer g))),
               (lit ''provenance'', JString (provenance_string (g_provenance g)))])"

definition grant_revoked_event :: "rstr \<Rightarrow> rstr \<Rightarrow> rstr \<Rightarrow> rstr \<Rightarrow> nat \<Rightarrow> event" where
  "grant_revoked_event i gr cap by count = new_event gr ''grant.revoked''
     (JObject [(lit ''grant_id'', JString i),
               (lit ''grantee'', JString gr),
               (lit ''capability'', JString cap),
               (lit ''revoked_by'', JString by),
               (lit ''cascade_count'', JNumber (PosInt count))])"

definition grant_consumed_event :: "rstr \<Rightarrow> rstr \<Rightarrow> rstr \<Rightarrow> rstr \<Rightarrow> event" where
  "grant_consumed_event i gr cap fn = new_event gr ''grant.consumed''
     (JObject [(lit ''grant_id'', JString i),
               (lit ''grantee'', JString gr),
               (lit ''capability'', JString cap),
               (lit ''consumed_by_function'', JString fn)])"

definition grant_expired_event :: "chrono \<Rightarrow> rstr \<Rightarrow> rstr \<Rightarrow> rstr \<Rightarrow> grant_ttl \<Rightarrow> event" where
  "grant_expired_event ch i gr cap t = new_event gr ''grant.expired''
     (JObject [(lit ''grant_id'', JString i),
               (lit ''grantee'', JString gr),
               (lit ''capability'', JString cap),
               (lit ''original_ttl'', JString (ttl_string ch t))])"

definition grant_narrowed_event ::
    "rstr \<Rightarrow> cap_param list \<Rightarrow> cap_param list \<Rightarrow> rstr \<Rightarrow> event" where
  "grant_narrowed_event i old new by = new_event by ''grant.narrowed''
     (JObject [(lit ''grant_id'', JString i),
               (lit ''old_params'', params_json old),
               (lit ''new_params'', params_json new),
               (lit ''narrowed_by'', JString by)])"

definition preset_applied_event :: "rstr \<Rightarrow> rstr \<Rightarrow> nat \<Rightarrow> nat \<Rightarrow> event" where
  "preset_applied_event target name revoked created = new_event target ''preset.applied''
     (JObject [(lit ''target_agent'', JString target),
               (lit ''preset_name'', JString name),
               (lit ''grants_revoked'', JNumber (PosInt revoked)),
               (lit ''grants_created'', JNumber (PosInt created))])"

definition resolver_invoked_event :: "rstr \<Rightarrow> rstr \<Rightarrow> rstr \<Rightarrow> rstr \<Rightarrow> event" where
  "resolver_invoked_event agent cap ty dec = new_event agent ''resolver.invoked''
     (JObject [(lit ''agent_id'', JString agent),
               (lit ''capability'', JString cap),
               (lit ''resolver_type'', JString ty),
               (lit ''decision'', JString dec)])"

definition authz_checked_event :: "rstr \<Rightarrow> rstr \<Rightarrow> rstr \<Rightarrow> rstr \<Rightarrow> rstr \<Rightarrow> event" where
  "authz_checked_event agent cap fn dec gid = new_event agent ''authz.checked''
     (JObject [(lit ''agent_id'', JString agent),
               (lit ''capability'', JString cap),
               (lit ''function'', JString fn),
               (lit ''decision'', JString dec),
               (lit ''grant_id'', JString gid)])"

definition grant_delegated_event ::
    "rstr \<Rightarrow> rstr \<Rightarrow> rstr \<Rightarrow> rstr \<Rightarrow> rstr \<Rightarrow> cap_param list \<Rightarrow> event" where
  "grant_delegated_event i pid parent child cap ps = new_event parent ''grant.delegated''
     (JObject [(lit ''grant_id'', JString i),
               (lit ''parent_grant_id'', JString pid),
               (lit ''parent_agent'', JString parent),
               (lit ''child_agent'', JString child),
               (lit ''capability'', JString cap),
               (lit ''params'', params_json ps)])"

section \<open>Sample values\<close>

text \<open>Concrete values the witnesses of the development evaluate.\<close>

definition prm :: "string \<Rightarrow> string \<Rightarrow> cap_param" where
  "prm k v = \<lparr>p_key = lit k, p_value = lit v\<rparr>"

definition sample_grant :: "string \<Rightarrow> string \<Rightarrow> string \<Rightarrow> cap_param list \<Rightarrow> grant" where
  "sample_grant i who cap ps =
     \<lparr>g_id = lit i, g_grantee = lit who, g_capability = lit cap, g_params = ps, g_ttl = Persistent,
      g_issuer = Admin, g_provenance = Requested, g_status = Active, g_created_at = 0,
      g_expires_at = None\<rparr>"

definition sample_draft :: "string \<Rightarrow> cap_param list \<Rightarrow> grant_draft" where
  "sample_draft cap ps = \<lparr>d_capability = lit cap, d_params = ps, d_ttl = Persistent\<rparr>"

end
