(* ===== verification/GrantIndex.thy ===== *)
theory GrantIndex
  imports GrantData
begin

text \<open>
  \<open>cap-grant/src/sqlite.rs\<close>: the durable index of grants, table \<open>grant_index\<close>. A row holds the text
  columns of the code; the table maps primary keys to rows. The database engine is outside the
  repository: a statement here has the documented effect of its SQL, and every call may instead fail
  as a whole. Which calls fail is the script \<open>sq_faults\<close> of the index (its head is the next call,
  \<open>True\<close> for a failing one, and calls beyond its end succeed), so a theorem quantified over the script
  covers every pattern of failures. The table is taken to exist, as \<open>ensure_schema\<close> leaves it.

  \<open>serde_json\<close> (the record \<open>serde\<close>) and \<open>chrono\<close> are parameters; \<open>codec_ok\<close> states the round trips
  the code relies on.
\<close>

section \<open>Definitions\<close>

record serde =
  ser_params :: "cap_param list \<Rightarrow> rstr option"
  de_params :: "rstr \<Rightarrow> cap_param list option"

record row =
  w_id :: rstr
  w_grantee :: rstr
  w_capability :: rstr
  w_params_json :: rstr
  w_ttl_type :: rstr
  w_ttl_value :: "rstr option"
  w_issuer_type :: rstr
  w_issuer_ref :: "rstr option"
  w_provenance_type :: rstr
  w_provenance_ref :: "rstr option"
  w_status :: rstr
  w_created_at :: rstr
  w_expires_at :: "rstr option"

record sqlite =
  sq_rows :: "(rstr, row) hmap"
  sq_faults :: "bool list"

text \<open>The next call of the script: whether it fails, and the index afterwards.\<close>

definition next_fault :: "sqlite \<Rightarrow> bool" where
  "next_fault db = (case sq_faults db of [] \<Rightarrow> False | b # _ \<Rightarrow> b)"

definition after_call :: "sqlite \<Rightarrow> sqlite" where
  "after_call db = db\<lparr>sq_faults := tl (sq_faults db)\<rparr>"

subsection \<open>Columns\<close>

fun encode_ttl :: "chrono \<Rightarrow> grant_ttl \<Rightarrow> rstr \<times> rstr option" where
  "encode_ttl ch Once = (lit ''once'', None)"
| "encode_ttl ch Lifecycle = (lit ''lifecycle'', None)"
| "encode_ttl ch Persistent = (lit ''persistent'', None)"
| "encode_ttl ch (Duration ms) = (lit ''duration'', Some (u64_to_string ms))"
| "encode_ttl ch (Until t) = (lit ''until'', Some (to_rfc3339 ch t))"

fun encode_issuer :: "grant_issuer \<Rightarrow> rstr \<times> rstr option" where
  "encode_issuer Config = (lit ''config'', None)"
| "encode_issuer (Parent i) = (lit ''parent'', Some i)"
| "encode_issuer (Resolver c) = (lit ''resolver'', Some c)"
| "encode_issuer Admin = (lit ''admin'', None)"

fun encode_provenance :: "grant_provenance \<Rightarrow> rstr \<times> rstr option" where
  "encode_provenance StaticConfig = (lit ''static-config'', None)"
| "encode_provenance (Delegated i) = (lit ''delegated'', Some i)"
| "encode_provenance Requested = (lit ''requested'', None)"
| "encode_provenance (Preset n) = (lit ''preset'', Some n)"

definition parse_dt :: "chrono \<Rightarrow> rstr \<Rightarrow> instant result" where
  "parse_dt ch s =
     (case parse_rfc3339 ch s of Some t \<Rightarrow> Inr t | None \<Rightarrow> Inl (InvalidConfig ''rfc3339 parse''))"

text \<open>\<open>v.ok_or_else(..)\<close>.\<close>

definition ok_or :: "'a option \<Rightarrow> cap_grant_error \<Rightarrow> 'a result" where
  "ok_or v e = (case v of Some x \<Rightarrow> Inr x | None \<Rightarrow> Inl e)"

definition decode_ttl :: "chrono \<Rightarrow> rstr \<Rightarrow> rstr option \<Rightarrow> grant_ttl result" where
  "decode_ttl ch t v =
     (if t = lit ''once'' then Inr Once
      else if t = lit ''lifecycle'' then Inr Lifecycle
      else if t = lit ''persistent'' then Inr Persistent
      else if t = lit ''duration'' then
        rbind (ok_or v (InvalidConfig ''duration ttl_value missing'')) (\<lambda>s.
        rbind (ok_or (parse_u64 s) (InvalidConfig ''duration parse'')) (\<lambda>ms. Inr (Duration ms)))
      else if t = lit ''until'' then
        rbind (ok_or v (InvalidConfig ''until ttl_value missing'')) (\<lambda>s.
        rbind (parse_dt ch s) (\<lambda>i. Inr (Until i)))
      else Inl (InvalidConfig ''unknown ttl_type''))"

definition decode_issuer :: "rstr \<Rightarrow> rstr option \<Rightarrow> grant_issuer result" where
  "decode_issuer t v =
     (if t = lit ''config'' then Inr Config
      else if t = lit ''parent'' then
        rbind (ok_or v (InvalidConfig ''parent issuer_ref missing'')) (\<lambda>s. Inr (Parent s))
      else if t = lit ''resolver'' then
        rbind (ok_or v (InvalidConfig ''resolver issuer_ref missing'')) (\<lambda>s. Inr (Resolver s))
      else if t = lit ''admin'' then Inr Admin
      else Inl (InvalidConfig ''unknown issuer_type''))"

definition decode_provenance :: "rstr \<Rightarrow> rstr option \<Rightarrow> grant_provenance result" where
  "decode_provenance t v =
     (if t = lit ''static-config'' then Inr StaticConfig
      else if t = lit ''delegated'' then
        rbind (ok_or v (InvalidConfig ''delegated provenance_ref missing'')) (\<lambda>s. Inr (Delegated s))
      else if t = lit ''requested'' then Inr Requested
      else if t = lit ''preset'' then
        rbind (ok_or v (InvalidConfig ''preset provenance_ref missing'')) (\<lambda>s. Inr (Preset s))
      else Inl (InvalidConfig ''unknown provenance_type''))"

definition decode_status :: "rstr \<Rightarrow> grant_status result" where
  "decode_status s =
     (if s = lit ''active'' then Inr Active
      else if s = lit ''consumed'' then Inr Consumed
      else if s = lit ''expired'' then Inr Expired
      else if s = lit ''revoked'' then Inr Revoked
      else Inl (InvalidConfig ''unknown status''))"

subsection \<open>Statements\<close>

text \<open>The values \<open>execute_upsert_grant\<close> binds, and the statement: on a conflict of the primary key every
  column but \<open>created_at\<close> is replaced.\<close>

definition encode_row :: "chrono \<Rightarrow> grant \<Rightarrow> rstr \<Rightarrow> row" where
  "encode_row ch g pj =
     \<lparr>w_id = g_id g, w_grantee = g_grantee g, w_capability = g_capability g, w_params_json = pj,
      w_ttl_type = fst (encode_ttl ch (g_ttl g)), w_ttl_value = snd (encode_ttl ch (g_ttl g)),
      w_issuer_type = fst (encode_issuer (g_issuer g)), w_issuer_ref = snd (encode_issuer (g_issuer g)),
      w_provenance_type = fst (encode_provenance (g_provenance g)),
      w_provenance_ref = snd (encode_provenance (g_provenance g)),
      w_status = status_as_str (g_status g), w_created_at = to_rfc3339 ch (g_created_at g),
      w_expires_at = map_option (to_rfc3339 ch) (g_expires_at g)\<rparr>"

definition execute_upsert_grant ::
    "chrono \<Rightarrow> serde \<Rightarrow> (rstr, row) hmap \<Rightarrow> grant \<Rightarrow> (rstr, row) hmap result" where
  "execute_upsert_grant ch sd rows g =
     (case ser_params sd (g_params g) of
        None \<Rightarrow> Inl (InvalidConfig ''params encode'')
      | Some pj \<Rightarrow>
          (let new = encode_row ch g pj in
           Inr (AList.update (g_id g)
             (case map_of rows (g_id g) of
                None \<Rightarrow> new
              | Some old \<Rightarrow> new\<lparr>w_created_at := w_created_at old\<rparr>) rows)))"

definition ensure_schema :: "sqlite \<Rightarrow> unit result \<times> sqlite" where
  "ensure_schema db = (if next_fault db then Inl Db else Inr (), after_call db)"

definition upsert_grant :: "chrono \<Rightarrow> serde \<Rightarrow> sqlite \<Rightarrow> grant \<Rightarrow> unit result \<times> sqlite" where
  "upsert_grant ch sd db g =
     (if next_fault db then (Inl Db, after_call db)
      else case execute_upsert_grant ch sd (sq_rows db) g of
        Inl e \<Rightarrow> (Inl e, after_call db)
      | Inr rows \<Rightarrow> (Inr (), (after_call db)\<lparr>sq_rows := rows\<rparr>))"

text \<open>\<open>UPDATE grant_index SET status = ?1 WHERE id = ?2\<close>.\<close>

definition execute_update_status :: "(rstr, row) hmap \<Rightarrow> rstr \<Rightarrow> grant_status \<Rightarrow> (rstr, row) hmap" where
  "execute_update_status rows i st = AList.map_entry i (\<lambda>r. r\<lparr>w_status := status_as_str st\<rparr>) rows"

definition update_status :: "sqlite \<Rightarrow> rstr \<Rightarrow> grant_status \<Rightarrow> unit result \<times> sqlite" where
  "update_status db i st =
     (if next_fault db then (Inl Db, after_call db)
      else if map_of (sq_rows db) i = None then (Inl (NotFound i), after_call db)
      else (Inr (), (after_call db)\<lparr>sq_rows := execute_update_status (sq_rows db) i st\<rparr>))"

fun upsert_all :: "chrono \<Rightarrow> serde \<Rightarrow> (rstr, row) hmap \<Rightarrow> grant list \<Rightarrow> (rstr, row) hmap result" where
  "upsert_all ch sd rows [] = Inr rows"
| "upsert_all ch sd rows (g # gs) =
     rbind (execute_upsert_grant ch sd rows g) (\<lambda>rows'. upsert_all ch sd rows' gs)"

text \<open>One transaction: an error before the commit leaves the table as it was.\<close>

definition apply_preset_atomic ::
    "chrono \<Rightarrow> serde \<Rightarrow> sqlite \<Rightarrow> rstr list \<Rightarrow> grant list \<Rightarrow> unit result \<times> sqlite" where
  "apply_preset_atomic ch sd db revoked created =
     (if next_fault db then (Inl Db, after_call db)
      else case upsert_all ch sd
             (foldl (\<lambda>rows i. execute_update_status rows i Revoked) (sq_rows db) revoked) created of
        Inl e \<Rightarrow> (Inl e, after_call db)
      | Inr rows \<Rightarrow> (Inr (), (after_call db)\<lparr>sq_rows := rows\<rparr>))"

definition decode_row :: "chrono \<Rightarrow> serde \<Rightarrow> row \<Rightarrow> grant result" where
  "decode_row ch sd r =
     rbind (ok_or (de_params sd (w_params_json r)) (InvalidConfig ''params decode'')) (\<lambda>ps.
     rbind (decode_ttl ch (w_ttl_type r) (w_ttl_value r)) (\<lambda>ttl.
     rbind (decode_issuer (w_issuer_type r) (w_issuer_ref r)) (\<lambda>iss.
     rbind (decode_provenance (w_provenance_type r) (w_provenance_ref r)) (\<lambda>prov.
     rbind (decode_status (w_status r)) (\<lambda>st.
     rbind (parse_dt ch (w_created_at r)) (\<lambda>created.
     rbind (case w_expires_at r of None \<Rightarrow> Inr None
            | Some s \<Rightarrow> rbind (parse_dt ch s) (\<lambda>t. Inr (Some t))) (\<lambda>expires.
       Inr \<lparr>g_id = w_id r, g_grantee = w_grantee r, g_capability = w_capability r, g_params = ps,
            g_ttl = ttl, g_issuer = iss, g_provenance = prov, g_status = st,
            g_created_at = created, g_expires_at = expires\<rparr>)))))))"

text \<open>\<open>SELECT .. WHERE status = 'active' ORDER BY created_at, id\<close>; the first row that does not decode
  fails the recovery.\<close>

definition recover_active_grants :: "chrono \<Rightarrow> serde \<Rightarrow> sqlite \<Rightarrow> grant list result \<times> sqlite" where
  "recover_active_grants ch sd db =
     (if next_fault db then Inl Db
      else collect_results (decode_row ch sd)
        (sort_key w_created_at (sort_key w_id
          (filter (\<lambda>r. w_status r = lit ''active'') (map snd (sq_rows db))))),
      after_call db)"

section \<open>What the index relies on\<close>

text \<open>Parameters serialise and parse back, and so do the instants of the years 0 to 9999: RFC 3339 has four digits for the year, and
  the text \<open>chrono\<close> prints for a later instant, such as \<open>MAX_UTC\<close>, does not parse.\<close>

definition codec_ok :: "chrono \<Rightarrow> serde \<Rightarrow> bool" where
  "codec_ok ch sd \<longleftrightarrow>
     (\<forall>ps. \<exists>s. ser_params sd ps = Some s \<and> de_params sd s = Some ps)
     \<and> (\<forall>t. four_digit_year ch t \<longrightarrow> parse_rfc3339 ch (to_rfc3339 ch t) = Some t)"

fun ttl_in_range :: "grant_ttl \<Rightarrow> bool" where
  "ttl_in_range (Duration ms) = (ms \<le> u64_max)"
| "ttl_in_range _ = True"

text \<open>A grant whose row can be read back: a \<open>Duration\<close> is a \<open>u64\<close> and every instant has a year of four digits.\<close>

fun ttl_storable :: "chrono \<Rightarrow> grant_ttl \<Rightarrow> bool" where
  "ttl_storable ch (Until t) = four_digit_year ch t"
| "ttl_storable ch t = ttl_in_range t"

definition storable :: "chrono \<Rightarrow> grant \<Rightarrow> bool" where
  "storable ch g \<longleftrightarrow> ttl_storable ch (g_ttl g) \<and> four_digit_year ch (g_created_at g)
     \<and> (case g_expires_at g of None \<Rightarrow> True | Some t \<Rightarrow> four_digit_year ch t)"

section \<open>Lemmas\<close>

lemma decode_encode_ttl:
  "codec_ok ch sd \<Longrightarrow> ttl_storable ch t \<Longrightarrow>
     decode_ttl ch (fst (encode_ttl ch t)) (snd (encode_ttl ch t)) = Inr t"
  by (cases t) (simp_all add: decode_ttl_def ok_or_def parse_u64_to_string parse_dt_def codec_ok_def)

lemma decode_encode_issuer: "decode_issuer (fst (encode_issuer i)) (snd (encode_issuer i)) = Inr i"
  by (cases i) (simp_all add: decode_issuer_def ok_or_def)

lemma decode_encode_provenance:
  "decode_provenance (fst (encode_provenance p)) (snd (encode_provenance p)) = Inr p"
  by (cases p) (simp_all add: decode_provenance_def ok_or_def)

lemma decode_status_as_str [simp]: "decode_status (status_as_str s) = Inr s"
  by (cases s) (simp_all add: decode_status_def)

lemma storable_status [simp]: "storable ch (g\<lparr>g_status := st\<rparr>) = storable ch g"
  by (simp add: storable_def)

lemma parse_dt_to [simp]: "codec_ok ch sd \<Longrightarrow> four_digit_year ch t \<Longrightarrow> parse_dt ch (to_rfc3339 ch t) = Inr t"
  by (simp add: parse_dt_def codec_ok_def)

lemma status_active_iff [simp]:
  "status_as_str s = lit ''active'' \<longleftrightarrow> s = Active" "lit ''active'' = status_as_str s \<longleftrightarrow> s = Active"
  by (cases s; simp)+

lemma decode_encode_row:
  assumes "codec_ok ch sd" and "storable ch g" and "ser_params sd (g_params g) = Some pj"
  shows "decode_row ch sd (encode_row ch g pj) = Inr g"
proof -
  have "de_params sd pj = Some (g_params g)"
    using assms by (metis codec_ok_def option.inject)
  moreover have "ttl_storable ch (g_ttl g)" using assms(2) by (simp add: storable_def)
  ultimately show ?thesis
    using assms(1,2)
    by (cases "g_expires_at g")
      (simp_all add: storable_def decode_row_def encode_row_def ok_or_def decode_encode_ttl [OF assms(1)]
        decode_encode_issuer decode_encode_provenance)
qed

lemma decode_row_id: "decode_row ch sd r = Inr g \<Longrightarrow> g_id g = w_id r"
  by (auto simp: decode_row_def rbind_Inr_iff)

lemma decode_row_created:
  assumes "decode_row ch sd r = Inr g" and "parse_dt ch c = Inr t"
  shows "decode_row ch sd (r\<lparr>w_created_at := c\<rparr>) = Inr (g\<lparr>g_created_at := t\<rparr>)"
  using assms by (auto simp: decode_row_def rbind_Inr_iff)

lemma decode_row_status:
  "decode_row ch sd r = Inr g \<Longrightarrow>
     decode_row ch sd (r\<lparr>w_status := status_as_str st\<rparr>) = Inr (g\<lparr>g_status := st\<rparr>)"
  by (auto simp: decode_row_def rbind_Inr_iff)

lemma decode_row_created_at:
  "decode_row ch sd r = Inr g \<Longrightarrow> parse_dt ch (w_created_at r) = Inr (g_created_at g)"
  by (auto simp: decode_row_def rbind_Inr_iff)

lemma decode_status_Inr: "decode_status s = Inr st \<Longrightarrow> s = status_as_str st"
  by (auto simp: decode_status_def split: if_splits)

lemma decode_row_active:
  "decode_row ch sd r = Inr g \<Longrightarrow> w_status r = lit ''active'' \<longleftrightarrow> g_status g = Active"
  by (auto simp: decode_row_def rbind_Inr_iff dest!: decode_status_Inr)

section \<open>The index as a map of grants\<close>

text \<open>What a write means for the map from ids to grants: an upsert keeps the first creation time.\<close>

definition abs_put :: "(rstr \<Rightarrow> grant option) \<Rightarrow> grant \<Rightarrow> rstr \<Rightarrow> grant option" where
  "abs_put m g = m(g_id g \<mapsto> (case m (g_id g) of None \<Rightarrow> g
                                | Some old \<Rightarrow> g\<lparr>g_created_at := g_created_at old\<rparr>))"

definition abs_status :: "(rstr \<Rightarrow> grant option) \<Rightarrow> rstr \<Rightarrow> grant_status \<Rightarrow> rstr \<Rightarrow> grant option" where
  "abs_status m i st = m(i := map_option (\<lambda>g. g\<lparr>g_status := st\<rparr>) (m i))"

datatype index_op = Put grant | SetStatus rstr grant_status | ApplyPreset "rstr list" "grant list"

fun abs_op :: "(rstr \<Rightarrow> grant option) \<Rightarrow> index_op \<Rightarrow> rstr \<Rightarrow> grant option" where
  "abs_op m (Put g) = abs_put m g"
| "abs_op m (SetStatus i st) = abs_status m i st"
| "abs_op m (ApplyPreset is gs) = foldl abs_put (foldl (\<lambda>m i. abs_status m i Revoked) m is) gs"

fun op_storable :: "chrono \<Rightarrow> index_op \<Rightarrow> bool" where
  "op_storable ch (Put g) = storable ch g"
| "op_storable ch (SetStatus _ _) = True"
| "op_storable ch (ApplyPreset _ gs) = list_all (storable ch) gs"

text \<open>The contract of a durable index: one call, a well-formedness invariant, the map it stands for,
  and the recovery read. A call that returns an error changes nothing.\<close>

locale durable_index =
  fixes env_ok :: "'env \<Rightarrow> bool"
    and op_ok :: "'env \<Rightarrow> index_op \<Rightarrow> bool"
    and wf :: "'env \<Rightarrow> 'db \<Rightarrow> bool"
    and view :: "'env \<Rightarrow> 'db \<Rightarrow> rstr \<Rightarrow> grant option"
    and apply_op :: "'env \<Rightarrow> 'db \<Rightarrow> index_op \<Rightarrow> unit result \<times> 'db"
    and recover :: "'env \<Rightarrow> 'db \<Rightarrow> grant list result \<times> 'db"
  assumes op_wf: "env_ok e \<Longrightarrow> wf e db \<Longrightarrow> op_ok e x \<Longrightarrow> wf e (snd (apply_op e db x))"
    and op_view: "env_ok e \<Longrightarrow> wf e db \<Longrightarrow> op_ok e x \<Longrightarrow>
          view e (snd (apply_op e db x)) =
            (if is_ok (fst (apply_op e db x)) then abs_op (view e db) x else view e db)"
    and recover_view: "env_ok e \<Longrightarrow> wf e db \<Longrightarrow> fst (recover e db) = Inr gs \<Longrightarrow>
          set gs = {g. view e db (g_id g) = Some g \<and> g_status g = Active} \<and> distinct (map g_id gs)"
begin

fun run_ops :: "'env \<Rightarrow> 'db \<Rightarrow> index_op list \<Rightarrow> unit result list \<times> 'db" where
  "run_ops e db [] = ([], db)"
| "run_ops e db (x # xs) =
     (let (r, db') = apply_op e db x; (rs, db'') = run_ops e db' xs in (r # rs, db''))"

text \<open>The calls of a history that succeeded, in order.\<close>

definition committed :: "'env \<Rightarrow> 'db \<Rightarrow> index_op list \<Rightarrow> index_op list" where
  "committed e db xs = map fst (filter (\<lambda>(x, r). is_ok r) (zip xs (fst (run_ops e db xs))))"

lemma run_ops_refines:
  assumes "env_ok e" and "wf e db" and "list_all (op_ok e) xs"
  shows "wf e (snd (run_ops e db xs))
     \<and> view e (snd (run_ops e db xs)) = foldl abs_op (view e db) (committed e db xs)"
  using assms
proof (induction xs arbitrary: db)
  case (Cons x xs)
  let ?db' = "snd (apply_op e db x)"
  have "wf e ?db'" using Cons.prems by (auto intro: op_wf)
  with Cons have "wf e (snd (run_ops e ?db' xs))
     \<and> view e (snd (run_ops e ?db' xs)) = foldl abs_op (view e ?db') (committed e ?db' xs)"
    by auto
  moreover have "view e ?db' = (if is_ok (fst (apply_op e db x)) then abs_op (view e db) x else view e db)"
    using Cons.prems by (intro op_view) auto
  ultimately show ?case by (simp add: committed_def split_beta)
qed (simp add: committed_def)

lemma recover_after_ops:
  assumes "env_ok e" and "wf e db" and "list_all (op_ok e) xs"
    and "fst (recover e (snd (run_ops e db xs))) = Inr gs"
  shows "set gs = {g. foldl abs_op (view e db) (committed e db xs) (g_id g) = Some g
                      \<and> g_status g = Active} \<and> distinct (map g_id gs)"
  using run_ops_refines [OF assms(1-3)] recover_view [OF assms(1) _ assms(4)] by simp

end

subsection \<open>SQLite provides it\<close>

definition row_view :: "chrono \<Rightarrow> serde \<Rightarrow> (rstr, row) hmap \<Rightarrow> rstr \<Rightarrow> grant option" where
  "row_view ch sd rows i =
     (case map_of rows i of None \<Rightarrow> None
      | Some r \<Rightarrow> (case decode_row ch sd r of Inl _ \<Rightarrow> None | Inr g \<Rightarrow> Some g))"

definition rows_wf :: "chrono \<Rightarrow> serde \<Rightarrow> (rstr, row) hmap \<Rightarrow> bool" where
  "rows_wf ch sd rows \<longleftrightarrow> distinct (map fst rows)
     \<and> (\<forall>i r. map_of rows i = Some r \<longrightarrow> w_id r = i \<and> is_ok (decode_row ch sd r))"

fun sqlite_op :: "chrono \<times> serde \<Rightarrow> sqlite \<Rightarrow> index_op \<Rightarrow> unit result \<times> sqlite" where
  "sqlite_op e db (Put g) = upsert_grant (fst e) (snd e) db g"
| "sqlite_op e db (SetStatus i st) = update_status db i st"
| "sqlite_op e db (ApplyPreset is gs) = apply_preset_atomic (fst e) (snd e) db is gs"

lemma after_call_rows [simp]: "sq_rows (after_call db) = sq_rows db"
  by (simp add: after_call_def)

lemma row_view_iff:
  "rows_wf ch sd rows \<Longrightarrow> row_view ch sd rows i = Some g \<longleftrightarrow>
     (\<exists>r. map_of rows i = Some r \<and> decode_row ch sd r = Inr g)"
  by (auto simp: row_view_def split: option.splits sum.splits)

lemma rows_wf_entry:
  assumes "rows_wf ch sd rows" and "map_of rows i = Some r"
  obtains g where "decode_row ch sd r = Inr g" and "w_id r = i" and "g_id g = i"
proof -
  have "w_id r = i" and "is_ok (decode_row ch sd r)" using assms by (simp_all add: rows_wf_def)
  then show thesis using that decode_row_id by (cases "decode_row ch sd r") auto
qed

lemma rows_wfI:
  assumes "distinct (map fst rows)"
    and "\<And>i r. map_of rows i = Some r \<Longrightarrow> w_id r = i \<and> (\<exists>g. decode_row ch sd r = Inr g)"
  shows "rows_wf ch sd rows"
  unfolding rows_wf_def using assms by (metis isl_def sum.distinct(1))

lemma status_rows:
  assumes "rows_wf ch sd rows"
  shows "rows_wf ch sd (execute_update_status rows i st)
     \<and> row_view ch sd (execute_update_status rows i st) = abs_status (row_view ch sd rows) i st"
proof
  show "rows_wf ch sd (execute_update_status rows i st)"
  proof (rule rows_wfI)
    show "distinct (map fst (execute_update_status rows i st))"
      using assms by (simp add: rows_wf_def execute_update_status_def)
    fix j r assume "map_of (execute_update_status rows i st) j = Some r"
    then obtain r0 where r0: "map_of rows j = Some r0"
      and r: "r = r0 \<or> r = r0\<lparr>w_status := status_as_str st\<rparr>"
      by (auto simp: execute_update_status_def map_of_map_entry split: if_splits)
    from assms r0 obtain g where "decode_row ch sd r0 = Inr g" "w_id r0 = j"
      by (rule rows_wf_entry)
    with r show "w_id r = j \<and> (\<exists>g. decode_row ch sd r = Inr g)"
      using decode_row_status by auto
  qed
  show "row_view ch sd (execute_update_status rows i st) = abs_status (row_view ch sd rows) i st"
  proof
    fix j
    show "row_view ch sd (execute_update_status rows i st) j = abs_status (row_view ch sd rows) i st j"
    proof (cases "map_of rows i")
      case (Some r)
      from assms Some obtain g where "decode_row ch sd r = Inr g" by (rule rows_wf_entry)
      with Some show ?thesis
        by (auto simp: row_view_def abs_status_def execute_update_status_def map_of_map_entry
            decode_row_status)
    qed (auto simp: row_view_def abs_status_def execute_update_status_def map_of_map_entry)
  qed
qed

lemma upsert_rows:
  assumes "codec_ok ch sd" and "rows_wf ch sd rows" and "storable ch g"
    and "execute_upsert_grant ch sd rows g = Inr rows'"
  shows "rows_wf ch sd rows' \<and> row_view ch sd rows' = abs_put (row_view ch sd rows) g"
proof -
  from assms(4) obtain pj where pj: "ser_params sd (g_params g) = Some pj"
    by (auto simp: execute_upsert_grant_def split: option.splits)
  define r where "r = (case map_of rows (g_id g) of None \<Rightarrow> encode_row ch g pj
    | Some old \<Rightarrow> (encode_row ch g pj)\<lparr>w_created_at := w_created_at old\<rparr>)"
  have rows': "rows' = AList.update (g_id g) r rows"
    using assms(4) pj by (simp add: execute_upsert_grant_def r_def Let_def)
  have enc: "decode_row ch sd (encode_row ch g pj) = Inr g"
    by (rule decode_encode_row) (use assms pj in auto)
  have id: "w_id r = g_id g"
    by (simp add: r_def encode_row_def split: option.splits)
  have dec: "decode_row ch sd r = Inr (case row_view ch sd rows (g_id g) of None \<Rightarrow> g
                                | Some old \<Rightarrow> g\<lparr>g_created_at := g_created_at old\<rparr>)"
  proof (cases "map_of rows (g_id g)")
    case None
    then show ?thesis using enc by (simp add: r_def row_view_def)
  next
    case (Some old)
    from assms(2) Some obtain h where h: "decode_row ch sd old = Inr h" by (rule rows_wf_entry)
    then have "decode_row ch sd r = Inr (g\<lparr>g_created_at := g_created_at h\<rparr>)"
      using Some decode_row_created [OF enc decode_row_created_at] by (simp add: r_def)
    with Some h show ?thesis by (simp add: row_view_def)
  qed
  have "rows_wf ch sd rows'"
  proof (rule rows_wfI)
    show "distinct (map fst rows')"
      using assms(2) by (simp add: rows' rows_wf_def distinct_update)
    fix j q assume "map_of rows' j = Some q"
    then have "j = g_id g \<and> q = r \<or> map_of rows j = Some q"
      by (auto simp: rows' split: if_splits)
    then show "w_id q = j \<and> (\<exists>g. decode_row ch sd q = Inr g)"
      using id dec rows_wf_entry [OF assms(2)] by blast
  qed
  moreover have "row_view ch sd rows' = abs_put (row_view ch sd rows) g"
  proof
    fix j show "row_view ch sd rows' j = abs_put (row_view ch sd rows) g j"
      using dec by (simp add: rows' row_view_def [of ch sd "AList.update (g_id g) r rows"]
          abs_put_def) (simp add: row_view_def)
  qed
  ultimately show ?thesis by blast
qed

lemma status_fold_rows:
  assumes "rows_wf ch sd rows"
  shows "rows_wf ch sd (foldl (\<lambda>rows i. execute_update_status rows i st) rows is)
     \<and> row_view ch sd (foldl (\<lambda>rows i. execute_update_status rows i st) rows is)
        = foldl (\<lambda>m i. abs_status m i st) (row_view ch sd rows) is"
  using assms by (induction "is" arbitrary: rows) (simp_all add: status_rows)

lemma upsert_all_rows:
  assumes "codec_ok ch sd" and "rows_wf ch sd rows" and "list_all (storable ch) gs"
    and "upsert_all ch sd rows gs = Inr rows'"
  shows "rows_wf ch sd rows' \<and> row_view ch sd rows' = foldl abs_put (row_view ch sd rows) gs"
  using assms
proof (induction gs arbitrary: rows)
  case (Cons g gs)
  then obtain r where r: "execute_upsert_grant ch sd rows g = Inr r" and rest: "upsert_all ch sd r gs = Inr rows'"
    by (auto simp: rbind_Inr_iff)
  have "rows_wf ch sd r \<and> row_view ch sd r = abs_put (row_view ch sd rows) g"
    using Cons.prems r by (intro upsert_rows) auto
  with Cons.IH [of r] Cons.prems rest show ?case by simp
qed simp

lemma sqlite_op_refines:
  assumes "codec_ok (fst e) (snd e)" and "rows_wf (fst e) (snd e) (sq_rows db)" and "op_storable (fst e) x"
  shows "rows_wf (fst e) (snd e) (sq_rows (snd (sqlite_op e db x)))
     \<and> row_view (fst e) (snd e) (sq_rows (snd (sqlite_op e db x))) =
         (if is_ok (fst (sqlite_op e db x)) then abs_op (row_view (fst e) (snd e) (sq_rows db)) x
          else row_view (fst e) (snd e) (sq_rows db))"
proof (cases x)
  case (Put g)
  with assms show ?thesis
    using upsert_rows [OF assms(1,2), of g]
    by (cases "execute_upsert_grant (fst e) (snd e) (sq_rows db) g") (simp_all add: upsert_grant_def)
next
  case (SetStatus i st)
  with assms status_rows [OF assms(2), of i st] show ?thesis
    by (simp add: update_status_def)
next
  case (ApplyPreset ids gs)
  let ?f = "foldl (\<lambda>rows i. execute_update_status rows i Revoked) (sq_rows db) ids"
  have f: "rows_wf (fst e) (snd e) ?f \<and> row_view (fst e) (snd e) ?f
      = foldl (\<lambda>m i. abs_status m i Revoked) (row_view (fst e) (snd e) (sq_rows db)) ids"
    using assms(2) by (rule status_fold_rows)
  show ?thesis
  proof (cases "upsert_all (fst e) (snd e) ?f gs")
    case (Inr rows)
    with assms ApplyPreset f upsert_all_rows [OF assms(1) _ _ Inr] show ?thesis
      by (simp add: apply_preset_atomic_def)
  qed (use assms ApplyPreset in \<open>simp add: apply_preset_atomic_def\<close>)
qed

lemma recover_rows:
  assumes wf: "rows_wf ch sd (sq_rows db)" and rec: "fst (recover_active_grants ch sd db) = Inr gs"
  shows "set gs = {g. row_view ch sd (sq_rows db) (g_id g) = Some g \<and> g_status g = Active}
     \<and> distinct (map g_id gs)"
proof -
  define rs where "rs = sort_key w_created_at (sort_key w_id
    (filter (\<lambda>r. w_status r = lit ''active'') (map snd (sq_rows db))))"
  have all: "list_all2 (\<lambda>r g. decode_row ch sd r = Inr g) rs gs"
    using rec by (auto simp: recover_active_grants_def rs_def collect_results_Inr_iff split: if_splits)
  have dist: "distinct (map fst (sq_rows db))" using wf by (simp add: rows_wf_def)
  have key: "fst e = w_id (snd e)" if "e \<in> set (sq_rows db)" for e
    using that dist wf by (metis map_of_is_SomeI prod.collapse rows_wf_def)
  have rs: "r \<in> set rs \<longleftrightarrow> map_of (sq_rows db) (w_id r) = Some r \<and> w_status r = lit ''active''" for r
  proof -
    have "r \<in> snd ` set (sq_rows db) \<longleftrightarrow> (w_id r, r) \<in> set (sq_rows db)"
    proof
      assume "r \<in> snd ` set (sq_rows db)"
      then obtain a where a: "(a, r) \<in> set (sq_rows db)" by auto
      with key [OF a] show "(w_id r, r) \<in> set (sq_rows db)" by simp
    qed (metis image_eqI snd_conv)
    with dist show ?thesis by (simp add: rs_def)
  qed
  have "set gs = {g. \<exists>r\<in>set rs. decode_row ch sd r = Inr g}"
    using all by (induction rule: list_all2_induct) auto
  also have "\<dots> = {g. row_view ch sd (sq_rows db) (g_id g) = Some g \<and> g_status g = Active}"
  proof (intro set_eqI, simp only: mem_Collect_eq Bex_def rs row_view_iff [OF wf], intro iffI)
    fix g assume "\<exists>r. (map_of (sq_rows db) (w_id r) = Some r \<and> w_status r = lit ''active'')
                     \<and> decode_row ch sd r = Inr g"
    then show "(\<exists>r. map_of (sq_rows db) (g_id g) = Some r \<and> decode_row ch sd r = Inr g)
               \<and> g_status g = Active"
      using decode_row_id decode_row_active by metis
  next
    fix g assume "(\<exists>r. map_of (sq_rows db) (g_id g) = Some r \<and> decode_row ch sd r = Inr g)
               \<and> g_status g = Active"
    then obtain r where "map_of (sq_rows db) (g_id g) = Some r" "decode_row ch sd r = Inr g"
      "g_status g = Active" by blast
    then show "\<exists>r. (map_of (sq_rows db) (w_id r) = Some r \<and> w_status r = lit ''active'')
                     \<and> decode_row ch sd r = Inr g"
      using decode_row_id [of ch sd r g] decode_row_active [of ch sd r g] by auto
  qed
  finally have 1: "set gs = {g. row_view ch sd (sq_rows db) (g_id g) = Some g \<and> g_status g = Active}" .
  have "map w_id (map snd (sq_rows db)) = map fst (sq_rows db)"
    using key by simp
  then have "distinct (map w_id (filter (\<lambda>r. w_status r = lit ''active'') (map snd (sq_rows db))))"
    using dist by (metis distinct_map_filter)
  then have "distinct (map w_id rs)"
    by (simp add: rs_def distinct_map)
  moreover have "map g_id gs = map w_id rs"
    using all by (induction rule: list_all2_induct) (auto dest: decode_row_id)
  ultimately show ?thesis using 1 by simp
qed

lemma collect_results_total: "\<forall>x\<in>set xs. is_ok (f x) \<Longrightarrow> \<exists>ys. collect_results f xs = Inr ys"
  by (induction xs) (auto simp: rbind_def split: sum.splits)

text \<open>A recovery fails only if the read of the table fails.\<close>

lemma recover_total:
  assumes "rows_wf ch sd (sq_rows db)" and "fst (recover_active_grants ch sd db) = Inl e"
  shows "e = Db \<and> next_fault db"
proof (rule ccontr)
  assume "\<not> (e = Db \<and> next_fault db)"
  with assms(2) have nf: "\<not> next_fault db" by (auto simp: recover_active_grants_def)
  have "is_ok (decode_row ch sd r)" if "r \<in> snd ` set (sq_rows db)" for r
    using that assms(1) by (auto simp: rows_wf_def)
  then have "\<exists>gs. collect_results (decode_row ch sd) (sort_key w_created_at (sort_key w_id
      (filter (\<lambda>r. w_status r = lit ''active'') (map snd (sq_rows db))))) = Inr gs"
    by (intro collect_results_total) auto
  with assms(2) nf show False by (auto simp: recover_active_grants_def)
qed

interpretation gi: durable_index "\<lambda>e. codec_ok (fst e) (snd e)" "\<lambda>e. op_storable (fst e)"
  "\<lambda>e db. rows_wf (fst e) (snd e) (sq_rows db)" "\<lambda>e db. row_view (fst e) (snd e) (sq_rows db)"
  sqlite_op "\<lambda>e db. recover_active_grants (fst e) (snd e) db"
proof unfold_locales
qed (use sqlite_op_refines recover_rows in auto)

section \<open>A concrete codec\<close>

text \<open>An instance of the parameters for the witnesses: lists are length-prefixed, instants are a single
  character.\<close>

fun sample_ser :: "cap_param list \<Rightarrow> rstr" where
  "sample_ser [] = []"
| "sample_ser (p # ps) =
     length (p_key p) # p_key p @ length (p_value p) # p_value p @ sample_ser ps"

function sample_de :: "rstr \<Rightarrow> cap_param list" where
  "sample_de [] = []"
| "sample_de (n # s) =
     \<lparr>p_key = take n s, p_value = take (hd (drop n s)) (tl (drop n s))\<rparr>
       # sample_de (drop (hd (drop n s)) (tl (drop n s)))"
  by pat_completeness auto
termination by (relation "measure length") auto

lemma sample_de_ser [simp]: "sample_de (sample_ser ps) = ps"
  by (induction ps) simp_all

definition sample_serde :: serde where
  "sample_serde = \<lparr>ser_params = Some \<circ> sample_ser, de_params = Some \<circ> sample_de\<rparr>"

definition sample_chrono :: chrono where
  "sample_chrono = \<lparr>checked_add_ms = \<lambda>t d. if t + d \<le> 1000000 then Some (t + d) else None,
     MAX_UTC = 1000000,
     to_rfc3339 = \<lambda>t. [if 0 \<le> t then 2 * nat t else 2 * nat (- t) + 1],
     parse_rfc3339 = \<lambda>s. case s of [n] \<Rightarrow> if n < 1000000 then Some (if even n then int (n div 2) else - int (n div 2)) else None | _ \<Rightarrow> None,
     four_digit_year = \<lambda>t. 0 \<le> t \<and> t < 500000\<rparr>"

lemma sample_serde_params: "ser_params sample_serde ps = Some (sample_ser ps)"
  by (simp add: sample_serde_def)

lemma sample_codec_ok [simp]: "codec_ok sample_chrono sample_serde"
  by (auto simp: codec_ok_def sample_chrono_def sample_serde_def)

section \<open>Properties\<close>

lemma sample_grant_id: "g_id (sample_grant i a c ps) = lit i" and sample_grant_params: "g_params (sample_grant i a c ps) = ps"
  by (simp_all add: sample_grant_def)

lemma sample_grant_storable [simp]: "storable sample_chrono (sample_grant i a c ps)"
  by (simp add: sample_grant_def storable_def sample_chrono_def)

text \<open>
  The row codec is lossless: what \<open>execute_upsert_grant\<close> writes for a fresh id is what recovery
  reads back, for every lifetime, issuer, provenance and status, with the parameters, creation time
  and deadline.
\<close>

theorem upsert_roundtrip:
  assumes "codec_ok ch sd" and "storable ch g" and "map_of rows (g_id g) = None"
    and "execute_upsert_grant ch sd rows g = Inr rows'"
  shows "\<exists>r. map_of rows' (g_id g) = Some r \<and> decode_row ch sd r = Inr g"
proof -
  from assms(4) obtain pj where pj: "ser_params sd (g_params g) = Some pj"
    by (auto simp: execute_upsert_grant_def split: option.splits)
  with assms have "map_of rows' (g_id g) = Some (encode_row ch g pj)"
    by (auto simp: execute_upsert_grant_def Let_def)
  with decode_encode_row [OF assms(1,2) pj] show ?thesis by blast
qed

theorem upsert_roundtrip_example:
  "\<exists>r. map_of (AList.update (lit ''g'') (encode_row sample_chrono
          (sample_grant ''g'' ''a'' ''fs'' [prm ''read-paths'' ''/w''])
          (sample_ser [prm ''read-paths'' ''/w''])) []) (lit ''g'') = Some r
      \<and> decode_row sample_chrono sample_serde r = Inr (sample_grant ''g'' ''a'' ''fs'' [prm ''read-paths'' ''/w''])"
  unfolding sample_grant_id [symmetric, of "''g''" "''a''" "''fs''" "[prm ''read-paths'' ''/w'']"]
  by (rule upsert_roundtrip [where rows = "[]"])
    (simp_all add: execute_upsert_grant_def sample_serde_params Let_def sample_grant_id sample_grant_params del: sample_ser.simps)

text \<open>
  C30. The durable index refines a map of grants under every pattern of database failures: after any
  sequence of upserts, status updates and preset transactions of grants whose instants have years of four digits, the rows
  stand for the map obtained by applying exactly the calls that reported success, so a failed call (a preset transaction
  included) leaves no trace. A recovery then fails only if its read of the table fails, and otherwise returns the active grants of
  that map, each once, and nothing else.
\<close>

theorem index_refines_map:
  assumes "codec_ok ch sd" and "rows_wf ch sd (sq_rows db)" and "list_all (op_storable ch) xs"
  shows "row_view ch sd (sq_rows (snd (gi.run_ops (ch, sd) db xs)))
           = foldl abs_op (row_view ch sd (sq_rows db)) (gi.committed (ch, sd) db xs)
     \<and> (case fst (recover_active_grants ch sd (snd (gi.run_ops (ch, sd) db xs))) of
          Inl e \<Rightarrow> e = Db \<and> next_fault (snd (gi.run_ops (ch, sd) db xs))
        | Inr gs \<Rightarrow>
            set gs = {g. foldl abs_op (row_view ch sd (sq_rows db)) (gi.committed (ch, sd) db xs) (g_id g) = Some g
                       \<and> g_status g = Active}
            \<and> distinct (map g_id gs))"
proof
  have wf: "rows_wf ch sd (sq_rows (snd (gi.run_ops (ch, sd) db xs)))"
    and "row_view ch sd (sq_rows (snd (gi.run_ops (ch, sd) db xs)))
           = foldl abs_op (row_view ch sd (sq_rows db)) (gi.committed (ch, sd) db xs)"
    using assms gi.run_ops_refines [of "(ch, sd)" db xs] by simp_all
  then show "row_view ch sd (sq_rows (snd (gi.run_ops (ch, sd) db xs)))
           = foldl abs_op (row_view ch sd (sq_rows db)) (gi.committed (ch, sd) db xs)" by simp
  show "case fst (recover_active_grants ch sd (snd (gi.run_ops (ch, sd) db xs))) of
          Inl e \<Rightarrow> e = Db \<and> next_fault (snd (gi.run_ops (ch, sd) db xs))
        | Inr gs \<Rightarrow>
            set gs = {g. foldl abs_op (row_view ch sd (sq_rows db)) (gi.committed (ch, sd) db xs) (g_id g) = Some g
                       \<and> g_status g = Active}
            \<and> distinct (map g_id gs)"
    using recover_total [OF wf] gi.recover_after_ops [of "(ch, sd)" db xs] assms by (auto split: sum.split)
qed

text \<open>A history with a failing call between two successful ones.\<close>

theorem index_refines_map_witness:
  "\<exists>gs. set gs = {g. foldl abs_op Map.empty [Put (sample_grant ''g'' ''a'' ''web'' []), SetStatus (lit ''g'') Revoked]
                      (g_id g) = Some g \<and> g_status g = Active} \<and> distinct (map g_id gs)"
proof -
  let ?db = "\<lparr>sq_rows = [], sq_faults = [False, True, False]\<rparr>"
  let ?g = "sample_grant ''g'' ''a'' ''web'' []"
  let ?xs = "[Put ?g, SetStatus (lit ''g'') Consumed, SetStatus (lit ''g'') Revoked]"
  let ?gs = "[] :: grant list"
  have eval: "gi.run_ops (sample_chrono, sample_serde) ?db ?xs =
      ([Inr (), Inl Db, Inr ()],
       \<lparr>sq_rows = [(lit ''g'', (encode_row sample_chrono ?g [])\<lparr>w_status := lit ''revoked''\<rparr>)], sq_faults = []\<rparr>)"
    by (simp add: upsert_grant_def execute_upsert_grant_def sample_grant_def sample_serde_def Let_def
        next_fault_def after_call_def update_status_def execute_update_status_def)
  have "rows_wf sample_chrono sample_serde (sq_rows ?db)" by (simp add: rows_wf_def)
  moreover have "fst (recover_active_grants sample_chrono sample_serde
      (snd (gi.run_ops (sample_chrono, sample_serde) ?db ?xs))) = Inr ?gs"
    unfolding eval by (simp add: recover_active_grants_def next_fault_def)
  moreover have "list_all (op_storable sample_chrono) ?xs" by simp
  moreover have "gi.committed (sample_chrono, sample_serde) ?db ?xs = [Put ?g, SetStatus (lit ''g'') Revoked]"
    unfolding gi.committed_def eval by simp
  moreover have "row_view sample_chrono sample_serde (sq_rows ?db) = Map.empty"
    by (simp add: row_view_def fun_eq_iff)
  ultimately show ?thesis
    using index_refines_map [OF sample_codec_ok, of ?db ?xs] by (intro exI [of _ ?gs]) simp
qed

end
