(* ===== verification/Cascade.thy ===== *)
theory Cascade
  imports GrantData
begin

text \<open>
  \<open>cap-grant/src/cascade.rs\<close>: the bounded depth-first walk over the provenance index that a cascade
  of revocations uses. The stack of the code (a \<open>Vec\<close> popped at its end) is a list whose head is the
  top. The loop ends because each iteration either pops a visited id or adds one to \<open>out\<close>, which
  never grows beyond \<open>MAX_CASCADE_SIZE\<close>.
\<close>

section \<open>Definitions\<close>

definition MAX_CASCADE_SIZE :: nat where "MAX_CASCADE_SIZE = 10000"

record cascade_result =
  cr_root_id :: rstr
  cr_revoked :: "rstr list"
  cr_cascade_count :: nat

text \<open>Pushing the sorted children leaves the greatest one on top.\<close>

definition push_children :: "(rstr, rstr list) hmap \<Rightarrow> rstr \<Rightarrow> rstr list \<Rightarrow> rstr list" where
  "push_children prov i stack = rev (sort (index_get prov i)) @ stack"

function walk_loop :: "(rstr, rstr list) hmap \<Rightarrow> rstr list \<Rightarrow> rstr list \<Rightarrow> rstr list \<Rightarrow> rstr list" where
  "walk_loop prov [] visited out = out"
| "walk_loop prov (i # stack) visited out =
     (if length out \<ge> MAX_CASCADE_SIZE then out
      else if i \<in> set visited then walk_loop prov stack visited out
      else walk_loop prov (push_children prov i stack) (i # visited) (out @ [i]))"
  by pat_completeness auto
termination
  by (relation "measures [\<lambda>(prov, stack, visited, out). MAX_CASCADE_SIZE - length out,
                          \<lambda>(prov, stack, visited, out). length stack]") auto

definition walk_descendants :: "(rstr, rstr list) hmap \<Rightarrow> rstr \<Rightarrow> rstr list" where
  "walk_descendants prov root = walk_loop prov (push_children prov root []) [] []"

section \<open>The walk against reachability\<close>

definition edges :: "('a, 'a list) hmap \<Rightarrow> ('a \<times> 'a) set" where
  "edges prov = {(a, b). b \<in> set (index_get prov a)}"

definition descendants :: "('a, 'a list) hmap \<Rightarrow> 'a \<Rightarrow> 'a set" where
  "descendants prov root = {d. (root, d) \<in> (edges prov)\<^sup>+}"

lemma set_push_children [simp]:
  "set (push_children prov i stack) = (edges prov) `` {i} \<union> set stack"
  by (auto simp: push_children_def edges_def)

lemma finite_edges: "finite (edges prov)"
proof -
  have "edges prov \<subseteq> (\<Union>e\<in>set prov. {fst e} \<times> set (snd e))"
  proof
    fix e assume "e \<in> edges prov"
    then obtain vs where "map_of prov (fst e) = Some vs" "snd e \<in> set vs"
      by (cases "map_of prov (fst e)") (auto simp: edges_def index_get_def split: prod.splits)
    then show "e \<in> (\<Union>e\<in>set prov. {fst e} \<times> set (snd e))"
      by (intro UN_I [of "(fst e, vs)"]) (simp_all add: map_of_SomeD mem_Times_iff)
  qed
  then show ?thesis by (rule finite_subset) auto
qed

lemma finite_descendants: "finite (descendants prov root)"
proof -
  have "descendants prov root \<subseteq> snd ` (edges prov)"
    by (force simp: descendants_def dest: tranclD2)
  then show ?thesis using finite_edges by (blast intro: finite_subset)
qed

lemma descendants_step: "(root, a) \<in> edges prov \<Longrightarrow> a \<in> descendants prov root"
  by (auto simp: descendants_def)

lemma descendants_trans:
  "a \<in> descendants prov root \<Longrightarrow> (a, b) \<in> edges prov \<Longrightarrow> b \<in> descendants prov root"
  by (auto simp: descendants_def)

lemma descendants_least:
  assumes "(edges prov) `` {root} \<subseteq> S" and "(edges prov) `` S \<subseteq> S"
  shows "descendants prov root \<subseteq> S"
proof
  fix d assume "d \<in> descendants prov root"
  then have "(root, d) \<in> (edges prov)\<^sup>+" by (simp add: descendants_def)
  then show "d \<in> S"
    by (induction rule: trancl_induct) (use assms in blast)+
qed

text \<open>Every id the loop outputs is a descendant, once, and within the cap.\<close>

lemma walk_loop_sound:
  assumes "set visited = set out" and "distinct out" and "length out \<le> MAX_CASCADE_SIZE"
    and "set stack \<union> set out \<subseteq> D" and "(edges prov) `` D \<subseteq> D"
  shows "distinct (walk_loop prov stack visited out)
     \<and> length (walk_loop prov stack visited out) \<le> MAX_CASCADE_SIZE
     \<and> set (walk_loop prov stack visited out) \<subseteq> D"
  using assms
proof (induction prov stack visited out rule: walk_loop.induct)
  case (2 prov i stack visited out)
  then have i: "i \<in> D" and succ: "(edges prov) `` {i} \<subseteq> D" by auto
  consider "MAX_CASCADE_SIZE \<le> length out" | "\<not> MAX_CASCADE_SIZE \<le> length out" "i \<in> set visited"
    | "\<not> MAX_CASCADE_SIZE \<le> length out" "i \<notin> set visited" by blast
  then show ?case
  proof cases
    case 1
    with "2.prems" show ?thesis by simp
  next
    case 2
    with "2.prems" "2.IH"(1) show ?thesis by simp
  next
    case 3
    with "2.prems" succ have
      "distinct (walk_loop prov (push_children prov i stack) (i # visited) (out @ [i]))
       \<and> length (walk_loop prov (push_children prov i stack) (i # visited) (out @ [i])) \<le> MAX_CASCADE_SIZE
       \<and> set (walk_loop prov (push_children prov i stack) (i # visited) (out @ [i])) \<subseteq> D"
      by (intro "2.IH"(2)) auto
    with 3 show ?thesis by simp
  qed
qed simp

text \<open>Unless the cap stops it, the loop returns a set closed under children.\<close>

lemma walk_loop_closed:
  assumes "set visited = set out" and "(edges prov) `` set out \<subseteq> set out \<union> set stack"
  shows "MAX_CASCADE_SIZE \<le> length (walk_loop prov stack visited out)
     \<or> set out \<union> set stack \<subseteq> set (walk_loop prov stack visited out)
       \<and> (edges prov) `` set (walk_loop prov stack visited out)
           \<subseteq> set (walk_loop prov stack visited out)"
  using assms
proof (induction prov stack visited out rule: walk_loop.induct)
  case (2 prov i stack visited out)
  show ?case
  proof (cases "MAX_CASCADE_SIZE \<le> length out")
    case False
    show ?thesis
    proof (cases "i \<in> set visited")
      case True
      with False 2 show ?thesis by (simp add: insert_absorb)
    next
      case new: False
      have "(edges prov) `` set (out @ [i]) \<subseteq> set (out @ [i]) \<union> set (push_children prov i stack)"
        using "2.prems" by auto
      with False new 2 show ?thesis by auto
    qed
  qed simp
qed simp

lemma walk_descendants_sound:
  "distinct (walk_descendants prov root)"
  "length (walk_descendants prov root) \<le> MAX_CASCADE_SIZE"
  "set (walk_descendants prov root) \<subseteq> descendants prov root"
proof -
  have "(edges prov) `` {root} \<subseteq> descendants prov root"
    and "(edges prov) `` descendants prov root \<subseteq> descendants prov root"
    using descendants_step descendants_trans by fast+
  then show "distinct (walk_descendants prov root)"
    "length (walk_descendants prov root) \<le> MAX_CASCADE_SIZE"
    "set (walk_descendants prov root) \<subseteq> descendants prov root"
    using walk_loop_sound [of "[]" "[]" "push_children prov root []" "descendants prov root" prov]
    by (simp_all add: walk_descendants_def)
qed

lemma walk_descendants_complete:
  assumes "card (descendants prov root) \<le> MAX_CASCADE_SIZE"
  shows "set (walk_descendants prov root) = descendants prov root"
proof -
  let ?w = "walk_descendants prov root"
  have sub: "set ?w \<subseteq> descendants prov root" by (rule walk_descendants_sound)
  have "MAX_CASCADE_SIZE \<le> length ?w
        \<or> (edges prov) `` {root} \<subseteq> set ?w \<and> (edges prov) `` set ?w \<subseteq> set ?w"
    using walk_loop_closed [of "[]" "[]" prov "push_children prov root []"]
    by (auto simp: walk_descendants_def)
  then show ?thesis
  proof
    assume "MAX_CASCADE_SIZE \<le> length ?w"
    with assms have "card (descendants prov root) \<le> card (set ?w)"
      by (simp add: distinct_card [OF walk_descendants_sound(1)])
    with sub finite_descendants show ?thesis by (intro card_seteq)
  next
    assume "(edges prov) `` {root} \<subseteq> set ?w \<and> (edges prov) `` set ?w \<subseteq> set ?w"
    then have "descendants prov root \<subseteq> set ?w" by (intro descendants_least) simp_all
    with sub show ?thesis by simp
  qed
qed

lemma walk_descendants_length:
  "length (walk_descendants prov root) = min MAX_CASCADE_SIZE (card (descendants prov root))"
proof (cases "card (descendants prov root) \<le> MAX_CASCADE_SIZE")
  case True
  then show ?thesis
    using walk_descendants_complete [OF True] distinct_card [OF walk_descendants_sound(1), of prov root] by simp
next
  case False
  let ?w = "walk_descendants prov root"
  have "length ?w = card (set ?w)" by (rule distinct_card [symmetric]) (rule walk_descendants_sound)
  moreover have "MAX_CASCADE_SIZE \<le> length ?w
        \<or> (edges prov) `` {root} \<subseteq> set ?w \<and> (edges prov) `` set ?w \<subseteq> set ?w"
    using walk_loop_closed [of "[]" "[]" prov "push_children prov root []"]
    by (auto simp: walk_descendants_def)
  then have "MAX_CASCADE_SIZE \<le> length ?w"
  proof
    assume "(edges prov) `` {root} \<subseteq> set ?w \<and> (edges prov) `` set ?w \<subseteq> set ?w"
    then have "descendants prov root \<subseteq> set ?w" by (intro descendants_least) simp_all
    then have "card (descendants prov root) \<le> card (set ?w)" by (rule card_mono [rotated]) simp
    with False \<open>length ?w = card (set ?w)\<close> show ?thesis by simp
  qed
  ultimately show ?thesis using walk_descendants_sound(2) [of prov root] False by simp
qed

lemma not_self_descendant_mem: "i \<in> set (walk_descendants prov root) \<Longrightarrow> i \<in> descendants prov root"
  using walk_descendants_sound(3) by blast

section \<open>Property\<close>

text \<open>
  The cascade walk visits every descendant exactly once: the ids it returns are distinct, at
  most \<open>MAX_CASCADE_SIZE\<close>, all of them descendants of the root in the provenance index (whatever
  cycles the index has), and all the descendants there are when these number no more than the cap.
\<close>

theorem walk_descendants_exact:
  "distinct (walk_descendants prov root)
   \<and> length (walk_descendants prov root) \<le> MAX_CASCADE_SIZE
   \<and> set (walk_descendants prov root) \<subseteq> descendants prov root
   \<and> (card (descendants prov root) \<le> MAX_CASCADE_SIZE
        \<longrightarrow> set (walk_descendants prov root) = descendants prov root)"
  using walk_descendants_sound walk_descendants_complete by blast

theorem walk_descendants_exact_example:
  "set (walk_descendants [(lit ''a'', [lit ''b'']), (lit ''b'', [lit ''a''])] (lit ''a''))
     = descendants [(lit ''a'', [lit ''b'']), (lit ''b'', [lit ''a''])] (lit ''a'')"
proof -
  let ?p = "[(lit ''a'', [lit ''b'']), (lit ''b'', [lit ''a''])]"
  have "descendants ?p (lit ''a'') \<subseteq> {lit ''a'', lit ''b''}"
    by (rule descendants_least) (auto simp: edges_def index_get_def split: if_splits)
  then have "card (descendants ?p (lit ''a'')) \<le> card {lit ''a'', lit ''b''}"
    by (rule card_mono [rotated]) simp
  then have "card (descendants ?p (lit ''a'')) \<le> MAX_CASCADE_SIZE"
    by (simp add: MAX_CASCADE_SIZE_def)
  then show ?thesis using walk_descendants_exact [of ?p "lit ''a''"] by blast
qed

end
