(* ===== verification/McpPatterns.thy ===== *)
theory McpPatterns
  imports GrantData
begin

text \<open>
  \<open>shared-types/src/mcp.rs\<close>: the grammar of tool patterns (a literal, or a non-empty prefix with
  one trailing \<open>*\<close>), their matching and subsumption, the names a call can carry, and the scope one
  \<open>mcp\<close> grant reaches.
\<close>

section \<open>Definitions\<close>

definition MAX_TOOL_PATTERN_BYTES :: nat where "MAX_TOOL_PATTERN_BYTES = 256"
definition MAX_SERVER_ID_BYTES :: nat where "MAX_SERVER_ID_BYTES = 128"
definition MAX_REQUEST_TOKEN_BYTES :: nat where "MAX_REQUEST_TOKEN_BYTES = 4096"

definition SERVER_WIDE_TOOL :: rstr where "SERVER_WIDE_TOOL = lit ''*''"

definition GLOB_CHARS :: "rchar list" where "GLOB_CHARS = lit ''*?[]{}''"

definition contains_glob :: "rstr \<Rightarrow> bool" where
  "contains_glob s = list_ex (\<lambda>c. c \<in> set GLOB_CHARS) s"

datatype tool_pattern_error = Length | BareStar | Glob

datatype tool_pattern = Literal rstr | Prefix rstr

definition tool_pattern_parse :: "rstr \<Rightarrow> tool_pattern_error + tool_pattern" where
  "tool_pattern_parse raw =
     (if raw = [] \<or> str_len raw > MAX_TOOL_PATTERN_BYTES then Inl Length
      else case strip_suffix [star] raw of
        Some p \<Rightarrow>
          (if p = [] then Inl BareStar
           else if contains_glob p then Inl Glob
           else Inr (Prefix p))
      | None \<Rightarrow> (if contains_glob raw then Inl Glob else Inr (Literal raw)))"

text \<open>The characters a name may not hold: controls and code points that render invisibly.\<close>

definition is_spoofing_char :: "rchar \<Rightarrow> bool" where
  "is_spoofing_char c \<longleftrightarrow>
     c \<le> 0x1F \<or> (0x7F \<le> c \<and> c \<le> 0x9F) \<or> c = 0x00AD \<or> c = 0x034F \<or> c = 0x115F \<or> c = 0x1160
     \<or> c = 0x180E \<or> (0x200B \<le> c \<and> c \<le> 0x200F) \<or> (0x202A \<le> c \<and> c \<le> 0x202E)
     \<or> (0x2060 \<le> c \<and> c \<le> 0x2064) \<or> (0x2066 \<le> c \<and> c \<le> 0x2069) \<or> c = 0x3164
     \<or> (0xFE00 \<le> c \<and> c \<le> 0xFE0F) \<or> c = 0xFEFF \<or> (0xE0000 \<le> c \<and> c \<le> 0xE007F)"

definition is_tool_name_safe :: "rstr \<Rightarrow> bool" where
  "is_tool_name_safe name \<longleftrightarrow> \<not> list_ex is_spoofing_char name"

fun tool_pattern_matches :: "tool_pattern \<Rightarrow> rstr \<Rightarrow> bool" where
  "tool_pattern_matches (Literal l) name \<longleftrightarrow> is_tool_name_safe name \<and> name = l"
| "tool_pattern_matches (Prefix p) name \<longleftrightarrow> is_tool_name_safe name \<and> p \<noteq> [] \<and> prefix p name"

fun tool_pattern_covers :: "tool_pattern \<Rightarrow> tool_pattern \<Rightarrow> bool" where
  "tool_pattern_covers (Literal p) (Literal c) \<longleftrightarrow> p = c"
| "tool_pattern_covers (Literal p) (Prefix c) \<longleftrightarrow> False"
| "tool_pattern_covers (Prefix p) (Literal c) \<longleftrightarrow> p \<noteq> [] \<and> prefix p c"
| "tool_pattern_covers (Prefix p) (Prefix c) \<longleftrightarrow> p \<noteq> [] \<and> prefix p c"

fun tool_pattern_display :: "tool_pattern \<Rightarrow> rstr" where
  "tool_pattern_display (Literal l) = l"
| "tool_pattern_display (Prefix p) = p @ [star]"

definition is_request_token :: "rstr \<Rightarrow> bool" where
  "is_request_token name \<longleftrightarrow>
     name \<noteq> [] \<and> str_len name \<le> MAX_REQUEST_TOKEN_BYTES \<and> comma \<notin> set name \<and> trim name = name"

definition is_valid_server_id :: "rstr \<Rightarrow> bool" where
  "is_valid_server_id s \<longleftrightarrow>
     s \<noteq> [] \<and> str_len s \<le> MAX_SERVER_ID_BYTES \<and> \<not> prefix [46] s
     \<and> list_all (\<lambda>b. is_ascii_alphanumeric b \<or> b = 46 \<or> b = 95 \<or> b = 45) s"

definition is_callable_name :: "rstr \<Rightarrow> bool" where
  "is_callable_name name \<longleftrightarrow> is_request_token name \<and> is_tool_name_safe name"

record mcp_grant_scope =
  servers :: "rstr list option"
  tool_patterns :: "rstr list option"

definition scope_unrestricted :: mcp_grant_scope where
  "scope_unrestricted = \<lparr>servers = None, tool_patterns = None\<rparr>"

definition covers_server :: "mcp_grant_scope \<Rightarrow> rstr \<Rightarrow> bool" where
  "covers_server sc server \<longleftrightarrow>
     is_callable_name server
     \<and> (case servers sc of None \<Rightarrow> True | Some ids \<Rightarrow> server \<in> set ids)"

text \<open>The loop over the patterns: a malformed one makes the answer \<open>false\<close> at once.\<close>

fun covers_tool_loop :: "bool \<Rightarrow> rstr list \<Rightarrow> rstr \<Rightarrow> bool" where
  "covers_tool_loop matched [] tool = matched"
| "covers_tool_loop matched (raw # raws) tool =
     (case tool_pattern_parse raw of
        Inr p \<Rightarrow> covers_tool_loop (matched \<or> tool_pattern_matches p tool) raws tool
      | Inl _ \<Rightarrow> False)"

definition covers_tool :: "mcp_grant_scope \<Rightarrow> rstr \<Rightarrow> rstr \<Rightarrow> bool" where
  "covers_tool sc server tool =
     (if \<not> covers_server sc server \<or> \<not> is_callable_name tool then False
      else case tool_patterns sc of
        None \<Rightarrow> True
      | Some pats \<Rightarrow> covers_tool_loop False pats tool)"

definition covers_server_wide :: "mcp_grant_scope \<Rightarrow> rstr \<Rightarrow> bool" where
  "covers_server_wide sc server \<longleftrightarrow> covers_server sc server \<and> tool_patterns sc = None"

section \<open>Lemmas\<close>

lemma contains_glob_iff: "contains_glob s \<longleftrightarrow> (\<exists>c\<in>set s. c \<in> set GLOB_CHARS)"
  by (auto simp: contains_glob_def list_ex_iff)

lemma star_glob: "star \<in> set GLOB_CHARS"
  by (simp add: GLOB_CHARS_def lit_def)

lemma parse_Literal_iff:
  "tool_pattern_parse raw = Inr (Literal l) \<longleftrightarrow>
     raw = l \<and> l \<noteq> [] \<and> str_len l \<le> MAX_TOOL_PATTERN_BYTES \<and> \<not> contains_glob l"
proof -
  have "\<not> contains_glob l \<Longrightarrow> strip_suffix [star] l = None"
    using star_glob by (auto simp: strip_suffix_None_iff suffix_def contains_glob_iff)
  then show ?thesis
    by (auto simp: tool_pattern_parse_def split: option.splits if_splits)
qed

lemma parse_Prefix_iff:
  "tool_pattern_parse raw = Inr (Prefix p) \<longleftrightarrow>
     raw = p @ [star] \<and> p \<noteq> [] \<and> str_len raw \<le> MAX_TOOL_PATTERN_BYTES \<and> \<not> contains_glob p"
  by (auto simp: tool_pattern_parse_def strip_suffix_Some_iff strip_suffix_None_iff suffix_def
      split: option.splits if_splits)

lemma covers_trans:
  "tool_pattern_covers a b \<Longrightarrow> tool_pattern_covers b c \<Longrightarrow> tool_pattern_covers a c"
  by (cases a; cases b; cases c) (auto intro: prefix_order.trans)

lemma covers_matches:
  "tool_pattern_covers p c \<Longrightarrow> tool_pattern_matches c name \<Longrightarrow> tool_pattern_matches p name"
  by (cases p; cases c) (auto intro: prefix_order.trans)

text \<open>The loop answers whether every pattern parses and one of them matches.\<close>

lemma covers_tool_loop_iff:
  "covers_tool_loop m pats tool \<longleftrightarrow>
     (\<forall>raw\<in>set pats. is_ok (tool_pattern_parse raw))
     \<and> (m \<or> (\<exists>raw\<in>set pats. \<exists>p. tool_pattern_parse raw = Inr p \<and> tool_pattern_matches p tool))"
proof (induction pats arbitrary: m)
  case (Cons raw pats)
  then show ?case by (cases "tool_pattern_parse raw") auto
qed simp

lemma covers_tool_iff:
  "covers_tool sc server tool \<longleftrightarrow>
     covers_server sc server \<and> is_callable_name tool
     \<and> (case tool_patterns sc of None \<Rightarrow> True
        | Some pats \<Rightarrow> covers_tool_loop False pats tool)"
  by (auto simp: covers_tool_def split: option.splits)

lemma star_name_matches_no_pattern:
  assumes "tool_pattern_parse raw = Inr p"
  shows "\<not> tool_pattern_matches p SERVER_WIDE_TOOL"
proof (cases p)
  case (Literal l)
  with assms have "\<not> contains_glob l" by (simp add: parse_Literal_iff)
  moreover have "contains_glob SERVER_WIDE_TOOL"
    by (simp add: contains_glob_iff SERVER_WIDE_TOOL_def lit_def GLOB_CHARS_def)
  ultimately show ?thesis using Literal by auto
next
  case (Prefix q)
  with assms have q: "q \<noteq> []" "\<not> contains_glob q" by (auto simp: parse_Prefix_iff)
  then have "\<not> prefix q SERVER_WIDE_TOOL"
    using star_glob
    by (auto simp: SERVER_WIDE_TOOL_def lit_def contains_glob_iff prefix_Cons)
  with Prefix show ?thesis by simp
qed

lemma server_wide_callable: "is_callable_name SERVER_WIDE_TOOL"
  by (simp add: is_callable_name_def is_request_token_def SERVER_WIDE_TOOL_def lit_def utf8_len_def
      MAX_REQUEST_TOKEN_BYTES_def trim_def trim_end_def trim_start_def is_whitespace_def
      is_tool_name_safe_def is_spoofing_char_def)

lemma safe_append: "is_tool_name_safe (a @ b) \<longleftrightarrow> is_tool_name_safe a \<and> is_tool_name_safe b"
  by (auto simp: is_tool_name_safe_def)

section \<open>Properties\<close>

text \<open>
  Pattern subsumption is exactly containment of the matched names: for two well-formed patterns
  (the child's text free of spoofing characters), \<open>covers\<close> holds if and only if every tool name the
  child matches is matched by the parent.
\<close>

theorem tool_pattern_covers_exact:
  assumes p: "tool_pattern_parse praw = Inr p"
    and c: "tool_pattern_parse craw = Inr c"
    and safe: "is_tool_name_safe craw"
  shows "tool_pattern_covers p c \<longleftrightarrow>
           (\<forall>name. tool_pattern_matches c name \<longrightarrow> tool_pattern_matches p name)"
proof
  assume "tool_pattern_covers p c"
  then show "\<forall>name. tool_pattern_matches c name \<longrightarrow> tool_pattern_matches p name"
    by (blast intro: covers_matches)
next
  assume all: "\<forall>name. tool_pattern_matches c name \<longrightarrow> tool_pattern_matches p name"
  show "tool_pattern_covers p c"
  proof (cases c)
    case (Literal l)
    with c safe have "tool_pattern_matches c l" by (auto simp: parse_Literal_iff)
    with all have "tool_pattern_matches p l" by blast
    with Literal show ?thesis by (cases p) auto
  next
    case (Prefix q)
    with c safe have q: "q \<noteq> []" "is_tool_name_safe q"
      by (auto simp: parse_Prefix_iff safe_append)
    then have m: "tool_pattern_matches c q" "tool_pattern_matches c (q @ [97])"
      using Prefix by (auto simp: safe_append) (simp add: is_tool_name_safe_def is_spoofing_char_def)
    with all have "tool_pattern_matches p q" "tool_pattern_matches p (q @ [97])" by blast+
    with Prefix show ?thesis by (cases p) auto
  qed
qed

theorem tool_pattern_covers_exact_example:
  "tool_pattern_covers (Prefix (lit ''get_'')) (Literal (lit ''get_issue'')) \<longleftrightarrow>
     (\<forall>name. tool_pattern_matches (Literal (lit ''get_issue'')) name \<longrightarrow>
             tool_pattern_matches (Prefix (lit ''get_'')) name)"
  by (rule tool_pattern_covers_exact [where praw = "lit ''get_*''" and craw = "lit ''get_issue''"])
    (simp_all add: parse_Prefix_iff parse_Literal_iff lit_def utf8_len_def
      MAX_TOOL_PATTERN_BYTES_def contains_glob_def GLOB_CHARS_def is_tool_name_safe_def
      is_spoofing_char_def)

text \<open>
  The text of a pattern round-trips: what parses prints back to the parsed text, and printing a
  pattern that came from a parse and parsing again gives the same pattern.
\<close>

theorem tool_pattern_roundtrip:
  assumes "tool_pattern_parse raw = Inr p"
  shows "tool_pattern_display p = raw \<and> tool_pattern_parse (tool_pattern_display p) = Inr p"
  using assms by (cases p) (auto simp: parse_Literal_iff parse_Prefix_iff)

text \<open>
  A server-wide surface (prompts and resources) is reached exactly by the scopes that cover the
  literal tool \<open>*\<close>, that is, by those that leave the tool axis unrestricted: no set of patterns,
  however wide, reaches it.
\<close>

theorem server_wide_iff_star_tool:
  "covers_server_wide sc server \<longleftrightarrow> covers_tool sc server SERVER_WIDE_TOOL"
  using star_name_matches_no_pattern server_wide_callable
  by (auto simp: covers_server_wide_def covers_tool_iff covers_tool_loop_iff split: option.splits)

end
