(* ===== verification/SubsetRules.thy ===== *)
theory SubsetRules
  imports McpPatterns
begin

text \<open>
  \<open>cap-grant/src/subset.rs\<close>: the parameter-level subset rules, one helper per capability family,
  the issuance check \<open>SubsetValidatorImpl::validate\<close> (may \<open>parent\<close> issue \<open>child\<close>?) and the
  call-time check \<open>covers_request\<close> (does the held grant cover this call?).
\<close>

section \<open>Definitions\<close>

definition get_param :: "cap_param list \<Rightarrow> rstr \<Rightarrow> rstr option" where
  "get_param ps k = map_option p_value (List.find (\<lambda>p. p_key p = k) ps)"

definition parse_csv :: "rstr \<Rightarrow> rstr list" where
  "parse_csv v = filter (\<lambda>s. s \<noteq> []) (map trim (split_on comma v))"

subsection \<open>fs: path prefixes\<close>

definition path_has_traversal :: "rstr \<Rightarrow> bool" where
  "path_has_traversal path =
     list_ex (\<lambda>seg. seg = lit ''..'' \<or> seg = lit ''.'') (split_on slash path)"

definition path_prefix_subset :: "rstr \<Rightarrow> rstr \<Rightarrow> bool" where
  "path_prefix_subset parent child =
     (if parent = child then True
      else let parent_norm = trim_end_matches slash parent in
        if parent_norm = [] then True
        else prefix (parent_norm @ [slash]) child \<or> child = parent_norm)"

definition check_fs_key :: "cap_param list \<Rightarrow> cap_param list \<Rightarrow> rstr \<Rightarrow> unit result" where
  "check_fs_key parent child k =
     (case (get_param parent k, get_param child k) of
        (None, None) \<Rightarrow> Inr ()
      | (None, Some _) \<Rightarrow> Inl (SubsetViolation ''fs: child requests but parent has no key'')
      | (Some _, None) \<Rightarrow> Inr ()
      | (Some p_csv, Some c_csv) \<Rightarrow>
          (let parent_paths = parse_csv p_csv; child_paths = parse_csv c_csv in
           if list_ex path_has_traversal (parent_paths @ child_paths)
           then Inl (SubsetViolation ''fs: traversal segment'')
           else if list_all (\<lambda>cp. list_ex (\<lambda>pp. path_prefix_subset pp cp) parent_paths) child_paths
           then Inr ()
           else Inl (SubsetViolation ''fs: child path not under any parent path'')))"

definition check_fs :: "cap_param list \<Rightarrow> cap_param list \<Rightarrow> unit result" where
  "check_fs parent child =
     rbind (check_fs_key parent child (lit ''read-paths''))
       (\<lambda>_. check_fs_key parent child (lit ''write-paths''))"

subsection \<open>http: URL patterns\<close>

definition validate_url_pattern_form :: "rstr \<Rightarrow> unit result" where
  "validate_url_pattern_form s =
     (if list_ex (\<lambda>b. b < 0x20 \<or> b = 0x7F \<or> b > 0x7F) s
      then Inl (SubsetViolation ''url: non-printable or non-ASCII byte'')
      else if star \<in> set s \<and> \<not> suffix [slash, star] s
      then Inl (SubsetViolation ''url: wildcard must terminate as slash star'')
      else if length (filter (\<lambda>c. c = star) s) > 1
      then Inl (SubsetViolation ''url: more than one wildcard'')
      else if 37 \<in> set s
      then Inl (SubsetViolation ''url: percent sign'')
      else case after_first (lit ''://'') s of
        Some post_scheme \<Rightarrow>
          (if contains_str [slash, slash] post_scheme
           then Inl (SubsetViolation ''url: double slash after the scheme'') else Inr ())
      | None \<Rightarrow>
          (if contains_str [slash, slash] s
           then Inl (SubsetViolation ''url: double slash'') else Inr ()))"

definition url_pattern_subset :: "rstr \<Rightarrow> rstr \<Rightarrow> unit result" where
  "url_pattern_subset parent child =
     rbind (validate_url_pattern_form parent) (\<lambda>_.
     rbind (validate_url_pattern_form child) (\<lambda>_.
       if parent = child then Inr ()
       else
         (case (strip_suffix [slash, star] parent, strip_suffix [slash, star] child) of
            (Some pp, Some cp) \<Rightarrow>
              (if cp = pp \<or> prefix (pp @ [slash]) cp then Inr ()
               else Inl (SubsetViolation ''http pattern not contained''))
          | (Some pp, None) \<Rightarrow>
              (if child = pp \<or> prefix (pp @ [slash]) child then Inr ()
               else Inl (SubsetViolation ''http pattern not contained''))
          | _ \<Rightarrow> Inl (SubsetViolation ''http pattern not contained''))))"

definition check_http :: "cap_param list \<Rightarrow> cap_param list \<Rightarrow> unit result" where
  "check_http parent child =
     (case (get_param parent (lit ''allowlist''), get_param child (lit ''allowlist'')) of
        (None, None) \<Rightarrow> Inr ()
      | (None, Some _) \<Rightarrow> Inl (SubsetViolation ''http.allowlist: parent has no allowlist'')
      | (Some _, None) \<Rightarrow> Inr ()
      | (Some p_csv, Some c_csv) \<Rightarrow>
          (let parent_pats = parse_csv p_csv; child_pats = parse_csv c_csv in
           rbind (collect_results validate_url_pattern_form parent_pats) (\<lambda>_.
           rbind (collect_results validate_url_pattern_form child_pats) (\<lambda>_.
             if list_all (\<lambda>cp. list_ex (\<lambda>pp. is_ok (url_pattern_subset pp cp)) parent_pats) child_pats
             then Inr ()
             else Inl (SubsetViolation ''http.allowlist: child pattern not contained'')))))"

subsection \<open>Sets, numbers and booleans\<close>

text \<open>Set subset on one key: the block that \<open>check_list_subset\<close>, \<open>check_messaging\<close>, \<open>check_llm\<close>
  and \<open>check_skills\<close> share.\<close>

definition check_set_key :: "cap_param list \<Rightarrow> cap_param list \<Rightarrow> rstr \<Rightarrow> unit result" where
  "check_set_key parent child k =
     (case (get_param parent k, get_param child k) of
        (Some p, Some c) \<Rightarrow>
          (if list_all (\<lambda>ct. ct \<in> set (parse_csv p)) (parse_csv c) then Inr ()
           else Inl (SubsetViolation ''child not in parent set''))
      | (None, Some _) \<Rightarrow> Inl (SubsetViolation ''child requests but parent has no key'')
      | _ \<Rightarrow> Inr ())"

fun check_list_subset :: "cap_param list \<Rightarrow> cap_param list \<Rightarrow> rstr list \<Rightarrow> unit result" where
  "check_list_subset parent child [] = Inr ()"
| "check_list_subset parent child (k # ks) =
     rbind (check_set_key parent child k) (\<lambda>_. check_list_subset parent child ks)"

definition check_numeric_le :: "cap_param list \<Rightarrow> cap_param list \<Rightarrow> rstr \<Rightarrow> unit result" where
  "check_numeric_le parent child k =
     (case (get_param parent k, get_param child k) of
        (Some p, Some c) \<Rightarrow>
          (case parse_u64 (trim p) of
             None \<Rightarrow> Inl (SubsetViolation ''parent not a number'')
           | Some pn \<Rightarrow>
               (case parse_u64 (trim c) of
                  None \<Rightarrow> Inl (SubsetViolation ''child not a number'')
                | Some cn \<Rightarrow>
                    (if cn > pn then Inl (SubsetViolation ''child exceeds parent'') else Inr ())))
      | (None, Some _) \<Rightarrow> Inl (SubsetViolation ''child requests but parent has no key'')
      | _ \<Rightarrow> Inr ())"

definition check_messaging :: "cap_param list \<Rightarrow> cap_param list \<Rightarrow> unit result" where
  "check_messaging parent child =
     rbind (check_set_key parent child (lit ''targets'')) (\<lambda>_.
     rbind (check_numeric_le parent child (lit ''max-fanout'')) (\<lambda>_.
       check_numeric_le parent child (lit ''max-depth'')))"

definition parse_bool :: "rstr \<Rightarrow> bool result" where
  "parse_bool s =
     (if trim s = lit ''true'' then Inr True
      else if trim s = lit ''false'' then Inr False
      else Inl (SubsetViolation ''not a boolean''))"

definition check_lifecycle_key :: "cap_param list \<Rightarrow> cap_param list \<Rightarrow> rstr \<Rightarrow> unit result" where
  "check_lifecycle_key parent child k =
     (case (get_param parent k, get_param child k) of
        (Some p, Some c) \<Rightarrow>
          rbind (parse_bool p) (\<lambda>pb. rbind (parse_bool c) (\<lambda>cb.
            if cb \<and> \<not> pb then Inl (SubsetViolation ''lifecycle: child=true exceeds parent=false'')
            else Inr ()))
      | (None, Some _) \<Rightarrow> Inl (SubsetViolation ''lifecycle: parent has no key'')
      | _ \<Rightarrow> Inr ())"

definition check_lifecycle :: "cap_param list \<Rightarrow> cap_param list \<Rightarrow> unit result" where
  "check_lifecycle parent child =
     rbind (check_lifecycle_key parent child (lit ''spawn-child''))
       (\<lambda>_. check_lifecycle_key parent child (lit ''spawn-sub''))"

definition check_llm :: "cap_param list \<Rightarrow> cap_param list \<Rightarrow> unit result" where
  "check_llm parent child =
     rbind (check_set_key parent child (lit ''models''))
       (\<lambda>_. check_numeric_le parent child (lit ''max-tokens-per-call''))"

definition check_skills :: "cap_param list \<Rightarrow> cap_param list \<Rightarrow> unit result" where
  "check_skills parent child =
     rbind (check_numeric_le parent child (lit ''max-active-skills''))
       (\<lambda>_. check_set_key parent child (lit ''allowed-actions''))"

subsection \<open>mcp: servers and tool patterns\<close>

definition MCP_KEYS :: "rstr list" where
  "MCP_KEYS = [lit ''servers'', lit ''tool-patterns'']"

definition reject_unknown_mcp_keys :: "cap_param list \<Rightarrow> unit result" where
  "reject_unknown_mcp_keys ps =
     (case List.find (\<lambda>p. p_key p \<notin> set MCP_KEYS) ps of
        Some _ \<Rightarrow> Inl (SubsetViolation ''mcp: not an mcp param'')
      | None \<Rightarrow> Inr ())"

definition parse_tool_pattern :: "rstr \<Rightarrow> tool_pattern result" where
  "parse_tool_pattern raw =
     (case tool_pattern_parse raw of
        Inl _ \<Rightarrow> Inl (SubsetViolation ''mcp.tool-patterns: malformed pattern'')
      | Inr p \<Rightarrow> Inr p)"

definition parse_tool_patterns :: "cap_param list \<Rightarrow> tool_pattern list option result" where
  "parse_tool_patterns ps =
     (case get_param ps (lit ''tool-patterns'') of
        None \<Rightarrow> Inr None
      | Some v \<Rightarrow> rbind (collect_results parse_tool_pattern (parse_csv v)) (\<lambda>xs. Inr (Some xs)))"

definition check_mcp_servers :: "cap_param list \<Rightarrow> cap_param list \<Rightarrow> unit result" where
  "check_mcp_servers parent child =
     (case (get_param parent (lit ''servers''), get_param child (lit ''servers'')) of
        (_, None) \<Rightarrow> Inr ()
      | (None, Some _) \<Rightarrow> Inl (SubsetViolation ''mcp.servers: the parent reaches none'')
      | (Some p, Some c) \<Rightarrow>
          (if list_all (\<lambda>cs. cs \<in> set (parse_csv p)) (parse_csv c) then Inr ()
           else Inl (SubsetViolation ''mcp.servers: child not in parent set'')))"

definition check_mcp_patterns ::
    "tool_pattern list option \<Rightarrow> tool_pattern list option \<Rightarrow> unit result" where
  "check_mcp_patterns pp cc =
     (case (pp, cc) of
        (None, _) \<Rightarrow> Inr ()
      | (Some _, None) \<Rightarrow> Inl (SubsetViolation ''mcp.tool-patterns: child reaches every tool'')
      | (Some pps, Some ccs) \<Rightarrow>
          (if list_all (\<lambda>c. list_ex (\<lambda>p. tool_pattern_covers p c) pps) ccs then Inr ()
           else Inl (SubsetViolation ''mcp.tool-patterns: child pattern not covered'')))"

definition check_mcp :: "cap_param list \<Rightarrow> cap_param list \<Rightarrow> unit result" where
  "check_mcp parent child =
     rbind (reject_unknown_mcp_keys parent) (\<lambda>_.
     rbind (reject_unknown_mcp_keys child) (\<lambda>_.
     rbind (check_mcp_servers parent child) (\<lambda>_.
     rbind (parse_tool_patterns parent) (\<lambda>pp.
     rbind (parse_tool_patterns child) (\<lambda>cc.
       check_mcp_patterns pp cc)))))"

definition mcp_scope :: "cap_param list \<Rightarrow> mcp_grant_scope option" where
  "mcp_scope ps =
     (if ps = [] then Some scope_unrestricted
      else if isl (reject_unknown_mcp_keys ps) then None
      else Some
        \<lparr>servers = Some (case map_option parse_csv (get_param ps (lit ''servers'')) of
                           None \<Rightarrow> [] | Some ts \<Rightarrow> ts),
         tool_patterns = map_option parse_csv (get_param ps (lit ''tool-patterns''))\<rparr>)"

definition covers_mcp_request :: "cap_param list \<Rightarrow> cap_param list \<Rightarrow> unit result" where
  "covers_mcp_request held request =
     (case mcp_scope held of
        None \<Rightarrow> Inl (SubsetViolation ''mcp: the held grant covers nothing'')
      | Some scope \<Rightarrow>
          rbind (reject_unknown_mcp_keys request) (\<lambda>_.
            let srvs = (case map_option parse_csv (get_param request (lit ''servers'')) of
                          None \<Rightarrow> [] | Some ts \<Rightarrow> ts);
                tools = map_option parse_csv (get_param request (lit ''tool-patterns''))
            in if srvs = [] then Inl (SubsetViolation ''mcp: a request must name the server'')
               else if tools = Some [] then Inl (SubsetViolation ''mcp: a request must name a tool'')
               else if list_all (\<lambda>server.
                         case tools of
                           None \<Rightarrow> covers_server scope server
                         | Some ts \<Rightarrow> list_all (covers_tool scope server) ts) srvs
               then Inr ()
               else Inl (SubsetViolation ''mcp: the held grant does not cover the request'')))"

text \<open>What in an \<open>mcp\<close> grant makes part of it cover nothing, one tag per problem.\<close>

definition mcp_param_problems :: "cap_param list \<Rightarrow> (string \<times> rstr) list" where
  "mcp_param_problems ps =
     (if ps = [] then []
      else
        map (\<lambda>p. (''not an mcp param'', p_key p)) (filter (\<lambda>p. p_key p \<notin> set MCP_KEYS) ps)
        @ (case map_option parse_csv (get_param ps (lit ''servers'')) of
             None \<Rightarrow> [(''servers is missing'', [])]
           | Some srvs \<Rightarrow>
               (if srvs = [] then [(''servers is empty'', [])]
                else map (\<lambda>s. (''glob characters in a server id'', s)) (filter contains_glob srvs)))
        @ (case map_option parse_csv (get_param ps (lit ''tool-patterns'')) of
             None \<Rightarrow> []
           | Some pats \<Rightarrow>
               (if pats = [] then [(''tool-patterns is empty'', [])] else [])
               @ map (\<lambda>raw. (''tool pattern is malformed'', raw))
                   (filter (\<lambda>raw. isl (tool_pattern_parse raw)) pats)))"

subsection \<open>The validator\<close>

definition validate_params :: "rstr \<Rightarrow> cap_param list \<Rightarrow> cap_param list \<Rightarrow> unit result" where
  "validate_params cap parent child =
     (if cap = lit ''fs'' then check_fs parent child
      else if cap = lit ''http'' then check_http parent child
      else if cap = lit ''messaging'' then check_messaging parent child
      else if cap = lit ''lifecycle'' then check_lifecycle parent child
      else if cap = lit ''llm'' then check_llm parent child
      else if cap = lit ''secrets'' then check_list_subset parent child [lit ''names'']
      else if cap = lit ''tools'' then check_list_subset parent child [lit ''ids'']
      else if cap = lit ''notify'' then check_list_subset parent child [lit ''targets'']
      else if cap = lit ''data'' then check_list_subset parent child [lit ''mode'']
      else if cap = lit ''mcp'' then check_mcp parent child
      else if cap = lit ''skills'' then check_skills parent child
      else if cap = lit ''web'' then Inl (SubsetViolation ''web is whole-capability only'')
      else Inl (SubsetViolation ''unknown capability''))"

definition validate :: "grant \<Rightarrow> grant_draft \<Rightarrow> unit result" where
  "validate parent child =
     (if g_capability parent \<noteq> d_capability child
      then Inl (SubsetViolation ''capability mismatch'')
      else rbind
        (if d_capability child = lit ''mcp''
         then rbind (reject_unknown_mcp_keys (d_params child))
                (\<lambda>_. rbind (parse_tool_patterns (d_params child)) (\<lambda>_. Inr ()))
         else Inr ())
        (\<lambda>_. if g_params parent = [] then Inr ()
             else if d_params child = []
             then Inl (SubsetViolation ''child requests whole capability'')
             else validate_params (g_capability parent) (g_params parent) (d_params child)))"

definition covers_request :: "grant \<Rightarrow> grant_draft \<Rightarrow> unit result" where
  "covers_request held request =
     (if g_capability held = lit ''mcp'' \<and> d_capability request = lit ''mcp''
      then covers_mcp_request (g_params held) (d_params request)
      else validate held request)"

end
