(* ===== verification/SubsetProps.thy ===== *)
theory SubsetProps
  imports SubsetRules
begin

text \<open>
  Correctness of the subset rules of \<open>subset.rs\<close>. Every family rule is transitive, so issuance can
  only attenuate along a chain of delegations, and a call covered by a grant is covered by every
  grant it was issued from. The contract a client of the \<open>SubsetValidator\<close> trait relies on is the
  locale \<open>subset_validator\<close>, interpreted on \<open>validate\<close>.
\<close>

section \<open>Path prefixes\<close>

text \<open>\<open>y\<close> is \<open>x\<close> or lies below it at a path boundary.\<close>

definition under :: "rstr \<Rightarrow> rstr \<Rightarrow> bool" where
  "under x y \<longleftrightarrow> y = x \<or> prefix (x @ [slash]) y"

lemma under_trans: "under x y \<Longrightarrow> under y z \<Longrightarrow> under x z"
  by (auto simp: under_def prefix_def)

abbreviation norm_path :: "rstr \<Rightarrow> rstr" where
  "norm_path p \<equiv> trim_end_matches slash p"

lemma path_prefix_subset_iff:
  "path_prefix_subset p c \<longleftrightarrow>
     p = c \<or> norm_path p = [] \<or> prefix (norm_path p @ [slash]) c \<or> c = norm_path p"
  by (auto simp: path_prefix_subset_def Let_def)

lemma norm_path_fixed:
  assumes "p \<noteq> []" "last p \<noteq> slash"
  shows "norm_path p = p"
  using assms by (cases p rule: rev_cases) (auto simp: trim_end_matches_def)

lemma norm_path_extend:
  assumes "np \<noteq> []" "last np \<noteq> slash" "prefix (np @ [slash]) c"
  shows "norm_path c = np \<or> prefix (np @ [slash]) (norm_path c)"
proof -
  from assms(3) obtain r where c: "c = np @ slash # r" by (auto simp: prefix_def)
  have np: "dropWhile (\<lambda>x. x = slash) (rev np) = rev np"
    using assms(1,2) by (cases np rule: rev_cases) auto
  show ?thesis
  proof (cases "\<forall>x\<in>set r. x = slash")
    case True
    then have "dropWhile (\<lambda>x. x = slash) (rev r @ slash # rev np)
        = dropWhile (\<lambda>x. x = slash) (slash # rev np)"
      by (intro dropWhile_append2) auto
    then have "dropWhile (\<lambda>x. x = slash) (rev c) = rev np"
      using np by (simp add: c)
    then show ?thesis by (simp add: trim_end_matches_def)
  next
    case False
    then obtain x where x: "x \<in> set (rev r)" "x \<noteq> slash" by auto
    then have "dropWhile (\<lambda>x. x = slash) (rev r @ slash # rev np)
        = dropWhile (\<lambda>x. x = slash) (rev r) @ slash # rev np"
      by (rule dropWhile_append1)
    then have "norm_path c = np @ slash # rev (dropWhile (\<lambda>x. x = slash) (rev r))"
      by (simp add: trim_end_matches_def c)
    then show ?thesis by (simp add: prefix_def)
  qed
qed

lemma path_prefix_subset_trans:
  assumes pc: "path_prefix_subset p c" and cg: "path_prefix_subset c g"
  shows "path_prefix_subset p g"
proof (cases "p = c \<or> c = g \<or> norm_path p = []")
  case True
  with pc cg show ?thesis by (auto simp: path_prefix_subset_iff)
next
  case False
  let ?np = "norm_path p" and ?nc = "norm_path c"
  from False have np: "?np \<noteq> []" "last ?np \<noteq> slash"
    by (auto simp: trim_end_matches_last)
  have "prefix (?np @ [slash]) c \<or> c = ?np"
    using pc False by (auto simp: path_prefix_subset_iff)
  then have nc: "?nc = ?np \<or> prefix (?np @ [slash]) ?nc"
    using norm_path_extend [OF np] norm_path_fixed [OF np] by auto
  then have "?nc \<noteq> []" using np by auto
  with cg False have "prefix (?nc @ [slash]) g \<or> g = ?nc"
    by (auto simp: path_prefix_subset_iff)
  then have "under ?nc g" by (auto simp: under_def)
  moreover have "under ?np ?nc" using nc by (auto simp: under_def)
  ultimately have "under ?np g" by (blast intro: under_trans)
  then show ?thesis by (auto simp: path_prefix_subset_iff under_def)
qed

section \<open>Transitivity of the family rules\<close>

lemma list_all_ex_trans:
  assumes "list_all (\<lambda>b. list_ex (\<lambda>a. R a b) as) bs"
    and "list_all (\<lambda>c. list_ex (\<lambda>b. R b c) bs) cs"
    and "\<And>a b c. R a b \<Longrightarrow> R b c \<Longrightarrow> R a c"
  shows "list_all (\<lambda>c. list_ex (\<lambda>a. R a c) as) cs"
  using assms by (fastforce simp: list_all_iff list_ex_iff)

lemma check_fs_key_trans:
  assumes "check_fs_key a b k = Inr ()" and "check_fs_key b c k = Inr ()"
  shows "check_fs_key a c k = Inr ()"
  using assms list_all_ex_trans [where R = path_prefix_subset, OF _ _ path_prefix_subset_trans]
  by (auto simp: check_fs_key_def Let_def split: option.splits if_splits)

text \<open>The URL a pattern is about: the text before a trailing \<open>/*\<close>, or all of a literal.\<close>

definition url_core :: "rstr \<Rightarrow> rstr" where
  "url_core c = (case strip_suffix [slash, star] c of Some cp \<Rightarrow> cp | None \<Rightarrow> c)"

lemma url_core_wild [simp]: "url_core (p @ [slash, star]) = p"
proof -
  have "strip_suffix [slash, star] (p @ [slash, star]) = Some p"
    by (simp add: strip_suffix_Some_iff)
  then show ?thesis by (simp add: url_core_def)
qed

lemma url_pattern_subset_iff:
  "is_ok (url_pattern_subset p c) \<longleftrightarrow>
     validate_url_pattern_form p = Inr () \<and> validate_url_pattern_form c = Inr ()
     \<and> (p = c \<or> (\<exists>pp. p = pp @ [slash, star] \<and> under pp (url_core c)))"
  by (cases "validate_url_pattern_form p"; cases "validate_url_pattern_form c")
    (auto simp: url_pattern_subset_def strip_suffix_Some_iff strip_suffix_None_iff suffix_def
      under_def url_core_def split: option.splits)

lemma url_pattern_subset_trans:
  assumes "is_ok (url_pattern_subset a b)" and "is_ok (url_pattern_subset b c)"
  shows "is_ok (url_pattern_subset a c)"
  using assms unfolding url_pattern_subset_iff by (auto intro: under_trans)

lemma check_http_trans:
  assumes "check_http a b = Inr ()" and "check_http b c = Inr ()"
  shows "check_http a c = Inr ()"
  using assms
    list_all_ex_trans [where R = "\<lambda>p c. is_ok (url_pattern_subset p c)", OF _ _ url_pattern_subset_trans]
  by (auto simp: check_http_def Let_def rbind_Inr_iff split: option.splits if_splits)

lemma check_set_key_trans:
  assumes "check_set_key a b k = Inr ()" and "check_set_key b c k = Inr ()"
  shows "check_set_key a c k = Inr ()"
  using assms by (auto simp: check_set_key_def list_all_iff split: option.splits if_splits)

lemma check_list_subset_trans:
  assumes "check_list_subset a b ks = Inr ()" and "check_list_subset b c ks = Inr ()"
  shows "check_list_subset a c ks = Inr ()"
  using assms by (induction ks) (auto simp: rbind_Inr_iff intro: check_set_key_trans)

lemma check_numeric_le_trans:
  assumes "check_numeric_le a b k = Inr ()" and "check_numeric_le b c k = Inr ()"
  shows "check_numeric_le a c k = Inr ()"
  using assms by (auto simp: check_numeric_le_def split: option.splits if_splits)

lemma check_lifecycle_key_trans:
  assumes "check_lifecycle_key a b k = Inr ()" and "check_lifecycle_key b c k = Inr ()"
  shows "check_lifecycle_key a c k = Inr ()"
  using assms by (auto simp: check_lifecycle_key_def rbind_Inr_iff split: option.splits if_splits)

lemma check_mcp_servers_trans:
  assumes "check_mcp_servers a b = Inr ()" and "check_mcp_servers b c = Inr ()"
  shows "check_mcp_servers a c = Inr ()"
  using assms by (auto simp: check_mcp_servers_def list_all_iff split: option.splits if_splits)

lemma check_mcp_patterns_trans:
  assumes "check_mcp_patterns a b = Inr ()" and "check_mcp_patterns b c = Inr ()"
  shows "check_mcp_patterns a c = Inr ()"
  using assms list_all_ex_trans [where R = tool_pattern_covers, OF _ _ covers_trans]
  by (auto simp: check_mcp_patterns_def split: option.splits if_splits)

lemma check_mcp_trans:
  assumes "check_mcp a b = Inr ()" and "check_mcp b c = Inr ()"
  shows "check_mcp a c = Inr ()"
  using assms
  by (auto simp: check_mcp_def rbind_Inr_iff intro: check_mcp_servers_trans check_mcp_patterns_trans)

lemmas key_rule_trans =
  check_fs_key_trans check_http_trans check_set_key_trans check_list_subset_trans
  check_numeric_le_trans check_lifecycle_key_trans check_mcp_trans

lemma validate_params_trans:
  assumes "validate_params cap a b = Inr ()" and "validate_params cap b c = Inr ()"
  shows "validate_params cap a c = Inr ()"
  using assms
  by (auto simp: validate_params_def check_fs_def check_messaging_def check_lifecycle_def
      check_llm_def check_skills_def rbind_Inr_iff split: if_splits intro: key_rule_trans)

section \<open>The validator's contract\<close>

text \<open>
  What the clients of the trait \<open>SubsetValidator\<close> (\<open>narrow\<close>, \<open>delegate_grant\<close>, presets, the
  resolver chain, the operator intake) rely on: an accepted draft has the parent's capability, the
  answer depends on capability and params only, and acceptance composes.
\<close>

definition issued_as :: "grant_draft \<Rightarrow> grant \<Rightarrow> bool" where
  "issued_as d g \<longleftrightarrow> g_capability g = d_capability d \<and> g_params g = d_params d"

locale subset_validator =
  fixes vld :: "grant \<Rightarrow> grant_draft \<Rightarrow> unit result"
  assumes vld_capability: "vld p d = Inr () \<Longrightarrow> g_capability p = d_capability d"
    and vld_trans: "vld p d = Inr () \<Longrightarrow> issued_as d q \<Longrightarrow> vld q e = Inr () \<Longrightarrow> vld p e = Inr ()"
begin

text \<open>A chain of issuances: each grant was issued from the one before it.\<close>

fun issue_chain :: "grant \<Rightarrow> (grant_draft \<times> grant) list \<Rightarrow> bool" where
  "issue_chain p [] = True"
| "issue_chain p ((d, g) # rest) = (vld p d = Inr () \<and> issued_as d g \<and> issue_chain g rest)"

lemma issue_chain_attenuates:
  "issue_chain p ((d, g) # rest) \<Longrightarrow> (e, h) \<in> set ((d, g) # rest) \<Longrightarrow> vld p e = Inr ()"
proof (induction rest arbitrary: p d g e h)
  case (Cons x rest)
  obtain d' g' where x: "x = (d', g')" by (cases x)
  from Cons.prems(1) x have step: "vld p d = Inr ()" "issued_as d g" "vld g d' = Inr ()"
    "issued_as d' g'" "issue_chain g' rest" by auto
  then have "vld p d' = Inr ()" by (blast intro: vld_trans)
  with step x have "issue_chain p ((d', g') # rest)" by simp
  with Cons.IH [of p d' g' e h] Cons.prems(2) step(1) x show ?case by auto
qed auto

lemma issue_chain_issued:
  "issue_chain p rest \<Longrightarrow> (e, h) \<in> set rest \<Longrightarrow> issued_as e h"
  by (induction p rest rule: issue_chain.induct) auto

lemma issue_chain_capability:
  "issue_chain p ((d, g) # rest) \<Longrightarrow> (e, h) \<in> set ((d, g) # rest) \<Longrightarrow> d_capability e = g_capability p"
  using issue_chain_attenuates vld_capability by metis

end

text \<open>The call-time check on top: what a grant covers, every grant it was issued from covers.\<close>

locale call_coverage = subset_validator +
  fixes cov :: "grant \<Rightarrow> grant_draft \<Rightarrow> unit result"
  assumes cov_mono: "vld p d = Inr () \<Longrightarrow> issued_as d q \<Longrightarrow> cov q r = Inr () \<Longrightarrow> cov p r = Inr ()"
begin

lemma issue_chain_calls:
  assumes "issue_chain p ((d, g) # rest)" and "(e, h) \<in> set ((d, g) # rest)"
    and "cov h r = Inr ()"
  shows "cov p r = Inr ()"
  using cov_mono issue_chain_attenuates [OF assms(1,2)] issue_chain_issued [OF assms(1,2)] assms(3)
  by blast

end

section \<open>The validator satisfies the contract\<close>

lemma validate_Inr_iff:
  "validate p d = Inr () \<longleftrightarrow>
     g_capability p = d_capability d
     \<and> (d_capability d = lit ''mcp'' \<longrightarrow>
          reject_unknown_mcp_keys (d_params d) = Inr () \<and> is_ok (parse_tool_patterns (d_params d)))
     \<and> (g_params p = []
        \<or> d_params d \<noteq> [] \<and> validate_params (g_capability p) (g_params p) (d_params d) = Inr ())"
  by (cases "parse_tool_patterns (d_params d)") (auto simp: validate_def rbind_Inr_iff)

lemma validate_trans_lemma:
  assumes "validate p d = Inr ()" "issued_as d q" "validate q e = Inr ()"
  shows "validate p e = Inr ()"
  using assms validate_params_trans [of "d_capability d" "g_params p" "d_params d" "d_params e"]
  by (auto simp: validate_Inr_iff issued_as_def)

interpretation sv: subset_validator validate
proof unfold_locales
  show "validate p d = Inr () \<Longrightarrow> g_capability p = d_capability d" for p d
    by (simp add: validate_Inr_iff)
qed (rule validate_trans_lemma)

text \<open>The \<open>mcp\<close> part: the scope of an issued grant lies inside its parent's.\<close>

lemma parse_tool_patterns_Some:
  assumes "parse_tool_patterns ps = Inr (Some xs)"
  obtains v where "get_param ps (lit ''tool-patterns'') = Some v"
    and "list_all2 (\<lambda>raw p. tool_pattern_parse raw = Inr p) (parse_csv v) xs"
proof -
  have eq: "parse_tool_pattern raw = Inr p \<longleftrightarrow> tool_pattern_parse raw = Inr p" for raw p
    by (auto simp: parse_tool_pattern_def split: sum.splits)
  show ?thesis
    using assms that
    by (auto simp: parse_tool_patterns_def rbind_Inr_iff collect_results_Inr_iff eq split: option.splits)
qed

lemma scope_tool_mono:
  assumes p: "list_all2 (\<lambda>raw p. tool_pattern_parse raw = Inr p) praws ps"
    and c: "list_all2 (\<lambda>raw p. tool_pattern_parse raw = Inr p) craws cs"
    and cov: "list_all (\<lambda>c. list_ex (\<lambda>p. tool_pattern_covers p c) ps) cs"
    and m: "covers_tool_loop False craws tool"
  shows "covers_tool_loop False praws tool"
proof -
  from m obtain raw q where q: "raw \<in> set craws" "tool_pattern_parse raw = Inr q"
    "tool_pattern_matches q tool" by (auto simp: covers_tool_loop_iff)
  with c have "q \<in> set cs" by (fastforce simp: list_all2_conv_all_nth in_set_conv_nth)
  with cov obtain p' where p': "p' \<in> set ps" "tool_pattern_covers p' q"
    by (auto simp: list_all_iff list_ex_iff)
  with p obtain praw where "praw \<in> set praws" "tool_pattern_parse praw = Inr p'"
    by (fastforce simp: list_all2_conv_all_nth in_set_conv_nth)
  moreover have "tool_pattern_matches p' tool" using p'(2) q(3) by (rule covers_matches)
  moreover have "\<forall>raw\<in>set praws. is_ok (tool_pattern_parse raw)"
    using p by (fastforce simp: list_all2_conv_all_nth in_set_conv_nth)
  ultimately show ?thesis by (auto simp: covers_tool_loop_iff)
qed

text \<open>Scope inclusion, on both axes.\<close>

definition scope_le :: "mcp_grant_scope \<Rightarrow> mcp_grant_scope \<Rightarrow> bool" where
  "scope_le a b \<longleftrightarrow>
     (\<forall>s. covers_server a s \<longrightarrow> covers_server b s)
     \<and> (\<forall>s t. covers_tool a s t \<longrightarrow> covers_tool b s t)"

lemma covers_mcp_request_iff:
  "covers_mcp_request held req = Inr () \<longleftrightarrow>
     (\<exists>sc srvs. mcp_scope held = Some sc \<and> reject_unknown_mcp_keys req = Inr ()
        \<and> map_option parse_csv (get_param req (lit ''servers'')) = Some srvs \<and> srvs \<noteq> []
        \<and> (case map_option parse_csv (get_param req (lit ''tool-patterns'')) of
             None \<Rightarrow> \<forall>s\<in>set srvs. covers_server sc s
           | Some ts \<Rightarrow> ts \<noteq> [] \<and> (\<forall>s\<in>set srvs. \<forall>t\<in>set ts. covers_tool sc s t)))"
  by (cases "mcp_scope held")
    (auto simp: covers_mcp_request_def rbind_Inr_iff Let_def list_all_iff split: option.splits if_splits)

lemma covers_mcp_request_mono:
  assumes "covers_mcp_request held req = Inr ()"
    and "mcp_scope held = Some a" "mcp_scope held' = Some b" "scope_le a b"
  shows "covers_mcp_request held' req = Inr ()"
  using assms unfolding covers_mcp_request_iff scope_le_def
  by (auto split: option.splits)

lemma validate_mcp_scope:
  assumes v: "validate p d = Inr ()" and cap: "d_capability d = lit ''mcp''"
  shows "\<exists>a b. mcp_scope (d_params d) = Some a \<and> mcp_scope (g_params p) = Some b \<and> scope_le a b"
proof (cases "g_params p = []")
  case True
  from v cap have "\<exists>a. mcp_scope (d_params d) = Some a"
    by (auto simp: validate_Inr_iff mcp_scope_def)
  moreover have "scope_le a scope_unrestricted" for a
    by (auto simp: scope_le_def covers_server_def covers_tool_iff scope_unrestricted_def)
  ultimately show ?thesis using True by (auto simp: mcp_scope_def)
next
  case False
  let ?P = "g_params p" and ?C = "d_params d"
  from v cap False have ne: "?C \<noteq> []" and chk: "check_mcp ?P ?C = Inr ()"
    by (auto simp: validate_Inr_iff validate_params_def)
  from chk have unk: "reject_unknown_mcp_keys ?P = Inr ()" "reject_unknown_mcp_keys ?C = Inr ()"
    and srv: "check_mcp_servers ?P ?C = Inr ()"
    by (auto simp: check_mcp_def rbind_Inr_iff)
  from chk obtain pp cc where pp: "parse_tool_patterns ?P = Inr pp" "parse_tool_patterns ?C = Inr cc"
    "check_mcp_patterns pp cc = Inr ()" by (auto simp: check_mcp_def rbind_Inr_iff)
  define a where "a = the (mcp_scope ?C)"
  define b where "b = the (mcp_scope ?P)"
  have ab: "mcp_scope ?C = Some a" "mcp_scope ?P = Some b"
    using unk False ne by (auto simp: a_def b_def mcp_scope_def)
  have s: "covers_server a s \<Longrightarrow> covers_server b s" for s
    using srv ab unk False ne
    by (auto simp: covers_server_def mcp_scope_def check_mcp_servers_def list_all_iff
        split: option.splits if_splits)
  have t: "covers_tool a s t \<Longrightarrow> covers_tool b s t" for s t
  proof (cases pp)
    case None
    then have "tool_patterns b = None"
      using pp(1) ab(2) False unk
      by (auto simp: parse_tool_patterns_def rbind_Inr_iff mcp_scope_def split: option.splits)
    then show "covers_tool a s t \<Longrightarrow> covers_tool b s t" using s by (auto simp: covers_tool_iff)
  next
    case (Some ps)
    with pp(3) obtain cs where cs: "cc = Some cs"
      "list_all (\<lambda>c. list_ex (\<lambda>p. tool_pattern_covers p c) ps) cs"
      by (auto simp: check_mcp_patterns_def split: option.splits if_splits)
    from parse_tool_patterns_Some [OF pp(1) [unfolded Some]] obtain vp where
      vp: "get_param ?P (lit ''tool-patterns'') = Some vp"
        "list_all2 (\<lambda>raw p. tool_pattern_parse raw = Inr p) (parse_csv vp) ps" .
    from parse_tool_patterns_Some [OF pp(2) [unfolded cs(1)]] obtain vc where
      vc: "get_param ?C (lit ''tool-patterns'') = Some vc"
        "list_all2 (\<lambda>raw p. tool_pattern_parse raw = Inr p) (parse_csv vc) cs" .
    have "tool_patterns a = Some (parse_csv vc)" "tool_patterns b = Some (parse_csv vp)"
      using ab unk False ne vp(1) vc(1) by (auto simp: mcp_scope_def)
    then show "covers_tool a s t \<Longrightarrow> covers_tool b s t"
      using s scope_tool_mono [OF vp(2) vc(2) cs(2)] by (auto simp: covers_tool_iff)
  qed
  from s t ab show ?thesis by (auto simp: scope_le_def)
qed

lemma covers_request_mono:
  assumes "validate p d = Inr ()" "issued_as d q" "covers_request q r = Inr ()"
  shows "covers_request p r = Inr ()"
proof (cases "d_capability d = lit ''mcp'' \<and> d_capability r = lit ''mcp''")
  case True
  with assms have cap: "g_capability p = lit ''mcp''" "g_capability q = lit ''mcp''"
    by (auto simp: validate_Inr_iff issued_as_def)
  from validate_mcp_scope [OF assms(1)] True obtain a b where
    "mcp_scope (d_params d) = Some a" "mcp_scope (g_params p) = Some b" "scope_le a b" by blast
  with assms(2,3) True cap show ?thesis
    by (auto simp: covers_request_def issued_as_def intro: covers_mcp_request_mono)
next
  case False
  have eq: "g_capability p = d_capability d" "g_capability q = d_capability d"
    using assms by (auto simp: validate_Inr_iff issued_as_def)
  have "validate q r = Inr ()" using assms(3) eq False by (auto simp: covers_request_def split: if_splits)
  with assms(1,2) have "validate p r = Inr ()" by (rule validate_trans_lemma)
  then show ?thesis using eq False by (auto simp: covers_request_def)
qed

interpretation cc: call_coverage validate covers_request
  by unfold_locales (rule covers_request_mono)

section \<open>Confinement of paths\<close>

text \<open>Lexical resolution of a path: empty and \<open>.\<close> segments vanish, \<open>..\<close> removes the segment before
  it. This is what a file system does with the text of a path, links apart.\<close>

fun resolve_segs :: "rstr list \<Rightarrow> rstr list \<Rightarrow> rstr list" where
  "resolve_segs acc [] = rev acc"
| "resolve_segs acc (s # ss) =
     (if s = [] \<or> s = lit ''.'' then resolve_segs acc ss
      else if s = lit ''..'' then resolve_segs (tl acc) ss
      else resolve_segs (s # acc) ss)"

definition resolve_path :: "rstr \<Rightarrow> rstr list" where
  "resolve_path p = resolve_segs [] (split_on slash p)"

lemma resolve_segs_plain:
  "(\<forall>s\<in>set ss. s \<noteq> lit ''.'' \<and> s \<noteq> lit ''..'') \<Longrightarrow>
     resolve_segs acc ss = rev acc @ filter (\<lambda>s. s \<noteq> []) ss"
  by (induction ss arbitrary: acc) auto

lemma resolve_path_plain:
  "\<not> path_has_traversal p \<Longrightarrow> resolve_path p = filter (\<lambda>s. s \<noteq> []) (split_on slash p)"
  by (simp add: resolve_path_def path_has_traversal_def list_ex_iff resolve_segs_plain)

lemma filter_split_replicate:
  "filter (\<lambda>s. s \<noteq> []) (split_on d (p @ replicate n d)) = filter (\<lambda>s. s \<noteq> []) (split_on d p)"
proof (induction n)
  case (Suc n)
  have "split_on d (p @ replicate (Suc n) d) = split_on d (p @ replicate n d) @ [[]]"
    by (metis append_assoc replicate_append_same replicate_Suc split_on.simps(1)
        split_on_append_sep)
  with Suc show ?case by simp
qed simp

lemma filter_norm_path:
  "filter (\<lambda>s. s \<noteq> []) (split_on slash (norm_path p)) = filter (\<lambda>s. s \<noteq> []) (split_on slash p)"
  using trim_end_matches_decomp [of p slash] filter_split_replicate [of slash "norm_path p"] by metis

lemma path_prefix_resolve:
  assumes "path_prefix_subset p c" "\<not> path_has_traversal p" "\<not> path_has_traversal c"
  shows "prefix (resolve_path p) (resolve_path c)"
proof (cases "p = c")
  case False
  let ?f = "filter (\<lambda>s. s \<noteq> [])"
  have "norm_path p = [] \<or> prefix (split_on slash (norm_path p)) (split_on slash c)"
    using assms(1) False by (auto simp: path_prefix_subset_iff prefix_split_on)
  then have "prefix (?f (split_on slash (norm_path p))) (?f (split_on slash c))"
    by (auto simp: prefix_def)
  then show ?thesis using assms by (simp add: resolve_path_plain filter_norm_path)
qed simp

section \<open>URL patterns\<close>

text \<open>The URLs a pattern stands for: a literal only itself, \<open><prefix>/*\<close> the prefix and everything
  below it at a path boundary.\<close>

definition url_matches :: "rstr \<Rightarrow> rstr \<Rightarrow> bool" where
  "url_matches pat u \<longleftrightarrow>
     (case strip_suffix [slash, star] pat of Some pp \<Rightarrow> under pp u | None \<Rightarrow> u = pat)"

lemma url_matches_wild [simp]: "url_matches (pp @ [slash, star]) u \<longleftrightarrow> under pp u"
proof -
  have "strip_suffix [slash, star] (pp @ [slash, star]) = Some pp" by (simp add: strip_suffix_Some_iff)
  then show ?thesis by (simp add: url_matches_def)
qed

lemma url_matches_lit: "\<not> suffix [slash, star] p \<Longrightarrow> url_matches p u \<longleftrightarrow> u = p"
  by (auto simp: url_matches_def strip_suffix_def)

lemma url_matches_core: "url_matches p (url_core p)"
  by (auto simp: url_matches_def url_core_def under_def split: option.splits)

section \<open>Tokens\<close>

lemma parse_csv_token:
  assumes "s \<noteq> []" "comma \<notin> set s" "trim s = s"
  shows "parse_csv s = [s]"
  using assms by (simp add: parse_csv_def split_on_no_sep)

lemma parse_csv_join:
  assumes "\<forall>t\<in>set ts. t \<noteq> [] \<and> comma \<notin> set t \<and> trim t = t"
  shows "parse_csv (join [comma] ts) = ts"
proof (cases "ts = []")
  case True
  then show ?thesis by (simp add: parse_csv_def trim_def trim_start_def trim_end_def)
next
  case False
  with assms have "split_on comma (join [comma] ts) = ts" by (intro split_on_join) auto
  moreover have "map trim ts = ts" using assms by (simp add: map_idI)
  ultimately show ?thesis using assms by (simp add: parse_csv_def filter_id_conv)
qed

lemma parse_csv_tokens:
  "t \<in> set (parse_csv v) \<Longrightarrow> t \<noteq> [] \<and> comma \<notin> set t \<and> trim t = t"
  using split_on_no_sep_in set_trim by (fastforce simp: parse_csv_def)

text \<open>Unfolding rules that evaluate the rules on concrete values.\<close>

lemmas string_eval =
  lit_def trim_def trim_start_def trim_end_def is_whitespace_def trim_end_matches_def
  utf8_len_def parse_u64_def u64_max_def is_ascii_digit_def strip_suffix_def strip_prefix_def

lemmas subset_eval = string_eval
  sample_grant_def sample_draft_def prm_def issued_as_def get_param_def parse_csv_def
  path_has_traversal_def path_prefix_subset_def check_fs_key_def check_fs_def check_set_key_def
  check_numeric_le_def check_llm_def validate_params_def validate_def covers_request_def
  reject_unknown_mcp_keys_def MCP_KEYS_def

lemma mcp_call_scope:
  assumes "is_request_token server" and "is_request_token tool"
  shows "covers_mcp_request held
           [\<lparr>p_key = lit ''servers'', p_value = server\<rparr>, \<lparr>p_key = lit ''tool-patterns'', p_value = tool\<rparr>]
           = Inr ()
         \<longleftrightarrow> (\<exists>sc. mcp_scope held = Some sc \<and> covers_tool sc server tool)"
proof -
  have csv: "parse_csv server = [server]" "parse_csv tool = [tool]"
    using assms by (auto simp: is_request_token_def intro: parse_csv_token)
  show ?thesis
    by (auto simp: covers_mcp_request_iff csv get_param_def reject_unknown_mcp_keys_def MCP_KEYS_def)
qed

section \<open>Properties\<close>

text \<open>
  C28. Delegation only attenuates. Along any chain of issuances, each accepted by the validator, a
  call that some grant of the chain covers at call time is covered by the root of the chain: no
  sequence of delegations, narrowings or preset grants reaches a path, URL, server or tool the first
  grant did not.
\<close>

theorem delegation_chain_attenuates:
  assumes "sv.issue_chain root ((d, g) # rest)"
    and "(e, h) \<in> set ((d, g) # rest)"
    and "covers_request h r = Inr ()"
  shows "covers_request root r = Inr ()"
  using assms by (rule cc.issue_chain_calls)

theorem delegation_chain_attenuates_witness:
  "covers_request (sample_grant ''r'' ''root'' ''fs'' [prm ''read-paths'' ''/ws''])
     (sample_draft ''fs'' [prm ''read-paths'' ''/ws/a/b/c'']) = Inr ()"
  by (rule delegation_chain_attenuates [where
        d = "sample_draft ''fs'' [prm ''read-paths'' ''/ws/a'']"
        and g = "sample_grant ''g'' ''child'' ''fs'' [prm ''read-paths'' ''/ws/a'']"
        and rest = "[(sample_draft ''fs'' [prm ''read-paths'' ''/ws/a/b''],
                      sample_grant ''h'' ''leaf'' ''fs'' [prm ''read-paths'' ''/ws/a/b''])]"
        and e = "sample_draft ''fs'' [prm ''read-paths'' ''/ws/a/b'']"
        and h = "sample_grant ''h'' ''leaf'' ''fs'' [prm ''read-paths'' ''/ws/a/b'']"])
    (simp_all add: subset_eval)

text \<open>
  The issuance check composes: if a parent may issue a draft and the grant issued from it may
  issue a second draft, the parent may issue the second draft directly.
\<close>

theorem validate_trans:
  assumes "validate p d = Inr ()" and "issued_as d q" and "validate q e = Inr ()"
  shows "validate p e = Inr ()"
  using assms by (rule validate_trans_lemma)

text \<open>
  An accepted \<open>fs\<close> draft is confined to its parent's directories: every path the child lists
  resolves (with \<open>.\<close>, \<open>..\<close> and empty segments interpreted) to a location at or below the location
  of some path the parent lists under the same key. Neither \<open>..\<close> nor a name sharing a prefix
  (\<open>/ab\<close> against \<open>/a\<close>) escapes.
\<close>

theorem fs_child_confined:
  assumes "check_fs parent child = Inr ()"
    and "k = lit ''read-paths'' \<or> k = lit ''write-paths''"
    and "get_param child k = Some c" and "cp \<in> set (parse_csv c)"
  shows "\<exists>p pp. get_param parent k = Some p \<and> pp \<in> set (parse_csv p)
           \<and> prefix (resolve_path pp) (resolve_path cp)"
proof -
  have key: "check_fs_key parent child k = Inr ()"
    using assms(1,2) by (auto simp: check_fs_def rbind_Inr_iff)
  then obtain p where p: "get_param parent k = Some p"
    using assms(3) by (cases "get_param parent k") (auto simp: check_fs_key_def)
  with key assms(3) have no: "\<not> list_ex path_has_traversal (parse_csv p @ parse_csv c)"
    and all: "list_all (\<lambda>cp. list_ex (\<lambda>pp. path_prefix_subset pp cp) (parse_csv p)) (parse_csv c)"
    by (auto simp: check_fs_key_def Let_def split: if_splits)
  from all assms(4) obtain pp where pp: "pp \<in> set (parse_csv p)" "path_prefix_subset pp cp"
    by (auto simp: list_all_iff list_ex_iff)
  with no assms(4) have "prefix (resolve_path pp) (resolve_path cp)"
    by (intro path_prefix_resolve) (auto simp: list_ex_iff)
  with p pp show ?thesis by blast
qed

theorem fs_child_confined_example:
  "\<exists>p pp. get_param [prm ''read-paths'' ''/srv, /ws/''] (lit ''read-paths'') = Some p
      \<and> pp \<in> set (parse_csv p) \<and> prefix (resolve_path pp) (resolve_path (lit ''/ws/a''))"
  by (rule fs_child_confined [where child = "[prm ''read-paths'' ''/ws/a'']" and c = "lit ''/ws/a''"])
    (simp_all add: subset_eval)

text \<open>
  C35. \<open>url_pattern_subset\<close> decides containment exactly: it accepts a pair of patterns if and only if
  both are well-formed and every URL the child stands for is one the parent stands for.
\<close>

theorem url_pattern_subset_exact:
  "is_ok (url_pattern_subset p c) \<longleftrightarrow>
     validate_url_pattern_form p = Inr () \<and> validate_url_pattern_form c = Inr ()
     \<and> (\<forall>u. url_matches c u \<longrightarrow> url_matches p u)"
proof -
  have "(p = c \<or> (\<exists>pp. p = pp @ [slash, star] \<and> under pp (url_core c)))
        \<longleftrightarrow> (\<forall>u. url_matches c u \<longrightarrow> url_matches p u)"
    (is "?l \<longleftrightarrow> ?r")
  proof
    have core: "under (url_core c) u" if "url_matches c u" for u
      using that by (auto simp: url_matches_def url_core_def under_def split: option.splits)
    show "?l \<Longrightarrow> ?r" by (auto intro: under_trans [OF _ core])
  next
    assume all: ?r
    show ?l
    proof (cases "suffix [slash, star] p")
      case True
      with all url_matches_core [of c] show ?thesis by (auto simp: suffix_def)
    next
      case False
      with all have eq: "url_matches c u \<Longrightarrow> u = p" for u by (simp add: url_matches_lit)
      have "\<not> suffix [slash, star] c"
      proof
        assume "suffix [slash, star] c"
        then obtain cp where c: "c = cp @ [slash, star]" by (auto simp: suffix_def)
        then have "cp = p" "cp @ [slash] = p" using eq by (auto simp: under_def)
        then show False by simp
      qed
      then show ?thesis using eq by (auto simp: url_matches_lit)
    qed
  qed
  then show ?thesis by (simp add: url_pattern_subset_iff)
qed

theorem url_pattern_subset_exact_witness:
  "url_matches (lit ''https://a.b/*'') (lit ''https://a.b/c/d'')"
proof -
  have "is_ok (url_pattern_subset (lit ''https://a.b/*'') (lit ''https://a.b/c/*''))"
    by (simp add: subset_eval url_pattern_subset_def validate_url_pattern_form_def suffix_to_prefix)
  moreover have "url_matches (lit ''https://a.b/c/*'') (lit ''https://a.b/c/d'')"
    by (simp add: subset_eval url_matches_def under_def suffix_to_prefix)
  ultimately show ?thesis
    by (simp only: url_pattern_subset_exact)
qed

text \<open>
  A restricted parent issues no unrestricted child, and the rules fail closed: whatever the
  validator accepts under a parent with params has params itself, names the parent's capability, and
  that capability is one of the families with parameter rules (never \<open>web\<close> or an unknown name).
\<close>

theorem validate_no_widening:
  assumes "validate p d = Inr ()" and "g_params p \<noteq> []"
  shows "d_params d \<noteq> [] \<and> d_capability d = g_capability p
     \<and> g_capability p \<in> lit ` {''fs'', ''http'', ''messaging'', ''lifecycle'', ''llm'', ''secrets'',
          ''tools'', ''notify'', ''data'', ''mcp'', ''skills''}"
  using assms by (auto simp: validate_Inr_iff validate_params_def split: if_splits)

text \<open>
  A listing and a call agree for \<open>mcp\<close>: for names a call can carry, the call-time check of one
  tool on one server succeeds exactly when the scope the listing reader returns for the same grant
  covers that tool.
\<close>

theorem mcp_listing_agrees_with_call:
  assumes "is_request_token server" and "is_request_token tool"
  shows "covers_mcp_request held
           [\<lparr>p_key = lit ''servers'', p_value = server\<rparr>, \<lparr>p_key = lit ''tool-patterns'', p_value = tool\<rparr>]
           = Inr ()
         \<longleftrightarrow> (\<exists>sc. mcp_scope held = Some sc \<and> covers_tool sc server tool)"
  using assms by (rule mcp_call_scope)

end
