(* ===== verification/GrantStore.thy ===== *)
theory GrantStore
  imports GrantIndex Cascade SubsetProps
begin

text \<open>
  \<open>cap-grant/src/store.rs\<close>: the in-memory grant store with its secondary indexes and its dual write
  to the durable index. The locked maps of the struct are the fields of the record \<open>store\<close>; the event
  bus is the log of the events emitted so far. A method is a state-passing function that returns its
  result and the store it leaves, on errors too. Calls run one after the other: the windows
  between the phases of two concurrent calls, which the comments of the source discuss, are not part
  of this model. The clock readings and the fresh UUID of a method are its arguments.
\<close>

section \<open>The store\<close>

record store =
  s_grants :: "(rstr, grant) hmap"
  s_by_grantee :: "(rstr, rstr list) hmap"
  s_by_issuer :: "(rstr, rstr list) hmap"
  s_provenance :: "(rstr, rstr list) hmap"
  s_narrow_in_progress :: "rstr list"
  s_sqlite :: sqlite
  s_event_bus :: "event list"

type_synonym 'a store_op = "store \<Rightarrow> 'a result \<times> store"

definition new_store :: "sqlite \<Rightarrow> store" where
  "new_store db = \<lparr>s_grants = [], s_by_grantee = [], s_by_issuer = [], s_provenance = [],
     s_narrow_in_progress = [], s_sqlite = db, s_event_bus = []\<rparr>"

definition emit :: "event \<Rightarrow> store \<Rightarrow> store" where
  "emit e s = s\<lparr>s_event_bus := s_event_bus s @ [e]\<rparr>"

definition emit_all :: "event list \<Rightarrow> store \<Rightarrow> store" where
  "emit_all es s = s\<lparr>s_event_bus := s_event_bus s @ es\<rparr>"

text \<open>The calls into the durable index, and the two writes of the primary map.\<close>

definition sql_upsert :: "chrono \<Rightarrow> serde \<Rightarrow> grant \<Rightarrow> unit store_op" where
  "sql_upsert ch sd g s = (let (r, db) = upsert_grant ch sd (s_sqlite s) g in (r, s\<lparr>s_sqlite := db\<rparr>))"

definition sql_status :: "rstr \<Rightarrow> grant_status \<Rightarrow> unit store_op" where
  "sql_status i st s = (let (r, db) = update_status (s_sqlite s) i st in (r, s\<lparr>s_sqlite := db\<rparr>))"

definition put_grant :: "grant \<Rightarrow> store \<Rightarrow> store" where
  "put_grant g s = s\<lparr>s_grants := AList.update (g_id g) g (s_grants s)\<rparr>"

definition set_status :: "rstr \<Rightarrow> grant_status \<Rightarrow> store \<Rightarrow> store" where
  "set_status i st s = s\<lparr>s_grants := AList.map_entry i (\<lambda>g. g\<lparr>g_status := st\<rparr>) (s_grants s)\<rparr>"

definition is_agent_or_bare_id :: "rstr \<Rightarrow> bool" where
  "is_agent_or_bare_id s =
     (case strip_prefix (lit ''agent:'') s of
        Some body \<Rightarrow> body \<noteq> [] \<and> list_all (\<lambda>b. is_ascii_alphanumeric b \<or> b = 95 \<or> b = 45) body
      | None \<Rightarrow> colon \<notin> set s)"

section \<open>Insertion and lookup\<close>

definition write_in_memory :: "grant \<Rightarrow> store \<Rightarrow> store" where
  "write_in_memory g s =
     s\<lparr>s_by_grantee := index_add (g_grantee g) (g_id g) (s_by_grantee s),
       s_by_issuer := (case g_issuer g of
           Parent p \<Rightarrow> index_add p (g_id g) (s_by_issuer s) | _ \<Rightarrow> s_by_issuer s),
       s_provenance := (case g_provenance g of
           Delegated p \<Rightarrow> index_add p (g_id g) (s_provenance s) | _ \<Rightarrow> s_provenance s)\<rparr>"

definition insert_grant :: "chrono \<Rightarrow> serde \<Rightarrow> grant \<Rightarrow> rstr store_op" where
  "insert_grant ch sd g0 s =
     (if g_grantee g0 = [] then sfail (InvalidConfig ''grantee must not be empty'') s
      else if g_capability g0 = [] then sfail (InvalidConfig ''capability must not be empty'') s
      else if colon \<in> set (g_grantee g0) then sfail (InvalidConfig ''grantee contains a colon'') s
      else if colon \<in> set (g_capability g0) then sfail (InvalidConfig ''capability contains a colon'') s
      else
        (let g = (case map_of (s_grants s) (g_id g0) of
                    Some existing \<Rightarrow> g0\<lparr>g_created_at := g_created_at existing\<rparr> | None \<Rightarrow> g0) in
         sbind (sql_upsert ch sd g)
           (\<lambda>_ s1. sreturn (g_id g) (emit (grant_issued_event ch g) (write_in_memory g (put_grant g s1)))) s))"

definition insert_no_dual_write :: "grant \<Rightarrow> store \<Rightarrow> store" where
  "insert_no_dual_write g s = put_grant g (write_in_memory g s)"

definition get :: "store \<Rightarrow> rstr \<Rightarrow> grant option" where
  "get s i = map_of (s_grants s) i"

definition list_by_grantee :: "store \<Rightarrow> rstr \<Rightarrow> grant list" where
  "list_by_grantee s grantee = List.map_filter (\<lambda>i. map_of (s_grants s) i) (index_get (s_by_grantee s) grantee)"

definition list_by_issuer_parent :: "store \<Rightarrow> rstr \<Rightarrow> grant list" where
  "list_by_issuer_parent s p = List.map_filter (\<lambda>i. map_of (s_grants s) i) (index_get (s_by_issuer s) p)"

definition validate_dynamic_grant_shape :: "grant \<Rightarrow> unit result" where
  "validate_dynamic_grant_shape g =
     (if g_grantee g = [] then Inl (InvalidConfig ''grantee must not be empty'')
      else if g_capability g = [] then Inl (InvalidConfig ''capability must not be empty'')
      else if g_id g = [] then Inl (InvalidConfig ''grant id must not be empty'')
      else if g_provenance g = StaticConfig
      then Inl (InvalidConfig ''dynamic insert rejects StaticConfig'')
      else Inr ())"

definition insert_dynamic_inner :: "chrono \<Rightarrow> serde \<Rightarrow> grant \<Rightarrow> rstr store_op" where
  "insert_dynamic_inner ch sd g s =
     (if g_grantee g = [] then sfail (InvalidConfig ''grantee must not be empty'') s
      else if g_capability g = [] then sfail (InvalidConfig ''capability must not be empty'') s
      else if g_id g = [] then sfail (InvalidConfig ''grant id must not be empty'') s
      else if g_provenance g = StaticConfig
      then sfail (InvalidConfig ''dynamic insert rejects StaticConfig'') s
      else if (case g_provenance g of Delegated p \<Rightarrow> map_of (s_grants s) p = None | _ \<Rightarrow> False)
      then sfail (InvalidConfig ''parent grant does not exist'') s
      else sbind (sql_upsert ch sd g)
             (\<lambda>_ s1. sreturn (g_id g) (emit (grant_issued_event ch g) (write_in_memory g (put_grant g s1)))) s)"

definition insert_dynamic :: "chrono \<Rightarrow> serde \<Rightarrow> grant \<Rightarrow> rstr store_op" where
  "insert_dynamic ch sd g s =
     (case g_provenance g of
        Delegated p \<Rightarrow>
          (if p \<in> set (s_narrow_in_progress s)
           then sfail (InvalidConfig ''cascade in progress against the parent'') s
           else if map_of (s_grants s) p = None
           then sfail (InvalidConfig ''parent grant does not exist'') s
           else insert_dynamic_inner ch sd g s)
      | _ \<Rightarrow> insert_dynamic_inner ch sd g s)"

section \<open>Status changes\<close>

text \<open>The inner block of every revocation loop: flip an active grant, and hand out its snapshot.\<close>

definition flip_active :: "grant_status \<Rightarrow> rstr \<Rightarrow> store \<Rightarrow> grant option \<times> store" where
  "flip_active st i s =
     (case map_of (s_grants s) i of
        Some g \<Rightarrow> if g_status g = Active then (Some g, set_status i st s) else (None, s)
      | None \<Rightarrow> (None, s))"

definition consume :: "rstr \<Rightarrow> rstr \<Rightarrow> unit store_op" where
  "consume i fn s =
     (if fn = [] then sfail (InvalidConfig ''consumed_by_function must not be empty'') s
      else if str_len fn > 256 then sfail (InvalidConfig ''consumed_by_function exceeds 256 bytes'') s
      else if list_ex is_control fn
      then sfail (InvalidConfig ''consumed_by_function contains control characters'') s
      else
        (case map_of (s_grants s) i of
           None \<Rightarrow> sfail (NotFound i) s
         | Some g \<Rightarrow>
             (if g_status g \<noteq> Active then sfail (NotFound i) s
              else if g_ttl g \<noteq> Once then sfail (InvalidConfig ''consume on a non-Once grant'') s
              else sbind (sql_status (g_id g) Consumed)
                     (\<lambda>_ s2. sreturn ()
                        (emit (grant_consumed_event (g_id g) (g_grantee g) (g_capability g) fn) s2))
                     (set_status i Consumed s))))"

fun expire_flips :: "rstr list \<Rightarrow> store \<Rightarrow> grant list \<times> store" where
  "expire_flips [] s = ([], s)"
| "expire_flips (i # is) s =
     (case flip_active Expired i s of
        (None, s1) \<Rightarrow> expire_flips is s1
      | (Some g, s1) \<Rightarrow> (let (gs, s2) = expire_flips is s1 in (g # gs, s2)))"

fun sql_status_each :: "grant_status \<Rightarrow> grant list \<Rightarrow> unit store_op" where
  "sql_status_each st [] s = sreturn () s"
| "sql_status_each st (g # gs) s = sbind (sql_status (g_id g) st) (\<lambda>_. sql_status_each st gs) s"

definition expire_ids :: "chrono \<Rightarrow> rstr list \<Rightarrow> nat store_op" where
  "expire_ids ch is s =
     (let (gs, s1) = expire_flips is s in
      sbind (sql_status_each Expired gs)
        (\<lambda>_ s2. sreturn (length gs)
           (emit_all (map (\<lambda>g. grant_expired_event ch (g_id g) (g_grantee g) (g_capability g) (g_ttl g)) gs) s2))
        s1)"

text \<open>The loop that revokes the listed ids one by one, each in memory first and then in the durable
  index; \<open>ev\<close> gives the events emitted inside the loop. It returns the grants it revoked with
  the tag of their position.\<close>

fun revoke_loop :: "(grant \<Rightarrow> event list) \<Rightarrow> (bool \<times> rstr) list \<Rightarrow> (grant \<times> bool) list store_op" where
  "revoke_loop ev [] s = sreturn [] s"
| "revoke_loop ev ((is_root, i) # is) s =
     (case flip_active Revoked i s of
        (None, s1) \<Rightarrow> revoke_loop ev is s1
      | (Some g, s1) \<Rightarrow>
          sbind (sql_status (g_id g) Revoked)
            (\<lambda>_ s2. sbind (revoke_loop ev is)
              (\<lambda>rest. sreturn ((g, is_root) # rest)) (emit_all (ev g) s2)) s1)"

definition revoke_by_grantee :: "rstr \<Rightarrow> rstr list store_op" where
  "revoke_by_grantee grantee s =
     (let by = lit ''grantee-terminate:'' @ grantee in
      sbind (revoke_loop (\<lambda>g. [grant_revoked_event (g_id g) (g_grantee g) (g_capability g) by 0])
               (map (Pair False) (index_get (s_by_grantee s) grantee)))
        (\<lambda>applied. sreturn (map (g_id \<circ> fst) applied)) s)"

text \<open>The \<open>NarrowInProgressGuard\<close>: its drop removes the id on every path out of the body.\<close>

definition with_narrow_guard :: "rstr \<Rightarrow> 'a store_op \<Rightarrow> 'a store_op" where
  "with_narrow_guard i body s =
     (let (r, s') = body (s\<lparr>s_narrow_in_progress := List.insert i (s_narrow_in_progress s)\<rparr>)
      in (r, s'\<lparr>s_narrow_in_progress := removeAll i (s_narrow_in_progress s')\<rparr>))"

definition cascade_events :: "rstr \<Rightarrow> (grant \<times> bool) list \<Rightarrow> event list" where
  "cascade_events by applied =
     map (\<lambda>(g, is_root). grant_revoked_event (g_id g) (g_grantee g) (g_capability g) by
            (if is_root then length (filter (\<lambda>(_, r). \<not> r) applied) else 0)) applied"

definition cascade_body :: "rstr \<Rightarrow> rstr \<Rightarrow> cascade_result store_op" where
  "cascade_body root by s =
     (let descendants = walk_descendants (s_provenance s) root in
      case map_of (s_grants s) root of
        None \<Rightarrow> sfail (NotFound root) s
      | Some g \<Rightarrow>
          (if g_status g \<noteq> Active then sfail (NotFound root) s
           else sbind (revoke_loop (\<lambda>_. []) ((True, root) # map (Pair False) descendants))
             (\<lambda>applied s1. sreturn
                \<lparr>cr_root_id = root, cr_revoked = map (g_id \<circ> fst) applied,
                 cr_cascade_count = length (filter (\<lambda>(_, r). \<not> r) applied)\<rparr>
                (emit_all (cascade_events by applied) s1)) s))"

definition cascade_revoke_with_reason :: "rstr \<Rightarrow> rstr \<Rightarrow> cascade_result store_op" where
  "cascade_revoke_with_reason root by s =
     (if root \<in> set (s_narrow_in_progress s) then sfail (NotFound root) s
      else with_narrow_guard root (cascade_body root by) s)"

definition cascade_revoke :: "rstr \<Rightarrow> cascade_result store_op" where
  "cascade_revoke root = cascade_revoke_with_reason root (lit ''cascade-revoke'')"

text \<open>The ids a parent-terminate cascade visits: each root and its descendants, without repetition.\<close>

fun issuer_targets :: "(rstr, rstr list) hmap \<Rightarrow> rstr list \<Rightarrow> rstr list \<Rightarrow> rstr list" where
  "issuer_targets prov [] all = all"
| "issuer_targets prov (root # roots) all =
     issuer_targets prov roots
       (foldl (\<lambda>acc d. if d \<in> set acc then acc else acc @ [d]) all (root # walk_descendants prov root))"

definition cascade_by_issuer :: "rstr \<Rightarrow> cascade_result store_op" where
  "cascade_by_issuer parent s =
     (let root_ids = sort (index_get (s_by_issuer s) parent);
          all = issuer_targets (s_provenance s) root_ids [];
          by = lit ''parent-terminate:'' @ parent in
      sbind (revoke_loop (\<lambda>g. [grant_revoked_event (g_id g) (g_grantee g) (g_capability g) by 0])
               (map (Pair False) all))
        (\<lambda>applied. sreturn
           \<lparr>cr_root_id = (case root_ids of [] \<Rightarrow> [] | r # _ \<Rightarrow> r),
            cr_revoked = map (g_id \<circ> fst) applied,
            cr_cascade_count = length (filter (\<lambda>(g, _). g_id g \<notin> set root_ids) applied)\<rparr>) s)"

definition collect_expired_ids :: "instant \<Rightarrow> store \<Rightarrow> rstr list" where
  "collect_expired_ids now s =
     map (\<lambda>e. g_id (snd e))
       (filter (\<lambda>e. g_status (snd e) = Active
                   \<and> (case g_expires_at (snd e) of Some t \<Rightarrow> t \<le> now | None \<Rightarrow> False)) (s_grants s))"

section \<open>Preset application\<close>

text \<open>The active, non-static grants of the grantee, sorted.\<close>

definition dynamic_roots :: "rstr \<Rightarrow> store \<Rightarrow> rstr list" where
  "dynamic_roots grantee s =
     sort (filter (\<lambda>i. case map_of (s_grants s) i of
                        Some g \<Rightarrow> g_status g = Active \<and> g_provenance g \<noteq> StaticConfig
                      | None \<Rightarrow> False)
             (index_get (s_by_grantee s) grantee))"

text \<open>One root: which of its subtree is still active, and the active set afterwards.\<close>

fun preset_local :: "store \<Rightarrow> (bool \<times> rstr) list \<Rightarrow> rstr list \<Rightarrow> (grant \<times> bool) list \<times> rstr list" where
  "preset_local s [] active = ([], active)"
| "preset_local s ((is_root, i) # is) active =
     (if i \<notin> set active then preset_local s is active
      else
        (let (rest, active') = preset_local s is (removeAll i active) in
         (case map_of (s_grants s) i of
            Some g \<Rightarrow> if g_status g = Active then (g, is_root) # rest else rest
          | None \<Rightarrow> rest, active')))"

fun preset_revocations :: "store \<Rightarrow> rstr list \<Rightarrow> rstr list \<Rightarrow> (grant \<times> nat) list" where
  "preset_revocations s [] active = []"
| "preset_revocations s (root # roots) active =
     (if root \<notin> set active then preset_revocations s roots active
      else
        (let (local, active') =
               preset_local s ((True, root) # map (Pair False) (walk_descendants (s_provenance s) root)) active;
             descendants = length (filter (\<lambda>(_, r). \<not> r) local) in
         map (\<lambda>(g, is_root). (g, if is_root then descendants else 0)) local
           @ preset_revocations s roots active'))"

definition active_ids :: "store \<Rightarrow> rstr list" where
  "active_ids s = map fst (filter (\<lambda>e. g_status (snd e) = Active) (s_grants s))"

definition revoke_in_memory :: "rstr list \<Rightarrow> store \<Rightarrow> store" where
  "revoke_in_memory is s = foldl (\<lambda>s i. snd (flip_active Revoked i s)) s is"

definition install_all :: "grant list \<Rightarrow> store \<Rightarrow> store" where
  "install_all gs s = foldl (\<lambda>s g. write_in_memory g (put_grant g s)) s gs"

definition apply_preset_atomic_for_grantee ::
    "chrono \<Rightarrow> serde \<Rightarrow> rstr \<Rightarrow> grant list \<Rightarrow> (rstr list \<times> rstr list) store_op" where
  "apply_preset_atomic_for_grantee ch sd grantee created s =
     sbind (slift (collect_results validate_dynamic_grant_shape created)) (\<lambda>_ s.
       let revoked = preset_revocations s (dynamic_roots grantee s) (active_ids s);
           revoked_ids = map (g_id \<circ> fst) revoked;
           by = lit ''preset-apply:'' @ grantee;
           (r, db) = apply_preset_atomic ch sd (s_sqlite s) revoked_ids created;
           s1 = s\<lparr>s_sqlite := db\<rparr> in
       case r of
         Inl e \<Rightarrow> (Inl e, s1)
       | Inr _ \<Rightarrow>
           sreturn (revoked_ids, map g_id created)
             (emit_all (map (grant_issued_event ch) created)
               (emit_all (map (\<lambda>(g, n). grant_revoked_event (g_id g) (g_grantee g) (g_capability g) by n) revoked)
                 (install_all created (revoke_in_memory revoked_ids s1))))) s"

fun revoke_roots :: "rstr \<Rightarrow> rstr list \<Rightarrow> rstr list store_op" where
  "revoke_roots by [] s = sreturn [] s"
| "revoke_roots by (root # roots) s =
     (case cascade_revoke_with_reason root by s of
        (Inr res, s1) \<Rightarrow> sbind (revoke_roots by roots) (\<lambda>rest. sreturn (cr_revoked res @ rest)) s1
      | (Inl (NotFound _), s1) \<Rightarrow> revoke_roots by roots s1
      | (Inl e, s1) \<Rightarrow> (Inl e, s1))"

definition revoke_dynamic_for_grantee :: "rstr \<Rightarrow> rstr list store_op" where
  "revoke_dynamic_for_grantee grantee s =
     revoke_roots (lit ''preset-apply:'' @ grantee) (dynamic_roots grantee s) s"

section \<open>Narrowing\<close>

definition MAX_PARAMS_ENTRIES :: nat where "MAX_PARAMS_ENTRIES = 64"
definition MAX_PARAMS_BYTES :: nat where "MAX_PARAMS_BYTES = 4096"

definition params_bytes :: "cap_param list \<Rightarrow> nat" where
  "params_bytes ps = sum_list (map (\<lambda>p. str_len (p_key p) + str_len (p_value p)) ps)"

definition check_params_size :: "cap_param list \<Rightarrow> unit result" where
  "check_params_size ps =
     (if length ps > MAX_PARAMS_ENTRIES then Inl (InvalidConfig ''params exceed the entry cap'')
      else if params_bytes ps > MAX_PARAMS_BYTES then Inl (InvalidConfig ''params exceed the byte cap'')
      else Inr ())"

definition narrow_caller_ok :: "rstr \<Rightarrow> unit result" where
  "narrow_caller_ok caller =
     (if caller = [] then Inl (InvalidConfig ''narrow: caller_id must not be empty'')
      else if str_len caller > 256 then Inl (InvalidConfig ''narrow: caller_id exceeds 256 bytes'')
      else if \<not> is_agent_or_bare_id caller then Inl (InvalidConfig ''narrow: caller_id malformed'')
      else if list_ex is_control caller
      then Inl (InvalidConfig ''narrow: caller_id contains control characters'')
      else Inr ())"

definition narrow_existing :: "rstr \<Rightarrow> store \<Rightarrow> grant result" where
  "narrow_existing i s =
     (case map_of (s_grants s) i of
        Some g \<Rightarrow> if g_status g = Active then Inr g else Inl (NotFound i)
      | None \<Rightarrow> Inl (NotFound i))"

definition narrow_expires_at :: "chrono \<Rightarrow> instant \<Rightarrow> grant \<Rightarrow> instant option" where
  "narrow_expires_at ch now existing =
     (case g_ttl existing of
        Once \<Rightarrow> None
      | Lifecycle \<Rightarrow> None
      | Persistent \<Rightarrow> None
      | Duration ms \<Rightarrow>
          (let naive_new = saturating_deadline ch now ms in
           (case g_expires_at existing of
              Some parent_exp \<Rightarrow> Some (min naive_new parent_exp)
            | None \<Rightarrow> Some naive_new))
      | Until t \<Rightarrow> Some t)"

definition narrowed_grant :: "chrono \<Rightarrow> instant \<Rightarrow> rstr \<Rightarrow> rstr \<Rightarrow> cap_param list \<Rightarrow> grant \<Rightarrow> grant" where
  "narrowed_grant ch now new_id grant_id new_params existing =
     \<lparr>g_id = new_id, g_grantee = g_grantee existing, g_capability = g_capability existing,
      g_params = new_params, g_ttl = g_ttl existing, g_issuer = g_issuer existing,
      g_provenance = Delegated grant_id, g_status = Active, g_created_at = now,
      g_expires_at = narrow_expires_at ch now existing\<rparr>"

definition narrow ::
    "chrono \<Rightarrow> serde \<Rightarrow> (grant \<Rightarrow> grant_draft \<Rightarrow> unit result) \<Rightarrow> instant \<Rightarrow> rstr
       \<Rightarrow> rstr \<Rightarrow> cap_param list \<Rightarrow> rstr \<Rightarrow> rstr store_op" where
  "narrow ch sd validator now new_id grant_id new_params caller s =
     sbind (slift (narrow_caller_ok caller)) (\<lambda>_.
     sbind (\<lambda>s. slift (narrow_existing grant_id s) s) (\<lambda>existing.
     sbind (slift (check_params_size new_params)) (\<lambda>_.
     sbind (slift (if caller \<noteq> g_grantee existing
                   then Inl (PermissionDenied ''narrow: caller is not the grantee'') else Inr ())) (\<lambda>_.
     sbind (slift (validator existing
              \<lparr>d_capability = g_capability existing, d_params = new_params, d_ttl = g_ttl existing\<rparr>)) (\<lambda>_.
     sbind (cascade_revoke_with_reason grant_id (lit ''narrow'')) (\<lambda>_.
     sbind (insert_dynamic ch sd (narrowed_grant ch now new_id grant_id new_params existing)) (\<lambda>inserted_id s'.
       sreturn inserted_id
         (emit (grant_narrowed_event inserted_id (g_params existing) new_params caller) s')))))))) s"

section \<open>Delegation\<close>

text \<open>Step 1: the format gates on the three identifiers and the self-delegation guard.\<close>

definition delegate_parent_id_ok :: "rstr \<Rightarrow> unit result" where
  "delegate_parent_id_ok parent_grant_id =
     (if parent_grant_id = [] then Inl (InvalidConfig ''delegate: parent_grant_id must not be empty'')
      else if str_len parent_grant_id > 256
      then Inl (InvalidConfig ''delegate: parent_grant_id exceeds 256 bytes'')
      else if list_ex is_control parent_grant_id
      then Inl (InvalidConfig ''delegate: parent_grant_id contains control characters'')
      else Inr ())"

definition delegate_agents_ok :: "rstr \<Rightarrow> rstr \<Rightarrow> unit result" where
  "delegate_agents_ok caller child =
     (if caller = [] then Inl (InvalidConfig ''delegate: caller_id must not be empty'')
      else if child = [] then Inl (InvalidConfig ''delegate: child_agent must not be empty'')
      else if \<not> is_agent_or_bare_id caller then Inl (InvalidConfig ''delegate: caller_id malformed'')
      else if \<not> is_agent_or_bare_id child then Inl (InvalidConfig ''delegate: child_agent malformed'')
      else if list_ex is_control caller
      then Inl (InvalidConfig ''delegate: caller_id contains control characters'')
      else if list_ex is_control child
      then Inl (InvalidConfig ''delegate: child_agent contains control characters'')
      else if str_len caller > 256 then Inl (InvalidConfig ''delegate: caller_id exceeds 256 bytes'')
      else if str_len child > 256 then Inl (InvalidConfig ''delegate: child_agent exceeds 256 bytes'')
      else if caller = child then Inl (InvalidConfig ''delegate: self-delegation forbidden'')
      else Inr ())"

text \<open>Steps 3 to 5: the parent grant, with one error for every reason it is not usable.\<close>

definition delegate_parent :: "instant \<Rightarrow> rstr \<Rightarrow> rstr \<Rightarrow> store \<Rightarrow> grant result" where
  "delegate_parent now_check parent_grant_id caller s =
     (let denied = Inl (PermissionDenied ''delegate: parent grant not usable by the caller'') in
      case map_of (s_grants s) parent_grant_id of
        Some p \<Rightarrow>
          (if g_status p = Active \<and> g_grantee p = caller \<and> unexpired now_check p
           then (if parent_grant_id \<in> set (s_narrow_in_progress s)
                 then Inl (InvalidConfig ''delegate: cascade in progress against the parent'')
                 else Inr p)
           else denied)
      | None \<Rightarrow> denied)"

fun ttl_kind_allows :: "grant_ttl \<Rightarrow> grant_ttl \<Rightarrow> unit result" where
  "ttl_kind_allows Persistent _ = Inr ()"
| "ttl_kind_allows Once _ = Inl (SubsetViolation ''delegate: parent ttl Once cannot be delegated'')"
| "ttl_kind_allows Lifecycle Once = Inr ()"
| "ttl_kind_allows Lifecycle Lifecycle = Inr ()"
| "ttl_kind_allows Lifecycle _ =
     Inl (SubsetViolation ''delegate: parent ttl Lifecycle permits Once or Lifecycle'')"
| "ttl_kind_allows (Duration _) Lifecycle =
     Inl (SubsetViolation ''delegate: Lifecycle child of a time-bounded parent'')"
| "ttl_kind_allows (Until _) Lifecycle =
     Inl (SubsetViolation ''delegate: Lifecycle child of a time-bounded parent'')"
| "ttl_kind_allows (Duration _) _ = Inr ()"
| "ttl_kind_allows (Until _) _ = Inr ()"

fun native_expires_at :: "chrono \<Rightarrow> instant \<Rightarrow> grant_ttl \<Rightarrow> instant option" where
  "native_expires_at ch now (Duration ms) = Some (saturating_deadline ch now ms)"
| "native_expires_at ch now (Until t) = Some t"
| "native_expires_at ch now _ = None"

fun clamp_deadline :: "instant option \<Rightarrow> instant option \<Rightarrow> instant option" where
  "clamp_deadline (Some c) (Some p) = Some (min c p)"
| "clamp_deadline (Some c) None = Some c"
| "clamp_deadline None (Some p) = Some p"
| "clamp_deadline None None = None"

definition delegated_grant ::
    "chrono \<Rightarrow> instant \<Rightarrow> rstr \<Rightarrow> rstr \<Rightarrow> rstr \<Rightarrow> grant_draft \<Rightarrow> grant \<Rightarrow> grant" where
  "delegated_grant ch now new_id caller child draft parent =
     \<lparr>g_id = new_id, g_grantee = child, g_capability = g_capability parent,
      g_params = d_params draft, g_ttl = d_ttl draft, g_issuer = Parent caller,
      g_provenance = Delegated (g_id parent), g_status = Active, g_created_at = now,
      g_expires_at = clamp_deadline (native_expires_at ch now (d_ttl draft)) (g_expires_at parent)\<rparr>"

definition delegate_grant ::
    "chrono \<Rightarrow> serde \<Rightarrow> (grant \<Rightarrow> grant_draft \<Rightarrow> unit result) \<Rightarrow> instant \<Rightarrow> instant \<Rightarrow> rstr
       \<Rightarrow> rstr \<Rightarrow> rstr \<Rightarrow> grant_draft \<Rightarrow> rstr \<Rightarrow> rstr store_op" where
  "delegate_grant ch sd validator now_check now new_id parent_grant_id child draft caller s =
     sbind (slift (delegate_parent_id_ok parent_grant_id)) (\<lambda>_.
     sbind (slift (delegate_agents_ok caller child)) (\<lambda>_.
     sbind (\<lambda>s. slift (delegate_parent now_check parent_grant_id caller s) s) (\<lambda>parent.
     sbind (slift (check_params_size (d_params draft))) (\<lambda>_.
     sbind (slift (validator parent draft)) (\<lambda>_.
     sbind (slift (ttl_kind_allows (g_ttl parent) (d_ttl draft))) (\<lambda>_.
     sbind (insert_dynamic_inner ch sd (delegated_grant ch now new_id caller child draft parent)) (\<lambda>inserted_id s'.
       sreturn inserted_id
         (emit (grant_delegated_event inserted_id (g_id parent) caller child (g_capability parent)
                  (d_params draft)) s')))))))) s"

end
