(* ===== verification/StoreInv.thy ===== *)
theory StoreInv
  imports GrantStore
begin

text \<open>
  What every method of the store respects. The locale \<open>store_relation\<close> is the contract of a relation
  between the state before and after: reflexive, transitive, and respected by the primitive
  writes (a flip of an active grant, its durable copy, the dual write of a fresh grant, the preset
  transaction, an emitted event). Its lemmas show, once, that every method respects such a relation;
  the interpretations give the invariant of the indexes, the progress of the statuses, and the
  agreement of memory with the durable index under failures. \<open>store_step\<close> is the step relation of the
  store, and the last section lifts the three to all reachable states.
\<close>

section \<open>Fields after each primitive\<close>

definition keyed :: "store \<Rightarrow> bool" where
  "keyed s \<longleftrightarrow> distinct (map fst (s_grants s)) \<and> (\<forall>i g. map_of (s_grants s) i = Some g \<longrightarrow> g_id g = i)"

lemma keyedD: "keyed s \<Longrightarrow> map_of (s_grants s) i = Some g \<Longrightarrow> g_id g = i"
  unfolding keyed_def by blast

lemma keyedI: "distinct (map fst (s_grants s)) \<Longrightarrow> (\<And>i g. map_of (s_grants s) i = Some g \<Longrightarrow> g_id g = i) \<Longrightarrow> keyed s"
  unfolding keyed_def by blast

lemma emit_emit_all: "emit e s = emit_all [e] s"
  by (simp add: emit_def emit_all_def)

lemma emit_all_fields [simp]:
  "s_grants (emit_all es s) = s_grants s" "s_by_grantee (emit_all es s) = s_by_grantee s"
  "s_by_issuer (emit_all es s) = s_by_issuer s" "s_provenance (emit_all es s) = s_provenance s"
  "s_narrow_in_progress (emit_all es s) = s_narrow_in_progress s" "s_sqlite (emit_all es s) = s_sqlite s"
  "s_event_bus (emit_all es s) = s_event_bus s @ es"
  by (simp_all add: emit_all_def)

lemma sql_status_fields [simp]:
  "s_grants (snd (sql_status i st s)) = s_grants s"
  "s_by_grantee (snd (sql_status i st s)) = s_by_grantee s"
  "s_by_issuer (snd (sql_status i st s)) = s_by_issuer s"
  "s_provenance (snd (sql_status i st s)) = s_provenance s"
  "s_narrow_in_progress (snd (sql_status i st s)) = s_narrow_in_progress s"
  "s_sqlite (snd (sql_status i st s)) = snd (update_status (s_sqlite s) i st)"
  "s_event_bus (snd (sql_status i st s)) = s_event_bus s"
  by (simp_all add: sql_status_def split_beta)

lemma sql_upsert_fields [simp]:
  "s_grants (snd (sql_upsert ch sd g s)) = s_grants s"
  "s_by_grantee (snd (sql_upsert ch sd g s)) = s_by_grantee s"
  "s_by_issuer (snd (sql_upsert ch sd g s)) = s_by_issuer s"
  "s_provenance (snd (sql_upsert ch sd g s)) = s_provenance s"
  "s_narrow_in_progress (snd (sql_upsert ch sd g s)) = s_narrow_in_progress s"
  "s_sqlite (snd (sql_upsert ch sd g s)) = snd (upsert_grant ch sd (s_sqlite s) g)"
  "s_event_bus (snd (sql_upsert ch sd g s)) = s_event_bus s"
  by (simp_all add: sql_upsert_def split_beta)

lemma set_status_fields [simp]:
  "s_by_grantee (set_status i st s) = s_by_grantee s" "s_by_issuer (set_status i st s) = s_by_issuer s"
  "s_provenance (set_status i st s) = s_provenance s"
  "s_narrow_in_progress (set_status i st s) = s_narrow_in_progress s"
  "s_sqlite (set_status i st s) = s_sqlite s" "s_event_bus (set_status i st s) = s_event_bus s"
  by (simp_all add: set_status_def)

lemma set_status_grants:
  "map_of (s_grants (set_status i st s)) j =
     (if j = i then map_option (\<lambda>g. g\<lparr>g_status := st\<rparr>) (map_of (s_grants s) i)
      else map_of (s_grants s) j)"
  by (simp add: set_status_def map_of_map_entry)

definition install :: "grant \<Rightarrow> store \<Rightarrow> store" where
  "install g s = write_in_memory g (put_grant g s)"

lemma install_fields [simp]:
  "map_of (s_grants (install g s)) = (map_of (s_grants s))(g_id g \<mapsto> g)"
  "s_by_grantee (install g s) = index_add (g_grantee g) (g_id g) (s_by_grantee s)"
  "s_by_issuer (install g s) = (case g_issuer g of
      Parent p \<Rightarrow> index_add p (g_id g) (s_by_issuer s) | _ \<Rightarrow> s_by_issuer s)"
  "s_provenance (install g s) = (case g_provenance g of
      Delegated p \<Rightarrow> index_add p (g_id g) (s_provenance s) | _ \<Rightarrow> s_provenance s)"
  "s_narrow_in_progress (install g s) = s_narrow_in_progress s"
  "s_sqlite (install g s) = s_sqlite s" "s_event_bus (install g s) = s_event_bus s"
  by (simp_all add: install_def write_in_memory_def put_grant_def
      split: grant_issuer.splits grant_provenance.splits)

lemma install_all_Cons [simp]: "install_all (g # gs) s = install_all gs (install g s)"
  by (simp add: install_all_def install_def)

lemma install_all_Nil [simp]: "install_all [] s = s"
  by (simp add: install_all_def)

lemma flip_active_Some:
  "flip_active st i s = (Some g, s1) \<longleftrightarrow>
     map_of (s_grants s) i = Some g \<and> g_status g = Active \<and> s1 = set_status i st s"
  by (auto simp: flip_active_def split: option.splits)

lemma flip_active_None: "flip_active st i s = (None, s1) \<Longrightarrow> s1 = s"
  by (auto simp: flip_active_def split: option.splits if_splits)

lemma flip_active_cases:
  obtains (skip) "flip_active st i s = (None, s)"
    "\<And>g. map_of (s_grants s) i = Some g \<Longrightarrow> g_status g \<noteq> Active"
  | (flip) g where "flip_active st i s = (Some g, set_status i st s)"
    "map_of (s_grants s) i = Some g" "g_status g = Active"
proof (cases "map_of (s_grants s) i")
  case None
  then show ?thesis by (intro skip) (simp_all add: flip_active_def)
next
  case (Some g)
  then show ?thesis
    by (cases "g_status g = Active") (auto intro: skip flip simp: flip_active_def)
qed

lemma flip_active_snd_flip:
  "map_of (s_grants s) i = Some g \<Longrightarrow> g_status g = Active \<Longrightarrow> snd (flip_active st i s) = set_status i st s"
  by (simp add: flip_active_def)

text \<open>The common tail of the two single-grant insertions.\<close>

definition dual_write :: "chrono \<Rightarrow> serde \<Rightarrow> grant \<Rightarrow> rstr store_op" where
  "dual_write ch sd g = sbind (sql_upsert ch sd g)
     (\<lambda>_ s1. sreturn (g_id g) (emit (grant_issued_event ch g) (write_in_memory g (put_grant g s1))))"

lemma insert_grant_fresh:
  "map_of (s_grants s) (g_id g) = None \<Longrightarrow>
     (\<exists>e. insert_grant ch sd g s = sfail e s) \<or> insert_grant ch sd g s = dual_write ch sd g s"
  unfolding insert_grant_def dual_write_def Let_def by (auto simp only: option.case if_True split: if_split)

lemma insert_dynamic_inner_cases:
  "(\<exists>e. insert_dynamic_inner ch sd g s = sfail e s) \<or> insert_dynamic_inner ch sd g s = dual_write ch sd g s"
  unfolding insert_dynamic_inner_def dual_write_def by (auto split: if_split)

lemma insert_dynamic_cases:
  "(\<exists>e. insert_dynamic ch sd g s = sfail e s) \<or> insert_dynamic ch sd g s = dual_write ch sd g s"
  using insert_dynamic_inner_cases [of ch sd g s]
  by (auto simp: insert_dynamic_def split: grant_provenance.splits)

lemma revoke_in_memory_Cons [simp]:
  "revoke_in_memory (i # is) s = revoke_in_memory is (snd (flip_active Revoked i s))"
  by (simp add: revoke_in_memory_def)

lemma flip_active_fields [simp]:
  "s_by_grantee (snd (flip_active st i s)) = s_by_grantee s"
  "s_by_issuer (snd (flip_active st i s)) = s_by_issuer s"
  "s_provenance (snd (flip_active st i s)) = s_provenance s"
  "s_sqlite (snd (flip_active st i s)) = s_sqlite s"
  by (simp_all add: flip_active_def split: option.splits)

lemma flip_active_grants:
  "map_of (s_grants (snd (flip_active st i s))) j =
     map_option (\<lambda>g. if j = i \<and> g_status g = Active then g\<lparr>g_status := st\<rparr> else g) (map_of (s_grants s) j)"
  by (cases "map_of (s_grants s) j") (auto simp: flip_active_def set_status_grants split: option.splits)

lemma revoke_in_memory_fields [simp]:
  "s_by_grantee (revoke_in_memory is s) = s_by_grantee s"
  "s_by_issuer (revoke_in_memory is s) = s_by_issuer s"
  "s_provenance (revoke_in_memory is s) = s_provenance s"
  "s_sqlite (revoke_in_memory is s) = s_sqlite s"
  by (induction "is" arbitrary: s) (simp_all add: revoke_in_memory_def)

lemma revoke_in_memory_grants:
  "map_of (s_grants (revoke_in_memory is s)) j =
     map_option (\<lambda>g. if j \<in> set is \<and> g_status g = Active then g\<lparr>g_status := Revoked\<rparr> else g)
       (map_of (s_grants s) j)"
proof (induction "is" arbitrary: s)
  case Nil
  then show ?case by (simp add: revoke_in_memory_def option.map_ident)
next
  case (Cons i "is")
  show ?case
    unfolding revoke_in_memory_Cons Cons.IH flip_active_grants
    by (cases "map_of (s_grants s) j") auto
qed

lemma install_all_grants:
  "map_of (s_grants (install_all gs s)) = (map_of (s_grants s))(map g_id gs [\<mapsto>] gs)"
  by (induction gs arbitrary: s) simp_all

lemma install_all_new:
  "distinct (map g_id gs) \<Longrightarrow> g \<in> set gs \<Longrightarrow> map_of (s_grants (install_all gs s)) (g_id g) = Some g"
proof (induction gs arbitrary: s)
  case (Cons h gs)
  show ?case
  proof (cases "g = h")
    case True
    with Cons.prems show ?thesis by (simp add: install_all_grants)
  next
    case False
    with Cons.prems show ?thesis using Cons.IH [of "install h s"] by simp
  qed
qed simp

lemma install_all_old:
  "j \<notin> g_id ` set gs \<Longrightarrow> map_of (s_grants (install_all gs s)) j = map_of (s_grants s) j"
  by (simp add: install_all_grants)

lemma install_all_sqlite [simp]: "s_sqlite (install_all gs s) = s_sqlite s"
  by (induction gs arbitrary: s) simp_all

definition fresh_all :: "grant list \<Rightarrow> store \<Rightarrow> bool" where
  "fresh_all gs s \<longleftrightarrow> distinct (map g_id gs) \<and> (\<forall>g\<in>set gs. map_of (s_grants s) (g_id g) = None)"

lemma preset_local_active:
  "(g, r) \<in> set (fst (preset_local s is active)) \<Longrightarrow>
     g_status g = Active \<and> (\<exists>i\<in>snd ` set is. map_of (s_grants s) i = Some g)"
  by (induction s "is" active rule: preset_local.induct)
    (auto simp: split_beta Let_def split: if_splits option.splits)

lemma preset_revocations_active:
  "(g, n) \<in> set (preset_revocations s roots active) \<Longrightarrow>
     g_status g = Active \<and> (\<exists>i. map_of (s_grants s) i = Some g)"
proof (induction roots arbitrary: active)
  case (Cons root roots)
  obtain loc active' where l: "preset_local s ((True, root) # map (Pair False)
      (walk_descendants (s_provenance s) root)) active = (loc, active')" by fastforce
  have "g_status h = Active \<and> (\<exists>i. map_of (s_grants s) i = Some h)" if "(h, r) \<in> set loc" for h r
    using preset_local_active [of h r s _ active] that l by (metis fst_conv)
  with Cons l show ?case
    by (auto simp del: preset_local.simps simp: Let_def split: if_splits)
qed simp

section \<open>The contract\<close>

locale store_relation =
  fixes ch :: chrono and sd :: serde
    and ok :: "grant \<Rightarrow> bool"
    and R :: "store \<Rightarrow> store \<Rightarrow> bool"
  assumes refl: "R s s"
    and trans: "R a b \<Longrightarrow> R b c \<Longrightarrow> R a c"
    and keyed: "R s s' \<Longrightarrow> keyed s \<Longrightarrow> keyed s'"
    and events: "R s (emit_all es s)"
    and in_progress: "R s (s\<lparr>s_narrow_in_progress := n\<rparr>)"
    and retire: "keyed s \<Longrightarrow> map_of (s_grants s) i = Some g \<Longrightarrow> g_status g = Active \<Longrightarrow> st \<noteq> Active
          \<Longrightarrow> R s (set_status i st s)"
    and retire_durable: "keyed s \<Longrightarrow> map_of (s_grants s) i = Some g \<Longrightarrow> g_status g = st \<Longrightarrow> st \<noteq> Active
          \<Longrightarrow> R s (snd (sql_status i st s))"
    and upsert_failed: "sql_upsert ch sd g s = (Inl e, s1) \<Longrightarrow> R s s1"
    and installed: "keyed s \<Longrightarrow> ok g \<Longrightarrow> map_of (s_grants s) (g_id g) = None
          \<Longrightarrow> sql_upsert ch sd g s = (Inr (), s1) \<Longrightarrow> R s (install g s1)"
    and preset_failed: "apply_preset_atomic ch sd (s_sqlite s) is gs = (Inl e, db) \<Longrightarrow> R s (s\<lparr>s_sqlite := db\<rparr>)"
    and preset_installed: "keyed s \<Longrightarrow> list_all ok gs \<Longrightarrow> fresh_all gs s
          \<Longrightarrow> apply_preset_atomic ch sd (s_sqlite s) is gs = (Inr (), db)
          \<Longrightarrow> \<forall>i\<in>set is. \<exists>g. map_of (s_grants s) i = Some g \<and> g_status g = Active
          \<Longrightarrow> R s (install_all gs (revoke_in_memory is (s\<lparr>s_sqlite := db\<rparr>)))"
begin

lemma event: "R s (emit e s)"
  by (simp add: emit_emit_all events)

lemma bind:
  assumes "R s (snd (m s))" and "\<And>a s1. m s = (Inr a, s1) \<Longrightarrow> R s s1 \<Longrightarrow> R s1 (snd (f a s1))"
  shows "R s (snd (sbind m f s))"
  using assms trans by (cases "m s") (fastforce simp: sbind_def split: sum.splits)

lemma dual_write:
  assumes "keyed s" "ok g" "map_of (s_grants s) (g_id g) = None"
  shows "R s (snd (dual_write ch sd g s))"
proof (cases "sql_upsert ch sd g s")
  case (Pair r s1)
  show ?thesis
  proof (cases r)
    case (Inr u)
    with Pair assms have "R s (install g s1)" by (intro installed) auto
    with Pair Inr event trans show ?thesis
      by (simp add: dual_write_def sbind_def install_def)
  qed (use Pair upsert_failed in \<open>auto simp: dual_write_def sbind_def\<close>)
qed

lemma insert_fresh:
  assumes "keyed s" "ok g" "map_of (s_grants s) (g_id g) = None"
  shows "R s (snd (insert_grant ch sd g s))"
  using insert_grant_fresh [of s g ch sd] assms dual_write refl by auto

lemma insert_dynamic:
  assumes "keyed s" "ok g" "map_of (s_grants s) (g_id g) = None"
  shows "R s (snd (insert_dynamic ch sd g s))"
  using insert_dynamic_cases [of ch sd g s] assms dual_write refl by auto

lemma insert_dynamic_inner:
  assumes "keyed s" "ok g" "map_of (s_grants s) (g_id g) = None"
  shows "R s (snd (insert_dynamic_inner ch sd g s))"
  using insert_dynamic_inner_cases [of ch sd g s] assms dual_write refl by auto

lemma retire_both:
  assumes "keyed s" "map_of (s_grants s) i = Some g" "g_status g = Active" "st \<noteq> Active"
  shows "R s (set_status i st s)" and "R (set_status i st s) (snd (sql_status (g_id g) st (set_status i st s)))"
proof -
  show 1: "R s (set_status i st s)" using assms by (rule retire)
  have "keyed (set_status i st s)" using keyed 1 assms by blast
  moreover have "g_id g = i" using assms keyedD by blast
  ultimately show "R (set_status i st s) (snd (sql_status (g_id g) st (set_status i st s)))"
    using assms by (intro retire_durable [where g = "g\<lparr>g_status := st\<rparr>"]) (simp_all add: set_status_grants)
qed

lemma consume: "keyed s \<Longrightarrow> R s (snd (consume i fn s))"
proof -
  assume k: "keyed s"
  have "R (set_status i Consumed s) (snd (sbind (sql_status (g_id g) Consumed)
          (\<lambda>_ s2. sreturn () (emit e s2)) (set_status i Consumed s)))"
    if "map_of (s_grants s) i = Some g" "g_status g = Active" for g e
    using retire_both [OF k that] by (intro bind) (auto simp: event)
  then show ?thesis
    using k retire trans refl by (auto simp: consume_def split: option.splits) blast
qed

lemma revoke_loop: "keyed s \<Longrightarrow> R s (snd (revoke_loop ev is s))"
proof (induction "is" arbitrary: s)
  case Nil
  then show ?case by (simp add: refl)
next
  case (Cons x "is")
  obtain is_root i where x: "x = (is_root, i)" by fastforce
  show ?case
  proof (cases rule: flip_active_cases [of Revoked i s])
    case skip
    with Cons x show ?thesis by simp
  next
    case (flip g)
    let ?s1 = "set_status i Revoked s"
    have 1: "R s ?s1" and 2: "R ?s1 (snd (sql_status (g_id g) Revoked ?s1))"
      using retire_both [OF Cons.prems flip(2,3), of Revoked] by auto
    have k1: "keyed ?s1" using keyed 1 Cons.prems by blast
    have "R ?s1 (snd (sbind (sql_status (g_id g) Revoked)
            (\<lambda>_ s2. sbind (revoke_loop ev is) (\<lambda>rest. sreturn ((g, is_root) # rest)) (emit_all (ev g) s2)) ?s1))"
    proof (rule bind, rule 2)
      fix u s2 assume s2: "sql_status (g_id g) Revoked ?s1 = (Inr u, s2)" and "R ?s1 s2"
      then have "keyed (emit_all (ev g) s2)" using k1 keyed events by blast
      then have "R (emit_all (ev g) s2) (snd (revoke_loop ev is (emit_all (ev g) s2)))"
        by (rule Cons.IH)
      then have "R (emit_all (ev g) s2) (snd (sbind (revoke_loop ev is)
          (\<lambda>rest. sreturn ((g, is_root) # rest)) (emit_all (ev g) s2)))"
        by (intro bind) (auto simp: refl)
      then show "R s2 (snd (sbind (revoke_loop ev is)
          (\<lambda>rest. sreturn ((g, is_root) # rest)) (emit_all (ev g) s2)))"
        using events trans by blast
    qed
    with 1 flip x trans show ?thesis by auto
  qed
qed

lemma revoke_by_grantee: "keyed s \<Longrightarrow> R s (snd (revoke_by_grantee a s))"
  unfolding revoke_by_grantee_def Let_def by (intro bind) (auto simp: revoke_loop refl)

lemma cascade_by_issuer: "keyed s \<Longrightarrow> R s (snd (cascade_by_issuer a s))"
  unfolding cascade_by_issuer_def Let_def by (intro bind) (auto simp: revoke_loop refl)

lemma cascade_body: "keyed s \<Longrightarrow> R s (snd (cascade_body root by s))"
proof -
  assume "keyed s"
  then have "R s (snd (sbind (revoke_loop ev is) (\<lambda>applied s1. sreturn (x applied) (emit_all (y applied) s1)) s))"
    for ev "is" and x :: "(grant \<times> bool) list \<Rightarrow> cascade_result" and y
    by (intro bind) (auto simp: revoke_loop events)
  then show ?thesis by (auto simp: cascade_body_def Let_def refl split: option.splits)
qed

lemma cascade_revoke_with_reason:
  assumes "keyed s"
  shows "R s (snd (cascade_revoke_with_reason root by s))"
proof -
  let ?s0 = "s\<lparr>s_narrow_in_progress := List.insert root (s_narrow_in_progress s)\<rparr>"
  have "keyed ?s0" using assms keyed in_progress by blast
  then have "R s (snd (cascade_body root by ?s0))"
    using cascade_body in_progress trans by blast
  then have "R s (snd (with_narrow_guard root (cascade_body root by) s))"
    unfolding with_narrow_guard_def Let_def split_beta snd_conv
    using in_progress trans by blast
  then show ?thesis by (simp add: cascade_revoke_with_reason_def refl)
qed

lemma revoke_roots: "keyed s \<Longrightarrow> R s (snd (revoke_roots by roots s))"
proof (induction roots arbitrary: s)
  case (Cons root roots)
  have 1: "R s (snd (cascade_revoke_with_reason root by s))"
    using Cons.prems by (rule cascade_revoke_with_reason)
  obtain r s1 where p: "cascade_revoke_with_reason root by s = (r, s1)" by fastforce
  with 1 have s1: "R s s1" by simp
  with Cons.prems keyed have "keyed s1" by blast
  with Cons.IH have "R s1 (snd (revoke_roots by roots s1))" by blast
  moreover from this have "R s1 (snd (sbind (revoke_roots by roots) (\<lambda>rest. sreturn (x @ rest)) s1))" for x
    by (intro bind) (auto simp: refl)
  ultimately show ?case
    using s1 trans p by (auto split: sum.splits cap_grant_error.splits)
qed (simp add: refl)

lemma revoke_dynamic_for_grantee: "keyed s \<Longrightarrow> R s (snd (revoke_dynamic_for_grantee a s))"
  by (simp add: revoke_dynamic_for_grantee_def revoke_roots)

lemma sql_status_each:
  assumes "keyed s" and "\<forall>g\<in>set gs. \<exists>h. map_of (s_grants s) (g_id g) = Some h \<and> g_status h = st"
    and "st \<noteq> Active"
  shows "R s (snd (sql_status_each st gs s))"
  using assms(1,2)
proof (induction gs arbitrary: s)
  case (Cons g gs)
  then obtain h where "map_of (s_grants s) (g_id g) = Some h" "g_status h = st" by auto
  then have r: "R s (snd (sql_status (g_id g) st s))"
    using Cons.prems assms(3) by (intro retire_durable) auto
  show ?case unfolding sql_status_each.simps
  proof (rule bind, rule r)
    fix u s1 assume s1: "sql_status (g_id g) st s = (Inr u, s1)" and "R s s1"
    then have "keyed s1" using Cons.prems keyed by blast
    moreover have "s_grants s1 = s_grants s" using s1 sql_status_fields(1) [of "g_id g" st s] by simp
    ultimately show "R s1 (snd (sql_status_each st gs s1))" using Cons by simp
  qed
qed (simp add: refl)

lemma expire_flips:
  "keyed s \<Longrightarrow> R s (snd (expire_flips is s)) \<and>
     (\<forall>g\<in>set (fst (expire_flips is s)).
        \<exists>h. map_of (s_grants (snd (expire_flips is s))) (g_id g) = Some h \<and> g_status h = Expired)
     \<and> (\<forall>i h. map_of (s_grants s) i = Some h \<and> g_status h = Expired \<longrightarrow>
           (\<exists>h'. map_of (s_grants (snd (expire_flips is s))) i = Some h' \<and> g_status h' = Expired))"
proof (induction "is" arbitrary: s)
  case (Cons i "is")
  show ?case
  proof (cases rule: flip_active_cases [of Expired i s])
    case skip
    with Cons show ?thesis by simp
  next
    case (flip g)
    let ?s1 = "set_status i Expired s"
    have 1: "R s ?s1" using Cons.prems flip by (intro retire) auto
    then have "keyed ?s1" using Cons.prems keyed by blast
    note IH = Cons.IH [OF this]
    have id: "g_id g = i" using Cons.prems flip keyedD by blast
    have old: "\<exists>h'. map_of (s_grants ?s1) j = Some h' \<and> g_status h' = Expired"
      if "map_of (s_grants s) j = Some h" "g_status h = Expired" for j h
      using that flip by (cases "j = i") (auto simp: set_status_grants)
    have new: "map_of (s_grants ?s1) (g_id g) = Some (g\<lparr>g_status := Expired\<rparr>)"
      using flip id by (simp add: set_status_grants)
    have "R s (snd (expire_flips is ?s1))" using 1 IH trans by blast
    moreover have "\<exists>h. map_of (s_grants (snd (expire_flips is ?s1))) (g_id g) = Some h \<and> g_status h = Expired"
      using IH new by (metis grant.select_convs(8) grant.surjective grant.update_convs(8))
    ultimately show ?thesis using IH old flip by (simp add: split_beta)
  qed
qed (simp add: refl)

lemma expire_ids: "keyed s \<Longrightarrow> R s (snd (expire_ids ch' is s))"
proof -
  assume k: "keyed s"
  note f = expire_flips [OF k, of "is"]
  then have "keyed (snd (expire_flips is s))" using k keyed by blast
  then have "R (snd (expire_flips is s)) (snd (sql_status_each Expired (fst (expire_flips is s)) (snd (expire_flips is s))))"
    using f by (intro sql_status_each) auto
  then have "R (snd (expire_flips is s)) (snd (expire_ids ch' is s))"
    unfolding expire_ids_def Let_def split_beta by (intro bind) (auto simp: events)
  with f trans show ?thesis by blast
qed

lemma apply_preset:
  assumes k: "keyed s" and "list_all ok created" and "fresh_all created s"
  shows "R s (snd (apply_preset_atomic_for_grantee ch sd a created s))"
proof -
  define rv where "rv = preset_revocations s (dynamic_roots a s) (active_ids s)"
  obtain r db where db: "apply_preset_atomic ch sd (s_sqlite s) (map (g_id \<circ> fst) rv) created = (r, db)"
    by fastforce
  show ?thesis
  proof (cases "collect_results validate_dynamic_grant_shape created")
    case (Inl e)
    then show ?thesis by (simp add: apply_preset_atomic_for_grantee_def sbind_slift refl)
  next
    case shape: (Inr u)
    show ?thesis
    proof (cases r)
      case (Inl e)
      with db have "R s (s\<lparr>s_sqlite := db\<rparr>)" by (intro preset_failed) simp
      with shape Inl db show ?thesis
        by (simp add: apply_preset_atomic_for_grantee_def sbind_slift rv_def Let_def)
    next
      case (Inr v)
      have "\<forall>i\<in>set (map (g_id \<circ> fst) rv). \<exists>g. map_of (s_grants s) i = Some g \<and> g_status g = Active"
        using preset_revocations_active [of _ _ s "dynamic_roots a s" "active_ids s"] k keyedD
        by (fastforce simp: rv_def)
      with assms db Inr have "R s (install_all created (revoke_in_memory (map (g_id \<circ> fst) rv) (s\<lparr>s_sqlite := db\<rparr>)))"
        by (intro preset_installed) auto
      with events trans have "R s (emit_all y (emit_all x (install_all created
          (revoke_in_memory (map (g_id \<circ> fst) rv) (s\<lparr>s_sqlite := db\<rparr>)))))" for x y by blast
      with shape Inr db show ?thesis
        by (simp add: apply_preset_atomic_for_grantee_def sbind_slift rv_def Let_def)
    qed
  qed
qed

end

text \<open>The keys come for free: a relation that satisfies the laws on keyed stores gives one of the
  contract.\<close>

lemma keyed_fields:
  "keyed (emit_all es s) = keyed s" "keyed (s\<lparr>s_narrow_in_progress := n\<rparr>) = keyed s"
  "keyed (snd (sql_status i st s)) = keyed s" "keyed (snd (sql_upsert ch sd g s)) = keyed s"
  "keyed (s\<lparr>s_sqlite := db\<rparr>) = keyed s"
  by (simp_all add: keyed_def)

lemma keyed_set_status: "keyed s \<Longrightarrow> keyed (set_status i st s)"
proof (rule keyedI)
  assume k: "keyed s"
  then show "distinct (map fst (s_grants (set_status i st s)))"
    by (simp add: keyed_def set_status_def)
  fix j g assume "map_of (s_grants (set_status i st s)) j = Some g"
  then show "g_id g = j" using keyedD [OF k] by (auto simp: set_status_grants split: if_splits)
qed

lemma keyed_install: "keyed s \<Longrightarrow> keyed (install g s)"
proof (rule keyedI)
  assume k: "keyed s"
  then show "distinct (map fst (s_grants (install g s)))"
    by (simp add: keyed_def install_def write_in_memory_def put_grant_def distinct_update)
  fix j h assume "map_of (s_grants (install g s)) j = Some h"
  then show "g_id h = j" using keyedD [OF k] by (auto split: if_splits)
qed

lemma keyed_install_all: "keyed s \<Longrightarrow> keyed (install_all gs s)"
  by (induction gs arbitrary: s) (simp_all add: keyed_install)

lemma keyed_grants_mem:
  "keyed s \<Longrightarrow> (i, g) \<in> set (s_grants s) \<longleftrightarrow> map_of (s_grants s) i = Some g"
  by (simp add: keyed_def)

lemma keyed_revoke_in_memory: "keyed s \<Longrightarrow> keyed (revoke_in_memory is s)"
proof (induction "is" arbitrary: s)
  case (Cons i "is")
  have "keyed (snd (flip_active Revoked i s))"
    using Cons.prems keyed_set_status by (auto simp: flip_active_def split: option.splits)
  with Cons.IH show ?case by simp
qed (simp add: revoke_in_memory_def)

locale store_property =
  fixes ch :: chrono and sd :: serde
    and ok :: "grant \<Rightarrow> bool"
    and P :: "store \<Rightarrow> store \<Rightarrow> bool"
  assumes P_refl: "P s s"
    and P_trans: "P a b \<Longrightarrow> P b c \<Longrightarrow> P a c"
    and P_events: "P s (emit_all es s)"
    and P_in_progress: "P s (s\<lparr>s_narrow_in_progress := n\<rparr>)"
    and P_retire: "keyed s \<Longrightarrow> map_of (s_grants s) i = Some g \<Longrightarrow> g_status g = Active \<Longrightarrow> st \<noteq> Active
          \<Longrightarrow> P s (set_status i st s)"
    and P_retire_durable: "keyed s \<Longrightarrow> map_of (s_grants s) i = Some g \<Longrightarrow> g_status g = st \<Longrightarrow> st \<noteq> Active
          \<Longrightarrow> P s (snd (sql_status i st s))"
    and P_upsert_failed: "fst (sql_upsert ch sd g s) = Inl e \<Longrightarrow> P s (snd (sql_upsert ch sd g s))"
    and P_installed: "keyed s \<Longrightarrow> ok g \<Longrightarrow> map_of (s_grants s) (g_id g) = None
          \<Longrightarrow> fst (sql_upsert ch sd g s) = Inr () \<Longrightarrow> P s (install g (snd (sql_upsert ch sd g s)))"
    and P_preset_failed: "apply_preset_atomic ch sd (s_sqlite s) is gs = (Inl e, db) \<Longrightarrow> P s (s\<lparr>s_sqlite := db\<rparr>)"
    and P_preset_installed: "keyed s \<Longrightarrow> list_all ok gs \<Longrightarrow> fresh_all gs s
          \<Longrightarrow> apply_preset_atomic ch sd (s_sqlite s) is gs = (Inr (), db)
          \<Longrightarrow> \<forall>i\<in>set is. \<exists>g. map_of (s_grants s) i = Some g \<and> g_status g = Active
          \<Longrightarrow> P s (install_all gs (revoke_in_memory is (s\<lparr>s_sqlite := db\<rparr>)))"

sublocale store_property \<subseteq> store_relation ch sd ok "\<lambda>s s'. (keyed s \<longrightarrow> keyed s') \<and> P s s'"
proof (unfold_locales, goal_cases)
  case (1 s)
  show ?case by (simp add: P_refl)
next
  case (2 a b c)
  then show ?case using P_trans by blast
next
  case (3 s s')
  then show ?case by blast
next
  case (4 s es)
  show ?case by (simp add: P_events keyed_fields)
next
  case (5 s n)
  show ?case by (simp add: P_in_progress keyed_fields)
next
  case (6 s i g st)
  then show ?case by (simp add: P_retire keyed_set_status)
next
  case (7 s i g st)
  then show ?case by (simp add: P_retire_durable keyed_fields)
next
  case (8 g s e s1)
  then show ?case using P_upsert_failed [of g s e] keyed_fields(4) [of ch sd g s] by simp
next
  case (9 s g s1)
  then show ?case
    using P_installed [of s g] keyed_install [of "snd (sql_upsert ch sd g s)" g] keyed_fields(4) [of ch sd g s]
    by simp
next
  case (10 s "is" gs e db)
  then show ?case using P_preset_failed by (simp add: keyed_fields)
next
  case (11 s gs "is" db)
  then show ?case using P_preset_installed keyed_install_all keyed_revoke_in_memory keyed_fields(5) by simp
qed

section \<open>Which grants there are\<close>

text \<open>Without an insertion, no method adds or removes a grant.\<close>

interpretation dk: store_property ch sd "\<lambda>_. False"
  "\<lambda>s s'. dom (map_of (s_grants s')) = dom (map_of (s_grants s))" for ch sd
proof (unfold_locales, goal_cases)
  case (5 s i g st)
  then show ?case by (auto simp: set_status_grants dom_def)
next
  case (10 s gs "is" db)
  then show ?case by (cases gs) (auto simp: revoke_in_memory_grants dom_def)
qed simp_all

text \<open>With this, the two methods that revoke or look up before they insert.\<close>

context store_relation
begin

lemma narrow:
  assumes k: "keyed s" and fresh: "map_of (s_grants s) new_id = None"
    and ok: "\<And>g. map_of (s_grants s) i = Some g \<Longrightarrow> ok (narrowed_grant ch now new_id i ps g)"
  shows "R s (snd (narrow ch sd vld now new_id i ps caller s))"
  unfolding narrow_def
proof ((rule bind; (simp add: refl; fail)?)+, goal_cases)
  case (1 u1 s1 g s2 u3 s3 u4 s4 u5 s5)
  then have "s5 = s" and g: "map_of (s_grants s) i = Some g"
    by (auto simp: slift_def narrow_existing_def split: option.splits if_splits)
  then show ?case using k cascade_revoke_with_reason by simp
next
  case (2 u1 s1 g s2 u3 s3 u4 s4 u5 s5 res s6)
  then have s5: "s5 = s" and g: "map_of (s_grants s) i = Some g"
    by (auto simp: slift_def narrow_existing_def split: option.splits if_splits)
  with 2 have "dom (map_of (s_grants s6)) = dom (map_of (s_grants s))"
    using dk.cascade_revoke_with_reason [OF k, of i "lit ''narrow''"] by simp
  then have "map_of (s_grants s6) new_id = None" using fresh by blast
  moreover have "keyed s6" using 2 k s5 keyed by blast
  ultimately have "R s6 (snd (insert_dynamic ch sd (narrowed_grant ch now new_id i ps g) s6))"
    using ok [OF g] by (intro insert_dynamic) (simp_all add: narrowed_grant_def)
  then show ?case by (rule bind) (simp add: event)
qed

lemma delegate_grant:
  assumes k: "keyed s" and fresh: "map_of (s_grants s) new_id = None"
    and ok: "\<And>g. map_of (s_grants s) pid = Some g \<Longrightarrow> ok (delegated_grant ch now new_id caller child draft g)"
  shows "R s (snd (delegate_grant ch sd vld now_check now new_id pid child draft caller s))"
  unfolding delegate_grant_def
proof ((rule bind; (simp add: refl; fail)?)+, goal_cases)
  case (1 u1 s1 u2 s2 g s3 u4 s4 u5 s5 u6 s6)
  then have s6: "s6 = s" and g: "map_of (s_grants s) pid = Some g"
    by (auto simp: slift_def delegate_parent_def Let_def split: option.splits if_splits)
  then have "R s (snd (insert_dynamic_inner ch sd (delegated_grant ch now new_id caller child draft g) s))"
    using k fresh ok [OF g] by (intro insert_dynamic_inner) (simp_all add: delegated_grant_def)
  then show ?case unfolding s6 .
qed (simp_all add: event)

end

section \<open>Statuses only advance\<close>

text \<open>A stored grant keeps its content; its status may leave \<open>Active\<close>, once.\<close>

definition evolves :: "store \<Rightarrow> store \<Rightarrow> bool" where
  "evolves s s' \<longleftrightarrow> (\<forall>i g. map_of (s_grants s) i = Some g \<longrightarrow>
     (\<exists>st. map_of (s_grants s') i = Some (g\<lparr>g_status := st\<rparr>) \<and> (g_status g \<noteq> Active \<longrightarrow> st = g_status g)))"

lemma status_unchanged [simp]:
  "\<exists>st. g = g\<lparr>g_status := st\<rparr> \<and> (g_status g \<noteq> Active \<longrightarrow> st = g_status g)"
  by (rule exI [of _ "g_status g"]) simp

lemma evolves_same: "s_grants s' = s_grants s \<Longrightarrow> evolves s s'"
  by (simp add: evolves_def)

lemma evolvesD:
  "evolves s s' \<Longrightarrow> map_of (s_grants s) i = Some g \<Longrightarrow>
     \<exists>st. map_of (s_grants s') i = Some (g\<lparr>g_status := st\<rparr>) \<and> (g_status g \<noteq> Active \<longrightarrow> st = g_status g)"
  by (simp add: evolves_def)

lemma evolves_trans:
  assumes "evolves a b" and "evolves b c"
  shows "evolves a c"
  unfolding evolves_def
proof (intro allI impI)
  fix i g assume "map_of (s_grants a) i = Some g"
  with assms(1) obtain st where b: "map_of (s_grants b) i = Some (g\<lparr>g_status := st\<rparr>)"
    "g_status g \<noteq> Active \<longrightarrow> st = g_status g" using evolvesD by blast
  from assms(2) b(1) obtain st' where "map_of (s_grants c) i = Some (g\<lparr>g_status := st'\<rparr>)"
    "st \<noteq> Active \<longrightarrow> st' = st" using evolvesD by fastforce
  with b(2) show "\<exists>st. map_of (s_grants c) i = Some (g\<lparr>g_status := st\<rparr>) \<and> (g_status g \<noteq> Active \<longrightarrow> st = g_status g)"
    by auto
qed

lemma grant_status_ident: "g_status g = st \<Longrightarrow> g\<lparr>g_status := st\<rparr> = g"
  by (cases g) simp

lemma evolves_set_status:
  assumes "map_of (s_grants s) i = Some g" "g_status g = Active"
  shows "evolves s (set_status i st s)"
  unfolding evolves_def
proof (intro allI impI)
  fix j h assume "map_of (s_grants s) j = Some h"
  with assms show "\<exists>st'. map_of (s_grants (set_status i st s)) j = Some (h\<lparr>g_status := st'\<rparr>)
      \<and> (g_status h \<noteq> Active \<longrightarrow> st' = g_status h)"
    by (cases "j = i") (auto simp: set_status_grants intro: exI [of _ "g_status h"])
qed

lemma evolves_revoke_in_memory: "evolves s (revoke_in_memory is s)"
  unfolding evolves_def
proof (intro allI impI)
  fix j h assume "map_of (s_grants s) j = Some h"
  then show "\<exists>st'. map_of (s_grants (revoke_in_memory is s)) j = Some (h\<lparr>g_status := st'\<rparr>)
      \<and> (g_status h \<noteq> Active \<longrightarrow> st' = g_status h)"
    by (cases "j \<in> set is \<and> g_status h = Active")
      (auto simp: revoke_in_memory_grants intro: exI [of _ "g_status h"])
qed

lemma evolves_install: "map_of (s_grants s) (g_id g) = None \<Longrightarrow> evolves s (install g s)"
  by (auto simp: evolves_def)

lemma evolves_install_all: "fresh_all gs s \<Longrightarrow> evolves s (install_all gs s)"
proof (induction gs arbitrary: s)
  case (Cons g gs)
  then have "evolves s (install g s)" by (simp add: fresh_all_def evolves_install)
  moreover have "evolves (install g s) (install_all gs (install g s))"
    using Cons.prems by (intro Cons.IH) (auto simp: fresh_all_def image_iff)
  ultimately show ?case by (auto intro: evolves_trans)
qed (simp add: evolves_same)

interpretation ev: store_property ch sd "\<lambda>_. True" evolves for ch sd
proof (unfold_locales, goal_cases)
  case (2 a b c)
  then show ?case by (rule evolves_trans)
next
  case (5 s i g st)
  then show ?case by (simp add: evolves_set_status)
next
  case (8 s g)
  then have "evolves (snd (sql_upsert ch sd g s)) (install g (snd (sql_upsert ch sd g s)))"
    by (intro evolves_install) simp
  with evolves_same [of "snd (sql_upsert ch sd g s)" s] show ?case by (auto intro: evolves_trans)
next
  case (10 s gs "is" db)
  let ?s = "s\<lparr>s_sqlite := db\<rparr>"
  have "evolves s ?s" by (simp add: evolves_same)
  moreover have "evolves ?s (revoke_in_memory is ?s)" by (rule evolves_revoke_in_memory)
  moreover have "fresh_all gs (revoke_in_memory is ?s)"
    using 10(3) by (simp add: fresh_all_def revoke_in_memory_grants)
  ultimately show ?case by (blast intro: evolves_trans evolves_install_all)
qed (simp_all add: evolves_same)

section \<open>The indexes list what is stored\<close>

definition indexed :: "store \<Rightarrow> bool" where
  "indexed s \<longleftrightarrow>
     (\<forall>a i. i \<in> set (index_get (s_by_grantee s) a) \<longleftrightarrow>
        (\<exists>g. map_of (s_grants s) i = Some g \<and> g_grantee g = a))
     \<and> (\<forall>p i. i \<in> set (index_get (s_by_issuer s) p) \<longleftrightarrow>
        (\<exists>g. map_of (s_grants s) i = Some g \<and> g_issuer g = Parent p))
     \<and> (\<forall>p i. i \<in> set (index_get (s_provenance s) p) \<longleftrightarrow>
        (\<exists>g. map_of (s_grants s) i = Some g \<and> g_provenance g = Delegated p))"

lemma indexed_cong:
  assumes "s_by_grantee s' = s_by_grantee s" "s_by_issuer s' = s_by_issuer s" "s_provenance s' = s_provenance s"
    and "\<And>i. map_option (\<lambda>g. (g_grantee g, g_issuer g, g_provenance g)) (map_of (s_grants s') i)
            = map_option (\<lambda>g. (g_grantee g, g_issuer g, g_provenance g)) (map_of (s_grants s) i)"
  shows "indexed s' = indexed s"
proof -
  have same: "(\<exists>g. map_of (s_grants s') i = Some g \<and> Q (g_grantee g) (g_issuer g) (g_provenance g))
      = (\<exists>g. map_of (s_grants s) i = Some g \<and> Q (g_grantee g) (g_issuer g) (g_provenance g))" for Q i
    using assms(4) [of i] by (cases "map_of (s_grants s') i"; cases "map_of (s_grants s) i") auto
  show ?thesis
    unfolding indexed_def assms(1-3)
    using same [where Q = "\<lambda>a _ _. a = b" for b] same [where Q = "\<lambda>_ a _. a = b" for b]
      same [where Q = "\<lambda>_ _ a. a = b" for b] by simp
qed

lemma indexed_fields [simp]:
  "indexed (emit_all es s) = indexed s" "indexed (s\<lparr>s_narrow_in_progress := n\<rparr>) = indexed s"
  "indexed (snd (sql_status i st s)) = indexed s" "indexed (snd (sql_upsert ch sd g s)) = indexed s"
  "indexed (s\<lparr>s_sqlite := db\<rparr>) = indexed s"
  by (simp_all add: indexed_def)

lemma indexed_set_status: "indexed (set_status i st s) = indexed s"
  by (rule indexed_cong) (simp_all add: set_status_grants option.map_comp o_def)

lemma indexed_revoke_in_memory: "indexed (revoke_in_memory is s) = indexed s"
  by (rule indexed_cong) (auto simp: revoke_in_memory_grants option.map_comp intro!: option.map_cong)

lemma indexed_install:
  assumes "indexed s" and "map_of (s_grants s) (g_id g) = None"
  shows "indexed (install g s)"
  using assms unfolding indexed_def
  by (simp add: set_index_get_add split: grant_issuer.splits grant_provenance.splits)

lemma indexed_install_all: "fresh_all gs s \<Longrightarrow> indexed s \<Longrightarrow> indexed (install_all gs s)"
proof (induction gs arbitrary: s)
  case (Cons g gs)
  then have "indexed (install g s)" by (simp add: fresh_all_def indexed_install)
  moreover have "fresh_all gs (install g s)" using Cons.prems by (auto simp: fresh_all_def image_iff)
  ultimately show ?case using Cons.IH by simp
qed simp

interpretation ix: store_property ch sd "\<lambda>_. True" "\<lambda>s s'. indexed s \<longrightarrow> indexed s'" for ch sd
proof (unfold_locales, goal_cases)
  case (8 s g)
  then show ?case by (intro impI indexed_install) simp_all
next
  case (10 s gs "is" db)
  let ?s = "revoke_in_memory is (s\<lparr>s_sqlite := db\<rparr>)"
  have "fresh_all gs ?s" using 10(3) by (simp add: fresh_all_def revoke_in_memory_grants)
  moreover have "indexed s \<Longrightarrow> indexed ?s"
    by (simp add: indexed_revoke_in_memory)
  ultimately show ?case using indexed_install_all by blast
qed (simp_all add: indexed_set_status)

section \<open>Memory and the durable index under failures\<close>

text \<open>The durable copy of a grant agrees with the one in memory in everything but the creation time
  (an upsert keeps the first one) and the status, where it may lag behind at \<open>Active\<close> when an
  update of the index failed. No active row is missing from memory.\<close>

definition durable_copy :: "grant \<Rightarrow> grant \<Rightarrow> bool" where
  "durable_copy d g \<longleftrightarrow>
     d\<lparr>g_status := g_status g, g_created_at := g_created_at g\<rparr> = g
     \<and> (g_status d = g_status g \<or> g_status d = Active)"

definition covered :: "chrono \<Rightarrow> serde \<Rightarrow> store \<Rightarrow> bool" where
  "covered ch sd s \<longleftrightarrow>
     rows_wf ch sd (sq_rows (s_sqlite s))
     \<and> (\<forall>i g. map_of (s_grants s) i = Some g \<longrightarrow>
           (\<exists>d. row_view ch sd (sq_rows (s_sqlite s)) i = Some d \<and> durable_copy d g))
     \<and> (\<forall>i d. row_view ch sd (sq_rows (s_sqlite s)) i = Some d \<and> g_status d = Active
           \<longrightarrow> i \<in> dom (map_of (s_grants s)))"

lemma durable_copy_refl [simp]: "durable_copy g g"
  by (simp add: durable_copy_def)

lemma durable_copy_created [simp]: "durable_copy (g\<lparr>g_created_at := t\<rparr>) g"
  by (simp add: durable_copy_def)

lemma durable_copy_retire:
  "durable_copy d g \<Longrightarrow> g_status g = Active \<Longrightarrow> durable_copy d (g\<lparr>g_status := st\<rparr>)"
  by (cases d; cases g) (auto simp: durable_copy_def)

lemma durable_copy_status:
  "durable_copy d g \<Longrightarrow> g_status g = st \<Longrightarrow> durable_copy (d\<lparr>g_status := st\<rparr>) g"
  by (cases d; cases g) (auto simp: durable_copy_def)

lemma durable_copy_both:
  "durable_copy d g \<Longrightarrow> durable_copy (d\<lparr>g_status := st\<rparr>) (g\<lparr>g_status := st\<rparr>)"
  by (cases d; cases g) (auto simp: durable_copy_def)

lemma coveredI:
  assumes "rows_wf ch sd (sq_rows (s_sqlite s))"
    and "\<And>i g. map_of (s_grants s) i = Some g \<Longrightarrow>
           \<exists>d. row_view ch sd (sq_rows (s_sqlite s)) i = Some d \<and> durable_copy d g"
    and "\<And>i d. row_view ch sd (sq_rows (s_sqlite s)) i = Some d \<Longrightarrow> g_status d = Active
           \<Longrightarrow> i \<in> dom (map_of (s_grants s))"
  shows "covered ch sd s"
  using assms by (auto simp: covered_def)

lemma coveredD:
  "covered ch sd s \<Longrightarrow> map_of (s_grants s) i = Some g \<Longrightarrow>
     \<exists>d. row_view ch sd (sq_rows (s_sqlite s)) i = Some d \<and> durable_copy d g"
  by (simp add: covered_def)

lemma covered_fields [simp]:
  "covered ch sd (emit_all es s) = covered ch sd s"
  "covered ch sd (s\<lparr>s_narrow_in_progress := n\<rparr>) = covered ch sd s"
  by (simp_all add: covered_def)

lemma covered_rows: "s_grants s' = s_grants s \<Longrightarrow> sq_rows (s_sqlite s') = sq_rows (s_sqlite s)
    \<Longrightarrow> covered ch sd s \<Longrightarrow> covered ch sd s'"
  by (simp add: covered_def)

text \<open>The index calls of the store, through the contract of the index.\<close>

lemma upsert_outcome:
  assumes "codec_ok ch sd" "rows_wf ch sd (sq_rows (s_sqlite s))" "storable ch g"
  shows "rows_wf ch sd (sq_rows (s_sqlite (snd (sql_upsert ch sd g s))))
     \<and> row_view ch sd (sq_rows (s_sqlite (snd (sql_upsert ch sd g s)))) =
         (if is_ok (fst (sql_upsert ch sd g s)) then abs_put (row_view ch sd (sq_rows (s_sqlite s))) g
          else row_view ch sd (sq_rows (s_sqlite s)))"
  using sqlite_op_refines [of "(ch, sd)" "s_sqlite s" "Put g"] assms
  by (simp add: sql_upsert_def split_beta)

lemma upsert_failed_rows:
  "fst (sql_upsert ch sd g s) = Inl e \<Longrightarrow>
     sq_rows (s_sqlite (snd (sql_upsert ch sd g s))) = sq_rows (s_sqlite s)"
  by (auto simp: sql_upsert_def upsert_grant_def split_beta split: sum.splits if_splits)

lemma preset_failed_rows:
  "apply_preset_atomic ch sd db is gs = (Inl e, db') \<Longrightarrow> sq_rows db' = sq_rows db"
  by (auto simp: apply_preset_atomic_def split: sum.splits if_splits)

lemma status_outcome:
  assumes "rows_wf ch sd (sq_rows (s_sqlite s))"
  shows "rows_wf ch sd (sq_rows (s_sqlite (snd (sql_status i st s))))
     \<and> (row_view ch sd (sq_rows (s_sqlite (snd (sql_status i st s)))) = row_view ch sd (sq_rows (s_sqlite s))
        \<or> row_view ch sd (sq_rows (s_sqlite (snd (sql_status i st s))))
           = abs_status (row_view ch sd (sq_rows (s_sqlite s))) i st)"
  using assms status_rows [OF assms, of i st] by (simp add: update_status_def)

lemma covered_retire:
  assumes "covered ch sd s" "map_of (s_grants s) i = Some g" "g_status g = Active"
  shows "covered ch sd (set_status i st s)"
proof (rule coveredI)
  fix j h assume "map_of (s_grants (set_status i st s)) j = Some h"
  then show "\<exists>d. row_view ch sd (sq_rows (s_sqlite (set_status i st s))) j = Some d \<and> durable_copy d h"
    using assms by (cases "j = i") (fastforce simp: covered_def set_status_grants intro: durable_copy_retire)+
next
  fix j d
  assume "row_view ch sd (sq_rows (s_sqlite (set_status i st s))) j = Some d" "g_status d = Active"
  then have "j \<in> dom (map_of (s_grants s))" using assms(1) by (simp add: covered_def)
  then show "j \<in> dom (map_of (s_grants (set_status i st s)))"
    by (auto simp: set_status_grants)
qed (use assms in \<open>simp add: covered_def\<close>)

lemma covered_retire_durable:
  assumes cov: "covered ch sd s" and i: "map_of (s_grants s) i = Some g" "g_status g = st" "st \<noteq> Active"
  shows "covered ch sd (snd (sql_status i st s))"
proof -
  let ?m = "row_view ch sd (sq_rows (s_sqlite s))"
  let ?m' = "row_view ch sd (sq_rows (s_sqlite (snd (sql_status i st s))))"
  from cov have wf: "rows_wf ch sd (sq_rows (s_sqlite s))" by (simp add: covered_def)
  show ?thesis
  proof (cases "?m' = ?m")
    case True
    with cov status_outcome [OF wf, of i st] show ?thesis by (simp add: covered_def)
  next
    case False
    with status_outcome [OF wf, of i st] have m': "?m' = abs_status ?m i st"
      and wf': "rows_wf ch sd (sq_rows (s_sqlite (snd (sql_status i st s))))" by auto
    show ?thesis
    proof (rule coveredI [OF wf'], unfold m' sql_status_fields(1))
      fix j h assume h: "map_of (s_grants s) j = Some h"
      with cov obtain d where "?m j = Some d" "durable_copy d h" using coveredD by blast
      with h i show "\<exists>d. abs_status ?m i st j = Some d \<and> durable_copy d h"
        by (cases "j = i") (auto simp: abs_status_def durable_copy_status)
    next
      fix j d assume "abs_status ?m i st j = Some d" "g_status d = Active"
      with cov i show "j \<in> dom (map_of (s_grants s))"
        by (cases "j = i") (auto simp: abs_status_def covered_def)
    qed
  qed
qed

lemma covered_install:
  assumes "codec_ok ch sd" and cov: "covered ch sd s" and "storable ch g"
    and "fst (sql_upsert ch sd g s) = Inr ()"
  shows "covered ch sd (install g (snd (sql_upsert ch sd g s)))"
proof -
  let ?m = "row_view ch sd (sq_rows (s_sqlite s))"
  let ?s1 = "install g (snd (sql_upsert ch sd g s))"
  from cov have "rows_wf ch sd (sq_rows (s_sqlite s))" by (simp add: covered_def)
  with assms upsert_outcome have wf': "rows_wf ch sd (sq_rows (s_sqlite ?s1))"
    and m': "row_view ch sd (sq_rows (s_sqlite ?s1)) = abs_put ?m g" by simp_all
  show ?thesis
  proof (rule coveredI [OF wf'], unfold m' install_fields(1) sql_upsert_fields(1))
    fix j h assume "((map_of (s_grants s))(g_id g \<mapsto> g)) j = Some h"
    then show "\<exists>d. abs_put ?m g j = Some d \<and> durable_copy d h"
      using cov by (cases "j = g_id g") (auto simp: abs_put_def covered_def split: option.splits)
  next
    fix j d assume "abs_put ?m g j = Some d" "g_status d = Active"
    then show "j \<in> dom ((map_of (s_grants s))(g_id g \<mapsto> g))"
      using cov by (cases "j = g_id g") (auto simp: abs_put_def covered_def)
  qed
qed

lemma foldl_abs_status:
  "foldl (\<lambda>m i. abs_status m i st) m is j =
     (if j \<in> set is then map_option (\<lambda>g. g\<lparr>g_status := st\<rparr>) (m j) else m j)"
proof (induction "is" arbitrary: m)
  case (Cons i "is")
  show ?case unfolding foldl_Cons Cons.IH by (cases "m j") (auto simp: abs_status_def)
qed simp

lemma foldl_abs_put_other: "j \<notin> g_id ` set gs \<Longrightarrow> foldl abs_put m gs j = m j"
  by (induction gs arbitrary: m) (auto simp: abs_put_def)

lemma abs_put_self: "\<exists>d. abs_put m g (g_id g) = Some d \<and> durable_copy d g"
  by (cases "m (g_id g)") (simp_all add: abs_put_def)

lemma foldl_abs_put_new:
  "distinct (map g_id gs) \<Longrightarrow> g \<in> set gs \<Longrightarrow>
     \<exists>d. foldl abs_put m gs (g_id g) = Some d \<and> durable_copy d g"
proof (induction gs arbitrary: m)
  case (Cons h gs)
  show ?case
  proof (cases "g = h")
    case True
    with Cons.prems have "foldl abs_put (abs_put m h) gs (g_id g) = abs_put m h (g_id h)"
      by (simp add: foldl_abs_put_other)
    with True abs_put_self [of m h] show ?thesis by simp
  next
    case False
    with Cons show ?thesis by simp
  qed
qed simp

lemma covered_preset:
  assumes "codec_ok ch sd" and cov: "covered ch sd s" and k: "keyed s"
    and "list_all (storable ch) gs" and fresh: "fresh_all gs s"
    and run: "apply_preset_atomic ch sd (s_sqlite s) is gs = (Inr (), db)"
    and act: "\<forall>i\<in>set is. \<exists>g. map_of (s_grants s) i = Some g \<and> g_status g = Active"
  shows "covered ch sd (install_all gs (revoke_in_memory is (s\<lparr>s_sqlite := db\<rparr>)))"
proof -
  let ?m = "row_view ch sd (sq_rows (s_sqlite s))"
  let ?m1 = "foldl (\<lambda>m i. abs_status m i Revoked) ?m is"
  let ?r = "revoke_in_memory is (s\<lparr>s_sqlite := db\<rparr>)"
  have wf': "rows_wf ch sd (sq_rows (s_sqlite (install_all gs ?r)))"
    and m': "row_view ch sd (sq_rows (s_sqlite (install_all gs ?r))) = foldl abs_put ?m1 gs"
    using sqlite_op_refines [of "(ch, sd)" "s_sqlite s" "ApplyPreset is gs"] assms
    by (simp_all add: covered_def)
  have dist: "distinct (map g_id gs)" using fresh by (simp add: fresh_all_def)
  show ?thesis
  proof (rule coveredI [OF wf'], unfold m')
    fix j h assume h: "map_of (s_grants (install_all gs ?r)) j = Some h"
    show "\<exists>d. foldl abs_put ?m1 gs j = Some d \<and> durable_copy d h"
    proof (cases "j \<in> g_id ` set gs")
      case True
      then obtain g where "g \<in> set gs" "j = g_id g" by blast
      with h dist show ?thesis using foldl_abs_put_new [OF dist] by (auto simp: install_all_new)
    next
      case False
      with h obtain g where g: "map_of (s_grants s) j = Some g"
        and hg: "h = (if j \<in> set is \<and> g_status g = Active then g\<lparr>g_status := Revoked\<rparr> else g)"
        by (auto simp: install_all_old revoke_in_memory_grants)
      from cov g obtain d where d: "?m j = Some d" "durable_copy d g" using coveredD by blast
      with False g hg act show ?thesis
        by (cases "j \<in> set is") (auto simp: foldl_abs_put_other foldl_abs_status durable_copy_both)
    qed
  next
    fix j d assume d: "foldl abs_put ?m1 gs j = Some d" "g_status d = Active"
    show "j \<in> dom (map_of (s_grants (install_all gs ?r)))"
    proof (cases "j \<in> g_id ` set gs")
      case True
      then show ?thesis using dist by (auto simp: install_all_new)
    next
      case False
      with d have "j \<notin> set is" "?m j = Some d"
        by (auto simp: foldl_abs_put_other foldl_abs_status split: if_splits)
      with cov d False show ?thesis
        by (auto simp: covered_def install_all_old revoke_in_memory_grants dom_def)
    qed
  qed
qed

text \<open>Memory keeps every grant, so when all grants it holds in the end can be stored, all that were written could.\<close>

definition all_storable :: "chrono \<Rightarrow> store \<Rightarrow> bool" where
  "all_storable ch s \<longleftrightarrow> (\<forall>i g. map_of (s_grants s) i = Some g \<longrightarrow> storable ch g)"

lemma all_storable_before: "evolves s s' \<Longrightarrow> all_storable ch s' \<Longrightarrow> all_storable ch s"
  unfolding all_storable_def by (metis evolvesD storable_status)

interpretation dc: store_property ch sd "\<lambda>g. ttl_in_range (g_ttl g)"
  "\<lambda>s s'. evolves s s' \<and> (codec_ok ch sd \<and> all_storable ch s' \<and> covered ch sd s \<longrightarrow> covered ch sd s')" for ch sd
proof (unfold_locales, goal_cases)
  case (1 s)
  then show ?case using ev.P_refl by simp
next
  case (2 a b c)
  then show ?case using all_storable_before evolves_trans by blast
next
  case (3 s es)
  then show ?case using ev.P_events by simp
next
  case (4 s n)
  then show ?case using ev.P_in_progress by simp
next
  case (5 s i g st)
  then show ?case using ev.P_retire by (simp add: covered_retire)
next
  case (6 s i g st)
  then show ?case using ev.P_retire_durable by (simp add: covered_retire_durable)
next
  case (7 g s e)
  then show ?case
    using covered_rows [of "snd (sql_upsert ch sd g s)" s] upsert_failed_rows ev.P_upsert_failed by simp
next
  case (8 s g)
  have "storable ch g" if "all_storable ch (install g (snd (sql_upsert ch sd g s)))"
    using that unfolding all_storable_def by (metis fun_upd_same install_fields(1))
  then show ?case using ev.P_installed 8 covered_install by blast
next
  case (9 s "is" gs e db)
  then show ?case using covered_rows [of "s\<lparr>s_sqlite := db\<rparr>" s] preset_failed_rows ev.P_preset_failed by simp
next
  case (10 s gs "is" db)
  have "list_all (storable ch) gs" if "all_storable ch (install_all gs (revoke_in_memory is (s\<lparr>s_sqlite := db\<rparr>)))"
    using that 10(3) install_all_new unfolding all_storable_def list_all_iff fresh_all_def by blast
  then show ?case using ev.P_preset_installed 10 covered_preset by (simp add: list_all_iff)
qed

section \<open>The step relation\<close>

text \<open>One call of a method, on any arguments and with any outcome. Ids that a method creates are
  fresh, as its UUIDs are, and a \<open>Duration\<close> holds a \<open>u64\<close>. \<open>insert\<close> is here the insertion of a new grant; the code calls it
  at the start of the runtime only, where it may also overwrite a static grant of the same id, which is the subject of \<open>store_history\<close> in
  \<open>StoreProps\<close> and of \<open>Startup\<close>.\<close>

inductive store_step :: "chrono \<Rightarrow> serde \<Rightarrow> store \<Rightarrow> store \<Rightarrow> bool" for ch sd where
  step_insert: "map_of (s_grants s) (g_id g) = None \<Longrightarrow> ttl_in_range (g_ttl g)
    \<Longrightarrow> store_step ch sd s (snd (insert_grant ch sd g s))"
| step_insert_dynamic: "map_of (s_grants s) (g_id g) = None \<Longrightarrow> ttl_in_range (g_ttl g)
    \<Longrightarrow> store_step ch sd s (snd (insert_dynamic ch sd g s))"
| step_consume: "store_step ch sd s (snd (consume i fn s))"
| step_expire: "store_step ch sd s (snd (expire_ids ch is s))"
| step_revoke_by_grantee: "store_step ch sd s (snd (revoke_by_grantee a s))"
| step_cascade: "store_step ch sd s (snd (cascade_revoke_with_reason i by s))"
| step_cascade_by_issuer: "store_step ch sd s (snd (cascade_by_issuer a s))"
| step_preset: "fresh_all gs s \<Longrightarrow> list_all (\<lambda>g. ttl_in_range (g_ttl g)) gs
    \<Longrightarrow> store_step ch sd s (snd (apply_preset_atomic_for_grantee ch sd a gs s))"
| step_revoke_dynamic: "store_step ch sd s (snd (revoke_dynamic_for_grantee a s))"
| step_narrow: "map_of (s_grants s) new_id = None
    \<Longrightarrow> store_step ch sd s (snd (narrow ch sd vld now new_id i ps caller s))"
| step_delegate: "map_of (s_grants s) new_id = None \<Longrightarrow> ttl_in_range (d_ttl draft)
    \<Longrightarrow> store_step ch sd s (snd (delegate_grant ch sd vld now_check now new_id pid child draft caller s))"

inductive store_run :: "chrono \<Rightarrow> serde \<Rightarrow> store \<Rightarrow> store \<Rightarrow> bool" for ch sd where
  run_refl: "store_run ch sd s s"
| run_step: "store_run ch sd s t \<Longrightarrow> store_step ch sd t u \<Longrightarrow> store_run ch sd s u"

definition ttls_in_range :: "store \<Rightarrow> bool" where
  "ttls_in_range s \<longleftrightarrow> (\<forall>i g. map_of (s_grants s) i = Some g \<longrightarrow> ttl_in_range (g_ttl g))"

lemma ttls_in_range_fields [simp]:
  "ttls_in_range (emit_all es s) = ttls_in_range s"
  "ttls_in_range (s\<lparr>s_narrow_in_progress := n\<rparr>) = ttls_in_range s"
  "ttls_in_range (snd (sql_status i st s)) = ttls_in_range s"
  "ttls_in_range (snd (sql_upsert ch sd g s)) = ttls_in_range s"
  "ttls_in_range (s\<lparr>s_sqlite := db\<rparr>) = ttls_in_range s"
  by (simp_all add: ttls_in_range_def)

interpretation tr: store_property ch sd "\<lambda>g. ttl_in_range (g_ttl g)"
  "\<lambda>s s'. ttls_in_range s \<longrightarrow> ttls_in_range s'" for ch sd
proof (unfold_locales, goal_cases)
  case (5 s i g st)
  then show ?case by (auto simp: ttls_in_range_def set_status_grants)
next
  case (10 s gs "is" db)
  let ?r = "revoke_in_memory is (s\<lparr>s_sqlite := db\<rparr>)"
  have "ttl_in_range (g_ttl h)"
    if "ttls_in_range s" "map_of (s_grants (install_all gs ?r)) j = Some h" for j h
  proof (cases "j \<in> g_id ` set gs")
    case True
    then obtain g where g: "g \<in> set gs" "j = g_id g" by blast
    then have "h = g" using 10(3) that(2) by (simp add: fresh_all_def install_all_new)
    with 10(2) g show ?thesis by (simp add: list_all_iff)
  next
    case False
    with that show ?thesis
      by (auto simp: install_all_old revoke_in_memory_grants ttls_in_range_def split: if_splits)
  qed
  then show ?case unfolding ttls_in_range_def by blast
next
  case (8 s g)
  then show ?case by (auto simp: ttls_in_range_def)
qed simp_all

text \<open>A relation of the contract whose side condition is the range of the lifetimes relates the
  ends of a step.\<close>

context store_relation
begin

lemma step:
  assumes "store_step ch sd s s'" and "keyed s" and "ttls_in_range s"
    and "\<And>g. ttl_in_range (g_ttl g) \<Longrightarrow> ok g"
  shows "R s s'"
  using assms(1)
proof (cases rule: store_step.cases)
  case (step_narrow new_id vld now i ps caller)
  then show ?thesis
    using assms by (auto intro!: narrow simp: narrowed_grant_def ttls_in_range_def)
next
  case (step_delegate new_id draft vld now_check now pid child caller)
  then show ?thesis using assms by (auto intro!: delegate_grant simp: delegated_grant_def)
next
  case (step_preset gs a)
  then show ?thesis using assms by (auto intro!: apply_preset simp: list_all_iff)
qed (use assms in \<open>auto intro: insert_fresh insert_dynamic consume expire_ids revoke_by_grantee
      cascade_revoke_with_reason cascade_by_issuer revoke_dynamic_for_grantee\<close>)

end

lemma run_invariants:
  assumes "store_run ch sd s t" and "keyed s" and "ttls_in_range s"
  shows "keyed t \<and> ttls_in_range t \<and> evolves s t \<and> (indexed s \<longrightarrow> indexed t)
     \<and> (codec_ok ch sd \<and> all_storable ch t \<and> covered ch sd s \<longrightarrow> covered ch sd t)"
  using assms
proof (induction rule: store_run.induct)
  case (run_refl s)
  then show ?case by (simp add: evolves_same)
next
  case (run_step s t u)
  then have k: "keyed t" and r: "ttls_in_range t" by auto
  have "keyed u \<and> evolves t u" using ev.step [OF run_step.hyps(2) k r] k by simp
  moreover have "ttls_in_range t \<longrightarrow> ttls_in_range u" using tr.step [OF run_step.hyps(2) k r] by simp
  moreover have "indexed t \<longrightarrow> indexed u" using ix.step [OF run_step.hyps(2) k r] by simp
  moreover have "codec_ok ch sd \<and> all_storable ch u \<and> covered ch sd t \<longrightarrow> covered ch sd u"
    using dc.step [OF run_step.hyps(2) k r] by simp
  ultimately show ?case using run_step evolves_trans all_storable_before by blast
qed

end
