(* ===== verification/StoreProps.thy ===== *)
theory StoreProps
  imports StoreInv
begin

text \<open>
  What the methods of the store achieve: exact effects of the revocation loops, the grants that
  \<open>delegate_grant\<close>, \<open>narrow\<close> and \<open>apply_preset_atomic_for_grantee\<close> leave behind, and the guarantees that
  hold along every run of calls.
\<close>

section \<open>The revocation loop\<close>

lemma sql_status_eq:
  "sql_status i st s = (r, s') \<Longrightarrow> s_grants s' = s_grants s \<and> s_provenance s' = s_provenance s
     \<and> s_by_grantee s' = s_by_grantee s \<and> s_by_issuer s' = s_by_issuer s"
  using sql_status_fields [of i st s] by auto

text \<open>What a successful loop does to the grants: exactly the listed active ones are revoked.\<close>

lemma revoke_loop_grants:
  assumes "revoke_loop ev is s = (Inr applied, s')"
  shows "map_of (s_grants s') j =
     map_option (\<lambda>g. if j \<in> snd ` set is \<and> g_status g = Active then g\<lparr>g_status := Revoked\<rparr> else g)
       (map_of (s_grants s) j)"
  using assms
proof (induction "is" arbitrary: s applied)
  case Nil
  then show ?case by (simp add: sreturn_def option.map_ident)
next
  case (Cons x "is")
  obtain is_root i where x: "x = (is_root, i)" by fastforce
  show ?case
  proof (cases rule: flip_active_cases [of Revoked i s])
    case skip
    with Cons.prems x have "revoke_loop ev is s = (Inr applied, s')" by simp
    from Cons.IH [OF this] skip x show ?thesis
      by (cases "map_of (s_grants s) j") auto
  next
    case (flip g)
    with Cons.prems x obtain u s2 rest where
      s2: "sql_status (g_id g) Revoked (set_status i Revoked s) = (Inr u, s2)" and
      r: "revoke_loop ev is (emit_all (ev g) s2) = (Inr rest, s')"
      by (auto simp: sbind_Inr_iff sreturn_def)
    have "s_grants (emit_all (ev g) s2) = s_grants (set_status i Revoked s)"
      using sql_status_eq [OF s2] by simp
    with Cons.IH [OF r] flip x show ?thesis
      by (cases "map_of (s_grants s) j") (auto simp: set_status_grants)
  qed
qed

lemma revoke_loop_applied:
  assumes "revoke_loop ev is s = (Inr applied, s')"
  shows "fst ` set applied = {g. g_status g = Active \<and> (\<exists>i\<in>snd ` set is. map_of (s_grants s) i = Some g)}"
  using assms
proof (induction "is" arbitrary: s applied)
  case Nil
  then show ?case by (simp add: sreturn_def)
next
  case (Cons x "is")
  obtain is_root i where x: "x = (is_root, i)" by fastforce
  show ?case
  proof (cases rule: flip_active_cases [of Revoked i s])
    case skip
    with Cons.prems x have "revoke_loop ev is s = (Inr applied, s')" by simp
    from Cons.IH [OF this] skip x show ?thesis by auto
  next
    case (flip g)
    with Cons.prems x obtain u s2 rest where
      s2: "sql_status (g_id g) Revoked (set_status i Revoked s) = (Inr u, s2)" and
      r: "revoke_loop ev is (emit_all (ev g) s2) = (Inr rest, s')" and a: "applied = (g, is_root) # rest"
      by (auto simp: sbind_Inr_iff sreturn_def)
    have eq: "s_grants (emit_all (ev g) s2) = s_grants (set_status i Revoked s)"
      using sql_status_eq [OF s2] by simp
    have "fst ` set rest = {h. g_status h = Active \<and> (\<exists>j\<in>snd ` set is. j \<noteq> i \<and> map_of (s_grants s) j = Some h)}"
      unfolding Cons.IH [OF r] eq by (auto simp: set_status_grants)
    moreover have "(\<exists>j\<in>J. snd j \<noteq> i \<and> map_of (s_grants s) (snd j) = Some h)
        \<longleftrightarrow> (\<exists>j\<in>J. map_of (s_grants s) (snd j) = Some h)" if "h \<noteq> g" for h and J :: "(bool \<times> rstr) set"
      using that flip(2) by (metis option.inject)
    ultimately have "insert g (fst ` set rest) =
        {h. g_status h = Active \<and> (\<exists>j\<in>insert i (snd ` set is). map_of (s_grants s) j = Some h)}"
      using flip(2,3) by (intro set_eqI) (case_tac "x = g"; simp)
    then show ?thesis using a x by simp
  qed
qed

lemma revoke_loop_indexes:
  "revoke_loop ev is s = (r, s') \<Longrightarrow> s_provenance s' = s_provenance s"
proof (induction "is" arbitrary: s r)
  case (Cons x "is")
  obtain is_root i where x: "x = (is_root, i)" by fastforce
  show ?case
  proof (cases rule: flip_active_cases [of Revoked i s])
    case (flip g)
    obtain q s2 where s2: "sql_status (g_id g) Revoked (set_status i Revoked s) = (q, s2)" by fastforce
    obtain r2 s3 where r2: "revoke_loop ev is (emit_all (ev g) s2) = (r2, s3)" by fastforce
    with Cons flip x s2 sql_status_eq [OF s2] show ?thesis
      by (auto simp: sbind_def sreturn_def split: sum.splits)
  qed (use Cons x in simp)
qed (simp add: sreturn_def)

section \<open>Cascades\<close>

lemma cascade_success:
  assumes "cascade_revoke_with_reason root by s = (Inr res, s')"
  obtains applied s1 where
    "revoke_loop (\<lambda>_. []) ((True, root) # map (Pair False) (walk_descendants (s_provenance s) root))
       (s\<lparr>s_narrow_in_progress := List.insert root (s_narrow_in_progress s)\<rparr>) = (Inr applied, s1)"
    "s_grants s' = s_grants s1" "cr_revoked res = map (g_id \<circ> fst) applied"
    "\<exists>g. map_of (s_grants s) root = Some g \<and> g_status g = Active"
proof -
  let ?s0 = "s\<lparr>s_narrow_in_progress := List.insert root (s_narrow_in_progress s)\<rparr>"
  from assms obtain s2 where b: "cascade_body root by ?s0 = (Inr res, s2)"
    and s': "s' = s2\<lparr>s_narrow_in_progress := removeAll root (s_narrow_in_progress s2)\<rparr>"
    by (auto simp: cascade_revoke_with_reason_def with_narrow_guard_def sfail_def Let_def
        split: if_splits prod.splits)
  from b obtain g where g: "map_of (s_grants s) root = Some g" "g_status g = Active"
    by (auto simp: cascade_body_def Let_def sfail_def split: option.splits if_splits)
  with b obtain applied s1 where
    "revoke_loop (\<lambda>_. []) ((True, root) # map (Pair False) (walk_descendants (s_provenance s) root)) ?s0
       = (Inr applied, s1)"
    "s2 = emit_all (cascade_events by applied) s1" "cr_revoked res = map (g_id \<circ> fst) applied"
    by (auto simp: cascade_body_def sbind_Inr_iff sreturn_def simp del: revoke_loop.simps)
  with that g s' show thesis by simp
qed

definition subtree :: "store \<Rightarrow> rstr \<Rightarrow> rstr set" where
  "subtree s root = insert root (descendants (s_provenance s) root)"

text \<open>The part of the subtree that one cascade reaches: the root and as many of its descendants as the cap allows.\<close>

definition reached :: "store \<Rightarrow> rstr \<Rightarrow> rstr set" where
  "reached s root = insert root (set (walk_descendants (s_provenance s) root))"

lemma reached_subtree: "reached s root \<subseteq> subtree s root" "root \<in> reached s root"
  using walk_descendants_sound(3) by (auto simp: reached_def subtree_def)

lemma reached_all: "card (descendants (s_provenance s) root) \<le> MAX_CASCADE_SIZE \<Longrightarrow> reached s root = subtree s root"
  by (simp add: reached_def subtree_def walk_descendants_complete)

lemma reached_many: "MAX_CASCADE_SIZE < card (descendants (s_provenance s) root) \<Longrightarrow> MAX_CASCADE_SIZE \<le> card (reached s root)"
  using walk_descendants_length [of "s_provenance s" root] walk_descendants_sound(1) [of "s_provenance s" root]
    card_mono [of "reached s root" "set (walk_descendants (s_provenance s) root)"]
  by (simp add: distinct_card reached_def) fastforce

lemma cascade_reached:
  assumes "cascade_revoke_with_reason root by s = (Inr res, s')"
  shows "map_of (s_grants s') j =
     map_option (\<lambda>g. if j \<in> reached s root \<and> g_status g = Active then g\<lparr>g_status := Revoked\<rparr> else g)
       (map_of (s_grants s) j)"
    and "keyed s \<Longrightarrow> set (cr_revoked res) =
      {i. i \<in> reached s root \<and> (\<exists>g. map_of (s_grants s) i = Some g \<and> g_status g = Active)}"
proof -
  have ids: "snd ` set ((True, root) # map (Pair False) (walk_descendants (s_provenance s) root)) = reached s root"
    by (auto simp: reached_def image_image)
  from assms(1) obtain applied s1 where
    r: "revoke_loop (\<lambda>_. []) ((True, root) # map (Pair False) (walk_descendants (s_provenance s) root))
       (s\<lparr>s_narrow_in_progress := List.insert root (s_narrow_in_progress s)\<rparr>) = (Inr applied, s1)"
    and s1: "s_grants s' = s_grants s1" and rv: "cr_revoked res = map (g_id \<circ> fst) applied"
    by (rule cascade_success)
  show "map_of (s_grants s') j =
     map_option (\<lambda>g. if j \<in> reached s root \<and> g_status g = Active then g\<lparr>g_status := Revoked\<rparr> else g)
       (map_of (s_grants s) j)"
    unfolding s1 revoke_loop_grants [OF r] ids by simp
  assume k: "keyed s"
  have "set (cr_revoked res) = g_id ` (fst ` set applied)"
    by (simp add: rv image_image)
  also have "\<dots> = {i. i \<in> reached s root \<and> (\<exists>g. map_of (s_grants s) i = Some g \<and> g_status g = Active)}"
    unfolding revoke_loop_applied [OF r] ids using keyedD [OF k] by force
  finally show "set (cr_revoked res) =
      {i. i \<in> reached s root \<and> (\<exists>g. map_of (s_grants s) i = Some g \<and> g_status g = Active)}" .
qed

lemma cascade_effect:
  assumes "cascade_revoke_with_reason root by s = (Inr res, s')"
    and "card (descendants (s_provenance s) root) \<le> MAX_CASCADE_SIZE"
  shows "map_of (s_grants s') j =
     map_option (\<lambda>g. if j \<in> subtree s root \<and> g_status g = Active then g\<lparr>g_status := Revoked\<rparr> else g)
       (map_of (s_grants s) j)"
    and "keyed s \<Longrightarrow> set (cr_revoked res) =
      {i. i \<in> subtree s root \<and> (\<exists>g. map_of (s_grants s) i = Some g \<and> g_status g = Active)}"
  using cascade_reached [OF assms(1)] by (simp_all add: reached_all [OF assms(2)])

lemma foldl_dedup: "set (foldl (\<lambda>acc d. if d \<in> set acc then acc else acc @ [d]) all xs) = set all \<union> set xs"
  by (induction xs arbitrary: all) auto

lemma set_issuer_targets:
  "set (issuer_targets prov roots all) =
     set all \<union> (\<Union>r\<in>set roots. insert r (set (walk_descendants prov r)))"
  by (induction roots arbitrary: all) (auto simp: foldl_dedup simp del: foldl_Cons)

section \<open>Insertion\<close>

lemma dual_write_success:
  assumes "dual_write ch sd g s = (Inr i, s')"
  shows "i = g_id g" and "map_of (s_grants s') = (map_of (s_grants s))(g_id g \<mapsto> g)"
    and "s_provenance s' = s_provenance (install g s)"
proof -
  from assms obtain u s1 where s1: "sql_upsert ch sd g s = (Inr u, s1)"
    and s': "s' = emit (grant_issued_event ch g) (install g s1)" and i: "i = g_id g"
    by (auto simp: dual_write_def sbind_Inr_iff sreturn_def install_def)
  with sql_upsert_fields [of ch sd g s]
  show "i = g_id g" "map_of (s_grants s') = (map_of (s_grants s))(g_id g \<mapsto> g)"
    "s_provenance s' = s_provenance (install g s)"
    by (simp_all add: emit_emit_all split: grant_provenance.splits)
qed

text \<open>A failed insertion leaves everything but the failure script as it was.\<close>

definition untouched :: "store \<Rightarrow> store \<Rightarrow> bool" where
  "untouched s s' \<longleftrightarrow> s' = s\<lparr>s_sqlite := s_sqlite s'\<rparr> \<and> sq_rows (s_sqlite s') = sq_rows (s_sqlite s)"

lemma untouched_refl [simp]: "untouched s s"
  by (simp add: untouched_def)

lemma dual_write_error: "dual_write ch sd g s = (Inl e, s') \<Longrightarrow> untouched s s'"
  by (auto simp: dual_write_def sbind_def sreturn_def sql_upsert_def upsert_grant_def untouched_def
      split: prod.splits sum.splits if_splits)

lemma insert_dynamic_success:
  "insert_dynamic ch sd g s = (Inr i, s') \<Longrightarrow> dual_write ch sd g s = (Inr i, s')"
  using insert_dynamic_cases [of ch sd g s] by (auto simp: sfail_def)

lemma insert_dynamic_inner_success:
  "insert_dynamic_inner ch sd g s = (Inr i, s') \<Longrightarrow> dual_write ch sd g s = (Inr i, s')"
  using insert_dynamic_inner_cases [of ch sd g s] by (auto simp: sfail_def)

lemma insert_dynamic_error: "insert_dynamic ch sd g s = (Inl e, s') \<Longrightarrow> untouched s s'"
  using insert_dynamic_cases [of ch sd g s] dual_write_error by (fastforce simp: sfail_def)

lemma insert_dynamic_inner_error: "insert_dynamic_inner ch sd g s = (Inl e, s') \<Longrightarrow> untouched s s'"
  using insert_dynamic_inner_cases [of ch sd g s] dual_write_error by (fastforce simp: sfail_def)

section \<open>Delegation\<close>

lemma delegate_success:
  assumes "delegate_grant ch sd vld t0 t1 new_id pid child draft caller s = (Inr i, s')"
  obtains parent where "map_of (s_grants s) pid = Some parent" "g_status parent = Active"
    "g_grantee parent = caller" "unexpired t0 parent" "pid \<notin> set (s_narrow_in_progress s)"
    "delegate_agents_ok caller child = Inr ()" "check_params_size (d_params draft) = Inr ()"
    "vld parent draft = Inr ()" "ttl_kind_allows (g_ttl parent) (d_ttl draft) = Inr ()"
    "i = new_id"
    "map_of (s_grants s') = (map_of (s_grants s))(new_id \<mapsto> delegated_grant ch t1 new_id caller child draft parent)"
    "s_provenance s' = s_provenance (install (delegated_grant ch t1 new_id caller child draft parent) s)"
proof -
  from assms obtain parent u s1 where p: "delegate_parent t0 pid caller s = Inr parent"
    and g: "delegate_agents_ok caller child = Inr ()" "check_params_size (d_params draft) = Inr ()"
    "vld parent draft = Inr ()" "ttl_kind_allows (g_ttl parent) (d_ttl draft) = Inr ()"
    and i: "insert_dynamic_inner ch sd (delegated_grant ch t1 new_id caller child draft parent) s = (Inr i, s1)"
    and s': "s' = emit (grant_delegated_event i (g_id parent) caller child (g_capability parent) (d_params draft)) s1"
    by (auto simp: delegate_grant_def sbind_Inr_iff slift_def sreturn_def)
  from p have "map_of (s_grants s) pid = Some parent" "g_status parent = Active"
    "g_grantee parent = caller" "unexpired t0 parent" "pid \<notin> set (s_narrow_in_progress s)"
    by (auto simp: delegate_parent_def Let_def split: option.splits if_splits)
  moreover note g dual_write_success [OF insert_dynamic_inner_success [OF i]]
  ultimately show thesis
    using that [of parent] s' by (simp add: emit_emit_all delegated_grant_def)
qed

lemma sbind_slift_error:
  "sbind (slift r) f s = (Inl e, s') \<Longrightarrow> r = Inl e \<and> s' = s \<or> (\<exists>a. r = Inr a \<and> f a s = (Inl e, s'))"
  by (auto simp: sbind_slift split: sum.splits)

lemma sbind_read_error:
  "sbind (\<lambda>s. slift (r s) s) f s = (Inl e, s') \<Longrightarrow> r s = Inl e \<and> s' = s \<or> (\<exists>a. r s = Inr a \<and> f a s = (Inl e, s'))"
  by (auto simp: sbind_def slift_def split: sum.splits)

lemma sbind_sreturn_error:
  "sbind m (\<lambda>a s. sreturn (f a) (h a s)) s = (Inl e, s') \<Longrightarrow> m s = (Inl e, s')"
  by (auto simp: sbind_def sreturn_def split: prod.splits sum.splits)

lemma delegate_error:
  "delegate_grant ch sd vld t0 t1 new_id pid child draft caller s = (Inl e, s') \<Longrightarrow> untouched s s'"
  unfolding delegate_grant_def
  by (auto dest!: sbind_slift_error sbind_read_error sbind_sreturn_error insert_dynamic_inner_error)

lemma clamp_deadline_le: "deadline_le (clamp_deadline c p) p"
  by (cases c; cases p) auto

lemma delegated_issued:
  "d_capability draft = g_capability parent \<Longrightarrow> issued_as draft (delegated_grant ch t new_id caller child draft parent)"
  by (simp add: issued_as_def delegated_grant_def)

section \<open>Narrowing\<close>

lemma narrow_success:
  assumes "narrow ch sd vld now new_id i ps caller s = (Inr r, s')"
  obtains g res s1 where "map_of (s_grants s) i = Some g" "g_status g = Active" "g_grantee g = caller"
    "check_params_size ps = Inr ()"
    "vld g \<lparr>d_capability = g_capability g, d_params = ps, d_ttl = g_ttl g\<rparr> = Inr ()"
    "cascade_revoke_with_reason i (lit ''narrow'') s = (Inr res, s1)" "r = new_id"
    "map_of (s_grants s') = (map_of (s_grants s1))(new_id \<mapsto> narrowed_grant ch now new_id i ps g)"
    "s_provenance s' = s_provenance (install (narrowed_grant ch now new_id i ps g) s1)"
proof -
  from assms obtain g res s1 s2 where e: "narrow_existing i s = Inr g"
    and g: "caller = g_grantee g" "check_params_size ps = Inr ()"
    "vld g \<lparr>d_capability = g_capability g, d_params = ps, d_ttl = g_ttl g\<rparr> = Inr ()"
    "cascade_revoke_with_reason i (lit ''narrow'') s = (Inr res, s1)"
    and ins: "insert_dynamic ch sd (narrowed_grant ch now new_id i ps g) s1 = (Inr r, s2)"
    and s': "s' = emit (grant_narrowed_event r (g_params g) ps caller) s2"
    by (auto simp: narrow_def sbind_Inr_iff slift_def sreturn_def split: if_splits)
  from e have "map_of (s_grants s) i = Some g" "g_status g = Active"
    by (auto simp: narrow_existing_def split: option.splits if_splits)
  moreover note g dual_write_success [OF insert_dynamic_success [OF ins]]
  ultimately show thesis using that [of g res s1] s' by (simp add: emit_emit_all narrowed_grant_def)
qed

lemma cascade_provenance:
  assumes "cascade_revoke_with_reason root by s = (r, s')"
  shows "s_provenance s' = s_provenance s"
proof -
  let ?s0 = "s\<lparr>s_narrow_in_progress := List.insert root (s_narrow_in_progress s)\<rparr>"
  have "s_provenance (snd (cascade_body root by ?s0)) = s_provenance s"
  proof -
    obtain a s2 where l: "revoke_loop (\<lambda>_. []) ((True, root) # map (Pair False)
        (walk_descendants (s_provenance s) root)) ?s0 = (a, s2)" by fastforce
    from revoke_loop_indexes [OF l] l show ?thesis
      by (cases a) (simp_all add: cascade_body_def sbind_def sreturn_def sfail_def
          del: revoke_loop.simps split: option.splits)
  qed
  then show ?thesis
    using assms by (auto simp: cascade_revoke_with_reason_def with_narrow_guard_def sfail_def Let_def
        split: if_splits prod.splits)
qed

section \<open>Preset application\<close>

lemma active_ids_iff:
  "keyed s \<Longrightarrow> i \<in> set (active_ids s) \<longleftrightarrow> (\<exists>g. map_of (s_grants s) i = Some g \<and> g_status g = Active)"
  using keyed_grants_mem [of s i] by (force simp: active_ids_def)

lemma preset_local_ids:
  assumes k: "keyed s" and "set active \<subseteq> set (active_ids s)"
  shows "set (snd (preset_local s is active)) = set active - snd ` set is
     \<and> (g_id \<circ> fst) ` set (fst (preset_local s is active)) = set active \<inter> snd ` set is"
  using assms(2)
proof (induction "is" arbitrary: active)
  case (Cons x "is")
  obtain r i where x: "x = (r, i)" by fastforce
  show ?case
  proof (cases "i \<in> set active")
    case True
    with Cons.prems k obtain g where g: "map_of (s_grants s) i = Some g" "g_status g = Active"
      using active_ids_iff by blast
    obtain rest active' where l: "preset_local s is (removeAll i active) = (rest, active')" by fastforce
    have "set (removeAll i active) \<subseteq> set (active_ids s)" using Cons.prems by auto
    from Cons.IH [OF this] l have a': "set active' = set active - {i} - snd ` set is"
      and rest: "(g_id \<circ> fst) ` set rest = (set active - {i}) \<inter> snd ` set is" by simp_all
    have "preset_local s (x # is) active = ((g, r) # rest, active')"
      using True g x l by simp
    moreover have "(g_id \<circ> fst) ` set ((g, r) # rest) = insert i ((g_id \<circ> fst) ` set rest)"
      using keyedD [OF k g(1)] by simp
    ultimately show ?thesis unfolding rest using a' True x by auto
  next
    case False
    with Cons x show ?thesis by auto
  qed
qed simp

lemma subtree_closed: "r \<in> subtree s root \<Longrightarrow> subtree s r \<subseteq> subtree s root"
  by (auto simp: subtree_def descendants_def)

lemma preset_revocations_ids:
  assumes k: "keyed s" and "set active \<subseteq> set (active_ids s)"
    and "\<forall>r\<in>set roots. r \<notin> set active \<longrightarrow> subtree s r \<inter> set active = {}"
    and "\<forall>r\<in>set roots. card (descendants (s_provenance s) r) \<le> MAX_CASCADE_SIZE"
  shows "(g_id \<circ> fst) ` set (preset_revocations s roots active)
     = set active \<inter> (\<Union>r\<in>set roots. subtree s r)"
  using assms(2-4)
proof (induction roots arbitrary: active)
  case (Cons root roots)
  show ?case
  proof (cases "root \<in> set active")
    case False
    with Cons show ?thesis by auto
  next
    case True
    let ?is = "(True, root) # map (Pair False) (walk_descendants (s_provenance s) root)"
    obtain loc active' where l: "preset_local s ?is active = (loc, active')" by fastforce
    have sub: "snd ` set ?is = subtree s root"
      using Cons.prems(3) walk_descendants_complete by (auto simp: subtree_def image_image)
    have a': "set active' = set active - subtree s root"
      and loc: "(g_id \<circ> fst) ` set loc = set active \<inter> subtree s root"
      using preset_local_ids [OF k Cons.prems(1), of ?is] l sub by auto
    have "(g_id \<circ> fst) ` set (preset_revocations s roots active') = set active' \<inter> (\<Union>r\<in>set roots. subtree s r)"
    proof (rule Cons.IH)
      show "\<forall>r\<in>set roots. r \<notin> set active' \<longrightarrow> subtree s r \<inter> set active' = {}"
        using Cons.prems(2) a' subtree_closed by fastforce
    qed (use Cons.prems a' in auto)
    moreover have "(g_id \<circ> fst) ` set (preset_revocations s (root # roots) active)
        = (g_id \<circ> fst) ` set loc \<union> (g_id \<circ> fst) ` set (preset_revocations s roots active')"
      using True l by (simp del: preset_local.simps add: image_Un image_image split_beta Let_def)
    ultimately show ?thesis using loc a' by auto
  qed
qed simp

definition dynamic_root_set :: "store \<Rightarrow> rstr \<Rightarrow> rstr set" where
  "dynamic_root_set s a = {i. \<exists>g. map_of (s_grants s) i = Some g \<and> g_grantee g = a
      \<and> g_status g = Active \<and> g_provenance g \<noteq> StaticConfig}"

lemma set_dynamic_roots: "indexed s \<Longrightarrow> set (dynamic_roots a s) = dynamic_root_set s a"
  by (auto simp: dynamic_roots_def dynamic_root_set_def indexed_def split: option.splits)

lemma revoke_in_memory_sqlite:
  "map_of (s_grants (revoke_in_memory is (s\<lparr>s_sqlite := db\<rparr>))) = map_of (s_grants (revoke_in_memory is s))"
  by (rule ext) (simp add: revoke_in_memory_grants)

lemma preset_success:
  assumes "apply_preset_atomic_for_grantee ch sd a created s = (Inr (rv, cr), s')"
  shows "rv = map (g_id \<circ> fst) (preset_revocations s (dynamic_roots a s) (active_ids s))"
    and "cr = map g_id created"
    and "map_of (s_grants s') = map_of (s_grants (install_all created (revoke_in_memory rv s)))"
proof -
  let ?rv = "map (g_id \<circ> fst) (preset_revocations s (dynamic_roots a s) (active_ids s))"
  from assms obtain db where "rv = ?rv" "cr = map g_id created"
    "s_grants s' = s_grants (install_all created (revoke_in_memory ?rv (s\<lparr>s_sqlite := db\<rparr>)))"
    by (auto simp: apply_preset_atomic_for_grantee_def sbind_slift sreturn_def Let_def
        split: sum.splits prod.splits)
  then show "rv = ?rv" "cr = map g_id created"
    "map_of (s_grants s') = map_of (s_grants (install_all created (revoke_in_memory rv s)))"
    by (simp_all add: install_all_grants revoke_in_memory_sqlite)
qed

lemma preset_error:
  "apply_preset_atomic_for_grantee ch sd a created s = (Inl e, s') \<Longrightarrow> untouched s s'"
  by (auto simp: apply_preset_atomic_for_grantee_def sbind_slift sreturn_def Let_def untouched_def
      dest: preset_failed_rows split: sum.splits prod.splits)

section \<open>Expiry\<close>

lemma expire_flips_grants:
  "map_of (s_grants (snd (expire_flips is s))) j =
     map_option (\<lambda>g. if j \<in> set is \<and> g_status g = Active then g\<lparr>g_status := Expired\<rparr> else g)
       (map_of (s_grants s) j)"
proof (induction "is" arbitrary: s)
  case Nil
  then show ?case by (simp add: option.map_ident)
next
  case (Cons i "is")
  show ?case
  proof (cases rule: flip_active_cases [of Expired i s])
    case skip
    with Cons.IH [of s] show ?thesis by (cases "map_of (s_grants s) j") auto
  next
    case (flip g)
    with Cons.IH [of "set_status i Expired s"] show ?thesis
      by (cases "map_of (s_grants s) j") (auto simp: set_status_grants split_beta)
  qed
qed

lemma sql_status_each_grants: "s_grants (snd (sql_status_each st gs s)) = s_grants s"
proof (induction gs arbitrary: s)
  case (Cons g gs)
  then show ?case
    using sql_status_fields(1) [of "g_id g" st s]
    by (cases "sql_status (g_id g) st s") (auto simp: sbind_def split: sum.splits)
qed simp

lemma expire_ids_grants:
  "map_of (s_grants (snd (expire_ids ch is s))) j =
     map_option (\<lambda>g. if j \<in> set is \<and> g_status g = Active then g\<lparr>g_status := Expired\<rparr> else g)
       (map_of (s_grants s) j)"
proof -
  obtain gs s1 where f: "expire_flips is s = (gs, s1)" by fastforce
  have "s_grants (snd (expire_ids ch is s)) = s_grants s1"
    using sql_status_each_grants [of Expired gs s1]
    by (cases "sql_status_each Expired gs s1") (auto simp: expire_ids_def f sbind_def split: sum.splits)
  with expire_flips_grants [of "is" s j] f show ?thesis by simp
qed

lemma collect_expired_iff:
  "keyed s \<Longrightarrow> i \<in> set (collect_expired_ids now s) \<longleftrightarrow>
     (\<exists>g. map_of (s_grants s) i = Some g \<and> g_status g = Active \<and> \<not> unexpired now g)"
proof -
  assume k: "keyed s"
  have "i \<in> set (collect_expired_ids now s) \<longleftrightarrow>
      (\<exists>j g. (j, g) \<in> set (s_grants s) \<and> g_id g = i \<and> g_status g = Active \<and> \<not> unexpired now g)"
  proof -
    have "\<not> unexpired now g \<longleftrightarrow> (case g_expires_at g of Some t \<Rightarrow> t \<le> now | None \<Rightarrow> False)" for g
      by (auto simp: unexpired_def split: option.splits)
    then show ?thesis unfolding collect_expired_ids_def by force
  qed
  also have "\<dots> \<longleftrightarrow> (\<exists>g. map_of (s_grants s) i = Some g \<and> g_status g = Active \<and> \<not> unexpired now g)"
    unfolding keyed_grants_mem [OF k] using keyedD [OF k] by blast
  finally show ?thesis .
qed

section \<open>Sample stores\<close>

text \<open>An index with an empty table and a script of failures.\<close>

definition empty_db :: "bool list \<Rightarrow> sqlite" where
  "empty_db fs = \<lparr>sq_rows = [], sq_faults = fs\<rparr>"

text \<open>A store into which grants have been inserted one after the other.\<close>

fun sample_store :: "grant list \<Rightarrow> bool list \<Rightarrow> store" where
  "sample_store [] fs = new_store (empty_db fs)"
| "sample_store (g # gs) fs = snd (insert_dynamic sample_chrono sample_serde g (sample_store gs fs))"

lemmas store_eval =
  empty_db_def new_store_def insert_dynamic_def insert_dynamic_inner_def sql_upsert_def
  upsert_grant_def execute_upsert_grant_def next_fault_def after_call_def sbind_def sreturn_def
  sfail_def slift_def emit_def emit_all_def write_in_memory_def put_grant_def index_add_def
  index_get_def sample_serde_params Let_def

lemma new_store_invariants:
  "keyed (new_store db)" "ttls_in_range (new_store db)" "indexed (new_store db)"
  by (simp_all add: keyed_def ttls_in_range_def indexed_def new_store_def)

lemma sample_store_run:
  assumes "distinct (map g_id gs)" "list_all (\<lambda>g. ttl_in_range (g_ttl g)) gs"
  shows "store_run sample_chrono sample_serde (new_store (empty_db fs)) (sample_store gs fs)"
proof -
  have "store_run sample_chrono sample_serde (new_store (empty_db fs)) (sample_store gs fs)
      \<and> dom (map_of (s_grants (sample_store gs fs))) \<subseteq> g_id ` set gs"
    using assms
  proof (induction gs)
    case Nil
    then show ?case by (simp add: run_refl new_store_def)
  next
    case (Cons g gs)
    then have run: "store_run sample_chrono sample_serde (new_store (empty_db fs)) (sample_store gs fs)"
      and d: "dom (map_of (s_grants (sample_store gs fs))) \<subseteq> g_id ` set gs" by auto
    have fresh: "map_of (s_grants (sample_store gs fs)) (g_id g) = None" using d Cons.prems by (auto simp: domIff)
    have "store_step sample_chrono sample_serde (sample_store gs fs) (sample_store (g # gs) fs)"
      using fresh Cons.prems step_insert_dynamic [of "sample_store gs fs" g sample_chrono sample_serde] by simp
    moreover have "dom (map_of (s_grants (sample_store (g # gs) fs))) \<subseteq> g_id ` set (g # gs)"
    proof (cases "insert_dynamic sample_chrono sample_serde g (sample_store gs fs)")
      case (Pair r s')
      show ?thesis
      proof (cases r)
        case (Inl e)
        with Pair insert_dynamic_error have "s_grants s' = s_grants (sample_store gs fs)"
          by (metis store.select_convs(1) store.surjective store.update_convs(6) untouched_def)
        with Pair d show ?thesis by auto
      next
        case (Inr j)
        with Pair dual_write_success(2) [OF insert_dynamic_success]
        have "map_of (s_grants s') = (map_of (s_grants (sample_store gs fs)))(g_id g \<mapsto> g)" by blast
        with Pair d show ?thesis by auto
      qed
    qed
    ultimately show ?case using run run_step by blast
  qed
  then show ?thesis by blast
qed

text \<open>A root grant and one delegated from it.\<close>

abbreviation sample_root :: grant where
  "sample_root \<equiv> sample_grant ''p'' ''a'' ''web'' []"

abbreviation sample_child :: grant where
  "sample_child \<equiv> (sample_grant ''c'' ''b'' ''web'' [])\<lparr>g_provenance := Delegated (lit ''p''), g_issuer := Parent (lit ''a'')\<rparr>"

abbreviation sample_family :: store where
  "sample_family \<equiv> sample_store [sample_child, sample_root] []"

lemma sample_family_run: "store_run sample_chrono sample_serde (new_store (empty_db [])) sample_family"
  by (rule sample_store_run) (simp_all add: sample_grant_def)

lemma sample_family_provenance: "s_provenance sample_family = [(lit ''p'', [lit ''c''])]"
  by (simp add: store_eval sample_grant_def)

lemma sample_family_card: "card (descendants (s_provenance sample_family) r) \<le> MAX_CASCADE_SIZE"
proof -
  have "descendants (s_provenance sample_family) r \<subseteq> {lit ''c''}"
    by (rule descendants_least)
      (auto simp only: sample_family_provenance edges_def index_get_def map_of.simps split: if_splits; simp)+
  then have "card (descendants (s_provenance sample_family) r) \<le> card {lit ''c''}"
    by (intro card_mono) simp_all
  then show ?thesis by (simp add: MAX_CASCADE_SIZE_def)
qed

lemmas cascade_eval = store_eval
  cascade_revoke_def cascade_revoke_with_reason_def with_narrow_guard_def cascade_body_def
  walk_descendants_def push_children_def MAX_CASCADE_SIZE_def flip_active_def set_status_def
  sql_status_def update_status_def execute_update_status_def sample_grant_def

lemma sample_cascade_ok: "\<exists>res. fst (cascade_revoke (lit ''p'') sample_family) = Inr res"
  by (simp add: cascade_eval)

section \<open>Properties\<close>

text \<open>
  The secondary indexes are exact in every reachable store: whatever methods were called on an
  empty store, with whatever results and failures, listing by grantee or by issuing parent returns
  exactly the stored grants of that grantee or issuer, and the provenance index holds exactly the
  delegation edges of the stored grants.
\<close>

theorem lookups_exact:
  assumes "store_run ch sd (new_store db) t"
  shows "set (list_by_grantee t a) = {g. \<exists>i. get t i = Some g \<and> g_grantee g = a}
     \<and> set (list_by_issuer_parent t a) = {g. \<exists>i. get t i = Some g \<and> g_issuer g = Parent a}
     \<and> set (index_get (s_provenance t) p) = {i. \<exists>g. get t i = Some g \<and> g_provenance g = Delegated p}"
proof -
  have ix: "indexed t" using run_invariants [OF assms] new_store_invariants by blast
  have filt: "set (List.map_filter (\<lambda>i. map_of (s_grants t) i) is) = {g. \<exists>i\<in>set is. map_of (s_grants t) i = Some g}" for "is"
    by (auto simp: map_filter_def intro: rev_image_eqI)
  show ?thesis
    using ix unfolding list_by_grantee_def list_by_issuer_parent_def get_def filt
    by (auto simp: indexed_def)
qed

theorem lookups_exact_example:
  "let t = sample_store [sample_grant ''g'' ''a'' ''web'' []] [] in
     set (list_by_grantee t (lit ''a'')) = {g. \<exists>i. get t i = Some g \<and> g_grantee g = lit ''a''}
     \<and> set (list_by_issuer_parent t (lit ''a'')) = {g. \<exists>i. get t i = Some g \<and> g_issuer g = Parent (lit ''a'')}
     \<and> set (index_get (s_provenance t) (lit ''p'')) = {i. \<exists>g. get t i = Some g \<and> g_provenance g = Delegated (lit ''p'')}"
  unfolding Let_def by (rule lookups_exact, rule sample_store_run) (simp_all add: sample_grant_def)

text \<open>
  A single-use grant is consumed at most once: after one successful \<open>consume\<close>, every later
  \<open>consume\<close> of the same id fails and changes nothing, whatever calls come in between.
\<close>

theorem consumed_at_most_once:
  assumes "store_run ch sd (new_store db) s" and "consume i fn s = (Inr (), s1)"
    and "store_run ch sd s1 t"
  shows "(\<exists>e. fst (consume i fn' t) = Inl e) \<and> snd (consume i fn' t) = t"
proof -
  have k: "keyed s" "ttls_in_range s" using run_invariants [OF assms(1)] new_store_invariants by auto
  have s1: "store_step ch sd s s1" using assms(2) step_consume [of ch sd s i fn] by simp
  then have k1: "keyed s1" "ttls_in_range s1"
    using run_invariants [OF run_step [OF run_refl s1] k] by auto
  obtain g where g: "map_of (s_grants s) i = Some g" "g_status g = Active" and
    sq: "s_grants s1 = s_grants (set_status i Consumed s)"
    using assms(2)
    by (auto simp: consume_def sfail_def sbind_def sreturn_def emit_emit_all split: if_splits option.splits
        sum.splits prod.splits dest: sql_status_eq)
  then have "map_of (s_grants s1) i = Some (g\<lparr>g_status := Consumed\<rparr>)" by (simp add: set_status_grants)
  moreover have "evolves s1 t" using run_invariants [OF assms(3) k1] by blast
  ultimately obtain h where "map_of (s_grants t) i = Some h" "g_status h = Consumed"
    using evolvesD by fastforce
  then show ?thesis by (simp add: consume_def)
qed

theorem consumed_at_most_once_example:
  "let g = (sample_grant ''g'' ''a'' ''web'' [])\<lparr>g_ttl := Once\<rparr>;
       t = snd (consume (lit ''g'') (lit ''f'') (sample_store [g] [])) in
     (\<exists>e. fst (consume (lit ''g'') (lit ''h'') t) = Inl e) \<and> snd (consume (lit ''g'') (lit ''h'') t) = t"
proof -
  let ?g = "(sample_grant ''g'' ''a'' ''web'' [])\<lparr>g_ttl := Once\<rparr>"
  let ?s = "sample_store [?g] []"
  have "fst (consume (lit ''g'') (lit ''f'') ?s) = Inr ()"
    by (simp add: store_eval sample_grant_def consume_def is_control_def lit_def utf8_len_def
        sql_status_def update_status_def set_status_def)
  then have "consume (lit ''g'') (lit ''f'') ?s = (Inr (), snd (consume (lit ''g'') (lit ''f'') ?s))"
    by (simp add: prod_eq_iff)
  moreover have "store_run sample_chrono sample_serde (new_store (empty_db [])) ?s"
    by (rule sample_store_run) simp_all
  ultimately show ?thesis
    unfolding Let_def by (intro consumed_at_most_once [OF _ _ run_refl])
qed

text \<open>A history: the methods, and insertions over an id that is there already, with the list of those ids.\<close>

inductive store_history :: "chrono \<Rightarrow> serde \<Rightarrow> store \<Rightarrow> rstr list \<Rightarrow> store \<Rightarrow> bool" for ch sd where
  history_start: "store_history ch sd s [] s"
| history_step: "store_history ch sd s is t \<Longrightarrow> store_step ch sd t u \<Longrightarrow> store_history ch sd s is u"
| history_overwrite: "store_history ch sd s is t \<Longrightarrow> map_of (s_grants t) (g_id g) = Some old \<Longrightarrow> ttl_in_range (g_ttl g) \<Longrightarrow>
    store_history ch sd s (g_id g # is) (snd (insert_grant ch sd g t))"

lemma insert_over:
  assumes "map_of (s_grants s) (g_id g) = Some old"
  shows "map_of (s_grants (snd (insert_grant ch sd g s))) =
     (if is_ok (fst (insert_grant ch sd g s)) then (map_of (s_grants s))(g_id g \<mapsto> g\<lparr>g_created_at := g_created_at old\<rparr>)
      else map_of (s_grants s))"
  using assms sql_upsert_fields [of ch sd "g\<lparr>g_created_at := g_created_at old\<rparr>" s]
  by (cases "sql_upsert ch sd (g\<lparr>g_created_at := g_created_at old\<rparr>) s")
    (auto simp: insert_grant_def sfail_def sreturn_def sbind_def emit_emit_all put_grant_def write_in_memory_def Let_def split: sum.splits)

lemma insert_keyed:
  assumes "keyed s"
  shows "keyed (snd (insert_grant ch sd g s))"
proof -
  define h where "h = (case map_of (s_grants s) (g_id g) of
    Some existing \<Rightarrow> g\<lparr>g_created_at := g_created_at existing\<rparr> | None \<Rightarrow> g)"
  have "keyed (snd (sql_upsert ch sd h s))" using assms by (simp add: keyed_fields)
  then have "keyed (snd (dual_write ch sd h s))"
    by (cases "sql_upsert ch sd h s")
      (auto simp: dual_write_def sbind_def sreturn_def emit_emit_all keyed_fields install_def [symmetric] keyed_install split: sum.splits)
  then show ?thesis using assms by (auto simp: insert_grant_def h_def [symmetric] dual_write_def sfail_def Let_def)
qed

lemma history_invariants:
  assumes "store_history ch sd s is t" and "keyed s" and "ttls_in_range s"
  shows "keyed t \<and> ttls_in_range t \<and> (\<forall>i g. map_of (s_grants s) i = Some g \<longrightarrow> i \<notin> set is \<longrightarrow>
     (\<exists>st. map_of (s_grants t) i = Some (g\<lparr>g_status := st\<rparr>) \<and> (g_status g \<noteq> Active \<longrightarrow> st = g_status g)))"
  using assms
proof (induction rule: store_history.induct)
  case (history_start s)
  then show ?case by (auto intro: exI [of _ "g_status g" for g])
next
  case (history_step s "is" t u)
  then have k: "keyed t" "ttls_in_range t" by auto
  then have "keyed u \<and> ttls_in_range u \<and> evolves t u"
    using run_invariants [OF store_run.run_step [OF run_refl history_step.hyps(2)]] by blast
  then have k': "keyed u" "ttls_in_range u" and ev: "evolves t u" by auto
  show ?case
  proof (intro conjI allI impI k')
    fix i g assume g: "map_of (s_grants s) i = Some g" "i \<notin> set is"
    then obtain st where st: "map_of (s_grants t) i = Some (g\<lparr>g_status := st\<rparr>)" "g_status g \<noteq> Active \<longrightarrow> st = g_status g"
      using history_step by blast
    from evolvesD [OF ev st(1)] st(2)
    show "\<exists>st. map_of (s_grants u) i = Some (g\<lparr>g_status := st\<rparr>) \<and> (g_status g \<noteq> Active \<longrightarrow> st = g_status g)" by auto
  qed
next
  case (history_overwrite s "is" t g old)
  let ?u = "snd (insert_grant ch sd g t)"
  note over = insert_over [OF history_overwrite.hyps(2), of ch sd]
  have old: "keyed t" "ttls_in_range t" and ev: "map_of (s_grants s) i = Some h \<Longrightarrow> i \<notin> set is \<Longrightarrow>
      \<exists>st. map_of (s_grants t) i = Some (h\<lparr>g_status := st\<rparr>) \<and> (g_status h \<noteq> Active \<longrightarrow> st = g_status h)" for i h
    using history_overwrite by auto
  have other: "map_of (s_grants ?u) i = map_of (s_grants t) i" if "i \<noteq> g_id g" for i using over that by simp
  have this_one: "\<exists>h. map_of (s_grants ?u) (g_id g) = Some h \<and> g_id h = g_id g \<and> ttl_in_range (g_ttl h)"
    using over history_overwrite.hyps(2,3) old keyedD by (auto simp: ttls_in_range_def)
  have "g_id h = i \<and> ttl_in_range (g_ttl h)" if "map_of (s_grants ?u) i = Some h" for i h
    using that other [of i] this_one old keyedD by (cases "i = g_id g") (auto simp: ttls_in_range_def)
  moreover have "keyed ?u" using old(1) by (rule insert_keyed)
  ultimately show ?case using ev other by (simp add: ttls_in_range_def)
qed

text \<open>
  C32. Status changes are one-way and content is immutable: along every history a stored grant keeps its
  id, grantee, capability, parameters, lifetime, issuer, provenance and deadline, and once it is
  consumed, expired or revoked it never changes again, unless its id is inserted anew. An insertion over an existing id, which the start of
  the runtime makes for static grants, either fails and changes no grant, or replaces the grant of that id but for its creation time,
  and may so make a revoked one active again.
\<close>

theorem status_is_one_way:
  assumes "store_history ch sd (new_store db) js s" and "store_history ch sd s is t" and "get s i = Some g"
  shows "(i \<in> set is \<or> (\<exists>st. get t i = Some (g\<lparr>g_status := st\<rparr>) \<and> (g_status g \<noteq> Active \<longrightarrow> st = g_status g)))
     \<and> (g_id h = i \<longrightarrow> get (snd (insert_grant ch sd h s)) =
          (if is_ok (fst (insert_grant ch sd h s)) then (get s)(i \<mapsto> h\<lparr>g_created_at := g_created_at g\<rparr>) else get s))"
proof -
  have "keyed s" "ttls_in_range s" using history_invariants [OF assms(1)] new_store_invariants by auto
  then have "i \<notin> set is \<longrightarrow> (\<exists>st. get t i = Some (g\<lparr>g_status := st\<rparr>) \<and> (g_status g \<noteq> Active \<longrightarrow> st = g_status g))"
    using history_invariants [OF assms(2)] assms(3) by (simp add: get_def)
  then show ?thesis using insert_over [of s h g ch sd] assms(3) by (auto simp: get_def)
qed

theorem status_is_one_way_witness:
  "\<exists>st. get (sample_store [sample_grant ''g'' ''a'' ''web'' []] []) (lit ''g'')
           = Some ((sample_grant ''g'' ''a'' ''web'' [])\<lparr>g_status := st\<rparr>)
     \<and> (g_status (sample_grant ''g'' ''a'' ''web'' []) \<noteq> Active \<longrightarrow> st = g_status (sample_grant ''g'' ''a'' ''web'' []))"
proof -
  let ?g = "sample_grant ''g'' ''a'' ''web'' []"
  have "store_history sample_chrono sample_serde s [] t" if "store_run sample_chrono sample_serde s t" for s t
    using that by induction (auto intro: store_history.intros)
  moreover have "store_run sample_chrono sample_serde (new_store (empty_db [])) (sample_store [?g] [])"
    by (rule sample_store_run) (simp_all add: sample_grant_def)
  ultimately have "store_history sample_chrono sample_serde (new_store (empty_db [])) [] (sample_store [?g] [])" by blast
  from status_is_one_way [OF this history_start, of "lit ''g''" ?g] show ?thesis
    by (simp add: get_def store_eval sample_grant_def)
qed

text \<open>
  C27. What a cascade revokes. When \<open>cascade_revoke\<close> succeeds, the active grants among the root and the descendants it reaches are
  revoked and reported, and no other grant changes. It reaches the whole provenance subtree if that has at most 10000
  descendants; beyond that cap it reaches that many and leaves the rest as they were, and still reports success.
\<close>

theorem cascade_revokes_subtree:
  assumes "store_run ch sd (new_store db) s" and "cascade_revoke root s = (Inr res, s')"
  shows "\<exists>W. root \<in> W \<and> W \<subseteq> subtree s root
     \<and> (card (descendants (s_provenance s) root) \<le> MAX_CASCADE_SIZE \<longrightarrow> W = subtree s root)
     \<and> (MAX_CASCADE_SIZE < card (descendants (s_provenance s) root) \<longrightarrow> MAX_CASCADE_SIZE \<le> card W)
     \<and> (\<forall>j. get s' j = map_option (\<lambda>g. if j \<in> W \<and> g_status g = Active then g\<lparr>g_status := Revoked\<rparr> else g) (get s j))
     \<and> set (cr_revoked res) = {i \<in> W. \<exists>g. get s i = Some g \<and> g_status g = Active}"
proof -
  have k: "keyed s" using run_invariants [OF assms(1)] new_store_invariants by blast
  have eff: "get s' j = map_option (\<lambda>g. if j \<in> reached s root \<and> g_status g = Active then g\<lparr>g_status := Revoked\<rparr> else g) (get s j)"
    "set (cr_revoked res) = {i \<in> reached s root. \<exists>g. get s i = Some g \<and> g_status g = Active}" for j
    using cascade_reached [OF assms(2) [unfolded cascade_revoke_def]] k by (simp_all add: get_def)
  then show ?thesis
    by (intro exI [of _ "reached s root"] conjI allI impI reached_subtree reached_all reached_many)
qed

theorem cascade_revokes_subtree_witness:
  "\<exists>(res :: cascade_result) s'. (\<forall>j. get s' j = map_option (\<lambda>g. if j \<in> subtree sample_family (lit ''p'') \<and> g_status g = Active
                            then g\<lparr>g_status := Revoked\<rparr> else g) (get sample_family j))
     \<and> set (cr_revoked res) = {i \<in> subtree sample_family (lit ''p'').
          \<exists>g. get sample_family i = Some g \<and> g_status g = Active}"
proof -
  obtain res where "fst (cascade_revoke (lit ''p'') sample_family) = Inr res" using sample_cascade_ok by blast
  then have "cascade_revoke (lit ''p'') sample_family = (Inr res, snd (cascade_revoke (lit ''p'') sample_family))"
    by (simp add: prod_eq_iff)
  from cascade_revokes_subtree [OF sample_family_run this] sample_family_card show ?thesis
    by blast
qed

text \<open>
  Terminating an agent ends what it holds and what it issued: a successful \<open>revoke_by_grantee\<close>
  leaves the agent no active grant, and a successful \<open>cascade_by_issuer\<close> leaves no active grant that the
  agent issued nor any active grant below one (within the cap).
\<close>

theorem terminate_revokes:
  assumes "store_run ch sd (new_store db) s"
  shows "(revoke_by_grantee a s = (Inr ids, s') \<longrightarrow> get s' i = Some g \<longrightarrow> g_grantee g = a \<longrightarrow> g_status g \<noteq> Active)
    \<and> (cascade_by_issuer a s = (Inr res, s') \<longrightarrow> get s r = Some h \<longrightarrow> g_issuer h = Parent a
        \<longrightarrow> card (descendants (s_provenance s) r) \<le> MAX_CASCADE_SIZE \<longrightarrow> i \<in> subtree s r
        \<longrightarrow> get s' i = Some g \<longrightarrow> g_status g \<noteq> Active)"
proof -
  have ix: "indexed s" using run_invariants [OF assms] new_store_invariants by blast
  have 1: "g_status g \<noteq> Active"
    if ok: "revoke_by_grantee a s = (Inr ids, s')" and g: "get s' i = Some g" "g_grantee g = a"
  proof -
    from ok obtain ev applied where "revoke_loop ev (map (Pair False) (index_get (s_by_grantee s) a)) s = (Inr applied, s')"
      by (auto simp: revoke_by_grantee_def Let_def sbind_Inr_iff sreturn_def)
    note eff = revoke_loop_grants [OF this, of i]
    from g eff obtain g0 where g0: "map_of (s_grants s) i = Some g0" "g_grantee g0 = a"
      by (auto simp: get_def split: if_splits)
    then have "i \<in> set (index_get (s_by_grantee s) a)" using ix by (auto simp: indexed_def)
    with g eff g0 show ?thesis by (auto simp: get_def image_image split: if_splits)
  qed
  have 2: "g_status g \<noteq> Active"
    if ok: "cascade_by_issuer a s = (Inr res, s')" and h: "get s r = Some h" "g_issuer h = Parent a"
      and cap: "card (descendants (s_provenance s) r) \<le> MAX_CASCADE_SIZE" and i: "i \<in> subtree s r"
      and g: "get s' i = Some g"
  proof -
    let ?all = "issuer_targets (s_provenance s) (sort (index_get (s_by_issuer s) a)) []"
    from ok obtain ev applied where "revoke_loop ev (map (Pair False) ?all) s = (Inr applied, s')"
      by (auto simp: cascade_by_issuer_def Let_def sbind_Inr_iff sreturn_def)
    note eff = revoke_loop_grants [OF this, of i]
    have "r \<in> set (index_get (s_by_issuer s) a)" using ix h by (auto simp: indexed_def get_def)
    then have "i \<in> set ?all"
      using i walk_descendants_complete [OF cap] by (auto simp: set_issuer_targets subtree_def)
    with g eff show ?thesis
      by (auto simp: get_def image_image dest: arg_cong [where f = g_status] split: if_splits)
  qed
  from 1 2 show ?thesis by blast
qed

theorem terminate_revokes_example:
  "g_status sample_root = Active \<and> g_grantee sample_root = lit ''a''
   \<and> (let s' = snd (revoke_by_grantee (lit ''a'') sample_family) in
        \<forall>i g. get s' i = Some g \<longrightarrow> g_grantee g = lit ''a'' \<longrightarrow> g_status g \<noteq> Active)"
proof -
  have "\<exists>ids. fst (revoke_by_grantee (lit ''a'') sample_family) = Inr ids"
    by (simp add: cascade_eval revoke_by_grantee_def)
  then obtain ids where "revoke_by_grantee (lit ''a'') sample_family
      = (Inr ids, snd (revoke_by_grantee (lit ''a'') sample_family))" by (metis prod.collapse)
  with terminate_revokes [OF sample_family_run] show ?thesis
    unfolding Let_def by (simp add: sample_grant_def)
qed

text \<open>
  Applying a preset is all or nothing. On success every active dynamic grant of the agent and
  every active grant below one is revoked, every other stored grant (static ones included) is left
  alone, and the preset's grants are stored; on an error nothing has changed, in memory or in the
  durable index.
\<close>

theorem preset_all_or_nothing:
  assumes "store_run ch sd (new_store db) s" and "fresh_all created s"
    and "\<forall>r\<in>dynamic_root_set s a. card (descendants (s_provenance s) r) \<le> MAX_CASCADE_SIZE"
    and "apply_preset_atomic_for_grantee ch sd a created s = (res, s')"
  shows "case res of
      Inl e \<Rightarrow> untouched s s'
    | Inr (revoked, ids) \<Rightarrow>
        set revoked = {i \<in> (\<Union>r\<in>dynamic_root_set s a. subtree s r). \<exists>g. get s i = Some g \<and> g_status g = Active}
        \<and> ids = map g_id created
        \<and> (\<forall>g\<in>set created. get s' (g_id g) = Some g)
        \<and> (\<forall>j. j \<notin> set ids \<longrightarrow> get s' j =
             map_option (\<lambda>g. if j \<in> set revoked then g\<lparr>g_status := Revoked\<rparr> else g) (get s j))"
proof (cases res)
  case (Inl e)
  with assms(4) show ?thesis by (simp add: preset_error)
next
  case (Inr x)
  obtain rv ids where x: "x = (rv, ids)" by fastforce
  have k: "keyed s" and ix: "indexed s" using run_invariants [OF assms(1)] new_store_invariants by auto
  note eff = preset_success [OF assms(4) [unfolded Inr x]]
  have roots: "set (dynamic_roots a s) = dynamic_root_set s a" by (rule set_dynamic_roots [OF ix])
  have act: "dynamic_root_set s a \<subseteq> set (active_ids s)"
    by (auto simp: dynamic_root_set_def active_ids_iff [OF k])
  have "set rv = (g_id \<circ> fst) ` set (preset_revocations s (dynamic_roots a s) (active_ids s))"
    by (simp add: eff(1))
  also have "\<dots> = set (active_ids s) \<inter> (\<Union>r\<in>dynamic_root_set s a. subtree s r)"
    unfolding roots [symmetric]
    by (rule preset_revocations_ids [OF k]) (use act roots assms(3) in auto)
  finally have rv: "set rv = {i \<in> (\<Union>r\<in>dynamic_root_set s a. subtree s r). \<exists>g. get s i = Some g \<and> g_status g = Active}"
    by (auto simp: active_ids_iff [OF k] get_def)
  have new: "\<forall>g\<in>set created. get s' (g_id g) = Some g"
    using assms(2) by (simp add: get_def eff(3) install_all_new fresh_all_def)
  have old: "get s' j = map_option (\<lambda>g. if j \<in> set rv then g\<lparr>g_status := Revoked\<rparr> else g) (get s j)"
    if "j \<notin> set ids" for j
  proof -
    have "get s' j = map_of (s_grants (revoke_in_memory rv s)) j"
      using that by (simp add: get_def eff(2,3) install_all_old)
    also have "\<dots> = map_option (\<lambda>g. if j \<in> set rv then g\<lparr>g_status := Revoked\<rparr> else g) (get s j)"
      using rv by (cases "map_of (s_grants s) j") (auto simp: revoke_in_memory_grants get_def)
    finally show ?thesis .
  qed
  show ?thesis unfolding Inr x prod.case sum.case
    using rv eff(2) new old by (intro conjI allI impI) auto
qed

theorem preset_all_or_nothing_example:
  "let n = (sample_grant ''n'' ''a'' ''web'' [])\<lparr>g_provenance := Preset (lit ''supervised'')\<rparr> in
     get (snd (apply_preset_atomic_for_grantee sample_chrono sample_serde (lit ''a'') [n] sample_family)) (lit ''n'')
       = Some n"
proof -
  let ?n = "(sample_grant ''n'' ''a'' ''web'' [])\<lparr>g_provenance := Preset (lit ''supervised'')\<rparr>"
  let ?a = "apply_preset_atomic_for_grantee sample_chrono sample_serde (lit ''a'') [?n] sample_family"
  have "\<exists>rv ids. fst ?a = Inr (rv, ids)"
    by (simp add: cascade_eval apply_preset_atomic_for_grantee_def validate_dynamic_grant_shape_def
        dynamic_roots_def active_ids_def apply_preset_atomic_def)
  then obtain rv ids where ok: "?a = (Inr (rv, ids), snd ?a)" by (metis prod.collapse)
  have "fresh_all [?n] sample_family" by (simp add: fresh_all_def store_eval sample_grant_def)
  with preset_all_or_nothing [OF sample_family_run _ _ ok] sample_family_card
  have "get (snd ?a) (g_id ?n) = Some ?n" by simp
  then show ?thesis by (simp add: sample_grant_def Let_def)
qed

lemma run_covered:
  assumes "codec_ok ch sd" and "store_run ch sd (new_store (empty_db fs)) t" and "all_storable ch t"
  shows "covered ch sd t"
proof -
  have "covered ch sd (new_store (empty_db fs))"
    by (simp add: covered_def new_store_def empty_db_def rows_wf_def row_view_def)
  then show ?thesis using run_invariants [OF assms(2)] new_store_invariants assms(1,3) by auto
qed

lemma collect_results_all_ok: "collect_results f xs = Inr ys \<Longrightarrow> x \<in> set xs \<Longrightarrow> is_ok (f x)"
  by (induction xs arbitrary: ys) (auto simp: rbind_Inr_iff)

lemma insert_dynamic_inner_row:
  assumes "insert_dynamic_inner ch sd g s = (Inr i, s')"
  shows "\<exists>r. map_of (sq_rows (s_sqlite s')) (g_id g) = Some r \<and> w_status r = status_as_str (g_status g)
     \<and> w_expires_at r = map_option (to_rfc3339 ch) (g_expires_at g)"
proof -
  obtain s1 where s1: "sql_upsert ch sd g s = (Inr (), s1)" and rows: "s_sqlite s' = s_sqlite s1"
  proof -
    from assms insert_dynamic_inner_cases [of ch sd g s] have "dual_write ch sd g s = (Inr i, s')"
      by (auto simp: sfail_def)
    then obtain u s1 where "sql_upsert ch sd g s = (Inr u, s1)" "s' = emit_all [grant_issued_event ch g] (install g s1)"
      by (auto simp: dual_write_def sbind_Inr_iff sreturn_def emit_emit_all install_def)
    then show thesis using that [of s1] by simp
  qed
  then show ?thesis
    by (auto simp: sql_upsert_def upsert_grant_def execute_upsert_grant_def encode_row_def Let_def
        split: prod.splits sum.splits if_splits option.splits)
qed

text \<open>
  C29. No grant is lost, and none is widened, by database failures. Whatever methods ran on a fresh store
  and whichever database calls failed, if the instants of the grants it holds have years of four digits, a restart fails only
  if its own read of the index fails; otherwise it recovers every grant that
  was active in memory, and everything it recovers is a grant of that store with the same grantee,
  capability, parameters, lifetime, issuer, provenance and deadline (its status may lag behind at
  \<open>Active\<close> when the update of the index failed).
\<close>

theorem restart_recovers:
  assumes "codec_ok ch sd" and "store_run ch sd (new_store (empty_db fs)) t"
    and "\<forall>i g. get t i = Some g \<longrightarrow> storable ch g"
  shows "case fst (recover_active_grants ch sd (s_sqlite t)) of
      Inl e \<Rightarrow> e = Db \<and> next_fault (s_sqlite t)
    | Inr gs \<Rightarrow>
       (\<forall>i g. get t i = Some g \<and> g_status g = Active \<longrightarrow> (\<exists>d\<in>set gs. g_id d = i \<and> durable_copy d g))
     \<and> (\<forall>d\<in>set gs. \<exists>g. get t (g_id d) = Some g \<and> durable_copy d g)"
proof (cases "fst (recover_active_grants ch sd (s_sqlite t))")
  case (Inl e)
  have "covered ch sd t" using run_covered [OF assms(1,2)] assms(3) by (simp add: all_storable_def get_def)
  then have "rows_wf ch sd (sq_rows (s_sqlite t))" by (simp add: covered_def)
  from recover_total [OF this Inl] Inl show ?thesis by simp
next
  case (Inr gs)
  have cov: "covered ch sd t" using run_covered [OF assms(1,2)] assms(3) by (simp add: all_storable_def get_def)
  have k: "keyed t" using run_invariants [OF assms(2)] new_store_invariants by auto
  let ?m = "row_view ch sd (sq_rows (s_sqlite t))"
  have gs: "set gs = {g. ?m (g_id g) = Some g \<and> g_status g = Active}"
    using recover_rows [OF _ Inr] cov by (simp add: covered_def)
  show ?thesis unfolding Inr sum.case
  proof (intro conjI allI impI ballI)
    fix i g assume g: "get t i = Some g \<and> g_status g = Active"
    then obtain d where d: "?m i = Some d" "durable_copy d g" using coveredD [OF cov] by (auto simp: get_def)
    then have "g_id d = g_id g" "g_status d = Active"
      using g by (auto simp: durable_copy_def dest: arg_cong [where f = g_id])
    moreover have "g_id g = i" using g keyedD [OF k] by (simp add: get_def)
    ultimately show "\<exists>d\<in>set gs. g_id d = i \<and> durable_copy d g" using d gs by auto
  next
    fix d assume "d \<in> set gs"
    with gs have d: "?m (g_id d) = Some d" "g_status d = Active" by auto
    with cov obtain g where g: "map_of (s_grants t) (g_id d) = Some g" by (auto simp: covered_def)
    from coveredD [OF cov g] d(1) g show "\<exists>g. get t (g_id d) = Some g \<and> durable_copy d g"
      by (auto simp: get_def)
  qed
qed

theorem restart_recovers_witness:
  "\<exists>gs. (\<forall>i g. get sample_family i = Some g \<and> g_status g = Active
            \<longrightarrow> (\<exists>d\<in>set gs. g_id d = i \<and> durable_copy d g))
     \<and> (\<forall>d\<in>set gs. \<exists>g. get sample_family (g_id d) = Some g \<and> durable_copy d g)"
proof -
  have st: "\<forall>i g. get sample_family i = Some g \<longrightarrow> storable sample_chrono g"
    by (auto simp: get_def store_eval sample_grant_def storable_def sample_chrono_def split: if_splits)
  have "\<not> next_fault (s_sqlite sample_family)" by (simp add: store_eval sample_grant_def)
  with restart_recovers [OF sample_codec_ok sample_family_run st] show ?thesis
    by (cases "fst (recover_active_grants sample_chrono sample_serde (s_sqlite sample_family))") auto
qed

text \<open>
  A deadline beyond the year 9999 blocks the next start. \<open>delegate_grant\<close> and \<open>narrow\<close> saturate at \<open>MAX_UTC\<close>, whose RFC 3339 text
  \<open>chrono\<close> does not read back: one active row with such a deadline makes every recovery fail, and with it the start of
  the grant layer.
\<close>

theorem late_deadline_blocks_recovery:
  assumes "parse_rfc3339 ch (to_rfc3339 ch (MAX_UTC ch)) = None" and "g_expires_at g = Some (MAX_UTC ch)" and "g_status g = Active"
    and "insert_dynamic_inner ch sd g s = (Inr i, s')"
  shows "\<exists>e. fst (recover_active_grants ch sd (s_sqlite s')) = Inl e"
proof -
  have "\<exists>r. map_of (sq_rows (s_sqlite s')) (g_id g) = Some r \<and> w_status r = lit ''active'' \<and> w_expires_at r = Some (to_rfc3339 ch (MAX_UTC ch))"
    using assms(2-4) insert_dynamic_inner_row [of ch sd g s i s'] by simp
  then obtain r where r: "r \<in> snd ` set (sq_rows (s_sqlite s'))" "w_status r = lit ''active''"
    "w_expires_at r = Some (to_rfc3339 ch (MAX_UTC ch))" by (force dest: map_of_SomeD)
  have "\<not> is_ok (decode_row ch sd r)"
    using r(3) assms(1) by (cases "decode_row ch sd r") (auto simp: decode_row_def rbind_Inr_iff parse_dt_def ok_or_def)
  then have "\<nexists>gs. collect_results (decode_row ch sd) (sort_key w_created_at (sort_key w_id
      (filter (\<lambda>r. w_status r = lit ''active'') (map snd (sq_rows (s_sqlite s')))))) = Inr gs"
    using r(1,2) collect_results_all_ok by fastforce
  then show ?thesis by (auto simp: recover_active_grants_def) (metis sum.exhaust)
qed

text \<open>
  A failed write un-spends a single-use grant at the next restart: \<open>consume\<close> marks the grant in
  memory before it updates the durable index, so when that update fails the call reports an error,
  memory holds the grant as consumed, and the row the next recovery reads is still active.
\<close>

theorem consume_fault_lags:
  assumes "codec_ok ch sd" and "store_run ch sd (new_store (empty_db fs)) s"
    and "get s i = Some g" and "g_status g = Active" and "g_ttl g = Once"
    and "fn \<noteq> []" and "str_len fn \<le> 256" and "\<not> list_ex is_control fn"
    and "next_fault (s_sqlite s)" and "all_storable ch s"
  shows "fst (consume i fn s) = Inl Db
     \<and> get (snd (consume i fn s)) i = Some (g\<lparr>g_status := Consumed\<rparr>)
     \<and> (\<exists>d. row_view ch sd (sq_rows (s_sqlite (snd (consume i fn s)))) i = Some d \<and> g_status d = Active)"
proof -
  have cov: "covered ch sd s" using assms(1,2,10) by (rule run_covered)
  have g: "map_of (s_grants s) i = Some g" using assms(3) by (simp add: get_def)
  from coveredD [OF cov g] assms(4) obtain d where
    "row_view ch sd (sq_rows (s_sqlite s)) i = Some d" "g_status d = Active"
    by (auto simp: durable_copy_def)
  moreover have "consume i fn s = (Inl Db, (set_status i Consumed s)\<lparr>s_sqlite := after_call (s_sqlite s)\<rparr>)"
    using assms(3-9) by (simp add: consume_def get_def sbind_def sql_status_def update_status_def)
  ultimately show ?thesis using assms(3) by (simp add: get_def set_status_grants)
qed

theorem consume_fault_lags_example:
  "let g = (sample_grant ''g'' ''a'' ''web'' [])\<lparr>g_ttl := Once\<rparr>; s = sample_store [g] [False, True] in
     fst (consume (lit ''g'') (lit ''f'') s) = Inl Db
     \<and> get (snd (consume (lit ''g'') (lit ''f'') s)) (lit ''g'') = Some (g\<lparr>g_status := Consumed\<rparr>)
     \<and> (\<exists>d. row_view sample_chrono sample_serde (sq_rows (s_sqlite (snd (consume (lit ''g'') (lit ''f'') s)))) (lit ''g'')
              = Some d \<and> g_status d = Active)"
proof -
  let ?g = "(sample_grant ''g'' ''a'' ''web'' [])\<lparr>g_ttl := Once\<rparr>"
  let ?s = "sample_store [?g] [False, True]"
  have run: "store_run sample_chrono sample_serde (new_store (empty_db [False, True])) ?s"
    by (rule sample_store_run) simp_all
  have "get ?s (lit ''g'') = Some ?g" "next_fault (s_sqlite ?s)"
    by (simp_all add: get_def store_eval sample_grant_def)
  moreover have st: "all_storable sample_chrono ?s"
    by (auto simp: all_storable_def store_eval sample_grant_def storable_def sample_chrono_def split: if_splits)
  ultimately show ?thesis
    unfolding Let_def by (intro consume_fault_lags [OF sample_codec_ok run])
      (simp_all add: lit_def utf8_len_def is_control_def, simp_all add: sample_grant_def st)
qed

end
