(* ===== verification/Governance.thy ===== *)
theory Governance
  imports StoreProps
begin

text \<open>
  The invariant that spans the store and the subset rules: in every store that the methods of
  \<open>store.rs\<close> reach from an empty one, a grant with a \<open>Delegated\<close> provenance covers no call that the
  grant it came from did not cover.
\<close>

section \<open>Attenuation along the provenance\<close>

definition covers_less :: "grant \<Rightarrow> grant \<Rightarrow> bool" where
  "covers_less g h \<longleftrightarrow> g_capability g = g_capability h
     \<and> (\<forall>r. covers_request g r = Inr () \<longrightarrow> covers_request h r = Inr ())"

definition attenuated :: "store \<Rightarrow> bool" where
  "attenuated s \<longleftrightarrow> (\<forall>i g p. map_of (s_grants s) i = Some g \<and> g_provenance g = Delegated p \<longrightarrow>
     (\<exists>h. map_of (s_grants s) p = Some h \<and> covers_less g h))"

lemma covers_request_status [simp]:
  "covers_request (g\<lparr>g_status := st\<rparr>) r = covers_request g r"
  by (simp add: covers_request_def validate_def)

lemma covers_less_status [simp]:
  "covers_less (g\<lparr>g_status := st\<rparr>) h = covers_less g h"
  "covers_less g (h\<lparr>g_status := st\<rparr>) = covers_less g h"
  by (simp_all add: covers_less_def)

lemma covers_less_refl [simp]: "covers_less g g"
  by (simp add: covers_less_def)

lemma covers_less_trans: "covers_less a b \<Longrightarrow> covers_less b c \<Longrightarrow> covers_less a c"
  by (simp add: covers_less_def)

lemma validated_covers_less: "validate p d = Inr () \<Longrightarrow> issued_as d g \<Longrightarrow> covers_less g p"
  by (auto simp: covers_less_def validate_Inr_iff issued_as_def intro: covers_request_mono)

lemma attenuatedD:
  "attenuated s \<Longrightarrow> map_of (s_grants s) i = Some g \<Longrightarrow> g_provenance g = Delegated p \<Longrightarrow>
     \<exists>h. map_of (s_grants s) p = Some h \<and> covers_less g h"
  by (auto simp: attenuated_def)

lemma attenuated_evolves:
  assumes "attenuated s" "evolves s s'" "dom (map_of (s_grants s')) = dom (map_of (s_grants s))"
  shows "attenuated s'"
  unfolding attenuated_def
proof (intro allI impI)
  fix i g' p assume g': "map_of (s_grants s') i = Some g' \<and> g_provenance g' = Delegated p"
  then obtain g where g: "map_of (s_grants s) i = Some g" using assms(3) by blast
  with g' evolvesD [OF assms(2) g] obtain st where st: "g' = g\<lparr>g_status := st\<rparr>" by auto
  with g' attenuatedD [OF assms(1) g, of p] obtain h where
    h: "map_of (s_grants s) p = Some h" "covers_less g' h" by auto
  with assms(2) obtain st' where "map_of (s_grants s') p = Some (h\<lparr>g_status := st'\<rparr>)"
    using evolvesD by blast
  with h show "\<exists>h. map_of (s_grants s') p = Some h \<and> covers_less g' h" by simp
qed

lemma attenuated_install:
  assumes "attenuated s" "map_of (s_grants s) (g_id g) = None"
    and "map_of (s_grants s') = (map_of (s_grants s))(g_id g \<mapsto> g)"
    and "\<And>p. g_provenance g = Delegated p \<Longrightarrow> \<exists>h. map_of (s_grants s) p = Some h \<and> covers_less g h"
  shows "attenuated s'"
  unfolding attenuated_def
proof (intro allI impI)
  fix i g' p assume g': "map_of (s_grants s') i = Some g' \<and> g_provenance g' = Delegated p"
  then obtain h where h: "map_of (s_grants s) p = Some h" "covers_less g' h"
    using assms(3,4) attenuatedD [OF assms(1), of i g' p] by (cases "i = g_id g") auto
  with assms(2,3) show "\<exists>h. map_of (s_grants s') p = Some h \<and> covers_less g' h" by auto
qed

lemma attenuated_install_all:
  assumes "attenuated s" "fresh_all gs s" "\<forall>g\<in>set gs. \<forall>p. g_provenance g \<noteq> Delegated p"
  shows "attenuated (install_all gs s)"
  using assms
proof (induction gs arbitrary: s)
  case (Cons g gs)
  then have "attenuated (install g s)"
    by - (rule attenuated_install [of s g], simp_all add: fresh_all_def)
  moreover have "fresh_all gs (install g s)" using Cons.prems by (auto simp: fresh_all_def image_iff)
  ultimately show ?case using Cons by simp
qed simp

lemma attenuated_fields [simp]:
  "attenuated (emit_all es s) = attenuated s" "attenuated (s\<lparr>s_narrow_in_progress := n\<rparr>) = attenuated s"
  "attenuated (snd (sql_status i st s)) = attenuated s" "attenuated (snd (sql_upsert ch sd g s)) = attenuated s"
  "attenuated (s\<lparr>s_sqlite := db\<rparr>) = attenuated s"
  by (simp_all add: attenuated_def)

interpretation at: store_property ch sd "\<lambda>g. \<forall>p. g_provenance g \<noteq> Delegated p"
  "\<lambda>s s'. attenuated s \<longrightarrow> attenuated s'" for ch sd
proof (unfold_locales, goal_cases)
  case (5 s i g st)
  then show ?case
    by (intro impI attenuated_evolves [OF _ evolves_set_status]) (auto simp: set_status_grants dom_def)
next
  case (8 s g)
  then show ?case
    by - (rule impI, rule attenuated_install [of "snd (sql_upsert ch sd g s)" g], simp_all)
next
  case (10 s gs "is" db)
  let ?s = "s\<lparr>s_sqlite := db\<rparr>"
  have "attenuated s \<Longrightarrow> attenuated (revoke_in_memory is ?s)"
    by (rule attenuated_evolves [OF _ evolves_revoke_in_memory]) (auto simp: revoke_in_memory_grants dom_def)
  moreover have "fresh_all gs (revoke_in_memory is ?s)"
    using 10(3) by (simp add: fresh_all_def revoke_in_memory_grants)
  ultimately show ?case using 10(2) attenuated_install_all by (auto simp: list_all_iff)
qed simp_all

section \<open>Governed runs\<close>

text \<open>The calls of the store with the production validator: delegated grants come from
  \<open>delegate_grant\<close> and \<open>narrow\<close> only.\<close>

inductive governed :: "chrono \<Rightarrow> serde \<Rightarrow> store \<Rightarrow> store \<Rightarrow> bool" for ch sd where
  via_insert: "map_of (s_grants s) (g_id g) = None \<Longrightarrow> \<forall>p. g_provenance g \<noteq> Delegated p
    \<Longrightarrow> ttl_in_range (g_ttl g) \<Longrightarrow> governed ch sd s (snd (insert_grant ch sd g s))"
| via_insert_dynamic: "map_of (s_grants s) (g_id g) = None \<Longrightarrow> \<forall>p. g_provenance g \<noteq> Delegated p
    \<Longrightarrow> ttl_in_range (g_ttl g) \<Longrightarrow> governed ch sd s (snd (insert_dynamic ch sd g s))"
| via_consume: "governed ch sd s (snd (consume i fn s))"
| via_expire: "governed ch sd s (snd (expire_ids ch is s))"
| via_revoke_by_grantee: "governed ch sd s (snd (revoke_by_grantee a s))"
| via_cascade: "governed ch sd s (snd (cascade_revoke i s))"
| via_cascade_by_issuer: "governed ch sd s (snd (cascade_by_issuer a s))"
| via_preset: "fresh_all gs s \<Longrightarrow> \<forall>g\<in>set gs. \<forall>p. g_provenance g \<noteq> Delegated p
    \<Longrightarrow> list_all (\<lambda>g. ttl_in_range (g_ttl g)) gs
    \<Longrightarrow> governed ch sd s (snd (apply_preset_atomic_for_grantee ch sd a gs s))"
| via_revoke_dynamic: "governed ch sd s (snd (revoke_dynamic_for_grantee a s))"
| via_narrow: "map_of (s_grants s) new_id = None
    \<Longrightarrow> governed ch sd s (snd (narrow ch sd validate now new_id i ps caller s))"
| via_delegate: "map_of (s_grants s) new_id = None \<Longrightarrow> ttl_in_range (d_ttl draft)
    \<Longrightarrow> governed ch sd s (snd (delegate_grant ch sd validate now_check now new_id pid child draft caller s))"

lemma governed_step: "governed ch sd s s' \<Longrightarrow> store_step ch sd s s'"
  by (cases rule: governed.cases) (auto simp: cascade_revoke_def intro: store_step.intros)

inductive governed_run :: "chrono \<Rightarrow> serde \<Rightarrow> store \<Rightarrow> store \<Rightarrow> bool" for ch sd where
  governed_refl: "governed_run ch sd s s"
| governed_next: "governed_run ch sd s t \<Longrightarrow> governed ch sd t u \<Longrightarrow> governed_run ch sd s u"

lemma governed_run_run: "governed_run ch sd s t \<Longrightarrow> store_run ch sd s t"
  by (induction rule: governed_run.induct) (auto intro: store_run.intros governed_step)

lemma attenuated_untouched: "untouched s s' \<Longrightarrow> attenuated s \<Longrightarrow> attenuated s'"
  unfolding untouched_def by (metis attenuated_fields(5))

lemma attenuated_delegate:
  assumes k: "keyed s" and a: "attenuated s" and fresh: "map_of (s_grants s) new_id = None"
  shows "attenuated (snd (delegate_grant ch sd validate t0 t1 new_id pid child draft caller s))"
proof (cases "delegate_grant ch sd validate t0 t1 new_id pid child draft caller s")
  case (Pair r s')
  show ?thesis
  proof (cases r)
    case (Inl e)
    with Pair a show ?thesis using delegate_error attenuated_untouched by fastforce
  next
    case (Inr i)
    with Pair obtain p where p: "map_of (s_grants s) pid = Some p" "validate p draft = Inr ()"
      and s': "map_of (s_grants s') = (map_of (s_grants s))(new_id \<mapsto> delegated_grant ch t1 new_id caller child draft p)"
      by (auto elim: delegate_success)
    have "covers_less (delegated_grant ch t1 new_id caller child draft p) p"
      using p(2) by (intro validated_covers_less [OF p(2)] delegated_issued) (simp add: validate_Inr_iff)
    with a fresh s' p(1) keyedD [OF k p(1)] have "attenuated s'"
      by (intro attenuated_install [OF a, of "delegated_grant ch t1 new_id caller child draft p"])
        (auto simp: delegated_grant_def)
    with Pair show ?thesis by simp
  qed
qed

lemma attenuated_narrow:
  assumes k: "keyed s" and a: "attenuated s" and fresh: "map_of (s_grants s) new_id = None"
  shows "attenuated (snd (narrow ch sd validate now new_id i ps caller s))"
  unfolding narrow_def
proof (rule sbind_inv, simp add: a, rule sbind_inv, simp, rule sbind_inv, simp, rule sbind_inv, simp,
    rule sbind_inv, simp, rule sbind_inv, goal_cases)
  case (1 u1 s1 g s2 u3 s3 u4 s4 u5 s5)
  then have "s5 = s" by (auto simp: slift_def)
  then show ?case using a k at.cascade_revoke_with_reason by blast
next
  case (2 u1 s1 g s2 u3 s3 u4 s4 u5 s5 res s6)
  then have s5: "s5 = s" and e: "narrow_existing i s = Inr g"
    and v: "validate g \<lparr>d_capability = g_capability g, d_params = ps, d_ttl = g_ttl g\<rparr> = Inr ()"
    by (auto simp: slift_def)
  from e have g: "map_of (s_grants s) i = Some g"
    by (auto simp: narrow_existing_def split: option.splits if_splits)
  have c: "cascade_revoke_with_reason i (lit ''narrow'') s = (Inr res, s6)" using 2 s5 by simp
  have "evolves s s6" using ev.cascade_revoke_with_reason [OF k, of i "lit ''narrow''"] c by simp
  with g obtain st where g6: "map_of (s_grants s6) i = Some (g\<lparr>g_status := st\<rparr>)" using evolvesD by blast
  have "dom (map_of (s_grants s6)) = dom (map_of (s_grants s))"
    using dk.cascade_revoke_with_reason [OF k, of i "lit ''narrow''"] c by simp
  then have fresh6: "map_of (s_grants s6) new_id = None" using fresh by blast
  let ?n = "narrowed_grant ch now new_id i ps g"
  have less: "covers_less ?n g"
    by (rule validated_covers_less [OF v]) (simp add: issued_as_def narrowed_grant_def)
  have "attenuated (snd (insert_dynamic ch sd ?n s6))"
  proof (cases "insert_dynamic ch sd ?n s6")
    case (Pair q s7)
    then show ?thesis
    proof (cases q)
      case (Inl e)
      with Pair 2 show ?thesis using insert_dynamic_error attenuated_untouched by fastforce
    next
      case (Inr j)
      with Pair dual_write_success(2) insert_dynamic_success
      have "map_of (s_grants s7) = (map_of (s_grants s6))(g_id ?n \<mapsto> ?n)" by blast
      with 2 fresh6 g6 less have "attenuated s7"
        by - (rule attenuated_install [of s6 ?n], auto simp: narrowed_grant_def)
      with Pair show ?thesis by simp
    qed
  qed
  then show ?case by (rule sbind_inv) (simp add: emit_emit_all)
qed

lemma governed_attenuated:
  assumes "governed ch sd s s'" "keyed s" "attenuated s"
  shows "attenuated s'"
  using assms
proof (cases rule: governed.cases)
  case (via_narrow new_id now i ps caller)
  with assms show ?thesis by (simp add: attenuated_narrow)
next
  case (via_delegate new_id draft t0 t1 pid child caller)
  with assms show ?thesis by (simp add: attenuated_delegate)
next
  case (via_preset gs a)
  with assms show ?thesis using at.apply_preset [of s gs ch sd a] by (simp add: list_all_iff)
qed (use assms at.insert_fresh at.insert_dynamic at.consume at.expire_ids at.revoke_by_grantee
      at.cascade_revoke_with_reason at.cascade_by_issuer at.revoke_dynamic_for_grantee
      in \<open>auto simp: cascade_revoke_def\<close>)

lemma governed_run_attenuated:
  assumes "governed_run ch sd s t" "keyed s" "ttls_in_range s" "attenuated s"
  shows "attenuated t"
  using assms
proof (induction rule: governed_run.induct)
  case (governed_next s t u)
  then have "keyed t" using run_invariants [OF governed_run_run] by blast
  with governed_next show ?case using governed_attenuated by blast
qed simp

lemma new_store_attenuated: "attenuated (new_store db)"
  by (simp add: attenuated_def new_store_def)

section \<open>A sample delegation\<close>

abbreviation sample_held :: store where
  "sample_held \<equiv> sample_store [sample_grant ''p'' ''a'' ''fs'' []] []"

abbreviation sample_wish :: grant_draft where
  "sample_wish \<equiv> sample_draft ''fs'' [prm ''read-paths'' ''/w'']"

definition sample_delegation :: "rstr \<Rightarrow> rstr result \<times> store" where
  "sample_delegation caller =
     delegate_grant sample_chrono sample_serde validate 1 2 (lit ''n'') (lit ''p'') (lit ''b'') sample_wish
       caller sample_held"

lemmas delegate_eval = store_eval
  delegate_grant_def delegate_parent_id_ok_def delegate_agents_ok_def is_agent_or_bare_id_def
  delegate_parent_def check_params_size_def MAX_PARAMS_ENTRIES_def MAX_PARAMS_BYTES_def params_bytes_def
  delegated_grant_def unexpired_def is_control_def string_eval validate_def

lemma sample_held_run: "store_run sample_chrono sample_serde (new_store (empty_db [])) sample_held"
  by (rule sample_store_run) (simp_all add: sample_grant_def)

lemma sample_delegation_ok: "fst (sample_delegation (lit ''a'')) = Inr (lit ''n'')"
  by (simp add: sample_delegation_def delegate_eval sample_grant_def sample_draft_def prm_def)

lemma sample_delegation_denied: "\<exists>e. fst (sample_delegation (lit ''c'')) = Inl e"
  by (simp add: sample_delegation_def delegate_eval sample_grant_def sample_draft_def prm_def)

section \<open>Properties\<close>

text \<open>
  C7. Delegation attenuates end to end. When \<open>delegate_grant\<close> succeeds, the caller held the parent grant,
  active and within its deadline, and is not the child; the stored child grant has the parent's
  capability and the draft's parameters, records the parent as issuer and provenance, covers no call
  the parent does not cover, and is past its own deadline whenever the parent is past its; a parent
  with lifetime \<open>Once\<close> is never delegated and an agent-bound one only to agent-bound or
  single-use children; nothing else in the store changes.
\<close>

theorem delegate_attenuates:
  assumes "store_run ch sd (new_store db) s"
    and "delegate_grant ch sd validate t0 t1 new_id pid child draft caller s = (Inr i, s')"
  shows "\<exists>parent c. get s pid = Some parent \<and> g_grantee parent = caller \<and> live t0 parent \<and> child \<noteq> caller
     \<and> get s' i = Some c \<and> g_status c = Active \<and> g_grantee c = child
     \<and> g_capability c = g_capability parent \<and> g_params c = d_params draft \<and> g_ttl c = d_ttl draft
     \<and> g_issuer c = Parent caller \<and> g_provenance c = Delegated pid
     \<and> (\<forall>r. covers_request c r = Inr () \<longrightarrow> covers_request parent r = Inr ())
     \<and> (\<forall>t. unexpired t c \<longrightarrow> unexpired t parent)
     \<and> g_ttl parent \<noteq> Once \<and> (g_ttl parent = Lifecycle \<longrightarrow> d_ttl draft \<in> {Once, Lifecycle})
     \<and> (\<forall>j. j \<noteq> i \<longrightarrow> get s' j = get s j)"
proof -
  have k: "keyed s" using run_invariants [OF assms(1)] new_store_invariants by blast
  from assms(2) obtain p where p: "map_of (s_grants s) pid = Some p" "g_status p = Active"
    "g_grantee p = caller" "unexpired t0 p" "delegate_agents_ok caller child = Inr ()"
    "validate p draft = Inr ()" "ttl_kind_allows (g_ttl p) (d_ttl draft) = Inr ()" "i = new_id"
    and s': "map_of (s_grants s') = (map_of (s_grants s))(new_id \<mapsto> delegated_grant ch t1 new_id caller child draft p)"
    by (rule delegate_success) blast
  let ?c = "delegated_grant ch t1 new_id caller child draft p"
  have "covers_less ?c p"
    by (rule validated_covers_less [OF p(6)]) (use p(6) in \<open>simp add: delegated_issued validate_Inr_iff\<close>)
  moreover have "deadline_le (g_expires_at ?c) (g_expires_at p)"
    by (simp add: delegated_grant_def clamp_deadline_le)
  moreover have "child \<noteq> caller" using p(5) by (auto simp: delegate_agents_ok_def split: if_splits)
  moreover have "g_ttl p \<noteq> Once" "g_ttl p = Lifecycle \<Longrightarrow> d_ttl draft \<in> {Once, Lifecycle}"
    using p(7) by (auto elim: ttl_kind_allows.elims)
  ultimately show ?thesis
    using p s' keyedD [OF k p(1)] deadline_le_live [of ?c p]
    by (intro exI [of _ p] exI [of _ ?c]) (auto simp: get_def live_def delegated_grant_def covers_less_def)
qed

theorem delegate_attenuates_witness:
  "\<exists>parent c. get sample_held (lit ''p'') = Some parent \<and> live 1 parent
     \<and> get (snd (sample_delegation (lit ''a''))) (lit ''n'') = Some c \<and> g_grantee c = lit ''b''
     \<and> (\<forall>r. covers_request c r = Inr () \<longrightarrow> covers_request parent r = Inr ())"
proof -
  have "sample_delegation (lit ''a'') = (Inr (lit ''n''), snd (sample_delegation (lit ''a'')))"
    using sample_delegation_ok by (simp add: prod_eq_iff)
  from delegate_attenuates [OF sample_held_run this [unfolded sample_delegation_def]] show ?thesis
    unfolding sample_delegation_def by (elim exE conjE) (rule exI, rule exI, intro conjI; assumption)
qed

text \<open>
  A refused or failed delegation changes nothing: on every error path of \<open>delegate_grant\<close> the maps, the
  indexes, the durable rows and the event log are as they were.
\<close>

theorem delegate_error_untouched:
  assumes "delegate_grant ch sd validator t0 t1 new_id pid child draft caller s = (Inl e, s')"
  shows "untouched s s'"
  using assms by (rule delegate_error)

text \<open>
  C8. Narrowing replaces a grant by a smaller one. When \<open>narrow\<close> succeeds, the caller was the grantee of
  the active grant; the new grant is active with the caller, capability, lifetime and issuer of the old one and the new parameters, and
  covers no call the old one did not cover; the old grant and the descendants that the cascade reaches are no longer active. The
  cascade reaches all descendants if there are at most 10000, and otherwise that many.
\<close>

theorem narrow_replaces:
  assumes "store_run ch sd (new_store db) s" and "get s new_id = None"
    and "narrow ch sd validate now new_id i ps caller s = (Inr r, s')"
  shows "\<exists>old n. get s i = Some old \<and> g_status old = Active \<and> g_grantee old = caller \<and> r = new_id
     \<and> get s' new_id = Some n \<and> g_status n = Active \<and> g_grantee n = caller \<and> g_params n = ps
     \<and> g_capability n = g_capability old \<and> g_ttl n = g_ttl old \<and> g_issuer n = g_issuer old
     \<and> g_provenance n = Delegated i
     \<and> (\<forall>q. covers_request n q = Inr () \<longrightarrow> covers_request old q = Inr ())
     \<and> (\<exists>W. i \<in> W \<and> W \<subseteq> subtree s i
          \<and> (card (descendants (s_provenance s) i) \<le> MAX_CASCADE_SIZE \<longrightarrow> W = subtree s i)
          \<and> (MAX_CASCADE_SIZE < card (descendants (s_provenance s) i) \<longrightarrow> MAX_CASCADE_SIZE \<le> card W)
          \<and> (\<forall>j g. j \<in> W \<longrightarrow> get s' j = Some g \<longrightarrow> j \<noteq> new_id \<longrightarrow> g_status g \<noteq> Active))"
proof -
  from assms(3) obtain g res s1 where g: "map_of (s_grants s) i = Some g" "g_status g = Active" "g_grantee g = caller"
    and v: "validate g \<lparr>d_capability = g_capability g, d_params = ps, d_ttl = g_ttl g\<rparr> = Inr ()"
    and c: "cascade_revoke_with_reason i (lit ''narrow'') s = (Inr res, s1)" and r: "r = new_id"
    and s': "map_of (s_grants s') = (map_of (s_grants s1))(new_id \<mapsto> narrowed_grant ch now new_id i ps g)"
    by (rule narrow_success) blast
  let ?n = "narrowed_grant ch now new_id i ps g"
  have less: "covers_less ?n g"
    by (rule validated_covers_less [OF v]) (simp add: issued_as_def narrowed_grant_def)
  have "g_status h \<noteq> Active" if "j \<in> reached s i" "get s' j = Some h" "j \<noteq> new_id" for j h
    using that s' cascade_reached(1) [OF c, of j]
    by (auto simp: get_def dest: arg_cong [where f = g_status] split: if_splits)
  then have revoked: "\<exists>W. i \<in> W \<and> W \<subseteq> subtree s i
      \<and> (card (descendants (s_provenance s) i) \<le> MAX_CASCADE_SIZE \<longrightarrow> W = subtree s i)
      \<and> (MAX_CASCADE_SIZE < card (descendants (s_provenance s) i) \<longrightarrow> MAX_CASCADE_SIZE \<le> card W)
      \<and> (\<forall>j g. j \<in> W \<longrightarrow> get s' j = Some g \<longrightarrow> j \<noteq> new_id \<longrightarrow> g_status g \<noteq> Active)"
    by (intro exI [of _ "reached s i"] conjI allI impI reached_subtree reached_all reached_many)
  show ?thesis
    by (intro exI [of _ g] exI [of _ ?n] conjI revoked)
      (use g r s' less in \<open>auto simp: get_def narrowed_grant_def covers_less_def\<close>)
qed

theorem narrow_replaces_witness:
  "\<exists>old n. get sample_held (lit ''p'') = Some old
     \<and> get (snd (narrow sample_chrono sample_serde validate 5 (lit ''n'') (lit ''p'')
                   [prm ''read-paths'' ''/w''] (lit ''a'') sample_held)) (lit ''n'') = Some n
     \<and> (\<forall>q. covers_request n q = Inr () \<longrightarrow> covers_request old q = Inr ())"
proof -
  let ?r = "narrow sample_chrono sample_serde validate 5 (lit ''n'') (lit ''p'')
              [prm ''read-paths'' ''/w''] (lit ''a'') sample_held"
  have "fst ?r = Inr (lit ''n'')"
    by (simp add: delegate_eval cascade_eval narrow_def narrow_caller_ok_def narrow_existing_def
        narrowed_grant_def prm_def)
  then have ok: "?r = (Inr (lit ''n''), snd ?r)" by (simp add: prod_eq_iff)
  have fresh: "get sample_held (lit ''n'') = None" by (simp add: get_def store_eval sample_grant_def)
  from narrow_replaces [OF sample_held_run fresh ok] show ?thesis
    by (elim exE conjE) (rule exI, rule exI, intro conjI; assumption)
qed

text \<open>
  When narrowing keeps the deadline: the grant \<open>narrow\<close> builds never outlives the one it replaces
  exactly if the old lifetime is a \<open>Duration\<close>, or is \<open>Until\<close> an instant within the old deadline, or the old
  grant had no deadline. A grant with lifetime \<open>Persistent\<close>, \<open>Once\<close> or a later \<open>Until\<close> whose deadline was
  inherited from its parent at delegation escapes that deadline when its holder narrows it.
\<close>

theorem narrow_keeps_deadline_iff:
  "deadline_le (narrow_expires_at ch now old) (g_expires_at old) \<longleftrightarrow>
     (case g_ttl old of Duration _ \<Rightarrow> True
      | Until t \<Rightarrow> deadline_le (Some t) (g_expires_at old)
      | _ \<Rightarrow> g_expires_at old = None)"
  by (cases "g_expires_at old") (auto simp: narrow_expires_at_def Let_def split: grant_ttl.splits)

text \<open>
  C1. Authority only shrinks along the provenance graph of the whole system. In every store that the
  methods reach from an empty one with the production validator, any grant reached from another by
  delegations and narrowings, however long the chain and whatever was revoked, expired or failed
  since, has the capability of the ancestor and covers no call the ancestor does not cover.
\<close>

theorem authority_shrinks:
  assumes "governed_run ch sd (new_store db) t"
    and "(a, i) \<in> (edges (s_provenance t))\<^sup>+" and "get t a = Some h" and "get t i = Some g"
  shows "g_capability g = g_capability h
     \<and> (\<forall>r. covers_request g r = Inr () \<longrightarrow> covers_request h r = Inr ())"
proof -
  have at: "attenuated t"
    using governed_run_attenuated [OF assms(1)] new_store_invariants new_store_attenuated by blast
  have ix: "indexed t"
    using run_invariants [OF governed_run_run [OF assms(1)]] new_store_invariants by blast
  have edge: "\<exists>g h. get t i = Some g \<and> get t p = Some h \<and> covers_less g h" if "(p, i) \<in> edges (s_provenance t)" for p i
    using that ix attenuatedD [OF at] by (fastforce simp: edges_def indexed_def get_def)
  have "\<exists>g. get t i = Some g \<and> covers_less g h" using assms(2)
  proof (induction rule: trancl_induct)
    case (base i)
    then show ?case using edge assms(3) by fastforce
  next
    case (step i j)
    then obtain g g' where "get t i = Some g" "covers_less g h" "get t j = Some g'" "covers_less g' g"
      using edge by fastforce
    then show ?case using covers_less_trans by blast
  qed
  with assms(4) show ?thesis by (auto simp: covers_less_def)
qed

theorem authority_shrinks_witness:
  "\<exists>g h. get (snd (sample_delegation (lit ''a''))) (lit ''n'') = Some g
     \<and> get (snd (sample_delegation (lit ''a''))) (lit ''p'') = Some h
     \<and> g_capability g = g_capability h
     \<and> (\<forall>r. covers_request g r = Inr () \<longrightarrow> covers_request h r = Inr ())"
proof -
  let ?t = "snd (sample_delegation (lit ''a''))"
  have fresh: "map_of (s_grants sample_held) (lit ''n'') = None" by (simp add: store_eval sample_grant_def)
  have "governed sample_chrono sample_serde (new_store (empty_db [])) sample_held"
    using via_insert_dynamic [of "new_store (empty_db [])" "sample_grant ''p'' ''a'' ''fs'' []"]
    by (simp add: new_store_def sample_grant_def)
  moreover have "governed sample_chrono sample_serde sample_held ?t"
    unfolding sample_delegation_def using fresh by (rule via_delegate) (simp add: sample_draft_def)
  ultimately have run: "governed_run sample_chrono sample_serde (new_store (empty_db [])) ?t"
    by (blast intro: governed_refl governed_next)
  have "s_provenance ?t = [(lit ''p'', [lit ''n''])]"
    by (simp add: sample_delegation_def delegate_eval sample_grant_def sample_draft_def prm_def)
  then have edge: "(lit ''p'', lit ''n'') \<in> (edges (s_provenance ?t))\<^sup>+"
    by (intro r_into_trancl) (simp add: edges_def index_get_def)
  have "\<exists>g. get ?t (lit ''n'') = Some g" "\<exists>h. get ?t (lit ''p'') = Some h"
    by (simp_all add: sample_delegation_def delegate_eval sample_grant_def sample_draft_def prm_def get_def)
  with authority_shrinks [OF run edge] show ?thesis by blast
qed

end
