(* ===== verification/CapabilitySubset.thy ===== *)
theory CapabilitySubset
  imports SubsetProps
begin

text \<open>
  \<open>cap-grant/src/capability_subset.rs\<close>: the capability-first entry of the subset check. Each JSON
  capability is projected into the string parameters the family rules read, failing closed on every
  shape that would lose its identity on the way, and the projections are handed to the validator.

  The arguments that only feed an error message (capability id, key, position) are left out of the
  helper functions.
\<close>

section \<open>Definitions\<close>

definition MAX_CAPABILITIES_PER_CALL :: nat where "MAX_CAPABILITIES_PER_CALL = 256"
definition MAX_PARAMS_KEYS_PER_CAPABILITY :: nat where "MAX_PARAMS_KEYS_PER_CAPABILITY = 16"
definition MAX_PARAMS_ARRAY_LEN :: nat where "MAX_PARAMS_ARRAY_LEN = 256"
definition MAX_PARAMS_STRING_BYTES :: nat where "MAX_PARAMS_STRING_BYTES = 4096"

text \<open>\<open>shared_types::agent_tree::Capability\<close>.\<close>

record capability =
  c_id :: rstr
  c_params :: json

definition allowed_param_keys :: "rstr \<Rightarrow> rstr list option" where
  "allowed_param_keys cap =
     (if cap = lit ''fs'' then Some [lit ''read-paths'', lit ''write-paths'']
      else if cap = lit ''http'' then Some [lit ''allowlist'']
      else if cap = lit ''messaging'' then Some [lit ''targets'', lit ''max-fanout'', lit ''max-depth'']
      else if cap = lit ''lifecycle'' then Some [lit ''spawn-child'', lit ''spawn-sub'']
      else if cap = lit ''llm'' then Some [lit ''models'', lit ''max-tokens-per-call'']
      else if cap = lit ''secrets'' then Some [lit ''names'']
      else if cap = lit ''tools'' then Some [lit ''ids'']
      else if cap = lit ''notify'' then Some [lit ''targets'']
      else if cap = lit ''mcp'' then Some [lit ''servers'', lit ''tool-patterns'']
      else if cap = lit ''skills'' then Some [lit ''allowed-actions'', lit ''max-active-skills'']
      else if cap = lit ''web'' then Some []
      else if cap = lit ''data'' then Some [lit ''mode'']
      else None)"

definition is_unicode_confusable :: "rchar \<Rightarrow> bool" where
  "is_unicode_confusable u \<longleftrightarrow>
     u = 0xAD \<or> u = 0x180E \<or> (0x200B \<le> u \<and> u \<le> 0x200F) \<or> (0x202A \<le> u \<and> u \<le> 0x202E)
     \<or> u = 0x2060 \<or> (0x2061 \<le> u \<and> u \<le> 0x2064) \<or> (0x2066 \<le> u \<and> u \<le> 0x2069)
     \<or> (0xFE00 \<le> u \<and> u \<le> 0xFE0F) \<or> u = 0xFEFF \<or> (0xE0000 \<le> u \<and> u \<le> 0xE007F)"

definition check_parse_csv_safe :: "rstr \<Rightarrow> unit result" where
  "check_parse_csv_safe s =
     (if comma \<in> set s then Inl (SubsetViolation ''projection: comma'')
      else if s = [] then Inl (SubsetViolation ''projection: empty'')
      else if trim s \<noteq> s then Inl (SubsetViolation ''projection: surrounding whitespace'')
      else if list_ex (\<lambda>b. b < 0x20 \<or> b = 0x7F) s
      then Inl (SubsetViolation ''projection: ASCII control byte'')
      else if list_ex is_unicode_confusable s
      then Inl (SubsetViolation ''projection: Unicode confusable'')
      else Inr ())"

definition bool_to_string :: "bool \<Rightarrow> rstr" where
  "bool_to_string b = (if b then lit ''true'' else lit ''false'')"

fun array_element_to_string :: "json \<Rightarrow> rstr result" where
  "array_element_to_string (JString s) =
     (if str_len s > MAX_PARAMS_STRING_BYTES
      then Inl (SubsetViolation ''projection: array element too long'')
      else rbind (check_parse_csv_safe s) (\<lambda>_. Inr s))"
| "array_element_to_string (JNumber n) =
     (case as_u64 n of
        Some u \<Rightarrow> rbind (check_parse_csv_safe (u64_to_string u)) (\<lambda>_. Inr (u64_to_string u))
      | None \<Rightarrow> Inl (SubsetViolation ''projection: array element not u64''))"
| "array_element_to_string (JBool b) =
     rbind (check_parse_csv_safe (bool_to_string b)) (\<lambda>_. Inr (bool_to_string b))"
| "array_element_to_string _ = Inl (SubsetViolation ''projection: array element not scalar'')"

fun value_to_param_string :: "json \<Rightarrow> rstr result" where
  "value_to_param_string (JString s) =
     (if str_len s > MAX_PARAMS_STRING_BYTES
      then Inl (SubsetViolation ''projection: string too long'')
      else rbind (check_parse_csv_safe s) (\<lambda>_. Inr s))"
| "value_to_param_string (JNumber n) =
     (case as_u64 n of
        Some u \<Rightarrow> Inr (u64_to_string u)
      | None \<Rightarrow> Inl (SubsetViolation ''projection: number not u64''))"
| "value_to_param_string (JBool b) = Inr (bool_to_string b)"
| "value_to_param_string (JArray arr) =
     (if length arr > MAX_PARAMS_ARRAY_LEN
      then Inl (SubsetViolation ''projection: array too long'')
      else rbind (collect_results array_element_to_string arr) (\<lambda>tokens. Inr (join [comma] tokens)))"
| "value_to_param_string (JObject _) = Inl (SubsetViolation ''projection: nested object'')"
| "value_to_param_string JNull = Inl (SubsetViolation ''projection: null'')"

text \<open>The body of the loop over the entries of the params object.\<close>

definition project_entry :: "rstr list \<Rightarrow> rstr \<times> json \<Rightarrow> cap_param result" where
  "project_entry allowed e =
     (if fst e \<notin> set allowed then Inl (SubsetViolation ''projection: unrecognized key'')
      else rbind (value_to_param_string (snd e)) (\<lambda>s. Inr \<lparr>p_key = fst e, p_value = s\<rparr>))"

definition project_params :: "rstr \<Rightarrow> json \<Rightarrow> cap_param list result" where
  "project_params cap value =
     (case allowed_param_keys cap of
        None \<Rightarrow> Inl (SubsetViolation ''projection: unknown capability'')
      | Some allowed \<Rightarrow>
          (case value of
             JNull \<Rightarrow> Inr []
           | JObject m \<Rightarrow>
               (if m = [] then Inr []
                else if length m > MAX_PARAMS_KEYS_PER_CAPABILITY
                then Inl (SubsetViolation ''projection: too many keys'')
                else collect_results (project_entry allowed) m)
           | _ \<Rightarrow> Inl (SubsetViolation ''projection: params not an object'')))"

definition project_capability_params :: "capability \<Rightarrow> cap_param list result" where
  "project_capability_params c = project_params (c_id c) (c_params c)"

definition synthetic_parent_grant :: "instant \<Rightarrow> rstr \<Rightarrow> cap_param list \<Rightarrow> grant" where
  "synthetic_parent_grant now cap ps =
     \<lparr>g_id = lit ''__capability_subset_projection__'', g_grantee = [], g_capability = cap,
      g_params = ps, g_ttl = Persistent, g_issuer = Admin, g_provenance = StaticConfig,
      g_status = Active, g_created_at = now, g_expires_at = None\<rparr>"

definition synthetic_child_draft :: "rstr \<Rightarrow> cap_param list \<Rightarrow> grant_draft" where
  "synthetic_child_draft cap ps = \<lparr>d_capability = cap, d_params = ps, d_ttl = Persistent\<rparr>"

text \<open>One iteration of the loop over the child capabilities: \<open>Some e\<close> when it returns an error.\<close>

definition check_child_capability :: "instant \<Rightarrow> capability list \<Rightarrow> capability \<Rightarrow> cap_grant_error option" where
  "check_child_capability now parent child =
     (case filter (\<lambda>p. c_id p = c_id child) parent of
        [] \<Rightarrow> Some (SubsetViolation ''parent set does not include the capability'')
      | _ # _ # _ \<Rightarrow> Some (SubsetViolation ''duplicate capability id in the parent set'')
      | [p] \<Rightarrow>
          (case rbind (project_capability_params p) (\<lambda>parent_params.
                rbind (project_capability_params child) (\<lambda>child_params.
                  validate (synthetic_parent_grant now (c_id child) parent_params)
                    (synthetic_child_draft (c_id child) child_params))) of
             Inl e \<Rightarrow> Some e
           | Inr _ \<Rightarrow> None))"

definition validate_capability_subset :: "instant \<Rightarrow> capability list \<Rightarrow> capability list \<Rightarrow> unit result" where
  "validate_capability_subset now parent child =
     (if length parent > MAX_CAPABILITIES_PER_CALL
      then Inl (SubsetViolation ''parent slice too long'')
      else if length child > MAX_CAPABILITIES_PER_CALL
      then Inl (SubsetViolation ''child slice too long'')
      else check_each (check_child_capability now parent) child)"

section \<open>Lemmas\<close>

lemma check_parse_csv_safe_Inr:
  "check_parse_csv_safe s = Inr u \<Longrightarrow> s \<noteq> [] \<and> comma \<notin> set s \<and> trim s = s"
  by (auto simp: check_parse_csv_safe_def split: if_splits)

text \<open>The scalar text of a JSON value, and the tokens a parameter value stands for.\<close>

fun scalar_text :: "json \<Rightarrow> rstr" where
  "scalar_text (JString s) = s"
| "scalar_text (JNumber n) = (case as_u64 n of Some u \<Rightarrow> u64_to_string u | None \<Rightarrow> [])"
| "scalar_text (JBool b) = bool_to_string b"
| "scalar_text _ = []"

fun json_tokens :: "json \<Rightarrow> rstr list" where
  "json_tokens (JArray es) = map scalar_text es"
| "json_tokens v = [scalar_text v]"

lemma array_element_token:
  "array_element_to_string v = Inr s \<Longrightarrow>
     s = scalar_text v \<and> s \<noteq> [] \<and> comma \<notin> set s \<and> trim s = s"
  by (cases v)
    (auto simp: rbind_Inr_iff dest!: check_parse_csv_safe_Inr split: if_splits option.splits)

lemma digit_not_space: "is_ascii_digit c \<Longrightarrow> \<not> is_whitespace c \<and> c \<noteq> comma"
  by (auto simp: is_ascii_digit_def is_whitespace_def)

lemma u64_to_string_token:
  "comma \<notin> set (u64_to_string n)" "trim (u64_to_string n) = u64_to_string n"
proof -
  show "comma \<notin> set (u64_to_string n)"
    using u64_to_string_digits [of comma n] by (auto simp: is_ascii_digit_def)
  have "\<forall>c\<in>set (u64_to_string n). \<not> is_whitespace c"
    using u64_to_string_digits digit_not_space by blast
  then show "trim (u64_to_string n) = u64_to_string n"
    by (intro trim_fixed) (simp_all del: u64_to_string.simps)
qed

lemma bool_to_string_token:
  "bool_to_string b \<noteq> []" "comma \<notin> set (bool_to_string b)"
  "trim (bool_to_string b) = bool_to_string b"
  by (auto simp: bool_to_string_def string_eval)

lemma value_tokens:
  assumes "value_to_param_string v = Inr s"
  shows "parse_csv s = json_tokens v"
proof (cases v)
  case (JArray es)
  with assms obtain ts where ts: "collect_results array_element_to_string es = Inr ts"
    and s: "s = join [comma] ts"
    by (auto simp: rbind_Inr_iff split: if_splits)
  from ts have "list_all2 (\<lambda>v s. s = scalar_text v \<and> s \<noteq> [] \<and> comma \<notin> set s \<and> trim s = s) es ts"
    by (auto simp: collect_results_Inr_iff elim!: list_all2_mono dest: array_element_token)
  then have "ts = map scalar_text es" and "\<forall>t\<in>set ts. t \<noteq> [] \<and> comma \<notin> set t \<and> trim t = t"
    by (induction rule: list_all2_induct) auto
  with s JArray show ?thesis by (simp add: parse_csv_join)
qed (use assms in \<open>auto simp: rbind_Inr_iff u64_to_string_token bool_to_string_token
       dest!: check_parse_csv_safe_Inr intro!: parse_csv_token split: if_splits option.splits\<close>)

lemma project_params_Inr:
  assumes "project_params cap (JObject m) = Inr ps"
  shows "\<exists>allowed. allowed_param_keys cap = Some allowed \<and>
           list_all2 (\<lambda>e p. fst e \<in> set allowed \<and> p_key p = fst e
                        \<and> parse_csv (p_value p) = json_tokens (snd e)) m ps"
proof -
  from assms obtain allowed where a: "allowed_param_keys cap = Some allowed"
    by (auto simp: project_params_def split: option.splits)
  with assms have "m = [] \<and> ps = [] \<or> collect_results (project_entry allowed) m = Inr ps"
    by (auto simp: project_params_def split: if_splits)
  then have "list_all2 (\<lambda>e p. project_entry allowed e = Inr p) m ps"
    by (auto simp: collect_results_Inr_iff)
  then have "list_all2 (\<lambda>e p. fst e \<in> set allowed \<and> p_key p = fst e
                        \<and> parse_csv (p_value p) = json_tokens (snd e)) m ps"
    by (rule list_all2_mono)
      (auto simp: project_entry_def rbind_Inr_iff value_tokens split: if_splits)
  with a show ?thesis by blast
qed

lemma check_child_None_iff:
  "check_child_capability now parent c = None \<longleftrightarrow>
     (\<exists>p pp cp. filter (\<lambda>p. c_id p = c_id c) parent = [p]
        \<and> project_capability_params p = Inr pp \<and> project_capability_params c = Inr cp
        \<and> validate (synthetic_parent_grant now (c_id c) pp) (synthetic_child_draft (c_id c) cp) = Inr ())"
  by (auto simp: check_child_capability_def rbind_Inr_iff rbind_Inl_iff split: list.splits sum.splits)

lemma validate_capability_subset_Inr_iff:
  "validate_capability_subset now parent child = Inr () \<longleftrightarrow>
     length parent \<le> MAX_CAPABILITIES_PER_CALL \<and> length child \<le> MAX_CAPABILITIES_PER_CALL
     \<and> (\<forall>c\<in>set child. check_child_capability now parent c = None)"
  by (auto simp: validate_capability_subset_def check_each_Inr_iff)

lemma synthetic_issued: "issued_as (synthetic_child_draft cap ps) (synthetic_parent_grant now cap ps)"
  by (simp add: issued_as_def synthetic_child_draft_def synthetic_parent_grant_def)

lemma validate_unlisted_family:
  "allowed_param_keys cap = None \<Longrightarrow> \<exists>e. validate_params cap ps qs = Inl e"
  by (auto simp: allowed_param_keys_def validate_params_def split: if_splits)

section \<open>Properties\<close>

text \<open>
  The projection loses no identity: for an accepted params object the parameters come out in
  the order of its entries, under the same keys, all of them keys of the family's whitelist, and
  reading a projected value back with \<open>parse_csv\<close> gives exactly the scalars of the JSON value (so no
  element splits, vanishes or changes).
\<close>

theorem projection_preserves_tokens:
  assumes "project_params cap (JObject m) = Inr ps"
  shows "\<exists>allowed. allowed_param_keys cap = Some allowed \<and>
           list_all2 (\<lambda>e p. fst e \<in> set allowed \<and> p_key p = fst e
                        \<and> parse_csv (p_value p) = json_tokens (snd e)) m ps"
  using assms by (rule project_params_Inr)

lemmas projection_eval = string_eval
  project_params_def project_entry_def allowed_param_keys_def check_parse_csv_safe_def
  MAX_PARAMS_STRING_BYTES_def MAX_PARAMS_ARRAY_LEN_def MAX_PARAMS_KEYS_PER_CAPABILITY_def
  is_unicode_confusable_def

theorem projection_preserves_tokens_example:
  "\<exists>allowed. allowed_param_keys (lit ''tools'') = Some allowed \<and>
     list_all2 (\<lambda>e p. fst e \<in> set allowed \<and> p_key p = fst e
                  \<and> parse_csv (p_value p) = json_tokens (snd e))
       [(lit ''ids'', JArray [JString (lit ''a''), JString (lit ''b'')])] [prm ''ids'' ''a,b'']"
  by (rule projection_preserves_tokens) (simp add: projection_eval prm_def)

text \<open>
  Admission at spawn composes across generations: if a parent's capability set admits a child's
  and the child's admits a grandchild's, the parent's set admits the grandchild's directly, so no
  chain of spawns obtains what the first agent could not have handed out itself.
\<close>

theorem capability_subset_trans:
  assumes "validate_capability_subset t1 a b = Inr ()"
    and "validate_capability_subset t2 b c = Inr ()"
  shows "validate_capability_subset t1 a c = Inr ()"
proof -
  have "check_child_capability t1 a x = None" if x: "x \<in> set c" for x
  proof -
    from assms(2) x obtain y yp xp where y: "filter (\<lambda>p. c_id p = c_id x) b = [y]"
      and yp: "project_capability_params y = Inr yp" and xp: "project_capability_params x = Inr xp"
      and v: "validate (synthetic_parent_grant t2 (c_id x) yp) (synthetic_child_draft (c_id x) xp) = Inr ()"
      by (auto simp: validate_capability_subset_Inr_iff check_child_None_iff)
    from y have yb: "y \<in> set b" and id: "c_id y = c_id x"
      using filter_eq_ConsD by fastforce+
    from assms(1) yb yp id obtain z zp where z: "filter (\<lambda>p. c_id p = c_id x) a = [z]"
      and zp: "project_capability_params z = Inr zp"
      and w: "validate (synthetic_parent_grant t1 (c_id x) zp) (synthetic_child_draft (c_id x) yp) = Inr ()"
      by (fastforce simp: validate_capability_subset_Inr_iff check_child_None_iff)
    from w synthetic_issued v
    have "validate (synthetic_parent_grant t1 (c_id x) zp) (synthetic_child_draft (c_id x) xp) = Inr ()"
      by (rule validate_trans_lemma)
    with z zp xp show ?thesis by (auto simp: check_child_None_iff)
  qed
  then show ?thesis using assms by (auto simp: validate_capability_subset_Inr_iff)
qed

theorem capability_subset_trans_example:
  "validate_capability_subset 0 [\<lparr>c_id = lit ''web'', c_params = JNull\<rparr>, \<lparr>c_id = lit ''fs'', c_params = JNull\<rparr>]
     [\<lparr>c_id = lit ''fs'', c_params = JObject [(lit ''read-paths'', JString (lit ''/w''))]\<rparr>] = Inr ()"
  by (rule capability_subset_trans [where b = "[\<lparr>c_id = lit ''fs'', c_params = JNull\<rparr>]" and ?t2.0 = 0])
    (simp_all add: validate_capability_subset_def MAX_CAPABILITIES_PER_CALL_def
      check_child_capability_def project_capability_params_def projection_eval validate_def
      synthetic_parent_grant_def synthetic_child_draft_def)

end
