(* ===== verification/GrantCheck.thy ===== *)
theory GrantCheck
  imports Governance CapabilitySubset
begin

text \<open>
  \<open>cap-grant/src/check.rs\<close>: the invocation gate \<open>GrantCheckImpl::check\<close> with its audit event, and the
  listing readers for tools, MCP scopes and web; and \<open>cap-grant/src/sweeper.rs\<close>: the tick of the TTL
  sweeper. The gate reads the clock once; that reading is an argument.
\<close>

section \<open>The gate\<close>

text \<open>\<open>shared_types::capability::GrantDecision\<close>; the reason of a denial is a tag.\<close>

datatype grant_decision = Allow | Denied string

datatype authz_level = DeniedOnly | AllChecks

definition is_bidi_format :: "rchar \<Rightarrow> bool" where
  "is_bidi_format c \<longleftrightarrow> c = 0x200C \<or> c = 0x200D \<or> c = 0x200E \<or> c = 0x200F
     \<or> (0x202A \<le> c \<and> c \<le> 0x202E) \<or> (0x2066 \<le> c \<and> c \<le> 0x2069)"

definition sanitize_event_string :: "rstr \<Rightarrow> nat \<Rightarrow> rstr" where
  "sanitize_event_string s cap =
     (let needs_truncate = str_len s > cap;
          bound = (if needs_truncate then cap else str_len s) in
      map (\<lambda>c. if is_control c \<or> is_bidi_format c then 63 else c) (take_bytes bound s)
        @ (if needs_truncate then [0x2026] else []))"

definition STR_CAP :: nat where "STR_CAP = 256"

fun should_emit :: "authz_level \<Rightarrow> grant_decision \<Rightarrow> bool" where
  "should_emit _ (Denied _) = True"
| "should_emit AllChecks Allow = True"
| "should_emit DeniedOnly Allow = False"

fun decision_to_payload :: "grant_decision \<Rightarrow> rstr option \<Rightarrow> rstr \<times> rstr" where
  "decision_to_payload Allow picked = (lit ''allowed'', case picked of Some i \<Rightarrow> i | None \<Rightarrow> [])"
| "decision_to_payload (Denied _) picked = (lit ''denied'', [])"

text \<open>\<open>maybe_emit\<close>, \<open>maybe_emit_picked\<close> and the tail of \<open>maybe_emit_with_lookup\<close>.\<close>

definition maybe_emit_picked ::
    "authz_level \<Rightarrow> rstr \<Rightarrow> rstr \<Rightarrow> rstr \<Rightarrow> grant_decision \<Rightarrow> rstr option \<Rightarrow> store \<Rightarrow> store" where
  "maybe_emit_picked level agent cap fn decision picked s =
     (if \<not> should_emit level decision then s
      else
        (let (decision_str, grant_id) = decision_to_payload decision picked in
         emit (authz_checked_event agent (sanitize_event_string cap STR_CAP)
                 (sanitize_event_string fn STR_CAP) decision_str grant_id) s))"

text \<open>The candidates that satisfy a predicate, and the one with the least id.\<close>

definition pick_first :: "(grant \<Rightarrow> bool) \<Rightarrow> grant list \<Rightarrow> rstr option" where
  "pick_first P candidates =
     (case sort_key g_id (filter P candidates) of [] \<Rightarrow> None | g # _ \<Rightarrow> Some (g_id g))"

definition matches_capability :: "instant \<Rightarrow> rstr \<Rightarrow> grant \<Rightarrow> bool" where
  "matches_capability now cap g \<longleftrightarrow> g_status g = Active \<and> g_capability g = cap \<and> unexpired now g"

definition maybe_emit_with_lookup ::
    "authz_level \<Rightarrow> rstr \<Rightarrow> rstr \<Rightarrow> rstr \<Rightarrow> grant_decision \<Rightarrow> bool \<Rightarrow> grant list \<Rightarrow> instant \<Rightarrow> store \<Rightarrow> store" where
  "maybe_emit_with_lookup level agent cap fn decision allowed candidates now s =
     (if \<not> should_emit level decision then s
      else maybe_emit_picked level agent cap fn decision
             (if decision = Allow \<and> allowed then pick_first (matches_capability now cap) candidates else None) s)"

definition check_params :: "authz_level \<Rightarrow> instant \<Rightarrow> rstr \<Rightarrow> rstr \<Rightarrow> rstr \<Rightarrow> json \<Rightarrow> store \<Rightarrow> grant_decision \<times> store" where
  "check_params level now agent cap fn params s =
     (case project_params cap params of
        Inl _ \<Rightarrow>
          (let decision = Denied ''request params rejected by the projection'' in
           (decision, maybe_emit_picked level agent cap fn decision None s))
      | Inr child_params \<Rightarrow>
          (let draft = \<lparr>d_capability = cap, d_params = child_params, d_ttl = Persistent\<rparr>;
               covering_id = pick_first (\<lambda>g. matches_capability now cap g \<and> is_ok (covers_request g draft))
                               (list_by_grantee s agent);
               decision = (if covering_id \<noteq> None then Allow
                           else Denied ''no active grant covers the requested params'') in
           (decision, maybe_emit_picked level agent cap fn decision covering_id s)))"

definition check :: "authz_level \<Rightarrow> instant \<Rightarrow> rstr \<Rightarrow> rstr \<Rightarrow> rstr \<Rightarrow> json \<Rightarrow> store \<Rightarrow> grant_decision \<times> store" where
  "check level now agent cap fn params s =
     (if params \<noteq> JNull then check_params level now agent cap fn params s
      else
        (let candidates = list_by_grantee s agent;
             allowed = list_ex (matches_capability now cap) candidates;
             decision = (if allowed then Allow else Denied ''no active grant'') in
         (decision, maybe_emit_with_lookup level agent cap fn decision allowed candidates now s)))"

section \<open>The listing readers\<close>

definition reader_grants :: "store \<Rightarrow> rstr \<Rightarrow> grant list" where
  "reader_grants s agent =
     (let grants = list_by_grantee s agent in
      case strip_prefix (lit ''agent:'') agent of
        Some bare \<Rightarrow>
          (if bare \<noteq> agent
           then foldl (\<lambda>acc g. if list_ex (\<lambda>h. g_id h = g_id g) acc then acc else acc @ [g])
                  grants (list_by_grantee s bare)
           else grants)
      | None \<Rightarrow> grants)"

text \<open>The loop over the tools grants: the ids so far, whether a grant was seen, whether one is
  unrestricted.\<close>

definition tools_step :: "instant \<Rightarrow> rstr list \<times> bool \<times> bool \<Rightarrow> grant \<Rightarrow> rstr list \<times> bool \<times> bool" where
  "tools_step now acc g =
     (let (ids, has_tools_grant, wildcard) = acc in
      if matches_capability now (lit ''tools'') g then
        (case List.find (\<lambda>p. p_key p = lit ''ids'') (g_params g) of
           Some p \<Rightarrow>
             (foldl (\<lambda>ids x. if x \<in> set ids then ids else ids @ [x]) ids
                (filter (\<lambda>x. x \<noteq> []) (map trim (split_on comma (p_value p)))), True, wildcard)
         | None \<Rightarrow> (ids, True, True))
      else acc)"

definition tool_allowlist :: "instant \<Rightarrow> store \<Rightarrow> rstr \<Rightarrow> rstr list option" where
  "tool_allowlist now s agent =
     (let (ids, has_tools_grant, wildcard) = foldl (tools_step now) ([], False, False) (reader_grants s agent) in
      if \<not> has_tools_grant then Some [] else if wildcard then None else Some ids)"

definition mcp_grant_scopes :: "instant \<Rightarrow> store \<Rightarrow> rstr \<Rightarrow> mcp_grant_scope list" where
  "mcp_grant_scopes now s agent =
     List.map_filter (\<lambda>g. mcp_scope (g_params g))
       (sort_key g_id (filter (matches_capability now (lit ''mcp'')) (reader_grants s agent)))"

definition web_grant_held :: "instant \<Rightarrow> store \<Rightarrow> rstr \<Rightarrow> bool" where
  "web_grant_held now s agent = list_ex (matches_capability now (lit ''web'')) (reader_grants s agent)"

section \<open>The sweeper\<close>

definition tick :: "chrono \<Rightarrow> instant \<Rightarrow> store \<Rightarrow> store" where
  "tick ch now s =
     (let ids = collect_expired_ids now s in
      if ids = [] then s else snd (expire_ids ch ids s))"

section \<open>Lemmas\<close>

lemma str_len_map_le: "(\<And>c. utf8_len (f c) \<le> utf8_len c) \<Longrightarrow> str_len (map f s) \<le> str_len s"
  by (induction s) (auto intro: add_mono)

lemma pick_first_iff: "pick_first P gs = None \<longleftrightarrow> \<not> (\<exists>g\<in>set gs. P g)"
proof -
  have "sort_key g_id (filter P gs) = [] \<longleftrightarrow> filter P gs = []" by (metis set_empty set_sort)
  then show ?thesis by (auto simp: pick_first_def filter_empty_conv split: list.splits)
qed

lemma pick_first_Some:
  assumes "pick_first P gs = Some i"
  shows "\<exists>g\<in>set gs. P g \<and> g_id g = i \<and> (\<forall>h\<in>set gs. P h \<longrightarrow> i \<le> g_id h)"
proof -
  from assms obtain g rest where s: "sort_key g_id (filter P gs) = g # rest" and i: "i = g_id g"
    by (auto simp: pick_first_def split: list.splits)
  have "sorted (map g_id (g # rest))" unfolding s [symmetric] by simp
  moreover have "set (g # rest) = {h \<in> set gs. P h}" unfolding s [symmetric] by auto
  ultimately show ?thesis using i by (intro bexI [of _ g]) auto
qed

lemma check_allow:
  "fst (check level now agent cap fn params s) = Allow \<longleftrightarrow>
     (\<exists>g\<in>set (list_by_grantee s agent). matches_capability now cap g
        \<and> (params \<noteq> JNull \<longrightarrow> (\<exists>ps. project_params cap params = Inr ps
             \<and> covers_request g \<lparr>d_capability = cap, d_params = ps, d_ttl = Persistent\<rparr> = Inr ())))"
proof (cases "params = JNull")
  case True
  then show ?thesis by (auto simp: check_def Let_def list_ex_iff)
next
  case False
  have ok: "is_ok (r :: unit result) \<longleftrightarrow> r = Inr ()" for r by (cases r) auto
  show ?thesis
  proof (cases "project_params cap params")
    case (Inl e)
    with False show ?thesis by (simp add: check_def check_params_def Let_def)
  next
    case (Inr ps)
    let ?P = "\<lambda>g. matches_capability now cap g
        \<and> is_ok (covers_request g \<lparr>d_capability = cap, d_params = ps, d_ttl = Persistent\<rparr>)"
    have "fst (check level now agent cap fn params s) = Allow
        \<longleftrightarrow> pick_first ?P (list_by_grantee s agent) \<noteq> None"
      using False Inr by (simp add: check_def check_params_def Let_def)
    also have "\<dots> \<longleftrightarrow> (\<exists>g\<in>set (list_by_grantee s agent). ?P g)"
      unfolding pick_first_iff by simp
    finally show ?thesis using False Inr by (simp add: ok)
  qed
qed

lemma list_by_grantee_run:
  "store_run ch sd (new_store db) t \<Longrightarrow>
     g \<in> set (list_by_grantee t a) \<longleftrightarrow> (\<exists>i. get t i = Some g \<and> g_grantee g = a)"
proof -
  assume "store_run ch sd (new_store db) t"
  then have ix: "indexed t" using run_invariants new_store_invariants by blast
  have "g \<in> set (list_by_grantee t a) \<longleftrightarrow> (\<exists>i\<in>set (index_get (s_by_grantee t) a). map_of (s_grants t) i = Some g)"
    by (auto simp: list_by_grantee_def map_filter_def intro: rev_image_eqI)
  then show ?thesis using ix by (auto simp: indexed_def get_def)
qed

lemma matches_live: "matches_capability now cap g \<longleftrightarrow> live now g \<and> g_capability g = cap"
  by (auto simp: matches_capability_def live_def)

section \<open>Properties\<close>

text \<open>
  C4. The gate allows exactly what a live grant covers. In every reachable store a call is allowed if
  and only if the agent holds a grant for the capability that is active and not past its deadline
  and, when the call carries parameters, these survive the fail-closed projection and that one
  grant covers them; no combination of grants, and no grant of another agent, allows a call.
\<close>

theorem check_allows_iff:
  assumes "store_run ch sd (new_store db) t"
  shows "fst (check level now agent cap fn params t) = Allow \<longleftrightarrow>
     (\<exists>i g. get t i = Some g \<and> g_grantee g = agent \<and> g_capability g = cap \<and> live now g
        \<and> (params \<noteq> JNull \<longrightarrow> (\<exists>ps. project_params cap params = Inr ps
             \<and> covers_request g \<lparr>d_capability = cap, d_params = ps, d_ttl = Persistent\<rparr> = Inr ())))"
  unfolding check_allow Bex_def list_by_grantee_run [OF assms] matches_live by blast

theorem check_allows_iff_witness:
  "fst (check DeniedOnly 5 (lit ''a'') (lit ''fs'') (lit ''read'') JNull sample_held) = Allow \<longleftrightarrow>
     (\<exists>i g. get sample_held i = Some g \<and> g_grantee g = lit ''a'' \<and> g_capability g = lit ''fs'' \<and> live 5 g
        \<and> (JNull \<noteq> JNull \<longrightarrow> (\<exists>ps. project_params (lit ''fs'') JNull = Inr ps
             \<and> covers_request g \<lparr>d_capability = lit ''fs'', d_params = ps, d_ttl = Persistent\<rparr> = Inr ())))"
  by (rule check_allows_iff [OF sample_held_run])

text \<open>
  Every denial is audited, and the gate changes nothing else: a denied call appends one
  \<open>authz.checked\<close> event with decision \<open>denied\<close> and no grant id; an allowed call appends nothing under the
  default policy and otherwise one event that names the least id of the grants that authorise it;
  grants, indexes and the durable index are untouched.
\<close>

theorem check_audits:
  "case check level now agent cap fn params s of (d, s') \<Rightarrow>
     s' = s\<lparr>s_event_bus := s_event_bus s'\<rparr>
     \<and> (d \<noteq> Allow \<longrightarrow> s_event_bus s' = s_event_bus s @
          [authz_checked_event agent (sanitize_event_string cap 256) (sanitize_event_string fn 256) (lit ''denied'') []])
     \<and> (d = Allow \<longrightarrow> level = DeniedOnly \<longrightarrow> s' = s)
     \<and> (d = Allow \<longrightarrow> level = AllChecks \<longrightarrow> (\<exists>g\<in>set (list_by_grantee s agent). matches_capability now cap g
          \<and> s_event_bus s' = s_event_bus s @
              [authz_checked_event agent (sanitize_event_string cap 256) (sanitize_event_string fn 256) (lit ''allowed'') (g_id g)]))"
proof -
  have emits: "maybe_emit_picked lv agent cap fn d i s =
      (if d = Allow \<and> lv = DeniedOnly then s else
       s\<lparr>s_event_bus := s_event_bus s @ [authz_checked_event agent (sanitize_event_string cap 256)
          (sanitize_event_string fn 256) (fst (decision_to_payload d i)) (snd (decision_to_payload d i))]\<rparr>)" for lv d i
    by (cases d; cases lv) (simp_all add: maybe_emit_picked_def emit_def STR_CAP_def split_beta)
  have denied: "decision_to_payload d i = (lit ''denied'', [])" if "d \<noteq> Allow" for d i
    using that by (cases d) auto
  show ?thesis
  proof (cases "params = JNull")
    case True
    let ?al = "list_ex (matches_capability now cap) (list_by_grantee s agent)"
    show ?thesis
    proof (cases ?al)
      case al: True
      then obtain i where i: "pick_first (matches_capability now cap) (list_by_grantee s agent) = Some i"
        using pick_first_iff [of "matches_capability now cap"] by (auto simp: list_ex_iff)
      from pick_first_Some [OF i] obtain g where "g \<in> set (list_by_grantee s agent)"
        "matches_capability now cap g" "i = g_id g" by blast
      with True al i show ?thesis
        by (cases level) (auto simp: check_def maybe_emit_with_lookup_def emits Let_def)
    next
      case False
      with True show ?thesis
        by (simp add: check_def maybe_emit_with_lookup_def emits denied Let_def)
    qed
  next
    case False
    show ?thesis
    proof (cases "project_params cap params")
      case (Inl e)
      with False show ?thesis by (simp add: check_def check_params_def emits denied Let_def)
    next
      case (Inr ps)
      let ?P = "\<lambda>g. matches_capability now cap g
          \<and> is_ok (covers_request g \<lparr>d_capability = cap, d_params = ps, d_ttl = Persistent\<rparr>)"
      show ?thesis
      proof (cases "pick_first ?P (list_by_grantee s agent)")
        case None
        with False Inr show ?thesis by (simp add: check_def check_params_def emits denied Let_def)
      next
        case (Some i)
        from pick_first_Some [OF Some] obtain g where "g \<in> set (list_by_grantee s agent)"
          "matches_capability now cap g" "i = g_id g" by blast
        with False Inr Some show ?thesis
          by (cases level) (auto simp: check_def check_params_def emits Let_def)
      qed
    qed
  qed
qed

text \<open>
  What the audit event carries of a caller's strings is bounded and inert: at most \<open>cap\<close> bytes plus
  the three-byte ellipsis, and no control or bidirectional-format character; a clean string within
  the cap is unchanged.
\<close>

theorem sanitize_bounded:
  "str_len (sanitize_event_string s cap) \<le> cap + 3
   \<and> (\<forall>c\<in>set (sanitize_event_string s cap). \<not> is_control c \<and> \<not> is_bidi_format c)
   \<and> (str_len s \<le> cap \<and> (\<forall>c\<in>set s. \<not> is_control c \<and> \<not> is_bidi_format c) \<longrightarrow> sanitize_event_string s cap = s)"
proof (intro conjI impI)
  let ?f = "\<lambda>c. if is_control c \<or> is_bidi_format c then 63 else c"
  have le: "str_len (map ?f (take_bytes n s)) \<le> n" for n
  proof -
    have "str_len (map ?f (take_bytes n s)) \<le> str_len (take_bytes n s)"
      by (rule str_len_map_le) (auto simp: utf8_len_def)
    then show ?thesis using str_len_take_bytes [of n s] by simp
  qed
  show "str_len (sanitize_event_string s cap) \<le> cap + 3"
    using le [of cap] le [of "str_len s"]
    by (simp add: sanitize_event_string_def Let_def utf8_len_def)
  show "\<forall>c\<in>set (sanitize_event_string s cap). \<not> is_control c \<and> \<not> is_bidi_format c"
    by (auto simp: sanitize_event_string_def Let_def is_control_def is_bidi_format_def split: if_splits)
  assume "str_len s \<le> cap \<and> (\<forall>c\<in>set s. \<not> is_control c \<and> \<not> is_bidi_format c)"
  then show "sanitize_event_string s cap = s"
    by (auto simp: sanitize_event_string_def Let_def take_bytes_all intro: map_idI)
qed

text \<open>
  Revocation takes effect at the next call: after a successful cascade from a grant, the gate denies
  every agent whose live grants for the capability all lay in the revoked subtree, whatever the
  function, the parameters and the time.
\<close>

theorem check_after_cascade:
  assumes "store_run ch sd (new_store db) s" and "cascade_revoke root s = (Inr res, s')"
    and "card (descendants (s_provenance s) root) \<le> MAX_CASCADE_SIZE"
    and "\<forall>i g. get s i = Some g \<and> g_grantee g = agent \<and> g_capability g = cap \<and> live now g \<longrightarrow> i \<in> subtree s root"
  shows "fst (check level now agent cap fn params s') \<noteq> Allow"
proof
  have "store_step ch sd s s'"
    using step_cascade [of ch sd s root "lit ''cascade-revoke''"] assms(2) by (simp add: cascade_revoke_def)
  then have run: "store_run ch sd (new_store db) s'" using assms(1) run_step by blast
  assume "fst (check level now agent cap fn params s') = Allow"
  then obtain i g where g: "get s' i = Some g" "g_grantee g = agent" "g_capability g = cap" "live now g"
    unfolding check_allow Bex_def list_by_grantee_run [OF run] matches_live by blast
  note eff = cascade_effect(1) [OF assms(2) [unfolded cascade_revoke_def] assms(3), of i]
  from g(1) eff obtain h where h: "get s i = Some h"
    "g = (if i \<in> subtree s root \<and> g_status h = Active then h\<lparr>g_status := Revoked\<rparr> else h)"
    by (auto simp: get_def)
  show False
  proof (cases "i \<in> subtree s root \<and> g_status h = Active")
    case True
    with h g(4) show False by (simp add: live_def)
  next
    case False
    with h have "g = h" by simp
    with False h g assms(4) show False by (auto simp: live_def)
  qed
qed

theorem check_after_cascade_example:
  "fst (check DeniedOnly 7 (lit ''b'') (lit ''web'') (lit ''fetch'') JNull
      (snd (cascade_revoke (lit ''p'') sample_family))) \<noteq> Allow"
proof -
  obtain res where "fst (cascade_revoke (lit ''p'') sample_family) = Inr res" using sample_cascade_ok by blast
  then have c: "cascade_revoke (lit ''p'') sample_family = (Inr res, snd (cascade_revoke (lit ''p'') sample_family))"
    by (simp add: prod_eq_iff)
  have dom: "get sample_family i = Some g \<Longrightarrow> i = lit ''p'' \<or> i = lit ''c''" for i g
    by (auto simp: get_def store_eval sample_grant_def split: if_splits)
  have "lit ''c'' \<in> descendants (s_provenance sample_family) (lit ''p'')"
    by (rule descendants_step) (simp only: sample_family_provenance edges_def, simp add: index_get_def)
  with dom have "\<forall>i g. get sample_family i = Some g \<and> g_grantee g = lit ''b'' \<and> g_capability g = lit ''web'' \<and> live 7 g
      \<longrightarrow> i \<in> subtree sample_family (lit ''p'')"
    unfolding subtree_def by blast
  then show ?thesis by (rule check_after_cascade [OF sample_family_run c sample_family_card])
qed

lemma callable_csv_safe: "is_callable_name n \<Longrightarrow> check_parse_csv_safe n = Inr ()"
proof -
  assume n: "is_callable_name n"
  have joiner: "u = 0x2060 \<or> 0x2061 \<le> u \<and> u \<le> 0x2064 \<Longrightarrow> 0x2060 \<le> u \<and> u \<le> 0x2064" for u :: nat by auto
  have "is_control c \<or> is_unicode_confusable c \<Longrightarrow> is_spoofing_char c" for c
    unfolding is_control_def is_unicode_confusable_def is_spoofing_char_def using joiner [of c] by blast
  moreover have "c < 0x20 \<or> c = 0x7F \<Longrightarrow> is_control c" for c by (auto simp: is_control_def)
  ultimately show ?thesis
    using n unfolding is_callable_name_def is_request_token_def is_tool_name_safe_def check_parse_csv_safe_def
    by (auto simp: list_ex_iff)
qed

lemma covers_tool_callable:
  "covers_tool sc server tool \<Longrightarrow> is_callable_name server \<and> is_callable_name tool"
  by (auto simp: covers_tool_def covers_server_def split: if_splits)

definition mcp_call_params :: "rstr \<Rightarrow> rstr \<Rightarrow> json" where
  "mcp_call_params server tool =
     JObject [(lit ''servers'', JString server), (lit ''tool-patterns'', JString tool)]"

lemma project_mcp_call:
  "project_params (lit ''mcp'') (mcp_call_params server tool) = Inr ps \<longleftrightarrow>
     str_len server \<le> 4096 \<and> str_len tool \<le> 4096
     \<and> check_parse_csv_safe server = Inr () \<and> check_parse_csv_safe tool = Inr ()
     \<and> ps = [\<lparr>p_key = lit ''servers'', p_value = server\<rparr>, \<lparr>p_key = lit ''tool-patterns'', p_value = tool\<rparr>]"
  by (auto simp: project_params_def mcp_call_params_def allowed_param_keys_def project_entry_def
      MAX_PARAMS_KEYS_PER_CAPABILITY_def MAX_PARAMS_STRING_BYTES_def rbind_Inr_iff)

lemma mcp_call_covered:
  assumes "g_capability g = lit ''mcp''"
  shows "(\<exists>ps. project_params (lit ''mcp'') (mcp_call_params server tool) = Inr ps
            \<and> covers_request g \<lparr>d_capability = lit ''mcp'', d_params = ps, d_ttl = Persistent\<rparr> = Inr ())
     \<longleftrightarrow> (\<exists>sc. mcp_scope (g_params g) = Some sc \<and> covers_tool sc server tool)"
proof (cases "str_len server \<le> 4096 \<and> str_len tool \<le> 4096
     \<and> check_parse_csv_safe server = Inr () \<and> check_parse_csv_safe tool = Inr ()")
  case True
  then have "is_request_token server" "is_request_token tool"
    by (auto simp: is_request_token_def MAX_REQUEST_TOKEN_BYTES_def dest: check_parse_csv_safe_Inr)
  from mcp_call_scope [OF this, of "g_params g"] True assms show ?thesis
    by (simp add: project_mcp_call covers_request_def)
next
  case False
  then have "\<not> (is_callable_name server \<and> is_callable_name tool)"
    using callable_csv_safe by (auto simp: is_callable_name_def is_request_token_def MAX_REQUEST_TOKEN_BYTES_def)
  with False show ?thesis using covers_tool_callable by (auto simp: project_mcp_call)
qed

text \<open>
  C36. What a listing shows for \<open>mcp\<close> is what a call may reach: for an agent id without the \<open>agent:\<close> prefix
  and any server and tool names, the gate allows the call that names them exactly when one of the
  scopes the listing reader returns covers the tool on the server.
\<close>

theorem mcp_listing_is_exact:
  assumes "store_run ch sd (new_store db) t" and "strip_prefix (lit ''agent:'') agent = None"
  shows "fst (check level now agent (lit ''mcp'') fn (mcp_call_params server tool) t) = Allow
     \<longleftrightarrow> (\<exists>sc\<in>set (mcp_grant_scopes now t agent). covers_tool sc server tool)"
proof -
  have "fst (check level now agent (lit ''mcp'') fn (mcp_call_params server tool) t) = Allow
      \<longleftrightarrow> (\<exists>g\<in>set (list_by_grantee t agent). matches_capability now (lit ''mcp'') g
           \<and> (\<exists>sc. mcp_scope (g_params g) = Some sc \<and> covers_tool sc server tool))"
  proof -
    have call: "mcp_call_params server tool \<noteq> JNull" by (simp add: mcp_call_params_def)
    show ?thesis
      unfolding check_allow using call
      by (intro bex_cong refl) (simp add: matches_capability_def mcp_call_covered cong: conj_cong)
  qed
  also have "\<dots> \<longleftrightarrow> (\<exists>sc\<in>set (mcp_grant_scopes now t agent). covers_tool sc server tool)"
    using assms(2) by (fastforce simp: mcp_grant_scopes_def reader_grants_def map_filter_def)
  finally show ?thesis .
qed

theorem mcp_listing_is_exact_witness:
  "fst (check DeniedOnly 5 (lit ''a'') (lit ''mcp'') (lit ''call'') (mcp_call_params (lit ''gh'') (lit ''get''))
       (sample_store [sample_grant ''p'' ''a'' ''mcp'' []] [])) = Allow
     \<longleftrightarrow> (\<exists>sc\<in>set (mcp_grant_scopes 5 (sample_store [sample_grant ''p'' ''a'' ''mcp'' []] []) (lit ''a'')).
            covers_tool sc (lit ''gh'') (lit ''get''))"
  by (rule mcp_listing_is_exact [OF sample_store_run])
    (simp_all add: sample_grant_def strip_prefix_def lit_def)

lemma reader_grants_ids:
  "set (foldl (\<lambda>acc g. if list_ex (\<lambda>h. g_id h = g_id g) acc then acc else acc @ [g]) gs hs) \<subseteq> set gs \<union> set hs
   \<and> g_id ` set (foldl (\<lambda>acc g. if list_ex (\<lambda>h. g_id h = g_id g) acc then acc else acc @ [g]) gs hs)
      = g_id ` (set gs \<union> set hs)"
proof (induction hs arbitrary: gs)
  case (Cons h hs)
  show ?case
  proof (cases "list_ex (\<lambda>g. g_id g = g_id h) gs")
    case True
    then have "g_id h \<in> g_id ` set gs" by (auto simp: list_ex_iff intro: rev_image_eqI)
    with True Cons.IH [of gs] show ?thesis by auto
  next
    case False
    with Cons.IH [of "gs @ [h]"] show ?thesis by auto
  qed
qed simp

lemma set_reader_grants:
  assumes run: "store_run ch sd (new_store db) t"
  shows "set (reader_grants t agent) =
     {g. \<exists>i a. get t i = Some g \<and> g_grantee g = a \<and> (a = agent \<or> agent = lit ''agent:'' @ a)}"
proof -
  have k: "keyed t" using run_invariants [OF run] new_store_invariants by blast
  note mem = list_by_grantee_run [OF run]
  show ?thesis
  proof (cases "strip_prefix (lit ''agent:'') agent")
    case None
    then have "\<not> prefix (lit ''agent:'') agent" by (auto simp: strip_prefix_def split: if_splits)
    then have "agent \<noteq> lit ''agent:'' @ a" for a by auto
    with None show ?thesis by (auto simp: reader_grants_def mem)
  next
    case (Some bare)
    then have ag: "agent = lit ''agent:'' @ bare" by (simp add: strip_prefix_Some_iff)
    then have ne: "bare \<noteq> agent" by (auto simp: lit_def)
    let ?u = "foldl (\<lambda>acc g. if list_ex (\<lambda>h. g_id h = g_id g) acc then acc else acc @ [g])
                (list_by_grantee t agent) (list_by_grantee t bare)"
    have r: "reader_grants t agent = ?u" using Some ne by (simp add: reader_grants_def)
    have ids: "set ?u \<subseteq> set (list_by_grantee t agent) \<union> set (list_by_grantee t bare)"
      "g_id ` set ?u = g_id ` (set (list_by_grantee t agent) \<union> set (list_by_grantee t bare))"
      using reader_grants_ids by blast+
    have inj: "g = h" if "get t i = Some g" "get t j = Some h" "g_id g = g_id h" for i j g h
      using that keyedD [OF k] by (metis get_def option.inject)
    have "set ?u = set (list_by_grantee t agent) \<union> set (list_by_grantee t bare)"
    proof
      show "set (list_by_grantee t agent) \<union> set (list_by_grantee t bare) \<subseteq> set ?u"
      proof
        fix g assume g: "g \<in> set (list_by_grantee t agent) \<union> set (list_by_grantee t bare)"
        then have "g_id g \<in> g_id ` set ?u" unfolding ids(2) by blast
        then obtain h where "h \<in> set ?u" "g_id h = g_id g" by fastforce
        with ids(1) have "h \<in> set (list_by_grantee t agent) \<union> set (list_by_grantee t bare)" by blast
        with g obtain i j where "get t i = Some g" "get t j = Some h" by (auto simp: mem)
        with inj \<open>g_id h = g_id g\<close> have "h = g" by metis
        with \<open>h \<in> set ?u\<close> show "g \<in> set ?u" by simp
      qed
    qed (rule ids(1))
    moreover have "a = agent \<or> agent = lit ''agent:'' @ a \<longleftrightarrow> a = agent \<or> a = bare" for a using ag by auto
    ultimately show ?thesis unfolding r by (auto simp: mem set_eq_iff)
  qed
qed

text \<open>
  The web reader bridges two spellings of an agent id: it reports a \<open>web\<close> grant exactly when the
  gate would allow the whole-capability \<open>web\<close> call of the agent itself or, for an id \<open>agent:b\<close>, of the
  bare id \<open>b\<close>.
\<close>

theorem web_reader_bridges:
  assumes "store_run ch sd (new_store db) t"
  shows "web_grant_held now t agent \<longleftrightarrow>
     (\<exists>a. (a = agent \<or> agent = lit ''agent:'' @ a) \<and> fst (check level now a (lit ''web'') fn JNull t) = Allow)"
  unfolding web_grant_held_def list_ex_iff set_reader_grants [OF assms] check_allow Bex_def
    list_by_grantee_run [OF assms] by auto

theorem web_reader_bridges_example:
  "web_grant_held 5 sample_family (lit ''agent:a'') \<longleftrightarrow>
     (\<exists>a. (a = lit ''agent:a'' \<or> lit ''agent:a'' = lit ''agent:'' @ a)
        \<and> fst (check DeniedOnly 5 a (lit ''web'') (lit ''fetch'') JNull sample_family) = Allow)"
  by (rule web_reader_bridges [OF sample_family_run])

text \<open>
  C37. A tick of the sweeper expires exactly the overdue grants, even when the database is down: in
  memory every active grant whose deadline has passed is marked expired, every other grant is
  unchanged, and a second tick at the same time finds nothing to do.
\<close>

theorem tick_expires_overdue:
  assumes "store_run ch sd (new_store db) s"
  shows "(\<forall>i. get (tick ch now s) i =
        map_option (\<lambda>g. if g_status g = Active \<and> \<not> unexpired now g then g\<lparr>g_status := Expired\<rparr> else g) (get s i))
     \<and> tick ch now (tick ch now s) = tick ch now s"
proof -
  have k: "keyed s" "ttls_in_range s" using run_invariants [OF assms] new_store_invariants by auto
  note due = collect_expired_iff [OF k(1), of _ now]
  have eff: "get (tick ch now s) i =
        map_option (\<lambda>g. if g_status g = Active \<and> \<not> unexpired now g then g\<lparr>g_status := Expired\<rparr> else g) (get s i)" for i
  proof (cases "get s i")
    case None
    then show ?thesis by (simp add: tick_def Let_def get_def expire_ids_grants)
  next
    case (Some g)
    have "collect_expired_ids now s = [] \<Longrightarrow> \<not> (g_status g = Active \<and> \<not> unexpired now g)"
      using due [of i] Some by (auto simp: get_def)
    with Some due [of i] show ?thesis by (auto simp: tick_def Let_def get_def expire_ids_grants)
  qed
  have run: "store_run ch sd s (tick ch now s)"
    using run_step [OF run_refl step_expire] run_refl by (simp add: tick_def Let_def)
  then have "keyed (tick ch now s)" using run_invariants k by blast
  then have "collect_expired_ids now (tick ch now s) = []"
  proof -
    assume k': "keyed (tick ch now s)"
    have "i \<notin> set (collect_expired_ids now (tick ch now s))" for i
    proof
      assume "i \<in> set (collect_expired_ids now (tick ch now s))"
      then obtain g where g: "get (tick ch now s) i = Some g" "g_status g = Active" "\<not> unexpired now g"
        using collect_expired_iff [OF k'] by (auto simp: get_def)
      with eff [of i] obtain h where h: "get s i = Some h"
        "g = (if g_status h = Active \<and> \<not> unexpired now h then h\<lparr>g_status := Expired\<rparr> else h)"
        by (cases "get s i") auto
      with g show False by (cases "g_status h = Active \<and> \<not> unexpired now h") auto
    qed
    then show ?thesis by (metis list.set_intros(1) neq_Nil_conv)
  qed
  then show ?thesis using eff by (simp add: tick_def)
qed

theorem tick_expires_overdue_witness:
  "let s = sample_store [(sample_grant ''g'' ''a'' ''web'' [])\<lparr>g_expires_at := Some 3\<rparr>] [] in
     (\<forall>i. get (tick sample_chrono 3 s) i =
        map_option (\<lambda>g. if g_status g = Active \<and> \<not> unexpired 3 g then g\<lparr>g_status := Expired\<rparr> else g) (get s i))
     \<and> tick sample_chrono 3 (tick sample_chrono 3 s) = tick sample_chrono 3 s"
  unfolding Let_def by (rule tick_expires_overdue [OF sample_store_run]) (simp_all add: sample_grant_def)

end
