(* ===== verification/ConfigCompile.thy ===== *)
theory ConfigCompile
  imports GrantIndex SubsetRules
begin

text \<open>
  \<open>cap-grant/src/compile.rs\<close>: the compiler of the \<open>capabilities:\<close> section of the workspace configuration
  into static grants, with the YAML values it reads. A YAML value is the tree that
  \<open>serde_yml::Value\<close> holds, without local tags; a mapping lists its entries in document order. The
  parser and printer of \<open>serde_yml\<close> and the file system are fields of the record \<open>yaml_io\<close>. The warnings
  the compiler writes to standard error are not part of its result and are left out.
\<close>

section \<open>YAML values\<close>

datatype yaml =
    YNull
  | YBool bool
  | YNumber json_number
  | YString rstr
  | YSequence "yaml list"
  | YMapping "(yaml \<times> yaml) list"

fun as_str :: "yaml \<Rightarrow> rstr option" where
  "as_str (YString s) = Some s"
| "as_str _ = None"

fun as_mapping :: "yaml \<Rightarrow> (yaml \<times> yaml) list option" where
  "as_mapping (YMapping m) = Some m"
| "as_mapping _ = None"

fun as_sequence :: "yaml \<Rightarrow> yaml list option" where
  "as_sequence (YSequence xs) = Some xs"
| "as_sequence _ = None"

fun yaml_as_u64 :: "yaml \<Rightarrow> nat option" where
  "yaml_as_u64 (YNumber n) = as_u64 n"
| "yaml_as_u64 _ = None"

text \<open>\<open>m.get(Value::String(k))\<close>.\<close>

definition yaml_get :: "(yaml \<times> yaml) list \<Rightarrow> string \<Rightarrow> yaml option" where
  "yaml_get m k = map_of m (YString (lit k))"

fun number_to_string :: "json_number \<Rightarrow> rstr" where
  "number_to_string (PosInt n) = u64_to_string n"
| "number_to_string (NegInt i) = 45 # u64_to_string (nat (- i))"
| "number_to_string (FloatNum t) = t"

type_synonym bytes = "nat list"

record yaml_io =
  stat_len :: "rstr \<Rightarrow> nat option"
  read_bytes :: "rstr \<Rightarrow> bytes option"
  from_slice :: "bytes \<Rightarrow> yaml option"
  yaml_to_string :: "yaml \<Rightarrow> rstr option"

text \<open>The size cap before and after the read, then the parser: the prefix that \<open>compile_from_path\<close> and
  the preset loader share.\<close>

definition MAX_YAML_BYTES :: nat where "MAX_YAML_BYTES = 2 ^ 20"

definition read_yaml :: "yaml_io \<Rightarrow> rstr \<Rightarrow> yaml result" where
  "read_yaml io path =
     rbind (ok_or (stat_len io path) (InvalidConfig ''stat'')) (\<lambda>len.
     if len > MAX_YAML_BYTES then Inl (InvalidConfig ''yaml too large'')
     else
       rbind (ok_or (read_bytes io path) (InvalidConfig ''read'')) (\<lambda>bytes.
       if length bytes > MAX_YAML_BYTES then Inl (InvalidConfig ''yaml too large (post-read)'')
       else ok_or (from_slice io bytes) Yaml))"

section \<open>The compiler\<close>

definition param_key :: "rstr \<Rightarrow> rstr \<Rightarrow> rstr" where
  "param_key cap k =
     (if cap = lit ''fs'' \<and> k = lit ''read'' then lit ''read-paths''
      else if cap = lit ''fs'' \<and> k = lit ''write'' then lit ''write-paths''
      else k)"

fun scalar :: "yaml \<Rightarrow> rstr option" where
  "scalar (YString s) = Some s"
| "scalar (YBool b) = Some (if b then lit ''true'' else lit ''false'')"
| "scalar (YNumber n) = Some (number_to_string n)"
| "scalar _ = None"

definition list_item :: "yaml \<Rightarrow> rstr result" where
  "list_item v =
     (case scalar v of
        Some s \<Rightarrow> if comma \<in> set s then Inl (InvalidConfig ''list items must be scalars without a comma'')
                  else Inr (trim s)
      | None \<Rightarrow> Inl (InvalidConfig ''list items must be scalars without a comma''))"

definition param_value :: "yaml \<Rightarrow> rstr result" where
  "param_value v =
     (case scalar v of
        Some s \<Rightarrow> Inr s
      | None \<Rightarrow>
          (case v of
             YSequence items \<Rightarrow> rbind (collect_results list_item items) (\<lambda>out. Inr (join [comma] out))
           | _ \<Rightarrow> Inl (InvalidConfig ''param must be a scalar or a list of scalars'')))"

text \<open>The loop over the entries of one capability; \<open>None\<close> when it meets \<open>auto-grant: false\<close>, which ends
  the loop.\<close>

fun compile_params :: "rstr \<Rightarrow> (yaml \<times> yaml) list \<Rightarrow> cap_param list option result" where
  "compile_params cap [] = Inr (Some [])"
| "compile_params cap ((sk, sv) # m) =
     rbind (ok_or (as_str sk) (InvalidConfig ''sub-key must be a string'')) (\<lambda>k.
     if k = lit ''auto-grant''
     then (if sv = YBool False then Inr None else compile_params cap m)
     else
       rbind (param_value sv) (\<lambda>v.
       rbind (compile_params cap m) (\<lambda>rest.
         Inr (map_option (Cons \<lparr>p_key = param_key cap k, p_value = v\<rparr>) rest))))"

definition RETIRED_DATA_GRANT_CAPABILITY :: rstr where
  "RETIRED_DATA_GRANT_CAPABILITY = lit ''data''"

definition static_id :: "rstr \<Rightarrow> rstr \<Rightarrow> rstr" where
  "static_id agent cap = lit ''static:'' @ agent @ [colon] @ cap"

definition static_grant :: "instant \<Rightarrow> rstr \<Rightarrow> rstr \<Rightarrow> cap_param list \<Rightarrow> grant" where
  "static_grant now agent cap params =
     \<lparr>g_id = static_id agent cap, g_grantee = agent, g_capability = cap, g_params = params,
      g_ttl = Persistent, g_issuer = Config, g_provenance = StaticConfig, g_status = Active,
      g_created_at = now, g_expires_at = None\<rparr>"

text \<open>One iteration of the loop over the capabilities: the grant it pushes, if any.\<close>

definition compile_entry :: "instant \<Rightarrow> rstr \<Rightarrow> yaml \<times> yaml \<Rightarrow> grant option result" where
  "compile_entry now agent e =
     rbind (ok_or (as_str (fst e)) (InvalidConfig ''capability key must be a string'')) (\<lambda>cap.
     if cap = [] then Inl (InvalidConfig ''capability key must not be empty'')
     else if colon \<in> set cap then Inl (InvalidConfig ''capability contains a colon'')
     else if cap = RETIRED_DATA_GRANT_CAPABILITY then Inr None
     else
       rbind (case snd e of
                YBool b \<Rightarrow> Inr (if b then Some [] else None)
              | YMapping m \<Rightarrow> compile_params cap m
              | _ \<Rightarrow> Inl (InvalidConfig ''capability value must be a mapping or true''))
         (\<lambda>params. Inr (map_option (static_grant now agent cap) params)))"

definition compile_from_value :: "instant \<Rightarrow> yaml \<Rightarrow> rstr \<Rightarrow> grant list result" where
  "compile_from_value now root agent =
     rbind (ok_or (Option.bind (as_mapping root) (\<lambda>m. yaml_get m ''capabilities''))
              (InvalidConfig ''missing top-level capabilities key'')) (\<lambda>caps_value.
     rbind (ok_or (as_mapping caps_value) (InvalidConfig ''capabilities must be a mapping'')) (\<lambda>caps.
     rbind (collect_results (compile_entry now agent) caps) (\<lambda>gs. Inr (List.map_filter id gs))))"

definition compile_from_path :: "yaml_io \<Rightarrow> instant \<Rightarrow> rstr \<Rightarrow> rstr \<Rightarrow> grant list result" where
  "compile_from_path io now path agent =
     (if agent = [] then Inl (InvalidConfig ''grantee must not be empty'')
      else if colon \<in> set agent then Inl (InvalidConfig ''grantee contains a colon'')
      else rbind (read_yaml io path) (\<lambda>root. compile_from_value now root agent))"

lemma ok_or_Inr_iff [simp]: "ok_or v e = Inr x \<longleftrightarrow> v = Some x"
  by (auto simp: ok_or_def split: option.splits)

end
