(* ===== verification/Startup.thy ===== *)
theory Startup
  imports GrantCheck ConfigCompile
begin

text \<open>
  \<open>cap-grant/src/lib.rs\<close>: the start of the grant layer. \<open>register_cap_grant\<close> prepares the schema,
  rebuilds the store from the active rows and lays the static grants of the configuration on top.
  On an error the store it was building is dropped; the model still returns it, with the rows the
  calls before the error wrote. The sweeper task it may spawn is not part of the state.
\<close>

section \<open>Registration\<close>

fun insert_each :: "chrono \<Rightarrow> serde \<Rightarrow> grant list \<Rightarrow> unit store_op" where
  "insert_each ch sd [] s = sreturn () s"
| "insert_each ch sd (g # gs) s = sbind (insert_grant ch sd g) (\<lambda>_. insert_each ch sd gs) s"

definition recovered_store :: "grant list \<Rightarrow> sqlite \<Rightarrow> store" where
  "recovered_store gs db = foldl (\<lambda>s g. insert_no_dual_write g s) (new_store db) gs"

definition register_cap_grant ::
    "chrono \<Rightarrow> serde \<Rightarrow> yaml_io \<Rightarrow> instant \<Rightarrow> rstr option \<Rightarrow> rstr \<Rightarrow> sqlite \<Rightarrow> unit result \<times> store" where
  "register_cap_grant ch sd io now static_config_path agent db =
     (case ensure_schema db of
        (Inl e, db1) \<Rightarrow> (Inl e, new_store db1)
      | (Inr _, db1) \<Rightarrow>
          (case recover_active_grants ch sd db1 of
             (Inl e, db2) \<Rightarrow> (Inl e, new_store db2)
           | (Inr gs, db2) \<Rightarrow>
               (case static_config_path of
                  None \<Rightarrow> sreturn () (recovered_store gs db2)
                | Some p \<Rightarrow>
                    sbind (slift (compile_from_path io now p agent)) (insert_each ch sd)
                      (recovered_store gs db2))))"

section \<open>The configuration\<close>

lemma static_grant_simps [simp]:
  "g_id (static_grant now agent cap ps) = static_id agent cap"
  "g_grantee (static_grant now agent cap ps) = agent"
  "g_capability (static_grant now agent cap ps) = cap"
  "g_ttl (static_grant now agent cap ps) = Persistent"
  "g_issuer (static_grant now agent cap ps) = Config"
  "g_provenance (static_grant now agent cap ps) = StaticConfig"
  "g_status (static_grant now agent cap ps) = Active"
  "g_created_at (static_grant now agent cap ps) = now"
  "g_expires_at (static_grant now agent cap ps) = None"
  by (simp_all add: static_grant_def)

lemma static_id_inj [simp]: "static_id agent c = static_id agent c' \<longleftrightarrow> c = c'"
  by (simp add: static_id_def)

lemma compile_entry_Some:
  assumes "compile_entry now agent e = Inr (Some g)"
  shows "\<exists>cap ps. g = static_grant now agent cap ps \<and> fst e = YString cap \<and> cap \<noteq> [] \<and> colon \<notin> set cap"
  using assms by (cases "fst e") (auto simp: compile_entry_def rbind_Inr_iff split: if_splits)

lemma compiled_static:
  assumes "compile_from_path io now path agent = Inr gs" and "g \<in> set gs"
  shows "\<exists>cap ps. g = static_grant now agent cap ps \<and> cap \<noteq> [] \<and> colon \<notin> set cap \<and> agent \<noteq> [] \<and> colon \<notin> set agent"
proof -
  from assms(1) obtain root caps os where a: "agent \<noteq> []" "colon \<notin> set agent"
    and os: "collect_results (compile_entry now agent) caps = Inr os" "gs = List.map_filter id os"
    by (auto simp: compile_from_path_def compile_from_value_def rbind_Inr_iff split: if_splits)
  from os(2) assms(2) have "Some g \<in> set os" by (auto simp: List.map_filter_def)
  then obtain i where "i < length os" "os ! i = Some g" by (auto simp: in_set_conv_nth)
  with os(1) have "compile_entry now agent (caps ! i) = Inr (Some g)"
    by (auto simp: collect_results_Inr_iff dest: list_all2_nthD2)
  with a show ?thesis using compile_entry_Some by blast
qed

section \<open>The store after a start\<close>

lemma insert_no_dual_write_install: "insert_no_dual_write g s = install g s"
  by (cases s) (simp add: insert_no_dual_write_def install_def put_grant_def write_in_memory_def
      split: grant_issuer.splits grant_provenance.splits)

lemma recovered_store_install: "recovered_store gs db = install_all gs (new_store db)"
proof -
  have "foldl (\<lambda>s g. insert_no_dual_write g s) s gs = install_all gs s" for s
    by (induction gs arbitrary: s) (simp_all add: insert_no_dual_write_install)
  then show ?thesis by (simp add: recovered_store_def)
qed

text \<open>The active row of an id, and the rows of the static ids of an agent.\<close>

definition active_row :: "chrono \<Rightarrow> serde \<Rightarrow> sqlite \<Rightarrow> rstr \<Rightarrow> grant option" where
  "active_row ch sd db i =
     (case row_view ch sd (sq_rows db) i of
        Some d \<Rightarrow> if g_status d = Active then Some d else None
      | None \<Rightarrow> None)"

definition static_rows :: "chrono \<Rightarrow> serde \<Rightarrow> rstr \<Rightarrow> sqlite \<Rightarrow> bool" where
  "static_rows ch sd agent db \<longleftrightarrow>
     (\<forall>c d. active_row ch sd db (static_id agent c) = Some d \<longrightarrow>
        g_grantee d = agent \<and> g_issuer d = Config \<and> g_provenance d = StaticConfig \<and> four_digit_year ch (g_created_at d))"

lemma active_row_Some:
  "active_row ch sd db i = Some d \<longleftrightarrow> row_view ch sd (sq_rows db) i = Some d \<and> g_status d = Active"
  by (auto simp: active_row_def split: option.splits if_splits)

lemma row_view_id:
  assumes "rows_wf ch sd rows" and "row_view ch sd rows i = Some d"
  shows "g_id d = i"
proof -
  from assms(2) obtain r where r: "map_of rows i = Some r" "decode_row ch sd r = Inr d"
    by (auto simp: row_view_def split: option.splits sum.splits)
  with assms(1) have "w_id r = i" by (simp add: rows_wf_def)
  with r(2) show ?thesis by (auto simp: decode_row_def rbind_Inr_iff split: option.splits)
qed

lemma recovered_store_exact:
  assumes wf: "rows_wf ch sd (sq_rows db)" and rec: "recover_active_grants ch sd db = (Inr gs, db2)"
  shows "get (recovered_store gs db2) = active_row ch sd db
     \<and> keyed (recovered_store gs db2) \<and> indexed (recovered_store gs db2) \<and> covered ch sd (recovered_store gs db2)"
proof -
  have rows: "sq_rows db2 = sq_rows db" using rec by (auto simp: recover_active_grants_def after_call_def)
  from recover_rows [OF wf] rec have gs: "set gs = {g. row_view ch sd (sq_rows db) (g_id g) = Some g \<and> g_status g = Active}"
    and dist: "distinct (map g_id gs)" by (simp_all add: prod_eq_iff)
  let ?s = "install_all gs (new_store db2)"
  have get: "map_of (s_grants ?s) i = active_row ch sd db i" for i
  proof (cases "i \<in> g_id ` set gs")
    case True
    then obtain g where g: "g \<in> set gs" "i = g_id g" by blast
    with gs show ?thesis using install_all_new [OF dist g(1)] by (simp add: active_row_def)
  next
    case False
    have "active_row ch sd db i = None"
    proof (rule ccontr)
      assume "active_row ch sd db i \<noteq> None"
      then obtain d where d: "row_view ch sd (sq_rows db) i = Some d" "g_status d = Active"
        by (auto simp: active_row_Some)
      with row_view_id [OF wf d(1)] gs False show False by force
    qed
    with False show ?thesis by (simp add: install_all_old new_store_def)
  qed
  have "fresh_all gs (new_store db2)" using dist by (simp add: fresh_all_def new_store_def)
  then have "keyed ?s" "indexed ?s"
    using new_store_invariants by (simp_all add: keyed_install_all indexed_install_all)
  moreover have "covered ch sd ?s"
  proof (rule coveredI)
    show "rows_wf ch sd (sq_rows (s_sqlite ?s))" using wf rows by (simp add: new_store_def)
  next
    fix i g assume "map_of (s_grants ?s) i = Some g"
    then have "row_view ch sd (sq_rows db) i = Some g" by (simp add: get active_row_Some)
    then show "\<exists>d. row_view ch sd (sq_rows (s_sqlite ?s)) i = Some d \<and> durable_copy d g"
      using rows by (simp add: new_store_def)
  next
    fix i d assume "row_view ch sd (sq_rows (s_sqlite ?s)) i = Some d" "g_status d = Active"
    then have "active_row ch sd db i = Some d" using rows by (simp add: active_row_Some new_store_def)
    then show "i \<in> dom (map_of (s_grants ?s))" using get [of i] by auto
  qed
  ultimately show ?thesis by (simp add: recovered_store_install get_def get fun_eq_iff)
qed

lemma indexed_reinstall:
  assumes "indexed s" and "map_of (s_grants s) (g_id g) = Some old"
    and "g_grantee old = g_grantee g" "g_issuer old = g_issuer g" "g_provenance old = g_provenance g"
  shows "indexed (install g s)"
  using assms unfolding indexed_def
  by (auto simp: set_index_get_add split: grant_issuer.splits grant_provenance.splits)

text \<open>What the start keeps while it inserts the static grants of an agent.\<close>

definition boot_inv :: "chrono \<Rightarrow> serde \<Rightarrow> rstr \<Rightarrow> store \<Rightarrow> bool" where
  "boot_inv ch sd agent s \<longleftrightarrow> keyed s \<and> indexed s \<and> covered ch sd s
     \<and> (\<forall>c d. get s (static_id agent c) = Some d \<longrightarrow>
          g_grantee d = agent \<and> g_issuer d = Config \<and> g_provenance d = StaticConfig \<and> four_digit_year ch (g_created_at d))"

definition kept_created :: "instant \<Rightarrow> grant option \<Rightarrow> instant" where
  "kept_created now old = (case old of Some d \<Rightarrow> g_created_at d | None \<Rightarrow> now)"

lemma insert_static:
  assumes "codec_ok ch sd" and "four_digit_year ch now" and inv: "boot_inv ch sd agent s"
    and g: "g = static_grant now agent cap ps" "cap \<noteq> []" "colon \<notin> set cap" "agent \<noteq> []" "colon \<notin> set agent"
    and ins: "insert_grant ch sd g s = (Inr r, s')"
  shows "get s' = (get s)(g_id g \<mapsto> g\<lparr>g_created_at := kept_created now (get s (g_id g))\<rparr>)
     \<and> boot_inv ch sd agent s'"
proof -
  let ?g = "g\<lparr>g_created_at := kept_created now (get s (g_id g))\<rparr>"
  have "(case map_of (s_grants s) (g_id g) of
      Some existing \<Rightarrow> g\<lparr>g_created_at := g_created_at existing\<rparr> | None \<Rightarrow> g) = ?g"
    using g(1) by (cases "map_of (s_grants s) (g_id g)") (simp_all add: kept_created_def get_def static_grant_def)
  moreover have "g_grantee g \<noteq> []" "g_capability g \<noteq> []" "colon \<notin> set (g_grantee g)" "colon \<notin> set (g_capability g)"
    using g by simp_all
  ultimately have "sbind (sql_upsert ch sd ?g)
      (\<lambda>_ s1. sreturn (g_id ?g) (emit (grant_issued_event ch ?g) (write_in_memory ?g (put_grant ?g s1)))) s = (Inr r, s')"
    using ins by (simp add: insert_grant_def Let_def)
  then obtain u s1 where up: "sql_upsert ch sd ?g s = (Inr u, s1)"
    and s': "s' = emit_all [grant_issued_event ch ?g] (install ?g s1)"
    by (auto simp: sbind_Inr_iff sreturn_def emit_emit_all install_def)
  have s1: "s1 = snd (sql_upsert ch sd ?g s)" "fst (sql_upsert ch sd ?g s) = Inr ()" using up by simp_all
  have kept: "four_digit_year ch (kept_created now (get s (g_id g)))"
    using assms(2) inv g(1) by (cases "get s (g_id g)") (auto simp: kept_created_def boot_inv_def)
  then have "storable ch ?g" using g(1) by (simp add: storable_def static_grant_def)
  then have "covered ch sd (install ?g s1)"
    unfolding s1(1) using assms(1) inv s1(2) by (intro covered_install) (simp_all add: boot_inv_def)
  moreover have "indexed (install ?g s1)"
  proof (cases "get s (g_id g)")
    case None
    then show ?thesis using inv by (intro indexed_install) (simp_all add: s1 boot_inv_def get_def)
  next
    case (Some old)
    then have "g_grantee old = agent" "g_issuer old = Config" "g_provenance old = StaticConfig"
      using inv g(1) by (auto simp: boot_inv_def)
    with Some inv show ?thesis
      by (intro indexed_reinstall [where old = old]) (simp_all add: s1 boot_inv_def get_def g(1))
  qed
  moreover have "keyed (install ?g s1)" using inv by (simp add: s1 keyed_install keyed_fields boot_inv_def)
  moreover have get: "get s' = (get s)(g_id g \<mapsto> ?g)" by (simp add: s' s1 get_def fun_eq_iff)
  ultimately show ?thesis
    using inv g(1) kept by (auto simp: boot_inv_def s' keyed_fields get_def [symmetric] split: if_splits)
qed

lemma insert_each_static:
  assumes "codec_ok ch sd" and "four_digit_year ch now" and "boot_inv ch sd agent s"
    and "\<And>g. g \<in> set gs \<Longrightarrow> \<exists>cap ps. g = static_grant now agent cap ps \<and> cap \<noteq> [] \<and> colon \<notin> set cap
           \<and> agent \<noteq> [] \<and> colon \<notin> set agent"
    and "insert_each ch sd gs s = (Inr u, s')"
  shows "(\<forall>i. get s' i = (case map_of (rev (map (\<lambda>g. (g_id g, g)) gs)) i of
            Some g \<Rightarrow> Some (g\<lparr>g_created_at := kept_created now (get s i)\<rparr>) | None \<Rightarrow> get s i))
     \<and> boot_inv ch sd agent s'"
  using assms(3-5)
proof (induction gs arbitrary: s)
  case Nil
  then show ?case by (simp add: sreturn_def)
next
  case (Cons g gs)
  then obtain r s1 where ins: "insert_grant ch sd g s = (Inr r, s1)"
    and rest: "insert_each ch sd gs s1 = (Inr u, s')" by (auto simp: sbind_Inr_iff)
  from Cons.prems(2) [of g] obtain cap ps where g: "g = static_grant now agent cap ps" "cap \<noteq> []" "colon \<notin> set cap"
    "agent \<noteq> []" "colon \<notin> set agent" by auto
  from insert_static [OF assms(1,2) Cons.prems(1) g ins]
  have s1: "get s1 = (get s)(g_id g \<mapsto> g\<lparr>g_created_at := kept_created now (get s (g_id g))\<rparr>)"
    and inv: "boot_inv ch sd agent s1" by simp_all
  have kept: "kept_created now (get s1 i) = kept_created now (get s i)" for i
    by (simp add: s1 kept_created_def)
  from Cons.IH [OF inv _ rest] Cons.prems(2)
  have "boot_inv ch sd agent s'" and "get s' i = (case map_of (rev (map (\<lambda>g. (g_id g, g)) gs)) i of
      Some g \<Rightarrow> Some (g\<lparr>g_created_at := kept_created now (get s i)\<rparr>) | None \<Rightarrow> get s1 i)" for i
    unfolding kept by auto
  then show ?case by (auto simp: s1 map_add_def split: option.splits)
qed

lemma register_success:
  assumes "codec_ok ch sd" and "four_digit_year ch now" and wf: "rows_wf ch sd (sq_rows db)" and st: "static_rows ch sd agent db"
    and reg: "register_cap_grant ch sd io now (Some path) agent db = (Inr (), s)"
  obtains gs where "compile_from_path io now path agent = Inr gs" "boot_inv ch sd agent s"
    "\<And>i. get s i = (case map_of (rev (map (\<lambda>g. (g_id g, g)) gs)) i of
        Some g \<Rightarrow> Some (g\<lparr>g_created_at := kept_created now (active_row ch sd db i)\<rparr>)
      | None \<Rightarrow> active_row ch sd db i)"
proof -
  have db1: "snd (ensure_schema db) = after_call db" "sq_rows (after_call db) = sq_rows db"
    by (simp_all add: ensure_schema_def after_call_def)
  from reg obtain rs db2 gs where rec: "recover_active_grants ch sd (after_call db) = (Inr rs, db2)"
    and c: "compile_from_path io now path agent = Inr gs"
    and ins: "insert_each ch sd gs (recovered_store rs db2) = (Inr (), s)"
    by (auto simp: register_cap_grant_def ensure_schema_def slift_def sbind_Inr_iff split: prod.splits sum.splits if_splits)
  have same: "active_row ch sd (after_call db) = active_row ch sd db" by (simp add: active_row_def db1 fun_eq_iff)
  from recovered_store_exact [OF _ rec] wf
  have r: "get (recovered_store rs db2) = active_row ch sd db" and "boot_inv ch sd agent (recovered_store rs db2)"
    using st by (auto simp: db1 same boot_inv_def static_rows_def)
  from insert_each_static [OF assms(1,2) this(2) compiled_static [OF c] ins] show thesis
    unfolding r by (intro that [OF c]) blast+
qed

section \<open>Starting again\<close>

abbreviation retime :: "instant \<Rightarrow> grant \<Rightarrow> grant" where
  "retime t g \<equiv> g\<lparr>g_created_at := t\<rparr>"

lemma compile_entry_retime:
  "compile_entry t agent e = rbind (compile_entry now agent e) (\<lambda>g. Inr (map_option (retime t) g))"
proof (cases "as_str (fst e)")
  case (Some cap)
  have st: "map_option (retime t) (map_option (static_grant now agent cap) ps)
      = map_option (static_grant t agent cap) ps" for ps
    by (cases ps) (simp_all add: static_grant_def)
  define r where "r = (case snd e of
      YBool b \<Rightarrow> Inr (if b then Some [] else None)
    | YMapping m \<Rightarrow> compile_params cap m
    | _ \<Rightarrow> Inl (InvalidConfig ''capability value must be a mapping or true''))"
  show ?thesis
    unfolding compile_entry_def ok_or_def Some option.case rbind_simps(2) r_def [symmetric]
    by (cases r) (simp_all add: st)
qed (simp add: compile_entry_def ok_or_def)

lemma collect_results_rbind:
  "collect_results (\<lambda>x. rbind (f x) (\<lambda>y. Inr (h y))) xs = rbind (collect_results f xs) (\<lambda>ys. Inr (map h ys))"
  by (induction xs) (auto simp: rbind_def split: sum.splits)

lemma map_filter_retime:
  "List.map_filter id (map (map_option h) os) = map h (List.map_filter id os)"
  by (induction os) (auto simp: List.map_filter_simps split: option.splits)

lemma compile_retime:
  assumes "compile_from_path io now path agent = Inr gs"
  shows "compile_from_path io t path agent = Inr (map (retime t) gs)"
proof -
  have "compile_entry t agent = (\<lambda>e. rbind (compile_entry now agent e) (\<lambda>g. Inr (map_option (retime t) g)))"
    using compile_entry_retime by blast
  then show ?thesis
    using assms by (auto simp: compile_from_path_def compile_from_value_def collect_results_rbind
        rbind_Inr_iff map_filter_retime split: if_splits)
qed

lemma overlay_retime:
  "map_of (rev (map (\<lambda>g. (g_id g, g)) (map (retime t) gs))) i =
     map_option (retime t) (map_of (rev (map (\<lambda>g. (g_id g, g)) gs)) i)"
proof -
  have "rev (map (\<lambda>g. (g_id g, g)) (map (retime t) gs)) =
      map (\<lambda>(k, g). (k, retime t g)) (rev (map (\<lambda>g. (g_id g, g)) gs))" by (simp add: rev_map)
  then show ?thesis by (simp only: map_of_map o_apply)
qed

text \<open>A started store is the image of its active rows, up to the creation times.\<close>

lemma active_row_of_store:
  assumes "covered ch sd s" and "\<And>i g. get s i = Some g \<Longrightarrow> g_status g = Active"
  shows "map_option (retime t) (active_row ch sd (s_sqlite s) i) = map_option (retime t) (get s i)"
proof (cases "get s i")
  case None
  have "active_row ch sd (s_sqlite s) i = None"
  proof (rule ccontr)
    assume "active_row ch sd (s_sqlite s) i \<noteq> None"
    then have "i \<in> dom (map_of (s_grants s))" using assms(1) by (auto simp: active_row_Some covered_def)
    with None show False by (auto simp: get_def)
  qed
  with None show ?thesis by simp
next
  case (Some g)
  then obtain d where d: "row_view ch sd (sq_rows (s_sqlite s)) i = Some d" "durable_copy d g"
    using coveredD [OF assms(1)] by (auto simp: get_def)
  have "d\<lparr>g_status := g_status g, g_created_at := g_created_at g\<rparr> = g" "g_status d = g_status g"
    using d(2) assms(2) [OF Some] by (auto simp: durable_copy_def)
  then have "retime t d = retime t g" by (cases d; cases g) auto
  with d(1) Some assms(2) [OF Some] \<open>g_status d = g_status g\<close> show ?thesis by (simp add: active_row_def)
qed

section \<open>Samples\<close>

definition sample_io :: yaml_io where
  "sample_io = \<lparr>stat_len = (\<lambda>_. Some 9), read_bytes = (\<lambda>_. Some [1]),
     from_slice = (\<lambda>_. Some (YMapping [(YString (lit ''capabilities''),
        YMapping [(YString (lit ''web''), YBool True), (YString (lit ''llm''), YBool False)])])),
     yaml_to_string = (\<lambda>_. None)\<rparr>"

lemma sample_compile: "compile_from_path sample_io now path (lit ''a'') = Inr [static_grant now (lit ''a'') (lit ''web'') []]"
  by (simp add: compile_from_path_def read_yaml_def sample_io_def MAX_YAML_BYTES_def compile_from_value_def ok_or_def
      yaml_get_def compile_entry_def RETIRED_DATA_GRANT_CAPABILITY_def List.map_filter_def lit_def)

abbreviation sample_boot :: "sqlite \<Rightarrow> unit result \<times> store" where
  "sample_boot \<equiv> register_cap_grant sample_chrono sample_serde sample_io 5 (Some []) (lit ''a'')"

lemmas boot_eval = register_cap_grant_def ensure_schema_def recover_active_grants_def recovered_store_def
  sample_compile [simplified lit_def, simplified] insert_grant_def static_grant_def store_eval

lemma sample_boot_ok: "fst (sample_boot (empty_db [])) = Inr ()"
  by (simp add: boot_eval lit_def)

lemma sample_rows_wf: "rows_wf ch sd (sq_rows (empty_db fs))" "static_rows ch sd agent (empty_db fs)"
  by (simp_all add: rows_wf_def static_rows_def active_row_def row_view_def empty_db_def)

lemma sample_reboot_ok: "fst (sample_boot (s_sqlite (snd (sample_boot (empty_db []))))) = Inr ()"
  by (simp add: boot_eval lit_def static_id_def encode_row_def decode_row_def sample_serde_def
      sample_chrono_def decode_ttl_def decode_issuer_def decode_provenance_def parse_dt_def ok_or_def
      decode_status_def insert_no_dual_write_def)

lemma sample_created:
  "\<forall>c d. active_row sample_chrono sample_serde (s_sqlite (snd (sample_boot (empty_db [])))) (static_id (lit ''a'') c) = Some d \<longrightarrow>
     four_digit_year sample_chrono (g_created_at d)"
  by (auto simp: active_row_def row_view_def boot_eval lit_def static_id_def encode_row_def decode_row_def sample_serde_def
      sample_chrono_def decode_ttl_def decode_issuer_def decode_provenance_def parse_dt_def ok_or_def
      decode_status_def split: if_splits)

lemma sample_now: "four_digit_year sample_chrono 5"
  by (simp add: sample_chrono_def)

section \<open>Properties\<close>

text \<open>
  A start rebuilds exactly the granted state. When \<open>register_cap_grant\<close> succeeds on an index whose
  rows decode, the store holds the active rows, overlaid with one grant per capability the configuration
  enables, created when the row of the same id was created or else now; its indexes are exact and
  memory and rows agree, so every invariant of the running store holds from the start on; and the
  gate allows the workspace agent every capability the configuration enables, including one whose
  static grant had been revoked before the restart.
\<close>

theorem startup_exact:
  assumes "codec_ok ch sd" and "four_digit_year ch now" and "rows_wf ch sd (sq_rows db)" and "static_rows ch sd agent db"
    and "register_cap_grant ch sd io now (Some path) agent db = (Inr (), s)"
  shows "\<exists>gs. compile_from_path io now path agent = Inr gs
     \<and> (\<forall>i. get s i = (case map_of (rev (map (\<lambda>g. (g_id g, g)) gs)) i of
            Some g \<Rightarrow> Some (g\<lparr>g_created_at := kept_created now (active_row ch sd db i)\<rparr>)
          | None \<Rightarrow> active_row ch sd db i))
     \<and> keyed s \<and> indexed s \<and> covered ch sd s
     \<and> (\<forall>g\<in>set gs. fst (check level t agent (g_capability g) fn JNull s) = Allow)"
proof -
  from assms obtain gs where c: "compile_from_path io now path agent = Inr gs" and inv: "boot_inv ch sd agent s"
    and get: "\<And>i. get s i = (case map_of (rev (map (\<lambda>g. (g_id g, g)) gs)) i of
        Some g \<Rightarrow> Some (g\<lparr>g_created_at := kept_created now (active_row ch sd db i)\<rparr>)
      | None \<Rightarrow> active_row ch sd db i)" by (rule register_success) blast
  have "fst (check level t agent (g_capability g) fn JNull s) = Allow" if g: "g \<in> set gs" for g
  proof -
    from compiled_static [OF c g] obtain cap ps where gg: "g = static_grant now agent cap ps" by blast
    have "g_id g \<in> dom (map_of (rev (map (\<lambda>g. (g_id g, g)) gs)))"
      using g by (simp add: dom_map_of_conv_image_fst image_image)
    then obtain h where h: "map_of (rev (map (\<lambda>g. (g_id g, g)) gs)) (g_id g) = Some h" by blast
    then have hg: "h \<in> set gs" "g_id h = g_id g" by (auto dest!: map_of_SomeD)
    from compiled_static [OF c hg(1)] hg(2) gg obtain qs where hh: "h = static_grant now agent cap qs" by auto
    let ?h = "h\<lparr>g_created_at := kept_created now (active_row ch sd db (g_id g))\<rparr>"
    have s: "map_of (s_grants s) (g_id g) = Some ?h" using get [of "g_id g"] h by (simp add: get_def)
    have "g_grantee ?h = agent" using hh by simp
    with s inv have "g_id g \<in> set (index_get (s_by_grantee s) agent)" by (auto simp: boot_inv_def indexed_def)
    with s have "?h \<in> set (list_by_grantee s agent)"
      by (force simp: list_by_grantee_def List.map_filter_def)
    moreover have "matches_capability t (g_capability g) ?h"
      using hh gg by (simp add: matches_capability_def unexpired_def)
    ultimately show ?thesis unfolding check_allow by blast
  qed
  with c get inv show ?thesis by (auto simp: boot_inv_def)
qed

theorem startup_exact_example:
  "fst (check AllChecks 7 (lit ''a'') (lit ''web'') (lit ''f'') JNull (snd (sample_boot (empty_db [])))) = Allow"
proof -
  have "sample_boot (empty_db []) = (Inr (), snd (sample_boot (empty_db [])))"
    using sample_boot_ok by (metis prod.collapse)
  from startup_exact [OF sample_codec_ok sample_now sample_rows_wf this, of AllChecks 7 "lit ''f''"] show ?thesis
    by (simp add: sample_compile)
qed

text \<open>
  Starting twice changes nothing: a second start on the index a start left, with the same
  configuration and at any later time, gives a store with the same grants under the same ids, up to
  their creation times. The deterministic ids keep static grants from accumulating.
\<close>

theorem restart_idempotent:
  assumes "codec_ok ch sd" and "four_digit_year ch now" and "four_digit_year ch now'" and "rows_wf ch sd (sq_rows db)" and "static_rows ch sd agent db"
    and "register_cap_grant ch sd io now (Some path) agent db = (Inr (), s)"
    and "register_cap_grant ch sd io now' (Some path) agent (s_sqlite s) = (Inr (), s')"
    and "\<forall>c d. active_row ch sd (s_sqlite s) (static_id agent c) = Some d \<longrightarrow> four_digit_year ch (g_created_at d)"
  shows "map_option (retime 0) (get s' i) = map_option (retime 0) (get s i)"
proof -
  from assms(1,2,4-6) obtain gs where c: "compile_from_path io now path agent = Inr gs" and inv: "boot_inv ch sd agent s"
    and get: "\<And>i. get s i = (case map_of (rev (map (\<lambda>g. (g_id g, g)) gs)) i of
        Some g \<Rightarrow> Some (g\<lparr>g_created_at := kept_created now (active_row ch sd db i)\<rparr>)
      | None \<Rightarrow> active_row ch sd db i)" by (rule register_success) blast
  have "g_status g = Active" if "g \<in> set gs" for g using compiled_static [OF c that] by auto
  then have act: "g_status g = Active" if "get s i = Some g" for i g
    using that get [of i] by (auto simp: active_row_Some dest!: map_of_SomeD split: option.splits)
  have rows: "map_option (retime t) (active_row ch sd (s_sqlite s) i) = map_option (retime t) (get s i)" for t i
    using inv act by (intro active_row_of_store) (auto simp: boot_inv_def)
  have "static_rows ch sd agent (s_sqlite s)"
    unfolding static_rows_def
  proof (intro allI impI)
    fix c d assume d: "active_row ch sd (s_sqlite s) (static_id agent c) = Some d"
    with rows [of 0 "static_id agent c"] obtain g where "get s (static_id agent c) = Some g" "retime 0 d = retime 0 g"
      by (cases "get s (static_id agent c)") auto
    moreover from this(2) have "g_grantee d = g_grantee g" "g_issuer d = g_issuer g" "g_provenance d = g_provenance g"
      by (cases d; cases g; simp)+
    moreover have "four_digit_year ch (g_created_at d)"
      using assms(8) d by blast
    ultimately show "g_grantee d = agent \<and> g_issuer d = Config \<and> g_provenance d = StaticConfig \<and> four_digit_year ch (g_created_at d)"
      using inv by (simp add: boot_inv_def)
  qed
  moreover have "rows_wf ch sd (sq_rows (s_sqlite s))" using inv by (simp add: boot_inv_def covered_def)
  ultimately obtain gs' where c': "compile_from_path io now' path agent = Inr gs'"
    and get': "\<And>i. get s' i = (case map_of (rev (map (\<lambda>g. (g_id g, g)) gs')) i of
        Some g \<Rightarrow> Some (g\<lparr>g_created_at := kept_created now' (active_row ch sd (s_sqlite s) i)\<rparr>)
      | None \<Rightarrow> active_row ch sd (s_sqlite s) i)"
    using register_success [OF assms(1,3) _ _ assms(7)] by blast
  have "gs' = map (retime now') gs" using c' compile_retime [OF c, of now'] by simp
  then have "get s' i = (case map_option (retime now') (map_of (rev (map (\<lambda>g. (g_id g, g)) gs)) i) of
        Some g \<Rightarrow> Some (g\<lparr>g_created_at := kept_created now' (active_row ch sd (s_sqlite s) i)\<rparr>)
      | None \<Rightarrow> active_row ch sd (s_sqlite s) i)"
    using get' [of i] by (simp only: overlay_retime)
  then show ?thesis
    using get [of i] rows [of 0 i] by (cases "map_of (rev (map (\<lambda>g. (g_id g, g)) gs)) i") simp_all
qed

theorem restart_idempotent_example:
  "let s = snd (sample_boot (empty_db [])) in
     map_option (retime 0) (get (snd (sample_boot (s_sqlite s))) (lit ''static:a:web''))
       = map_option (retime 0) (get s (lit ''static:a:web''))"
proof -
  let ?s = "snd (sample_boot (empty_db []))"
  have "sample_boot (empty_db []) = (Inr (), ?s)"
    and "sample_boot (s_sqlite ?s) = (Inr (), snd (sample_boot (s_sqlite ?s)))"
    using sample_boot_ok sample_reboot_ok by (metis prod.collapse)+
  from restart_idempotent [OF sample_codec_ok sample_now sample_now sample_rows_wf this sample_created] show ?thesis by simp
qed

end
