(* ===== verification/Resolvers.thy ===== *)
theory Resolvers
  imports Governance
begin

text \<open>
  \<open>cap-grant/src/resolver.rs\<close>: the resolver chain that decides a capability request, its five
  resolvers, and the cache with which the channel resolver remembers the requests it delivered. A
  port to the operator (\<open>ChannelApprovalPort\<close>) is a record of its four methods over the state \<open>'p\<close> of the
  implementor. The run budget (\<open>RunBudget::check(run_id, 0, 0.0)\<close>) is a function from run ids to the
  reason of a denial. One evaluation runs at a time; where the code would wait for the delivery of
  another thread, the model returns \<open>Waits\<close>, and where the addition of a duration overflows and panics,
  \<open>Panics\<close>. What the delivery thread does with a job is an argument.
\<close>

section \<open>The sent cache\<close>

datatype sent_approval_state = Delivering rstr grant_draft | Delivered rstr grant_draft

record sent_cache =
  sc_seen :: "(rstr, sent_approval_state) hmap"
  sc_order :: "rstr list"
  sc_max_entries :: nat

datatype cache_action = DeliverNow rstr | AlreadySent | WaitForDelivery | CacheFull

definition CHANNEL_APPROVAL_SENT_CACHE_MAX :: nat where "CHANNEL_APPROVAL_SENT_CACHE_MAX = 1024"

definition new_sent_cache :: "nat \<Rightarrow> sent_cache" where
  "new_sent_cache n = \<lparr>sc_seen = [], sc_order = [], sc_max_entries = max n 1\<rparr>"

fun is_delivering :: "sent_approval_state option \<Rightarrow> bool" where
  "is_delivering (Some (Delivering _ _)) = True"
| "is_delivering _ = False"

text \<open>The loop of \<open>evict_one_delivered_entry\<close>: an entry in delivery goes to the back of the queue, the
  first other one is dropped.\<close>

function evict_one_loop ::
    "(rstr, sent_approval_state) hmap \<Rightarrow> nat \<Rightarrow> rstr list \<Rightarrow> (rstr, sent_approval_state) hmap \<times> rstr list" where
  "evict_one_loop seen scanned order =
     (if scanned < length order then
        (case order of
           [] \<Rightarrow> (seen, order)
         | candidate # rest \<Rightarrow>
             (if is_delivering (map_of seen candidate)
              then evict_one_loop seen (scanned + 1) (rest @ [candidate])
              else (AList.delete candidate seen, rest)))
      else (seen, order))"
  by pat_completeness auto
termination by (relation "measure (\<lambda>(seen, scanned, order). length order - scanned)") auto

definition evict_one_delivered_entry :: "sent_cache \<Rightarrow> sent_cache" where
  "evict_one_delivered_entry c =
     (let (seen, order) = evict_one_loop (sc_seen c) 0 (sc_order c) in c\<lparr>sc_seen := seen, sc_order := order\<rparr>)"

function evict_overflow_loop ::
    "nat \<Rightarrow> (rstr, sent_approval_state) hmap \<Rightarrow> nat \<Rightarrow> rstr list \<Rightarrow> (rstr, sent_approval_state) hmap \<times> rstr list" where
  "evict_overflow_loop max_entries seen scanned order =
     (if length order > max_entries \<and> scanned < length order then
        (case order of
           [] \<Rightarrow> (seen, order)
         | candidate # rest \<Rightarrow>
             (if is_delivering (map_of seen candidate)
              then evict_overflow_loop max_entries seen (scanned + 1) (rest @ [candidate])
              else evict_overflow_loop max_entries (AList.delete candidate seen) 0 rest))
      else (seen, order))"
  by pat_completeness auto
termination
  by (relation "measures [\<lambda>(m, seen, scanned, order). length order, \<lambda>(m, seen, scanned, order). length order - scanned]")
    auto

definition evict_delivered_overflow :: "sent_cache \<Rightarrow> sent_cache" where
  "evict_delivered_overflow c =
     (let (seen, order) = evict_overflow_loop (sc_max_entries c) (sc_seen c) 0 (sc_order c)
      in c\<lparr>sc_seen := seen, sc_order := order\<rparr>)"

definition begin_delivery :: "rstr \<Rightarrow> rstr \<Rightarrow> grant_draft \<Rightarrow> sent_cache \<Rightarrow> cache_action \<times> sent_cache" where
  "begin_delivery request_id fingerprint draft c =
     (case map_of (sc_seen c) fingerprint of
        Some (Delivered _ _) \<Rightarrow> (AlreadySent, c)
      | Some (Delivering _ _) \<Rightarrow> (WaitForDelivery, c)
      | None \<Rightarrow>
          (let c1 = (if length (sc_order c) \<ge> sc_max_entries c then evict_one_delivered_entry c else c) in
           if length (sc_order c1) \<ge> sc_max_entries c1 then (CacheFull, c1)
           else (DeliverNow request_id,
                 c1\<lparr>sc_seen := AList.update fingerprint (Delivering request_id draft) (sc_seen c1),
                    sc_order := sc_order c1 @ [fingerprint]\<rparr>)))"

definition forget :: "rstr \<Rightarrow> sent_cache \<Rightarrow> sent_cache" where
  "forget fingerprint c =
     (if map_of (sc_seen c) fingerprint \<noteq> None
      then c\<lparr>sc_seen := AList.delete fingerprint (sc_seen c), sc_order := removeAll fingerprint (sc_order c)\<rparr>
      else c)"

definition finish_delivery :: "rstr \<Rightarrow> bool \<Rightarrow> sent_cache \<Rightarrow> sent_cache" where
  "finish_delivery fingerprint delivered c =
     (if delivered
      then evict_delivered_overflow
             (case map_of (sc_seen c) fingerprint of
                Some (Delivering i d) \<Rightarrow> c\<lparr>sc_seen := AList.update fingerprint (Delivered i d) (sc_seen c)\<rparr>
              | _ \<Rightarrow> c)
      else forget fingerprint c)"

section \<open>The channel port\<close>

datatype channel_approval_decision = ChPending | ChApproved | ChDenied rstr

record channel_approval_request =
  cq_request_id :: rstr
  cq_caller :: rstr
  cq_capability :: rstr
  cq_params :: "cap_param list option"
  cq_ttl :: grant_ttl
  cq_justification :: "rstr option"

record 'p approval_port =
  port_decision :: "'p \<Rightarrow> rstr \<Rightarrow> channel_approval_decision"
  port_request_approval :: "channel_approval_request \<Rightarrow> 'p \<Rightarrow> (string + unit) \<times> 'p"
  port_take_approved :: "rstr \<Rightarrow> 'p \<Rightarrow> cap_param list option option \<times> 'p"
  port_resolved :: "rstr \<Rightarrow> 'p \<Rightarrow> 'p"

definition from_grant_request :: "grant_request \<Rightarrow> rstr \<Rightarrow> channel_approval_request" where
  "from_grant_request req request_id =
     \<lparr>cq_request_id = request_id, cq_caller = r_caller req, cq_capability = r_capability req,
      cq_params = r_params req, cq_ttl = r_ttl req, cq_justification = r_justification req\<rparr>"

text \<open>\<open>unwrap_or_default\<close> on the optional parameters.\<close>

definition request_params :: "cap_param list option \<Rightarrow> cap_param list" where
  "request_params ps = (case ps of Some xs \<Rightarrow> xs | None \<Rightarrow> [])"

definition grant_draft_from_request :: "grant_request \<Rightarrow> grant_draft" where
  "grant_draft_from_request req =
     \<lparr>d_capability = r_capability req, d_params = request_params (r_params req), d_ttl = r_ttl req\<rparr>"

text \<open>What the canonical form of a request holds, and the text it is serialised to. The serialiser
  (\<open>serde_json\<close>) and the fallback text of a value it rejects are the fields of \<open>channel_env\<close>, with
  the UUID of a delivery and what the delivery thread does: it answers in time, it never runs the
  job (its queue is full, or the thread cannot be started), or it runs the job but answers too late.\<close>

record fingerprint =
  fp_caller :: rstr
  fp_capability :: rstr
  fp_params :: "(rstr \<times> rstr) list"
  fp_ttl :: grant_ttl
  fp_justification :: "rstr option"

datatype delivery = Prompt | Lost | Late

record channel_env =
  ce_serialize :: "fingerprint \<Rightarrow> rstr option"
  ce_fallback :: "grant_request \<Rightarrow> rstr"
  ce_uuid :: rstr
  ce_delivery :: delivery

definition canonical_params :: "cap_param list \<Rightarrow> (rstr \<times> rstr) list" where
  "canonical_params ps = remdups_adj (sort_key fst (sort_key snd (map (\<lambda>p. (p_key p, p_value p)) ps)))"

definition request_fingerprint :: "grant_request \<Rightarrow> fingerprint" where
  "request_fingerprint req =
     \<lparr>fp_caller = r_caller req, fp_capability = r_capability req,
      fp_params = canonical_params (request_params (r_params req)),
      fp_ttl = r_ttl req, fp_justification = r_justification req\<rparr>"

definition channel_request_fingerprint :: "channel_env \<Rightarrow> grant_request \<Rightarrow> rstr" where
  "channel_request_fingerprint env req =
     lit ''grant-approval:'' @ (case ce_serialize env (request_fingerprint req) of Some t \<Rightarrow> t | None \<Rightarrow> ce_fallback env req)"

definition new_channel_request_id :: "channel_env \<Rightarrow> rstr" where
  "new_channel_request_id env = lit ''grant-approval:'' @ ce_uuid env"

section \<open>Resolvers\<close>

datatype 'a outcome = Returns 'a | Waits | Panics

record resolver_context =
  parent_grants :: "grant list"
  ctx_run_id :: "rstr option"

datatype 'p resolver =
    SubsetAutoApproveResolver "grant \<Rightarrow> grant_draft \<Rightarrow> unit result"
  | BudgetCheckResolver "(rstr \<Rightarrow> rstr option) option"
  | ParentApprovalResolver (approve: bool) (has_backend: bool)
  | ChannelResolver "'p approval_port option" sent_cache
  | AutoDenyResolver

fun resolver_name :: "'p resolver \<Rightarrow> rstr" where
  "resolver_name (SubsetAutoApproveResolver _) = lit ''SubsetAutoApprove''"
| "resolver_name (BudgetCheckResolver _) = lit ''BudgetCheck''"
| "resolver_name (ParentApprovalResolver _ _) = lit ''ParentApproval''"
| "resolver_name (ChannelResolver _ _) = lit ''Channel''"
| "resolver_name AutoDenyResolver = lit ''AutoDeny''"

definition subset_auto_approve ::
    "(grant \<Rightarrow> grant_draft \<Rightarrow> unit result) \<Rightarrow> grant_request \<Rightarrow> resolver_context \<Rightarrow> resolver_outcome" where
  "subset_auto_approve validator req ctx =
     (let draft = grant_draft_from_request req in
      if list_ex (\<lambda>parent. g_grantee parent = r_caller req \<and> g_status parent = Active
             \<and> g_capability parent = r_capability req \<and> is_ok (validator parent draft)) (parent_grants ctx)
      then Approve draft else Abstain)"

fun budget_check :: "(rstr \<Rightarrow> rstr option) option \<Rightarrow> resolver_context \<Rightarrow> resolver_outcome" where
  "budget_check budget ctx =
     (case (budget, ctx_run_id ctx) of
        (Some check, Some run_id) \<Rightarrow> (case check run_id of Some reason \<Rightarrow> Deny reason | None \<Rightarrow> Abstain)
      | _ \<Rightarrow> Abstain)"

definition parent_approval :: "bool \<Rightarrow> bool \<Rightarrow> grant_request \<Rightarrow> resolver_outcome" where
  "parent_approval approved backend req =
     (if \<not> backend then Abstain
      else if approved then Approve (grant_draft_from_request req) else Pending)"

definition set_approve :: "bool \<Rightarrow> 'p resolver \<Rightarrow> 'p resolver" where
  "set_approve v r = (case r of ParentApprovalResolver _ b \<Rightarrow> ParentApprovalResolver v b | _ \<Rightarrow> r)"

fun deliver_approval_request ::
    "delivery \<Rightarrow> 'p approval_port \<Rightarrow> channel_approval_request \<Rightarrow> 'p \<Rightarrow> bool \<times> 'p" where
  "deliver_approval_request Prompt port q p = (case port_request_approval port q p of (r, p') \<Rightarrow> (\<not> isl r, p'))"
| "deliver_approval_request Lost port q p = (False, p)"
| "deliver_approval_request Late port q p = (False, snd (port_request_approval port q p))"

definition delivered_approval :: "rstr \<Rightarrow> sent_cache \<Rightarrow> (rstr \<times> grant_draft) option" where
  "delivered_approval fingerprint c =
     (case map_of (sc_seen c) fingerprint of Some (Delivered i d) \<Rightarrow> Some (i, d) | _ \<Rightarrow> None)"

text \<open>The second half of the channel resolver: find out whether the request has to be delivered, and
  deliver it.\<close>

definition channel_deliver ::
    "channel_env \<Rightarrow> 'p approval_port \<Rightarrow> grant_request \<Rightarrow> sent_cache \<Rightarrow> 'p
       \<Rightarrow> resolver_outcome outcome \<times> sent_cache \<times> 'p" where
  "channel_deliver env port req c p =
     (let fingerprint = channel_request_fingerprint env req in
      case begin_delivery (new_channel_request_id env) fingerprint (grant_draft_from_request req) c of
        (DeliverNow request_id, c1) \<Rightarrow>
          (case deliver_approval_request (ce_delivery env) port (from_grant_request req request_id) p of
             (True, p1) \<Rightarrow> (Returns Pending, finish_delivery fingerprint True c1, p1)
           | (False, p1) \<Rightarrow>
               (Returns (Deny (lit ''channel-approval-unavailable'')), finish_delivery fingerprint False c1, p1))
      | (AlreadySent, c1) \<Rightarrow> (Returns Pending, c1, p)
      | (CacheFull, c1) \<Rightarrow> (Returns (Deny (lit ''channel-approval-unavailable'')), c1, p)
      | (WaitForDelivery, c1) \<Rightarrow> (Waits, c1, p))"

definition channel_resolve ::
    "channel_env \<Rightarrow> 'p approval_port \<Rightarrow> grant_request \<Rightarrow> sent_cache \<Rightarrow> 'p
       \<Rightarrow> resolver_outcome outcome \<times> sent_cache \<times> 'p" where
  "channel_resolve env port req c p =
     (let fingerprint = channel_request_fingerprint env req in
      case delivered_approval fingerprint c of
        None \<Rightarrow> channel_deliver env port req c p
      | Some (request_id, draft) \<Rightarrow>
          (case port_decision port p request_id of
             ChApproved \<Rightarrow>
               (case port_take_approved port request_id p of
                  (Some narrowed, p1) \<Rightarrow>
                    (Returns (Approve (case narrowed of
                         Some params \<Rightarrow> \<lparr>d_capability = d_capability draft, d_params = params, d_ttl = d_ttl draft\<rparr>
                       | None \<Rightarrow> draft)), forget fingerprint c, p1)
                | (None, p1) \<Rightarrow> channel_deliver env port req c p1)
           | ChDenied _ \<Rightarrow>
               (Returns (Deny (lit ''channel-denied'')), forget fingerprint c, port_resolved port request_id p)
           | ChPending \<Rightarrow> channel_deliver env port req c p))"

fun resolve ::
    "channel_env \<Rightarrow> grant_request \<Rightarrow> resolver_context \<Rightarrow> 'p resolver \<Rightarrow> 'p
       \<Rightarrow> resolver_outcome outcome \<times> 'p resolver \<times> 'p" where
  "resolve env req ctx (SubsetAutoApproveResolver v) p =
     (Returns (subset_auto_approve v req ctx), SubsetAutoApproveResolver v, p)"
| "resolve env req ctx (BudgetCheckResolver b) p = (Returns (budget_check b ctx), BudgetCheckResolver b, p)"
| "resolve env req ctx (ParentApprovalResolver a b) p =
     (Returns (parent_approval a b req), ParentApprovalResolver a b, p)"
| "resolve env req ctx (ChannelResolver None c) p = (Returns Abstain, ChannelResolver None c, p)"
| "resolve env req ctx (ChannelResolver (Some port) c) p =
     (let (r, c1, p1) = channel_resolve env port req c p in (r, ChannelResolver (Some port) c1, p1))"
| "resolve env req ctx AutoDenyResolver p =
     (Returns (Deny (lit ''AutoDenyResolver: request denied by chain terminator'')), AutoDenyResolver, p)"

section \<open>The chain\<close>

text \<open>\<open>Utc::now() + Duration::milliseconds(..)\<close>: the addition panics on overflow.\<close>

fun chain_expires_at :: "chrono \<Rightarrow> instant \<Rightarrow> grant_ttl \<Rightarrow> instant option outcome" where
  "chain_expires_at ch now (Duration ms) =
     (case checked_add_ms ch now (saturating_i64 ms) of Some t \<Rightarrow> Returns (Some t) | None \<Rightarrow> Panics)"
| "chain_expires_at ch now (Until t) = Returns (Some t)"
| "chain_expires_at ch now _ = Returns None"

fun decision_label :: "resolver_outcome \<Rightarrow> rstr" where
  "decision_label (Approve _) = lit ''approve''"
| "decision_label (Deny _) = lit ''deny''"
| "decision_label Abstain = lit ''abstain''"
| "decision_label Pending = lit ''abstain''"

definition requested_grant ::
    "rstr \<Rightarrow> instant \<Rightarrow> rstr \<Rightarrow> rstr \<Rightarrow> grant_draft \<Rightarrow> instant option \<Rightarrow> grant" where
  "requested_grant new_id now caller name draft expires =
     \<lparr>g_id = new_id, g_grantee = caller, g_capability = d_capability draft, g_params = d_params draft,
      g_ttl = d_ttl draft, g_issuer = Resolver name, g_provenance = Requested, g_status = Active,
      g_created_at = now, g_expires_at = expires\<rparr>"

text \<open>The loop; \<open>env\<close> gives the channel environment of each position, \<open>ins\<close> is the insertion the
  caller passes in.\<close>

fun evaluate_loop ::
    "chrono \<Rightarrow> (nat \<Rightarrow> channel_env) \<Rightarrow> instant \<Rightarrow> rstr \<Rightarrow> (grant \<Rightarrow> rstr store_op) \<Rightarrow> grant_request
       \<Rightarrow> resolver_context \<Rightarrow> nat \<Rightarrow> 'p resolver list \<Rightarrow> store \<Rightarrow> 'p
       \<Rightarrow> chain_decision outcome \<times> 'p resolver list \<times> store \<times> 'p" where
  "evaluate_loop ch env now new_id ins req ctx k [] s p = (Returns (ChainDenied (lit ''no resolver matched'')), [], s, p)"
| "evaluate_loop ch env now new_id ins req ctx k (r # rs) s p =
     (case resolve (env k) req ctx r p of
        (Waits, r1, p1) \<Rightarrow> (Waits, r1 # rs, s, p1)
      | (Panics, r1, p1) \<Rightarrow> (Panics, r1 # rs, s, p1)
      | (Returns outcome, r1, p1) \<Rightarrow>
          (let s1 = emit (resolver_invoked_event (r_caller req) (r_capability req) (resolver_name r)
                      (decision_label outcome)) s in
           case outcome of
             Approve draft \<Rightarrow>
               (case chain_expires_at ch now (d_ttl draft) of
                  Returns expires \<Rightarrow>
                    (case ins (requested_grant new_id now (r_caller req) (resolver_name r) draft expires) s1 of
                       (Inr i, s2) \<Rightarrow> (Returns (ChainApproved i), r1 # rs, s2, p1)
                     | (Inl _, s2) \<Rightarrow>
                         (Returns (ChainDenied (lit ''resolver '' @ resolver_name r
                            @ lit '' approved but insert failed (internal error)'')), r1 # rs, s2, p1))
                | Waits \<Rightarrow> (Waits, r1 # rs, s1, p1)
                | Panics \<Rightarrow> (Panics, r1 # rs, s1, p1))
           | Deny reason \<Rightarrow> (Returns (ChainDenied reason), r1 # rs, s1, p1)
           | Pending \<Rightarrow> (Returns ChainPending, r1 # rs, s1, p1)
           | Abstain \<Rightarrow>
               (let (d, rs1, s2, p2) = evaluate_loop ch env now new_id ins req ctx (k + 1) rs s1 p1
                in (d, r1 # rs1, s2, p2))))"

definition evaluate ::
    "chrono \<Rightarrow> serde \<Rightarrow> (nat \<Rightarrow> channel_env) \<Rightarrow> instant \<Rightarrow> rstr \<Rightarrow> grant_request \<Rightarrow> resolver_context
       \<Rightarrow> 'p resolver list \<Rightarrow> store \<Rightarrow> 'p \<Rightarrow> chain_decision outcome \<times> 'p resolver list \<times> store \<times> 'p" where
  "evaluate ch sd env now new_id req ctx = evaluate_loop ch env now new_id (insert_dynamic ch sd) req ctx 0"

definition evaluate_with_dynamic_insert_barrier ::
    "chrono \<Rightarrow> serde \<Rightarrow> (nat \<Rightarrow> channel_env) \<Rightarrow> instant \<Rightarrow> rstr \<Rightarrow> grant_request \<Rightarrow> resolver_context
       \<Rightarrow> 'p resolver list \<Rightarrow> store \<Rightarrow> 'p \<Rightarrow> chain_decision outcome \<times> 'p resolver list \<times> store \<times> 'p" where
  "evaluate_with_dynamic_insert_barrier ch sd env now new_id req ctx =
     evaluate_loop ch env now new_id (insert_dynamic_inner ch sd) req ctx 0"

text \<open>The production chain, built in \<open>runtime-compose/src/wiring.rs\<close>.\<close>

definition build_grant_resolver_chain ::
    "(grant \<Rightarrow> grant_draft \<Rightarrow> unit result) \<Rightarrow> (rstr \<Rightarrow> rstr option) \<Rightarrow> 'p approval_port option \<Rightarrow> 'p resolver list" where
  "build_grant_resolver_chain validator run_budget channel_approval =
     [SubsetAutoApproveResolver validator, BudgetCheckResolver (Some run_budget), ParentApprovalResolver False False,
      ChannelResolver channel_approval (new_sent_cache CHANNEL_APPROVAL_SENT_CACHE_MAX), AutoDenyResolver]"

end
