(* ===== verification/ResolverProps.thy ===== *)
theory ResolverProps
  imports Resolvers
begin

text \<open>
  What the resolver chain guarantees: the cache of delivered requests stays bounded and consistent under
  every interleaving of its operations and never drops a request in delivery; the chain is decided by
  its first resolver that does not abstain; and the channel resolver, over any port that satisfies
  the contract of \<open>ChannelApprovalPort\<close>, approves only what the port reports approved, and once.
\<close>

section \<open>The sent cache\<close>

definition order_keys :: "(rstr, sent_approval_state) hmap \<Rightarrow> rstr list \<Rightarrow> bool" where
  "order_keys seen order \<longleftrightarrow> distinct order \<and> set order = dom (map_of seen)"

definition cache_wf :: "sent_cache \<Rightarrow> bool" where
  "cache_wf c \<longleftrightarrow> order_keys (sc_seen c) (sc_order c) \<and> length (sc_order c) \<le> sc_max_entries c \<and> 0 < sc_max_entries c"

definition in_delivery :: "sent_cache \<Rightarrow> rstr \<Rightarrow> bool" where
  "in_delivery c f \<longleftrightarrow> is_delivering (map_of (sc_seen c) f)"

lemma is_delivering_iff: "is_delivering st \<longleftrightarrow> (\<exists>i d. st = Some (Delivering i d))"
  by (cases st rule: is_delivering.cases) auto

lemma order_keys_rotate [simp]: "order_keys seen (rest @ [x]) \<longleftrightarrow> order_keys seen (x # rest)"
  by (auto simp: order_keys_def)

lemma order_keys_delete: "order_keys seen (x # rest) \<Longrightarrow> order_keys (AList.delete x seen) rest"
  by (auto simp: order_keys_def)

declare evict_one_loop.simps [simp del] evict_overflow_loop.simps [simp del]

lemma evict_one_loop_step:
  "k < length (x # rest) \<Longrightarrow> evict_one_loop seen k (x # rest) =
     (if is_delivering (map_of seen x) then evict_one_loop seen (k + 1) (rest @ [x])
      else (AList.delete x seen, rest))"
  by (subst evict_one_loop.simps) simp

text \<open>An eviction keeps the two parts of the cache in step and drops entries that are not in delivery
  only: what it keeps is a part of the old map, with every entry in delivery.\<close>

lemma evict_one_loop_keeps:
  assumes "order_keys seen order" "evict_one_loop seen k order = (seen', order')"
  shows "order_keys seen' order' \<and> map_of seen' \<subseteq>\<^sub>m map_of seen \<and> length order' \<le> length order
    \<and> (\<forall>f. is_delivering (map_of seen f) \<longrightarrow> map_of seen' f = map_of seen f)"
  using assms
proof (induction seen k order rule: evict_one_loop.induct)
  case (1 seen k order)
  show ?case
  proof (cases "k < length order")
    case True
    then obtain x rest where o: "order = x # rest" by (cases order) auto
    show ?thesis
    proof (cases "is_delivering (map_of seen x)")
      case del: True
      with 1 True o show ?thesis by (simp add: evict_one_loop_step)
    next
      case False
      with 1(3) True o have "seen' = AList.delete x seen" "order' = rest"
        by (simp_all add: evict_one_loop_step)
      with False 1(2) o show ?thesis by (auto simp: order_keys_delete map_le_def)
    qed
  next
    case False
    with 1 show ?thesis by (simp add: evict_one_loop.simps [of seen k order])
  qed
qed

text \<open>It does drop one when there is one.\<close>

lemma evict_one_loop_drops:
  assumes "\<exists>x\<in>set order. \<not> is_delivering (map_of seen x)"
    and "\<forall>x\<in>set (drop (length order - k) order). is_delivering (map_of seen x)"
    and "evict_one_loop seen k order = (seen', order')"
  shows "length order' < length order"
  using assms
proof (induction seen k order rule: evict_one_loop.induct)
  case (1 seen k order)
  have k: "k < length order" using 1(2,3) by (rule_tac ccontr) auto
  then obtain x rest where o: "order = x # rest" by (cases order) auto
  show ?case
  proof (cases "is_delivering (map_of seen x)")
    case True
    have "\<forall>y\<in>set (drop (length (rest @ [x]) - (k + 1)) (rest @ [x])). is_delivering (map_of seen y)"
      using 1(3) True k o by (auto simp: drop_Cons' Suc_diff_le split: if_splits)
    with 1(1) [OF k o True] 1(2,4) True k o show ?thesis
      by (simp add: evict_one_loop_step)
  next
    case False
    with 1(4) k o show ?thesis by (auto simp: evict_one_loop_step)
  qed
qed

lemma evict_one_keeps:
  assumes "order_keys (sc_seen c) (sc_order c)"
  shows "order_keys (sc_seen (evict_one_delivered_entry c)) (sc_order (evict_one_delivered_entry c))"
    "map_of (sc_seen (evict_one_delivered_entry c)) \<subseteq>\<^sub>m map_of (sc_seen c)"
    "length (sc_order (evict_one_delivered_entry c)) \<le> length (sc_order c)"
    "in_delivery c f \<Longrightarrow> map_of (sc_seen (evict_one_delivered_entry c)) f = map_of (sc_seen c) f"
    "sc_max_entries (evict_one_delivered_entry c) = sc_max_entries c"
    "\<exists>x\<in>set (sc_order c). \<not> in_delivery c x \<Longrightarrow>
       length (sc_order (evict_one_delivered_entry c)) < length (sc_order c)"
  using evict_one_loop_keeps [OF assms, of 0] evict_one_loop_drops [of "sc_order c" "sc_seen c" 0]
  by (auto simp: evict_one_delivered_entry_def in_delivery_def split: prod.splits)

lemma evict_overflow_within [simp]: "length (sc_order c) \<le> sc_max_entries c \<Longrightarrow> evict_delivered_overflow c = c"
  by (simp add: evict_delivered_overflow_def evict_overflow_loop.simps)

lemma cache_wf_new: "cache_wf (new_sent_cache n)"
  by (simp add: cache_wf_def order_keys_def new_sent_cache_def)

lemma begin_delivery_cases:
  assumes "begin_delivery i f d c = (a, c')"
  obtains "a = AlreadySent" "c' = c" "\<exists>j e. map_of (sc_seen c) f = Some (Delivered j e)"
  | "a = WaitForDelivery" "c' = c" "in_delivery c f"
  | "map_of (sc_seen c) f = None" "a \<noteq> AlreadySent" "a \<noteq> WaitForDelivery"
  using assms
  by (auto simp: begin_delivery_def Let_def in_delivery_def split: option.splits sent_approval_state.splits if_splits)

lemma begin_delivery_fresh:
  assumes "cache_wf c" "map_of (sc_seen c) f = None" "begin_delivery i f d c = (a, c')"
  shows "cache_wf c'" "sc_max_entries c' = sc_max_entries c"
    "\<And>g. g \<noteq> f \<Longrightarrow> in_delivery c g \<Longrightarrow> map_of (sc_seen c') g = map_of (sc_seen c) g"
    "\<And>g. g \<noteq> f \<Longrightarrow> map_of (sc_seen c') g = None \<or> map_of (sc_seen c') g = map_of (sc_seen c) g"
    "a = DeliverNow i \<and> map_of (sc_seen c') f = Some (Delivering i d)
       \<or> a = CacheFull \<and> map_of (sc_seen c') f = None
          \<and> length (sc_order c) = sc_max_entries c \<and> (\<forall>x\<in>set (sc_order c). in_delivery c x)"
proof -
  define c1 where "c1 = (if length (sc_order c) \<ge> sc_max_entries c then evict_one_delivered_entry c else c)"
  have k: "order_keys (sc_seen c) (sc_order c)" and len: "length (sc_order c) \<le> sc_max_entries c"
    and pos: "0 < sc_max_entries c" using assms(1) by (auto simp: cache_wf_def)
  note ev = evict_one_keeps [OF k]
  have k1: "order_keys (sc_seen c1) (sc_order c1)" and le: "map_of (sc_seen c1) \<subseteq>\<^sub>m map_of (sc_seen c)"
    and l1: "length (sc_order c1) \<le> length (sc_order c)" and m1: "sc_max_entries c1 = sc_max_entries c"
    using ev k by (auto simp: c1_def)
  have keep: "in_delivery c g \<Longrightarrow> map_of (sc_seen c1) g = map_of (sc_seen c) g" for g
    using ev(4) by (auto simp: c1_def)
  have part: "map_of (sc_seen c1) g = None \<or> map_of (sc_seen c1) g = map_of (sc_seen c) g" for g
    using le by (auto simp: map_le_def dom_def)
  have new: "map_of (sc_seen c1) f = None" using part [of f] assms(2) by auto
  have full: "length (sc_order c1) \<ge> sc_max_entries c1 \<Longrightarrow>
      length (sc_order c) = sc_max_entries c \<and> (\<forall>x\<in>set (sc_order c). in_delivery c x)"
    using ev(6) l1 len m1 by (auto simp: c1_def split: if_splits)
  have b: "begin_delivery i f d c = (if length (sc_order c1) \<ge> sc_max_entries c1 then (CacheFull, c1)
       else (DeliverNow i, c1\<lparr>sc_seen := AList.update f (Delivering i d) (sc_seen c1),
               sc_order := sc_order c1 @ [f]\<rparr>))"
    using assms(2) by (simp add: begin_delivery_def c1_def Let_def)
  have f_new: "f \<notin> set (sc_order c1)" using new k1 by (auto simp: order_keys_def domIff)
  show "cache_wf c'" using b assms(3) k1 l1 m1 len pos f_new
    by (auto simp: cache_wf_def order_keys_def split: if_splits)
  show "sc_max_entries c' = sc_max_entries c" using b assms(3) m1 by (auto split: if_splits)
  show "\<And>g. g \<noteq> f \<Longrightarrow> in_delivery c g \<Longrightarrow> map_of (sc_seen c') g = map_of (sc_seen c) g"
    using b assms(3) keep by (auto split: if_splits)
  show "\<And>g. g \<noteq> f \<Longrightarrow> map_of (sc_seen c') g = None \<or> map_of (sc_seen c') g = map_of (sc_seen c) g"
    using b assms(3) part by (auto split: if_splits)
  show "a = DeliverNow i \<and> map_of (sc_seen c') f = Some (Delivering i d)
       \<or> a = CacheFull \<and> map_of (sc_seen c') f = None
          \<and> length (sc_order c) = sc_max_entries c \<and> (\<forall>x\<in>set (sc_order c). in_delivery c x)"
    using b assms(3) new full by (auto split: if_splits)
qed

lemma forget_effect [simp]:
  "map_of (sc_seen (forget f c)) = (map_of (sc_seen c))(f := None)" "sc_max_entries (forget f c) = sc_max_entries c"
  by (auto simp: forget_def)

lemma forget_wf: "cache_wf c \<Longrightarrow> cache_wf (forget f c)"
  by (auto simp: cache_wf_def order_keys_def forget_def distinct_removeAll intro: le_trans [OF length_removeAll_less_eq])

definition delivered_state :: "sent_approval_state \<Rightarrow> sent_approval_state" where
  "delivered_state st = (case st of Delivering i d \<Rightarrow> Delivered i d | Delivered i d \<Rightarrow> Delivered i d)"

lemma finish_effect:
  assumes "cache_wf c"
  shows "map_of (sc_seen (finish_delivery f True c)) = (map_of (sc_seen c))(f := map_option delivered_state (map_of (sc_seen c) f))"
    "finish_delivery f False c = forget f c" "cache_wf (finish_delivery f b c)"
    "sc_max_entries (finish_delivery f b c) = sc_max_entries c"
proof -
  define c1 where "c1 = (case map_of (sc_seen c) f of
       Some (Delivering i d) \<Rightarrow> c\<lparr>sc_seen := AList.update f (Delivered i d) (sc_seen c)\<rparr> | _ \<Rightarrow> c)"
  have m: "map_of (sc_seen c1) = (map_of (sc_seen c))(f := map_option delivered_state (map_of (sc_seen c) f))"
    and o: "sc_order c1 = sc_order c" "sc_max_entries c1 = sc_max_entries c"
    by (auto simp: c1_def delivered_state_def split: option.splits sent_approval_state.splits)
  have w: "cache_wf c1" using assms m o by (auto simp: cache_wf_def order_keys_def)
  have e: "finish_delivery f True c = c1" using w by (simp add: finish_delivery_def cache_wf_def flip: c1_def)
  show "map_of (sc_seen (finish_delivery f True c)) = (map_of (sc_seen c))(f := map_option delivered_state (map_of (sc_seen c) f))"
    using e m by simp
  show fg: "finish_delivery f False c = forget f c" by (simp add: finish_delivery_def)
  show "cache_wf (finish_delivery f b c)" using e w fg forget_wf [OF assms] by (cases b) auto
  show "sc_max_entries (finish_delivery f b c) = sc_max_entries c" using e o fg by (cases b) auto
qed

text \<open>The cache under the calls of several threads: any sequence of the three locked operations.\<close>

inductive cache_step :: "sent_cache \<Rightarrow> sent_cache \<Rightarrow> bool" where
  beginning: "begin_delivery i f d c = (a, c') \<Longrightarrow> cache_step c c'"
| finishing: "cache_step c (finish_delivery f b c)"
| forgetting: "cache_step c (forget f c)"

inductive cache_run :: "sent_cache \<Rightarrow> sent_cache \<Rightarrow> bool" where
  start: "cache_run c c"
| more: "cache_run c c1 \<Longrightarrow> cache_step c1 c2 \<Longrightarrow> cache_run c c2"

lemma begin_delivery_wf:
  assumes "cache_wf c" "begin_delivery i f d c = (a, c')"
  shows "cache_wf c'" "sc_max_entries c' = sc_max_entries c"
    "in_delivery c g \<Longrightarrow> map_of (sc_seen c') g = map_of (sc_seen c) g"
proof -
  have fr: "in_delivery c f \<Longrightarrow> map_of (sc_seen c) f \<noteq> None" by (auto simp: in_delivery_def is_delivering_iff)
  from assms(2) show "cache_wf c'" "sc_max_entries c' = sc_max_entries c"
    by (cases rule: begin_delivery_cases; use begin_delivery_fresh [OF assms(1) _ assms(2)] assms(1) in force)+
  from assms(2) show "in_delivery c g \<Longrightarrow> map_of (sc_seen c') g = map_of (sc_seen c) g"
    by (cases rule: begin_delivery_cases; cases "g = f";
        use begin_delivery_fresh(3) [OF assms(1) _ assms(2)] fr in force)
qed

lemma cache_run_wf:
  assumes "cache_run c0 c" "cache_wf c0"
  shows "cache_wf c \<and> sc_max_entries c = sc_max_entries c0"
  using assms
proof (induction rule: cache_run.induct)
  case (more c c1 c2)
  from more(2) more(3) [OF more(4)] show ?case
    by (cases rule: cache_step.cases) (auto simp: begin_delivery_wf finish_effect forget_wf)
qed simp

section \<open>The chain\<close>

lemma channel_never_abstains: "fst (channel_resolve env port req c p) \<noteq> Returns Abstain"
  by (auto simp: channel_resolve_def channel_deliver_def Let_def
      split: option.splits prod.splits cache_action.splits channel_approval_decision.splits bool.splits)

lemma resolve_abstain:
  assumes "resolve env req ctx r p = (Returns Abstain, r1, p1)"
  shows "r1 = r \<and> p1 = p"
  using assms
proof (cases r)
  case (ChannelResolver port c)
  show ?thesis
  proof (cases port)
    case (Some q)
    with assms ChannelResolver channel_never_abstains [of env q req c p] show ?thesis
      by (auto simp: Let_def split: prod.splits)
  qed (use assms ChannelResolver in simp)
qed auto

text \<open>What an outcome other than an abstention makes of the chain: the decision and the store.\<close>

definition chain_effect ::
    "chrono \<Rightarrow> instant \<Rightarrow> rstr \<Rightarrow> (grant \<Rightarrow> rstr store_op) \<Rightarrow> grant_request \<Rightarrow> rstr \<Rightarrow> resolver_outcome
       \<Rightarrow> store \<Rightarrow> chain_decision \<Rightarrow> store \<Rightarrow> bool" where
  "chain_effect ch now new_id ins req name out s d s' =
     (case out of
        Deny reason \<Rightarrow> d = ChainDenied reason \<and> s' = s
      | Pending \<Rightarrow> d = ChainPending \<and> s' = s
      | Abstain \<Rightarrow> False
      | Approve draft \<Rightarrow>
          (\<exists>expires. chain_expires_at ch now (d_ttl draft) = Returns expires
             \<and> (case ins (requested_grant new_id now (r_caller req) name draft expires) s of
                  (Inr i, s2) \<Rightarrow> d = ChainApproved i \<and> s' = s2
                | (Inl e, s2) \<Rightarrow> d = ChainDenied (lit ''resolver '' @ name
                      @ lit '' approved but insert failed (internal error)'') \<and> s' = s2)))"

definition invoked :: "grant_request \<Rightarrow> 'p resolver \<Rightarrow> resolver_outcome \<Rightarrow> event" where
  "invoked req r out = resolver_invoked_event (r_caller req) (r_capability req) (resolver_name r) (decision_label out)"

lemma emit_all_after_emit: "emit_all es (emit e s) = emit_all (e # es) s"
  by (simp add: emit_def emit_all_def)

lemma emit_all_Nil [simp]: "emit_all [] s = s"
  by (simp add: emit_all_def)

text \<open>The meaning of a chain from position \<open>k\<close>: the resolvers up to the first that does not abstain are
  consulted, with one event each, and that one decides; when all abstain, the request is denied.\<close>

definition abstain_from ::
    "(nat \<Rightarrow> channel_env) \<Rightarrow> grant_request \<Rightarrow> resolver_context \<Rightarrow> nat \<Rightarrow> 'p resolver list \<Rightarrow> 'p \<Rightarrow> bool" where
  "abstain_from env req ctx k rs p \<longleftrightarrow>
     (\<forall>j < length rs. resolve (env (k + j)) req ctx (rs ! j) p = (Returns Abstain, rs ! j, p))"

definition decided_by ::
    "chrono \<Rightarrow> (nat \<Rightarrow> channel_env) \<Rightarrow> instant \<Rightarrow> rstr \<Rightarrow> (grant \<Rightarrow> rstr store_op) \<Rightarrow> grant_request
       \<Rightarrow> resolver_context \<Rightarrow> nat \<Rightarrow> 'p resolver list \<Rightarrow> store \<Rightarrow> 'p
       \<Rightarrow> 'p resolver \<Rightarrow> resolver_outcome \<Rightarrow> chain_decision \<Rightarrow> 'p resolver list \<Rightarrow> store \<Rightarrow> 'p \<Rightarrow> bool" where
  "decided_by ch env now new_id ins req ctx k rs s p r out d rs' s' p' \<longleftrightarrow>
     (\<exists>pre post r1. rs = pre @ r # post \<and> abstain_from env req ctx k pre p
        \<and> resolve (env (k + length pre)) req ctx r p = (Returns out, r1, p') \<and> out \<noteq> Abstain
        \<and> rs' = pre @ r1 # post
        \<and> chain_effect ch now new_id ins req (resolver_name r) out
            (emit_all (map (\<lambda>q. invoked req q Abstain) pre @ [invoked req r out]) s) d s')"

lemma abstain_from_Cons:
  assumes "resolve (env k) req ctx r p = (Returns Abstain, r, p)"
  shows "abstain_from env req ctx k (r # rs) p \<longleftrightarrow> abstain_from env req ctx (k + 1) rs p"
  using assms by (simp add: abstain_from_def All_less_Suc2)

lemma decided_by_Cons:
  assumes "resolve (env k) req ctx r p = (Returns Abstain, r, p)"
    and "decided_by ch env now new_id ins req ctx (k + 1) rs (emit (invoked req r Abstain) s) p q out d rs' s' p'"
  shows "decided_by ch env now new_id ins req ctx k (r # rs) s p q out d (r # rs') s' p'"
proof -
  from assms(2) obtain pre post r1 where "rs = pre @ q # post" "abstain_from env req ctx (k + 1) pre p"
    "resolve (env (k + 1 + length pre)) req ctx q p = (Returns out, r1, p')" "out \<noteq> Abstain"
    "rs' = pre @ r1 # post"
    "chain_effect ch now new_id ins req (resolver_name q) out
       (emit_all (map (\<lambda>q. invoked req q Abstain) pre @ [invoked req q out]) (emit (invoked req r Abstain) s)) d s'"
    by (auto simp: decided_by_def)
  then show ?thesis
    unfolding decided_by_def
    by (intro exI [of _ "r # pre"] exI [of _ post] exI [of _ r1]) (simp add: abstain_from_Cons assms(1) emit_all_after_emit)
qed

lemma evaluate_loop_decides:
  assumes "evaluate_loop ch env now new_id ins req ctx k rs s p = (Returns d, rs', s', p')"
  shows "(\<exists>r out. decided_by ch env now new_id ins req ctx k rs s p r out d rs' s' p')
    \<or> (abstain_from env req ctx k rs p \<and> d = ChainDenied (lit ''no resolver matched'')
        \<and> rs' = rs \<and> p' = p \<and> s' = emit_all (map (\<lambda>q. invoked req q Abstain) rs) s)"
  using assms
proof (induction rs arbitrary: k s p rs')
  case Nil
  then show ?case by (simp add: abstain_from_def)
next
  case (Cons r rs)
  obtain o1 r1 p1 where res: "resolve (env k) req ctx r p = (o1, r1, p1)" by (cases "resolve (env k) req ctx r p") auto
  with Cons.prems obtain out where o1: "o1 = Returns out" by (cases o1) auto
  show ?case
  proof (cases "out = Abstain")
    case False
    have "chain_effect ch now new_id ins req (resolver_name r) out (emit (invoked req r out) s) d s'
        \<and> rs' = r1 # rs \<and> p' = p1"
      using Cons.prems res o1 False
      by (auto simp: chain_effect_def invoked_def Let_def
          split: resolver_outcome.splits outcome.splits prod.splits sum.splits)
    then have "decided_by ch env now new_id ins req ctx k (r # rs) s p r out d rs' s' p'"
      unfolding decided_by_def using res o1 False
      by (intro exI [of _ "[]"] exI [of _ rs] exI [of _ r1]) (simp add: abstain_from_def emit_def emit_all_def)
    then show ?thesis by blast
  next
    case True
    with res o1 have same: "resolve (env k) req ctx r p = (Returns Abstain, r, p)"
      using resolve_abstain [of "env k" req ctx r p r1 p1] by simp
    then obtain rs1 where rs': "rs' = r # rs1" and
      "evaluate_loop ch env now new_id ins req ctx (k + 1) rs (emit (invoked req r Abstain) s) p = (Returns d, rs1, s', p')"
      using Cons.prems by (auto simp: invoked_def Let_def split: prod.splits)
    from Cons.IH [OF this(2)] show ?thesis
    proof
      assume "\<exists>q out. decided_by ch env now new_id ins req ctx (k + 1) rs (emit (invoked req r Abstain) s) p q out d rs1 s' p'"
      with decided_by_Cons [where env = env and k = k, OF same] rs' show ?thesis by blast
    qed (use abstain_from_Cons [where env = env and k = k, OF same, of rs] rs' in \<open>simp add: emit_all_after_emit\<close>)
  qed
qed

section \<open>The channel resolver over a port\<close>

text \<open>Between two evaluations no delivery is under way.\<close>

definition settled :: "sent_cache \<Rightarrow> bool" where
  "settled c \<longleftrightarrow> cache_wf c \<and> (\<forall>f. \<not> in_delivery c f)"

lemma settled_new: "settled (new_sent_cache n)"
  by (simp add: settled_def cache_wf_new) (simp add: in_delivery_def new_sent_cache_def)

lemma settled_forget: "settled c \<Longrightarrow> settled (forget f c)"
  by (auto simp: settled_def forget_wf in_delivery_def)

lemma delivered_approval_Some: "delivered_approval f c = Some (i, d) \<longleftrightarrow> map_of (sc_seen c) f = Some (Delivered i d)"
  by (auto simp: delivered_approval_def split: option.splits sent_approval_state.splits)

lemma settled_None: "settled c \<Longrightarrow> delivered_approval f c = None \<Longrightarrow> map_of (sc_seen c) f = None"
  by (auto simp: settled_def in_delivery_def is_delivering_iff delivered_approval_def
      split: option.splits sent_approval_state.splits)

lemma delivered_approval_forget [simp]:
  "delivered_approval g (forget f c) = (if g = f then None else delivered_approval g c)"
  by (simp add: delivered_approval_def)

lemma begin_settled:
  assumes "settled c" "delivered_approval f c = None" "begin_delivery i f d c = (a, c1)"
  shows "a = DeliverNow i" "settled (finish_delivery f b c1)"
    "delivered_approval f (finish_delivery f b c1) = (if b then Some (i, d) else None)"
    "\<And>g. g \<noteq> f \<Longrightarrow> delivered_approval g (finish_delivery f b c1) = None
        \<or> delivered_approval g (finish_delivery f b c1) = delivered_approval g c"
proof -
  have wf: "cache_wf c" and idle: "\<And>g. \<not> in_delivery c g" using assms(1) by (auto simp: settled_def)
  have fresh: "map_of (sc_seen c) f = None" by (rule settled_None [OF assms(1,2)])
  note bf = begin_delivery_fresh [OF wf fresh assms(3)]
  have "sc_order c = [] \<or> (\<exists>x\<in>set (sc_order c). \<not> in_delivery c x)" using idle by (cases "sc_order c") auto
  with bf(5) wf show "a = DeliverNow i" by (auto simp: cache_wf_def)
  with bf(5) have cf: "map_of (sc_seen c1) f = Some (Delivering i d)" by auto
  note fin = finish_effect [OF bf(1), of f]
  have "\<not> in_delivery (finish_delivery f b c1) g" for g
    using fin bf(4) [of g] idle [of g] cf
    by (cases b; cases "g = f") (auto simp: in_delivery_def delivered_state_def)
  with fin(3) show "settled (finish_delivery f b c1)" by (simp add: settled_def)
  show "delivered_approval f (finish_delivery f b c1) = (if b then Some (i, d) else None)"
    using fin cf by (cases b) (simp_all add: delivered_approval_def delivered_state_def)
  show "\<And>g. g \<noteq> f \<Longrightarrow> delivered_approval g (finish_delivery f b c1) = None
        \<or> delivered_approval g (finish_delivery f b c1) = delivered_approval g c"
  proof -
    fix g assume "g \<noteq> f"
    with bf(4) [of g] fin(1,2) show "delivered_approval g (finish_delivery f b c1) = None
        \<or> delivered_approval g (finish_delivery f b c1) = delivered_approval g c"
      by (cases b) (auto simp: delivered_approval_def)
  qed
qed

lemma deliver_ok:
  assumes "deliver_approval_request dl port q p = (ok, p1)"
  shows "ok \<Longrightarrow> port_request_approval port q p = (Inr (), p1)"
    "p1 = p \<or> p1 = snd (port_request_approval port q p)"
proof -
  obtain r p2 where r: "port_request_approval port q p = (r, p2)" by fastforce
  show "ok \<Longrightarrow> port_request_approval port q p = (Inr (), p1)" "p1 = p \<or> p1 = snd (port_request_approval port q p)"
    using assms r by (cases dl; cases r; simp)+
qed

text \<open>One delivery on a settled cache: either the request was delivered before and nothing changes, or
  it is sent under the fresh id and remembered exactly when the port took it in time.\<close>

lemma channel_deliver_cases:
  assumes "settled c" "channel_deliver env port req c p = (r, c', p')"
  obtains (again) i d where "delivered_approval (channel_request_fingerprint env req) c = Some (i, d)"
      "r = Returns Pending" "c' = c" "p' = p"
  | (sent) "delivered_approval (channel_request_fingerprint env req) c = None" "r = Returns Pending" "settled c'"
      "delivered_approval (channel_request_fingerprint env req) c'
         = Some (new_channel_request_id env, grant_draft_from_request req)"
      "\<And>g. g \<noteq> channel_request_fingerprint env req \<Longrightarrow>
         delivered_approval g c' = None \<or> delivered_approval g c' = delivered_approval g c"
      "port_request_approval port (from_grant_request req (new_channel_request_id env)) p = (Inr (), p')"
  | (failed) "delivered_approval (channel_request_fingerprint env req) c = None"
      "r = Returns (Deny (lit ''channel-approval-unavailable''))" "settled c'"
      "delivered_approval (channel_request_fingerprint env req) c' = None"
      "\<And>g. g \<noteq> channel_request_fingerprint env req \<Longrightarrow>
         delivered_approval g c' = None \<or> delivered_approval g c' = delivered_approval g c"
      "p' = p \<or> p' = snd (port_request_approval port (from_grant_request req (new_channel_request_id env)) p)"
proof -
  define f where "f = channel_request_fingerprint env req"
  define i where "i = new_channel_request_id env"
  define d where "d = grant_draft_from_request req"
  obtain a c1 where b: "begin_delivery i f d c = (a, c1)" by fastforce
  show ?thesis
  proof (cases "delivered_approval f c")
    case (Some x)
    then obtain j e where x: "delivered_approval f c = Some (j, e)" by (cases x) auto
    then have run: "channel_deliver env port req c p = (Returns Pending, c, p)"
      by (simp add: channel_deliver_def begin_delivery_def delivered_approval_Some Let_def flip: f_def)
    show ?thesis by (rule again [of j e]) (use assms(2) run x in \<open>simp_all flip: f_def\<close>)
  next
    case None
    note bs = begin_settled [OF assms(1) None b]
    obtain ok p1 where dl: "deliver_approval_request (ce_delivery env) port (from_grant_request req i) p = (ok, p1)"
      by fastforce
    have run: "channel_deliver env port req c p = (if ok then (Returns Pending, finish_delivery f True c1, p1)
        else (Returns (Deny (lit ''channel-approval-unavailable'')), finish_delivery f False c1, p1))"
      using b bs(1) dl by (simp add: channel_deliver_def Let_def flip: f_def i_def d_def)
    show ?thesis
    proof (cases ok)
      case True
      show ?thesis
        by (rule sent) (use True run assms(2) deliver_ok [OF dl] bs(2-4) [where b = True] None in \<open>simp_all flip: f_def i_def d_def\<close>)
    next
      case False
      show ?thesis
        by (rule failed) (use False run assms(2) deliver_ok [OF dl] bs(2-4) [where b = False] None in \<open>simp_all flip: f_def i_def d_def\<close>)
    qed
  qed
qed

lemma channel_resolve_cases:
  assumes "settled c" "channel_resolve env port req c p = (r, c', p')"
  obtains (approved) i d narrowed where "delivered_approval (channel_request_fingerprint env req) c = Some (i, d)"
      "port_decision port p i = ChApproved" "port_take_approved port i p = (Some narrowed, p')"
      "r = Returns (Approve (case narrowed of None \<Rightarrow> d | Some ps \<Rightarrow> d\<lparr>d_params := ps\<rparr>))"
      "c' = forget (channel_request_fingerprint env req) c"
  | (denied) i d reason where "delivered_approval (channel_request_fingerprint env req) c = Some (i, d)"
      "port_decision port p i = ChDenied reason" "r = Returns (Deny (lit ''channel-denied''))"
      "c' = forget (channel_request_fingerprint env req) c" "p' = port_resolved port i p"
  | (raced) i d where "delivered_approval (channel_request_fingerprint env req) c = Some (i, d)"
      "port_decision port p i = ChApproved" "port_take_approved port i p = (None, p')" "r = Returns Pending" "c' = c"
  | (waiting) i d where "delivered_approval (channel_request_fingerprint env req) c = Some (i, d)"
      "port_decision port p i = ChPending" "r = Returns Pending" "c' = c" "p' = p"
  | (delivery) "delivered_approval (channel_request_fingerprint env req) c = None"
      "channel_deliver env port req c p = (r, c', p')"
proof (cases "delivered_approval (channel_request_fingerprint env req) c")
  case None
  show ?thesis by (rule delivery) (use None assms(2) in \<open>simp_all add: channel_resolve_def\<close>)
next
  case (Some x)
  then obtain i d where x: "delivered_approval (channel_request_fingerprint env req) c = Some (i, d)" by (cases x) auto
  have pend: "channel_deliver env port req c q = (Returns Pending, c, q)" for q
    using x by (simp add: channel_deliver_def begin_delivery_def delivered_approval_Some Let_def)
  show ?thesis
  proof (cases "port_decision port p i")
    case ChPending
    show ?thesis
      by (rule waiting [of i d]) (use assms(2) x pend ChPending in \<open>simp_all add: channel_resolve_def Let_def\<close>)
  next
    case (ChDenied reason)
    show ?thesis
      by (rule denied [of i d reason]) (use assms(2) x ChDenied in \<open>simp_all add: channel_resolve_def Let_def\<close>)
  next
    case ChApproved
    obtain t p1 where t: "port_take_approved port i p = (t, p1)" by fastforce
    show ?thesis
    proof (cases t)
      case None
      show ?thesis
        by (rule raced [of i d]) (use assms(2) x ChApproved t None pend in \<open>simp_all add: channel_resolve_def Let_def\<close>)
    next
      case (Some narrowed)
      show ?thesis
        by (rule approved [of i d narrowed])
          (use assms(2) x ChApproved t Some in \<open>auto simp: channel_resolve_def Let_def split: option.splits\<close>)
    qed
  qed
qed

lemma channel_settled:
  assumes "settled c" "channel_resolve env port req c p = (r, c', p')"
  shows "settled c' \<and> (\<exists>out. r = Returns out)"
proof (cases rule: channel_resolve_cases [OF assms])
  case 5
  show ?thesis by (cases rule: channel_deliver_cases [OF assms(1) 5(2)]) (use assms(1) in auto)
qed (simp_all add: assms(1) settled_forget)

text \<open>The contract of a port. The resolver reads a decision, consumes an approval and files a request;
  what it relies on is that an approval can be consumed exactly when it is reported, that it is gone
  then, and that a request that was filed waits for its decision.\<close>

locale approval_backend =
  fixes port :: "'p approval_port"
  assumes take_iff: "port_decision port p i = ChApproved \<longleftrightarrow> fst (port_take_approved port i p) \<noteq> None"
    and take_once: "port_take_approved port i p = (Some x, p') \<Longrightarrow> port_decision port p' i = ChPending"
    and request_waits: "port_request_approval port q p = (Inr (), p') \<Longrightarrow> port_decision port p' (cq_request_id q) = ChPending"
begin

text \<open>A request that is waiting stays as it is, however often it is retried: one logical request is
  filed once.\<close>

lemma retry_waits:
  assumes "settled c" "channel_resolve env port req c p = (Returns Pending, c', p')"
    and "channel_request_fingerprint env' req' = channel_request_fingerprint env req"
  shows "channel_resolve env' port req' c' p' = (Returns Pending, c', p')"
proof -
  obtain i d where d: "delivered_approval (channel_request_fingerprint env req) c' = Some (i, d)"
    and w: "port_decision port p' i = ChPending"
  proof (cases rule: channel_resolve_cases [OF assms(1,2)])
    case (3 i d)
    then show ?thesis using take_iff [of p i] by simp
  next
    case 5
    show ?thesis
    proof (cases rule: channel_deliver_cases [OF assms(1) 5(2)])
      case 2
      show ?thesis by (rule that [OF 2(4)]) (use request_waits [OF 2(6)] in \<open>simp add: from_grant_request_def\<close>)
    qed (use 5(1) in auto)
  qed (use that in auto)
  then have "channel_deliver env' port req' c' p' = (Returns Pending, c', p')"
    by (simp add: channel_deliver_def begin_delivery_def delivered_approval_Some assms(3) Let_def)
  with d w show ?thesis by (simp add: channel_resolve_def assms(3) Let_def)
qed

text \<open>The resolver approves nothing the port does not report approved, and the approval is used up.\<close>

lemma approve_needs_decision:
  assumes "settled c" "channel_resolve env port req c p = (Returns (Approve draft), c', p')"
  obtains i d where "delivered_approval (channel_request_fingerprint env req) c = Some (i, d)"
    "port_decision port p i = ChApproved" "port_decision port p' i = ChPending"
    "d_capability draft = d_capability d" "d_ttl draft = d_ttl d"
    "delivered_approval (channel_request_fingerprint env req) c' = None"
proof (cases rule: channel_resolve_cases [OF assms])
  case (1 i d narrowed)
  then show ?thesis using take_once that by (auto split: option.splits)
next
  case 5
  show ?thesis by (cases rule: channel_deliver_cases [OF assms(1) 5(2)]) auto
qed simp_all

end

section \<open>Properties\<close>

text \<open>A full cache whose requests are all in delivery evicts nothing.\<close>

lemma begin_full:
  assumes "cache_wf c" "map_of (sc_seen c) f = None" "length (sc_order c) = sc_max_entries c"
    "\<forall>x\<in>set (sc_order c). in_delivery c x"
  shows "fst (begin_delivery i f d c) = CacheFull"
proof -
  let ?e = "evict_one_delivered_entry c"
  have k: "order_keys (sc_seen c) (sc_order c)" using assms(1) by (simp add: cache_wf_def)
  note ev = evict_one_keeps [OF k]
  have "map_of (sc_seen ?e) x = map_of (sc_seen c) x" if "x \<in> set (sc_order c)" for x using ev(4) assms(4) that by blast
  then have "set (sc_order c) \<subseteq> set (sc_order ?e)" using k ev(1) by (auto simp: order_keys_def domIff)
  then have "length (sc_order c) \<le> length (sc_order ?e)"
    using k ev(1) by (metis order_keys_def distinct_card card_mono List.finite_set)
  with assms(2,3) ev(5) show ?thesis by (simp add: begin_delivery_def Let_def)
qed

text \<open>Under every interleaving of deliveries and retries the sent cache holds at most its limit of
  requests, its queue lists exactly the remembered requests without repetition, a new delivery never
  evicts a request still in delivery, and a request is delivered exactly when it is not remembered and
  the cache has room or a request that can be evicted.\<close>

theorem sent_cache_exact:
  assumes "cache_run (new_sent_cache n) c" "begin_delivery i f d c = (a, c')"
  shows "length (sc_order c) \<le> max n 1 \<and> distinct (sc_order c) \<and> set (sc_order c) = dom (map_of (sc_seen c))
     \<and> (\<forall>g. is_delivering (map_of (sc_seen c) g) \<longrightarrow> map_of (sc_seen c') g = map_of (sc_seen c) g)
     \<and> (a = DeliverNow i \<longleftrightarrow> map_of (sc_seen c) f = None
          \<and> (length (sc_order c) < max n 1 \<or> (\<exists>g\<in>set (sc_order c). \<not> is_delivering (map_of (sc_seen c) g))))"
proof -
  have wf: "cache_wf c" and m: "sc_max_entries c = max n 1"
    using cache_run_wf [OF assms(1) cache_wf_new] by (auto simp: new_sent_cache_def)
  have len: "length (sc_order c) \<le> max n 1" using wf m by (simp add: cache_wf_def)
  have "a = DeliverNow i \<longleftrightarrow> map_of (sc_seen c) f = None
       \<and> (length (sc_order c) < max n 1 \<or> (\<exists>g\<in>set (sc_order c). \<not> is_delivering (map_of (sc_seen c) g)))"
  proof (cases "map_of (sc_seen c) f")
    case None
    show ?thesis
      using begin_delivery_fresh(5) [OF wf None assms(2)] begin_full [OF wf None, of i d] None m len assms(2)
      by (auto simp: in_delivery_def le_less)
  next
    case (Some st)
    with assms(2) show ?thesis by (auto simp: begin_delivery_def split: sent_approval_state.splits)
  qed
  with len wf begin_delivery_wf(3) [OF wf assms(2)] show ?thesis
    by (auto simp: cache_wf_def order_keys_def in_delivery_def)
qed

definition sample_cache :: sent_cache where
  "sample_cache = snd (begin_delivery (lit ''1'') (lit ''f'') (sample_draft ''fs'' []) (new_sent_cache 1))"

lemma sample_cache_run: "cache_run (new_sent_cache 1) sample_cache"
  unfolding sample_cache_def by (rule cache_run.more [OF cache_run.start], rule cache_step.beginning, rule surjective_pairing)

theorem sent_cache_exact_example:
  "fst (begin_delivery (lit ''2'') (lit ''g'') (sample_draft ''fs'' []) sample_cache) \<noteq> DeliverNow (lit ''2'')
     \<and> length (sc_order sample_cache) \<le> 1"
  using sent_cache_exact [OF sample_cache_run
      surjective_pairing [of "begin_delivery (lit ''2'') (lit ''g'') (sample_draft ''fs'' []) sample_cache"]]
  by (simp add: sample_cache_def begin_delivery_def new_sent_cache_def Let_def)

text \<open>C16. A chain is decided by its first resolver that does not abstain: the resolvers before it and it
  are each announced by one event, those after it are not consulted, a grant is inserted only for an
  approval and is the approved draft for the caller, and an approval whose insertion fails is a denial.
  When all abstain, the request is denied.\<close>

theorem chain_first_decides:
  assumes "evaluate_with_dynamic_insert_barrier ch sd env now new_id req ctx rs s p = (Returns d, rs', s', p')"
  shows "(\<exists>pre r post out r1. rs = pre @ r # post \<and> rs' = pre @ r1 # post
        \<and> (\<forall>j < length pre. resolve (env j) req ctx (pre ! j) p = (Returns Abstain, pre ! j, p))
        \<and> resolve (env (length pre)) req ctx r p = (Returns out, r1, p') \<and> out \<noteq> Abstain
        \<and> chain_effect ch now new_id (insert_dynamic_inner ch sd) req (resolver_name r) out
            (emit_all (map (\<lambda>q. invoked req q Abstain) pre @ [invoked req r out]) s) d s')
    \<or> ((\<forall>j < length rs. resolve (env j) req ctx (rs ! j) p = (Returns Abstain, rs ! j, p))
        \<and> d = ChainDenied (lit ''no resolver matched'') \<and> rs' = rs \<and> p' = p
        \<and> s' = emit_all (map (\<lambda>q. invoked req q Abstain) rs) s)"
  using evaluate_loop_decides [OF assms [unfolded evaluate_with_dynamic_insert_barrier_def]]
  by (simp add: decided_by_def abstain_from_def) blast

definition sample_request :: grant_request where
  "sample_request = \<lparr>r_caller = lit ''a'', r_capability = lit ''fs'', r_params = None, r_ttl = Once, r_justification = None\<rparr>"

abbreviation sample_chain :: "nat resolver list" where
  "sample_chain \<equiv> [BudgetCheckResolver None, SubsetAutoApproveResolver validate, AutoDenyResolver]"

abbreviation sample_env :: channel_env where
  "sample_env \<equiv> \<lparr>ce_serialize = \<lambda>_. None, ce_fallback = \<lambda>_. [], ce_uuid = lit ''u'', ce_delivery = Prompt\<rparr>"

definition sample_evaluation :: "chain_decision outcome \<times> nat resolver list \<times> store \<times> nat" where
  "sample_evaluation = evaluate_with_dynamic_insert_barrier sample_chrono sample_serde (\<lambda>_. sample_env) 5 (lit ''n'')
     sample_request \<lparr>parent_grants = [sample_grant ''p'' ''a'' ''fs'' []], ctx_run_id = None\<rparr>
     sample_chain sample_held 0"

theorem chain_first_decides_witness:
  "fst sample_evaluation = Returns (ChainApproved (lit ''n''))
     \<and> (\<exists>pre r post out. sample_chain = pre @ r # post \<and> out \<noteq> Abstain
          \<and> fst (resolve sample_env sample_request
                  \<lparr>parent_grants = [sample_grant ''p'' ''a'' ''fs'' []], ctx_run_id = None\<rparr> r 0) = Returns out)"
proof -
  have d: "fst sample_evaluation = Returns (ChainApproved (lit ''n''))"
    by (simp add: sample_evaluation_def evaluate_with_dynamic_insert_barrier_def subset_auto_approve_def sample_request_def
        grant_draft_from_request_def request_params_def requested_grant_def delegate_eval sample_grant_def)
  then obtain rs' s' p' where run: "evaluate_with_dynamic_insert_barrier sample_chrono sample_serde (\<lambda>_. sample_env) 5 (lit ''n'')
     sample_request \<lparr>parent_grants = [sample_grant ''p'' ''a'' ''fs'' []], ctx_run_id = None\<rparr>
     sample_chain sample_held 0 = (Returns (ChainApproved (lit ''n'')), rs', s', p')"
    by (cases sample_evaluation) (simp add: sample_evaluation_def)
  from chain_first_decides [OF run] d show ?thesis by fastforce
qed

end
