(* ===== verification/Presets.thy ===== *)
theory Presets
  imports GrantCheck ConfigCompile
begin

text \<open>
  \<open>cap-grant/src/preset.rs\<close>: the registry of built-in and custom presets, the loader of custom preset
  files, and \<open>apply_preset\<close>. The registry is a keyed list; its lock is not modelled. The lower case of a
  character (\<open>char::to_lowercase\<close>, the Unicode table) is a parameter \<open>lower\<close>; nothing here depends on what it is.
\<close>

section \<open>Presets and their registry\<close>

definition MAX_PRESET_YAML_DEPTH :: nat where "MAX_PRESET_YAML_DEPTH = 16"
definition MAX_PRESET_GRANTS :: nat where "MAX_PRESET_GRANTS = 100"
definition PRESET_RESTRICT :: rstr where "PRESET_RESTRICT = lit ''restrict''"
definition PRESET_SUPERVISED :: rstr where "PRESET_SUPERVISED = lit ''supervised''"
definition PRESET_AUTONOMOUS :: rstr where "PRESET_AUTONOMOUS = lit ''autonomous''"

definition VALID_RESOLVER_NAMES :: "rstr list" where
  "VALID_RESOLVER_NAMES =
     [lit ''SubsetAutoApprove'', lit ''BudgetCheck'', lit ''ParentApproval'', lit ''Channel'', lit ''AutoDeny'']"

record preset_grant =
  pg_capability :: rstr
  pg_params :: "cap_param list"
  pg_ttl :: grant_ttl

record preset =
  ps_name :: rstr
  ps_resolver_chain_names :: "rstr list"
  ps_default_ttl :: grant_ttl
  ps_grants :: "preset_grant list"

type_synonym registry = "(rstr, preset) hmap"

definition with_builtins :: registry where
  "with_builtins =
     [(PRESET_RESTRICT,
       \<lparr>ps_name = PRESET_RESTRICT, ps_resolver_chain_names = [lit ''AutoDeny''],
        ps_default_ttl = Once, ps_grants = []\<rparr>),
      (PRESET_SUPERVISED,
       \<lparr>ps_name = PRESET_SUPERVISED,
        ps_resolver_chain_names = [lit ''SubsetAutoApprove'', lit ''BudgetCheck'', lit ''ParentApproval'',
          lit ''Channel'', lit ''AutoDeny''],
        ps_default_ttl = Once, ps_grants = []\<rparr>),
      (PRESET_AUTONOMOUS,
       \<lparr>ps_name = PRESET_AUTONOMOUS,
        ps_resolver_chain_names = [lit ''SubsetAutoApprove'', lit ''BudgetCheck'', lit ''AutoDeny''],
        ps_default_ttl = Lifecycle, ps_grants = []\<rparr>)]"

definition preset_get :: "registry \<Rightarrow> rstr \<Rightarrow> preset option" where
  "preset_get reg name = map_of reg name"

definition preset_contains :: "registry \<Rightarrow> rstr \<Rightarrow> bool" where
  "preset_contains reg name \<longleftrightarrow> map_of reg name \<noteq> None"

definition preset_names :: "registry \<Rightarrow> rstr list" where
  "preset_names reg = sort (map fst reg)"

definition is_builtin :: "rstr \<Rightarrow> bool" where
  "is_builtin name \<longleftrightarrow> name = PRESET_RESTRICT \<or> name = PRESET_SUPERVISED \<or> name = PRESET_AUTONOMOUS"

text \<open>The characters the normalisation drops.\<close>

definition is_stripped :: "rchar \<Rightarrow> bool" where
  "is_stripped c \<longleftrightarrow> is_whitespace c \<or> (0xFE00 \<le> c \<and> c \<le> 0xFE0F) \<or> (0xE0000 \<le> c \<and> c \<le> 0xE007F)
     \<or> c \<in> {0x200B, 0x200C, 0x200D, 0xFEFF, 0x2060, 0x180E, 0x00AD, 0x2061, 0x2062, 0x2063, 0x2064,
           0x202A, 0x202B, 0x202C, 0x202D, 0x202E, 0x200E, 0x200F, 0x2066, 0x2067, 0x2068, 0x2069}"

definition normalized :: "(rchar \<Rightarrow> rstr) \<Rightarrow> rstr \<Rightarrow> rstr" where
  "normalized lower name = concat (map lower (filter (\<lambda>c. \<not> is_stripped c) name))"

definition reject_builtin_shadow :: "(rchar \<Rightarrow> rstr) \<Rightarrow> rstr \<Rightarrow> unit result" where
  "reject_builtin_shadow lower name =
     (if is_builtin name then Inl (InvalidConfig ''custom preset shadows a built-in preset'')
      else if is_builtin (normalized lower name)
      then Inl (InvalidConfig ''custom preset shadows a built-in preset after normalization'')
      else Inr ())"

definition preset_insert :: "(rchar \<Rightarrow> rstr) \<Rightarrow> preset \<Rightarrow> registry \<Rightarrow> unit result \<times> registry" where
  "preset_insert lower p reg =
     sbind (slift (reject_builtin_shadow lower (ps_name p)))
       (\<lambda>_ reg. sreturn () (AList.update (ps_name p) p reg)) reg"

definition preset_remove :: "(rchar \<Rightarrow> rstr) \<Rightarrow> rstr \<Rightarrow> registry \<Rightarrow> bool \<times> registry" where
  "preset_remove lower name reg =
     (if reject_builtin_shadow lower name \<noteq> Inr () then (False, reg)
      else (map_of reg name \<noteq> None, AList.delete name reg))"

section \<open>Parsing\<close>

fun check_yaml_depth :: "yaml \<Rightarrow> nat \<Rightarrow> unit result"
  and check_entries_depth :: "(yaml \<times> yaml) list \<Rightarrow> nat \<Rightarrow> unit result"
  and check_items_depth :: "yaml list \<Rightarrow> nat \<Rightarrow> unit result" where
  "check_yaml_depth v depth =
     (if depth > MAX_PRESET_YAML_DEPTH then Inl (InvalidConfig ''preset YAML too deep'')
      else (case v of
          YMapping m \<Rightarrow> check_entries_depth m (depth + 1)
        | YSequence xs \<Rightarrow> check_items_depth xs (depth + 1)
        | _ \<Rightarrow> Inr ()))"
| "check_entries_depth [] depth = Inr ()"
| "check_entries_depth ((k, v) # m) depth = rbind (check_yaml_depth v depth) (\<lambda>_. check_entries_depth m depth)"
| "check_items_depth [] depth = Inr ()"
| "check_items_depth (v # xs) depth = rbind (check_yaml_depth v depth) (\<lambda>_. check_items_depth xs depth)"

definition parse_ttl_value :: "chrono \<Rightarrow> yaml \<Rightarrow> grant_ttl result" where
  "parse_ttl_value ch v =
     (case as_str v of
        Some s \<Rightarrow>
          (if s = lit ''once'' then Inr Once
           else if s = lit ''lifecycle'' then Inr Lifecycle
           else if s = lit ''persistent'' then Inr Persistent
           else Inl (InvalidConfig ''invalid ttl literal''))
      | None \<Rightarrow>
          (case as_mapping v of
             None \<Rightarrow> Inl (InvalidConfig ''invalid ttl shape'')
           | Some m \<Rightarrow>
               (case Option.bind (yaml_get m ''duration'') yaml_as_u64 of
                  Some ms \<Rightarrow> Inr (Duration ms)
                | None \<Rightarrow>
                    (case Option.bind (yaml_get m ''until'') as_str of
                       Some t \<Rightarrow>
                         (case parse_rfc3339 ch t of
                            Some i \<Rightarrow> Inr (Until i)
                          | None \<Rightarrow> Inl (InvalidConfig ''ttl until: invalid RFC3339''))
                     | None \<Rightarrow> Inl (InvalidConfig ''invalid ttl shape'')))))"

definition parse_ttl :: "chrono \<Rightarrow> yaml option \<Rightarrow> grant_ttl result option" where
  "parse_ttl ch v = map_option (parse_ttl_value ch) v"

text \<open>\<open>parse_ttl(..).ok_or_else(..)??\<close>.\<close>

definition required_ttl :: "chrono \<Rightarrow> yaml option \<Rightarrow> grant_ttl result" where
  "required_ttl ch v =
     (case parse_ttl ch v of Some r \<Rightarrow> r | None \<Rightarrow> Inl (InvalidConfig ''missing or unparseable ttl''))"

definition is_ascii :: "rstr \<Rightarrow> bool" where
  "is_ascii s \<longleftrightarrow> list_all (\<lambda>c. c < 128) s"

definition param_value_text :: "yaml_io \<Rightarrow> yaml option \<Rightarrow> rstr result" where
  "param_value_text io v =
     (case v of
        Some (YString s) \<Rightarrow> Inr s
      | Some other \<Rightarrow> rbind (ok_or (yaml_to_string io other) Yaml) (\<lambda>t. Inr (trim_end_matches 10 t))
      | None \<Rightarrow> Inl (InvalidConfig ''param entry missing value''))"

definition parse_param :: "yaml_io \<Rightarrow> yaml \<Rightarrow> cap_param result" where
  "parse_param io item =
     rbind (ok_or (as_mapping item) (InvalidConfig ''param entry must be a mapping'')) (\<lambda>m.
     rbind (ok_or (Option.bind (yaml_get m ''key'') as_str) (InvalidConfig ''param entry missing key'')) (\<lambda>key.
     if key = [] then Inl (InvalidConfig ''param key must not be empty'')
     else if str_len key > 256 then Inl (InvalidConfig ''param key exceeds 256 bytes'')
     else if \<not> is_ascii key then Inl (InvalidConfig ''param key must be ASCII'')
     else
       rbind (param_value_text io (yaml_get m ''value'')) (\<lambda>value.
       if str_len value > 4096 then Inl (InvalidConfig ''param value exceeds 4096 bytes'')
       else Inr \<lparr>p_key = key, p_value = value\<rparr>)))"

definition parse_params :: "yaml_io \<Rightarrow> yaml \<Rightarrow> cap_param list result" where
  "parse_params io v =
     rbind (ok_or (as_sequence v) (InvalidConfig ''params must be a sequence'')) (collect_results (parse_param io))"

definition parse_grant :: "chrono \<Rightarrow> yaml_io \<Rightarrow> yaml \<Rightarrow> preset_grant result" where
  "parse_grant ch io item =
     rbind (ok_or (as_mapping item) (InvalidConfig ''grant entry must be a mapping'')) (\<lambda>m.
     rbind (ok_or (Option.bind (yaml_get m ''capability'') as_str) (InvalidConfig ''grant entry missing capability'')) (\<lambda>cap.
     if cap = [] then Inl (InvalidConfig ''grant capability must not be empty'')
     else if colon \<in> set cap then Inl (InvalidConfig ''grant capability contains a colon'')
     else
       rbind (case yaml_get m ''params'' of Some pv \<Rightarrow> parse_params io pv | None \<Rightarrow> Inr []) (\<lambda>params.
       rbind (required_ttl ch (yaml_get m ''ttl'')) (\<lambda>ttl.
         Inr \<lparr>pg_capability = cap, pg_params = params, pg_ttl = ttl\<rparr>))))"

definition parse_grants :: "chrono \<Rightarrow> yaml_io \<Rightarrow> yaml \<Rightarrow> preset_grant list result" where
  "parse_grants ch io v =
     rbind (ok_or (as_sequence v) (InvalidConfig ''preset grants must be a sequence''))
       (collect_results (parse_grant ch io))"

text \<open>An entry of the chain is a name, or a mapping whose first key is the name.\<close>

definition parse_chain_entry :: "yaml \<Rightarrow> rstr result" where
  "parse_chain_entry v =
     ok_or (case as_str v of
              Some s \<Rightarrow> Some s
            | None \<Rightarrow> (case as_mapping v of Some ((k, _) # _) \<Rightarrow> as_str k | _ \<Rightarrow> None))
       (InvalidConfig ''resolver-chain entry must be a string or mapping'')"

definition parse_preset :: "chrono \<Rightarrow> yaml_io \<Rightarrow> yaml \<Rightarrow> preset result" where
  "parse_preset ch io root =
     rbind (ok_or (as_mapping root) (InvalidConfig ''preset yaml root must be a mapping'')) (\<lambda>m.
     rbind (ok_or (Option.bind (yaml_get m ''name'') as_str) (InvalidConfig ''preset yaml: missing name'')) (\<lambda>name.
     if name = [] then Inl (InvalidConfig ''preset name must not be empty'')
     else if colon \<in> set name then Inl (InvalidConfig ''preset name contains a colon'')
     else
       rbind (case Option.bind (yaml_get m ''resolver-chain'') as_sequence of
                Some xs \<Rightarrow> collect_results parse_chain_entry xs | None \<Rightarrow> Inr []) (\<lambda>chain.
       if \<not> list_all (\<lambda>r. r \<in> set VALID_RESOLVER_NAMES) chain
       then Inl (InvalidConfig ''resolver-chain has unknown resolver name'')
       else
         rbind (required_ttl ch (yaml_get m ''default-ttl'')) (\<lambda>default_ttl.
         rbind (case yaml_get m ''grants'' of Some g \<Rightarrow> parse_grants ch io g | None \<Rightarrow> Inr []) (\<lambda>grants.
         if length grants > MAX_PRESET_GRANTS then Inl (InvalidConfig ''too many grants in preset'')
         else Inr \<lparr>ps_name = name, ps_resolver_chain_names = chain, ps_default_ttl = default_ttl,
                   ps_grants = grants\<rparr>)))))"

definition parse_custom_value :: "chrono \<Rightarrow> yaml_io \<Rightarrow> (rchar \<Rightarrow> rstr) \<Rightarrow> yaml \<Rightarrow> preset result" where
  "parse_custom_value ch io lower root =
     rbind (check_yaml_depth root 0) (\<lambda>_.
     rbind (parse_preset ch io root) (\<lambda>p.
     rbind (reject_builtin_shadow lower (ps_name p)) (\<lambda>_. Inr p)))"

definition parse_custom_yaml :: "chrono \<Rightarrow> yaml_io \<Rightarrow> (rchar \<Rightarrow> rstr) \<Rightarrow> rstr \<Rightarrow> preset result" where
  "parse_custom_yaml ch io lower path = rbind (read_yaml io path) (parse_custom_value ch io lower)"

definition load_custom_yaml :: "chrono \<Rightarrow> yaml_io \<Rightarrow> (rchar \<Rightarrow> rstr) \<Rightarrow> rstr \<Rightarrow> registry \<Rightarrow> preset result \<times> registry" where
  "load_custom_yaml ch io lower path reg =
     sbind (slift (parse_custom_yaml ch io lower path))
       (\<lambda>p reg. sreturn p (AList.update (ps_name p) p reg)) reg"

definition load_custom_value :: "chrono \<Rightarrow> yaml_io \<Rightarrow> (rchar \<Rightarrow> rstr) \<Rightarrow> yaml \<Rightarrow> registry \<Rightarrow> preset result \<times> registry" where
  "load_custom_value ch io lower root reg =
     sbind (slift (parse_custom_value ch io lower root))
       (\<lambda>p reg. sreturn p (AList.update (ps_name p) p reg)) reg"

section \<open>Application\<close>

definition preset_name_ok :: "rstr \<Rightarrow> unit result" where
  "preset_name_ok name =
     (if name = [] then Inl (InvalidConfig ''apply_preset: name must not be empty'')
      else if str_len name > 256 then Inl (InvalidConfig ''apply_preset: name exceeds 256 bytes'')
      else if list_ex is_control name then Inl (InvalidConfig ''apply_preset: name contains control characters'')
      else Inr ())"

definition preset_id_ok :: "rstr \<Rightarrow> unit result" where
  "preset_id_ok i =
     (if i = [] then Inl (InvalidConfig ''apply_preset: id must not be empty'')
      else if str_len i > 256 then Inl (InvalidConfig ''apply_preset: id exceeds 256 bytes'')
      else if \<not> is_agent_or_bare_id i then Inl (InvalidConfig ''apply_preset: id malformed'')
      else if list_ex is_control i then Inl (InvalidConfig ''apply_preset: id contains control characters'')
      else Inr ())"

definition preset_grant_covered ::
    "(grant \<Rightarrow> grant_draft \<Rightarrow> unit result) \<Rightarrow> instant \<Rightarrow> grant list \<Rightarrow> preset_grant \<Rightarrow> bool" where
  "preset_grant_covered validator now caller_grants pg =
     list_ex (\<lambda>parent. matches_capability now (pg_capability pg) parent
        \<and> is_ok (validator parent
             \<lparr>d_capability = pg_capability pg, d_params = pg_params pg, d_ttl = pg_ttl pg\<rparr>)) caller_grants"

fun compute_expires_at :: "chrono \<Rightarrow> instant \<Rightarrow> grant_ttl \<Rightarrow> instant option" where
  "compute_expires_at ch now (Duration ms) = Some (saturating_deadline ch now ms)"
| "compute_expires_at ch now (Until t) = Some t"
| "compute_expires_at ch now _ = None"

text \<open>The grant built for one entry; \<open>new_id\<close>, \<open>t\<close> and \<open>t'\<close> are its UUID and its two readings of the clock.\<close>

definition preset_new_grant :: "chrono \<Rightarrow> rstr \<Rightarrow> rstr \<Rightarrow> preset_grant \<Rightarrow> rstr \<times> instant \<times> instant \<Rightarrow> grant" where
  "preset_new_grant ch name target pg fresh =
     (case fresh of (new_id, t, t') \<Rightarrow>
        \<lparr>g_id = new_id, g_grantee = target, g_capability = pg_capability pg, g_params = pg_params pg,
         g_ttl = pg_ttl pg, g_issuer = Resolver (lit ''preset:'' @ name), g_provenance = Preset name,
         g_status = Active, g_created_at = t, g_expires_at = compute_expires_at ch t' (pg_ttl pg)\<rparr>)"

record apply_preset_result =
  ap_revoked :: "rstr list"
  ap_created :: "rstr list"

definition apply_preset ::
    "chrono \<Rightarrow> serde \<Rightarrow> (grant \<Rightarrow> grant_draft \<Rightarrow> unit result) \<Rightarrow> registry \<Rightarrow> instant
       \<Rightarrow> (nat \<Rightarrow> rstr \<times> instant \<times> instant) \<Rightarrow> rstr \<Rightarrow> rstr \<Rightarrow> rstr \<Rightarrow> apply_preset_result store_op" where
  "apply_preset ch sd validator reg now fresh name target caller s =
     sbind (slift (preset_name_ok name)) (\<lambda>_.
     sbind (slift (preset_id_ok caller)) (\<lambda>_.
     sbind (slift (preset_id_ok target)) (\<lambda>_.
     sbind (slift (if caller \<noteq> target
                   then Inl (PermissionDenied ''apply_preset: caller is not the target'') else Inr ())) (\<lambda>_.
     sbind (slift (ok_or (preset_get reg name) (PresetNotFound name))) (\<lambda>preset.
     sbind (\<lambda>s. slift (if list_all (preset_grant_covered validator now (list_by_grantee s caller)) (ps_grants preset)
                       then Inr () else Inl (SubsetViolation ''preset grant not covered by any caller grant'')) s) (\<lambda>_.
     sbind (apply_preset_atomic_for_grantee ch sd target
              (map (\<lambda>(k, pg). preset_new_grant ch name target pg (fresh k)) (enumerate 0 (ps_grants preset))))
       (\<lambda>(revoked, created) s'.
          sreturn \<lparr>ap_revoked = revoked, ap_created = created\<rparr>
            (emit (preset_applied_event target name (length revoked) (length created)) s')))))))) s"

section \<open>The registry at run time\<close>

text \<open>One call that changes the registry, with any outcome.\<close>

inductive registry_step :: "chrono \<Rightarrow> yaml_io \<Rightarrow> (rchar \<Rightarrow> rstr) \<Rightarrow> registry \<Rightarrow> registry \<Rightarrow> bool" for ch io lower where
  reg_insert: "registry_step ch io lower reg (snd (preset_insert lower p reg))"
| reg_remove: "registry_step ch io lower reg (snd (preset_remove lower name reg))"
| reg_load_yaml: "registry_step ch io lower reg (snd (load_custom_yaml ch io lower path reg))"
| reg_load_value: "registry_step ch io lower reg (snd (load_custom_value ch io lower root reg))"

lemma shadow_ok: "reject_builtin_shadow lower name = Inr () \<longleftrightarrow> \<not> is_builtin name \<and> \<not> is_builtin (normalized lower name)"
  by (simp add: reject_builtin_shadow_def)

lemma parse_custom_value_shadow:
  "parse_custom_value ch io lower root = Inr p \<Longrightarrow> reject_builtin_shadow lower (ps_name p) = Inr ()"
  by (auto simp: parse_custom_value_def rbind_Inr_iff)

lemma parse_custom_yaml_value:
  "parse_custom_yaml ch io lower path = Inr p \<Longrightarrow> \<exists>root. parse_custom_value ch io lower root = Inr p"
  by (auto simp: parse_custom_yaml_def rbind_Inr_iff)

text \<open>A step leaves the registry alone, stores one preset under a name that is no built-in, not even
  normalised, or deletes such a name.\<close>

lemma registry_step_cases:
  assumes "registry_step ch io lower reg reg'"
  obtains "reg' = reg"
  | p where "reg' = AList.update (ps_name p) p reg" "reject_builtin_shadow lower (ps_name p) = Inr ()"
  | name where "reg' = AList.delete name reg" "reject_builtin_shadow lower name = Inr ()"
  using assms
proof (cases rule: registry_step.cases)
  case (reg_insert p)
  then show ?thesis using that(1,2) by (auto simp: preset_insert_def sbind_slift sreturn_def split: sum.splits)
next
  case (reg_remove name)
  then show ?thesis using that(1,3) by (auto simp: preset_remove_def split: if_splits)
next
  case (reg_load_yaml path)
  then show ?thesis
    using that(1,2) parse_custom_yaml_value parse_custom_value_shadow
    by (fastforce simp: load_custom_yaml_def sbind_slift sreturn_def split: sum.splits)
next
  case (reg_load_value root)
  then show ?thesis
    using that(1,2) parse_custom_value_shadow
    by (fastforce simp: load_custom_value_def sbind_slift sreturn_def split: sum.splits)
qed

definition registry_ok :: "(rchar \<Rightarrow> rstr) \<Rightarrow> registry \<Rightarrow> bool" where
  "registry_ok lower reg \<longleftrightarrow> (\<forall>n. if is_builtin n then preset_get reg n = preset_get with_builtins n
     else preset_contains reg n \<longrightarrow> \<not> is_builtin (normalized lower n))"

lemma registry_ok_step: "registry_step ch io lower reg reg' \<Longrightarrow> registry_ok lower reg \<Longrightarrow> registry_ok lower reg'"
  by (erule registry_step_cases)
    (auto simp: registry_ok_def shadow_ok preset_get_def preset_contains_def split: if_splits)

lemma registry_ok_builtins: "registry_ok lower with_builtins"
  by (auto simp: registry_ok_def preset_contains_def with_builtins_def is_builtin_def split: if_splits)

section \<open>Parsed presets\<close>

definition preset_param_ok :: "cap_param \<Rightarrow> bool" where
  "preset_param_ok p \<longleftrightarrow> p_key p \<noteq> [] \<and> str_len (p_key p) \<le> 256 \<and> is_ascii (p_key p) \<and> str_len (p_value p) \<le> 4096"

definition preset_grant_ok :: "preset_grant \<Rightarrow> bool" where
  "preset_grant_ok pg \<longleftrightarrow> pg_capability pg \<noteq> [] \<and> colon \<notin> set (pg_capability pg) \<and> list_all preset_param_ok (pg_params pg)"

lemma collect_results_all:
  assumes "collect_results f xs = Inr ys" and "\<And>x y. f x = Inr y \<Longrightarrow> P y"
  shows "list_all P ys"
  using assms by (auto simp: collect_results_Inr_iff list_all_length list_all2_conv_all_nth)

lemma parse_param_ok: "parse_param io item = Inr p \<Longrightarrow> preset_param_ok p"
  by (auto simp: parse_param_def rbind_Inr_iff preset_param_ok_def split: if_splits)

lemma parse_params_ok: "parse_params io v = Inr ps \<Longrightarrow> list_all preset_param_ok ps"
  by (auto simp: parse_params_def rbind_Inr_iff intro: collect_results_all parse_param_ok)

lemma parse_grant_ok: "parse_grant ch io item = Inr pg \<Longrightarrow> preset_grant_ok pg"
  by (auto simp: parse_grant_def rbind_Inr_iff preset_grant_ok_def intro: parse_params_ok split: if_splits option.splits)

lemma parse_grants_ok: "parse_grants ch io v = Inr gs \<Longrightarrow> list_all preset_grant_ok gs"
  by (auto simp: parse_grants_def rbind_Inr_iff intro: collect_results_all parse_grant_ok)

section \<open>What an application leaves\<close>

lemma is_ok_unit: "is_ok (r :: unit result) \<longleftrightarrow> r = Inr ()"
  by (cases r) auto

lemma enumerate_ids: "map fst (enumerate n xs) = [n..<n + length xs]"
  by (simp add: enumerate_eq_zip)

lemma preset_new_grant_simps [simp]:
  "g_id (preset_new_grant ch name target pg f) = fst f"
  "g_grantee (preset_new_grant ch name target pg f) = target"
  "g_capability (preset_new_grant ch name target pg f) = pg_capability pg"
  "g_params (preset_new_grant ch name target pg f) = pg_params pg"
  "g_status (preset_new_grant ch name target pg f) = Active"
  "g_provenance (preset_new_grant ch name target pg f) = Preset name"
  by (simp_all add: preset_new_grant_def split: prod.splits)

abbreviation preset_new_grants ::
    "chrono \<Rightarrow> (nat \<Rightarrow> rstr \<times> instant \<times> instant) \<Rightarrow> rstr \<Rightarrow> rstr \<Rightarrow> preset \<Rightarrow> grant list" where
  "preset_new_grants ch fresh name target p \<equiv>
     map (\<lambda>(k, pg). preset_new_grant ch name target pg (fresh k)) (enumerate 0 (ps_grants p))"

lemma preset_new_ids:
  "map g_id (preset_new_grants ch fresh name target p) = map (\<lambda>k. fst (fresh k)) [0..<length (ps_grants p)]"
proof -
  have "map g_id (preset_new_grants ch fresh name target p) = map ((\<lambda>k. fst (fresh k)) \<circ> fst) (enumerate 0 (ps_grants p))"
    by (simp add: o_def split_beta)
  then show ?thesis by (simp only: map_map [symmetric] enumerate_ids) simp
qed

lemma apply_preset_success:
  assumes "apply_preset ch sd vld reg now fresh name target caller s = (Inr r, s')"
  obtains p s1 where "caller = target" "preset_get reg name = Some p"
    "list_all (preset_grant_covered vld now (list_by_grantee s caller)) (ps_grants p)"
    "apply_preset_atomic_for_grantee ch sd target (preset_new_grants ch fresh name target p) s
       = (Inr (ap_revoked r, ap_created r), s1)"
    "s' = emit (preset_applied_event target name (length (ap_revoked r)) (length (ap_created r))) s1"
  using assms by (auto simp: apply_preset_def sbind_Inr_iff slift_def sreturn_def split: if_splits)

lemma apply_preset_error:
  "apply_preset ch sd vld reg now fresh name target caller s = (Inl e, s') \<Longrightarrow> untouched s s'"
  unfolding apply_preset_def split_beta
  by (auto dest!: sbind_slift_error sbind_read_error sbind_sreturn_error preset_error)

section \<open>Properties\<close>

text \<open>
  C33. A preset never grants more than its applier holds. When \<open>apply_preset\<close> succeeds, the caller applied
  it to itself, and each grant it created is stored, active and covers no call that some live grant
  the caller held did not cover; on every error the store, its rows and its event log are unchanged.
\<close>

theorem preset_confined:
  assumes "apply_preset ch sd validate reg now fresh name target caller s = (res, s')"
    and "inj (fst \<circ> fresh)" and "\<forall>k. get s (fst (fresh k)) = None"
  shows "case res of
      Inl e \<Rightarrow> untouched s s'
    | Inr r \<Rightarrow> caller = target
        \<and> (\<exists>p. preset_get reg name = Some p \<and> length (ap_created r) = length (ps_grants p))
        \<and> (\<forall>i\<in>set (ap_created r). \<exists>g. get s' i = Some g \<and> g_status g = Active \<and> g_grantee g = target
              \<and> g_provenance g = Preset name
              \<and> (\<exists>h\<in>set (list_by_grantee s caller). live now h \<and> covers_less g h))"
proof (cases res)
  case (Inl e)
  with assms(1) show ?thesis by (simp add: apply_preset_error)
next
  case (Inr r)
  from assms(1) [unfolded Inr] obtain p s1 where c: "caller = target" and p: "preset_get reg name = Some p"
    and cov: "list_all (preset_grant_covered validate now (list_by_grantee s caller)) (ps_grants p)"
    and ap: "apply_preset_atomic_for_grantee ch sd target (preset_new_grants ch fresh name target p) s
       = (Inr (ap_revoked r, ap_created r), s1)"
    and s': "s' = emit (preset_applied_event target name (length (ap_revoked r)) (length (ap_created r))) s1"
    by (rule apply_preset_success)
  let ?new = "preset_new_grants ch fresh name target p"
  have ids: "ap_created r = map g_id ?new" using preset_success(2) [OF ap] .
  have "distinct (map (\<lambda>k. fst (fresh k)) [0..<length (ps_grants p)])"
    using assms(2) by (auto simp: distinct_map inj_on_def dest: injD)
  then have dist: "distinct (map g_id ?new)" unfolding preset_new_ids .
  have "\<exists>g. get s' i = Some g \<and> g_status g = Active \<and> g_grantee g = target \<and> g_provenance g = Preset name
      \<and> (\<exists>h\<in>set (list_by_grantee s caller). live now h \<and> covers_less g h)" if "i \<in> set (ap_created r)" for i
  proof -
    from that ids obtain g where g: "g \<in> set ?new" "i = g_id g" by auto
    then obtain k pg where kg: "g = preset_new_grant ch name target pg (fresh k)" "pg \<in> set (ps_grants p)"
      by (auto simp: in_set_enumerate_eq)
    have "get s' i = Some g"
      using install_all_new [OF dist g(1)] preset_success(3) [OF ap] g(2) by (simp add: s' get_def emit_emit_all)
    moreover obtain h where h: "h \<in> set (list_by_grantee s caller)" "matches_capability now (pg_capability pg) h"
      "validate h \<lparr>d_capability = pg_capability pg, d_params = pg_params pg, d_ttl = pg_ttl pg\<rparr> = Inr ()"
      using cov kg(2) by (auto simp: list_all_iff preset_grant_covered_def list_ex_iff is_ok_unit)
    ultimately show ?thesis
      using kg(1) validated_covers_less [OF h(3), of g]
      by (auto simp: issued_as_def live_def matches_capability_def)
  qed
  moreover have "length (ap_created r) = length (ps_grants p)" by (simp add: ids)
  ultimately show ?thesis using c p by (simp add: Inr)
qed

definition sample_preset_io :: yaml_io where
  "sample_preset_io = \<lparr>stat_len = (\<lambda>_. Some 9), read_bytes = (\<lambda>_. Some [1]),
     from_slice = (\<lambda>_. Some (YMapping [(YString (lit ''name''), YString (lit ''mine'')),
        (YString (lit ''resolver-chain''), YSequence [YString (lit ''AutoDeny'')]),
        (YString (lit ''default-ttl''), YString (lit ''once''))])),
     yaml_to_string = (\<lambda>_. None)\<rparr>"

definition sample_fresh :: "nat \<Rightarrow> rstr \<times> instant \<times> instant" where
  "sample_fresh k = (replicate (k + 3) 120, 1, 1)"

definition sample_registry :: registry where
  "sample_registry = [(lit ''p'', \<lparr>ps_name = lit ''p'', ps_resolver_chain_names = [], ps_default_ttl = Once,
     ps_grants = [\<lparr>pg_capability = lit ''web'', pg_params = [], pg_ttl = Once\<rparr>]\<rparr>)]"

theorem preset_confined_witness:
  "let s = sample_store [sample_grant ''g'' ''a'' ''web'' []] [];
       (res, s') = apply_preset sample_chrono sample_serde validate sample_registry 0 sample_fresh
         (lit ''p'') (lit ''a'') (lit ''a'') s in
     \<exists>r. res = Inr r \<and> (\<forall>i\<in>set (ap_created r). \<exists>g. get s' i = Some g \<and> g_provenance g = Preset (lit ''p''))"
proof -
  let ?s = "sample_store [sample_grant ''g'' ''a'' ''web'' []] []"
  let ?a = "apply_preset sample_chrono sample_serde validate sample_registry 0 sample_fresh
    (lit ''p'') (lit ''a'') (lit ''a'') ?s"
  have "\<exists>r. fst ?a = Inr r"
    by (simp add: cascade_eval subset_eval apply_preset_def preset_name_ok_def preset_id_ok_def is_agent_or_bare_id_def
        sample_registry_def sample_fresh_def preset_get_def ok_or_def preset_grant_covered_def
        matches_capability_def unexpired_def list_by_grantee_def List.map_filter_def is_control_def
        apply_preset_atomic_for_grantee_def validate_dynamic_grant_shape_def preset_new_grant_def
        dynamic_roots_def active_ids_def apply_preset_atomic_def enumerate_eq_zip)
  then obtain r where r: "?a = (Inr r, snd ?a)" by (metis prod.collapse)
  have "inj (fst \<circ> sample_fresh)"
    by (rule injI) (metis sample_fresh_def comp_apply fst_conv length_replicate add_right_cancel)
  moreover have "\<forall>k. get ?s (fst (sample_fresh k)) = None"
    by (simp add: cascade_eval sample_grant_def sample_fresh_def get_def lit_def numeral_3_eq_3)
  ultimately have "\<forall>i\<in>set (ap_created r). \<exists>g. get (snd ?a) i = Some g \<and> g_provenance g = Preset (lit ''p'')"
    using preset_confined [OF r] by fastforce
  then show ?thesis unfolding Let_def by (subst r) simp
qed

text \<open>
  The built-in presets are immutable and cannot be imitated: whatever presets are inserted, removed
  or loaded, the three built-in names keep their presets, and no other registered name turns into a
  built-in one when white space and invisible characters are dropped and case is folded.
\<close>

theorem builtins_immutable:
  assumes "(registry_step ch io lower)\<^sup>*\<^sup>* with_builtins reg"
  shows "if is_builtin n then preset_get reg n = preset_get with_builtins n
     else preset_contains reg n \<longrightarrow> \<not> is_builtin (normalized lower n)"
proof -
  from assms have "registry_ok lower reg"
    by (induction rule: rtranclp_induct) (auto intro: registry_ok_step registry_ok_builtins)
  then show ?thesis by (simp add: registry_ok_def)
qed

theorem builtins_immutable_example:
  "preset_get (snd (preset_insert (\<lambda>c. [c]) (snd (hd sample_registry)) with_builtins)) PRESET_RESTRICT
     = preset_get with_builtins PRESET_RESTRICT"
proof -
  let ?lower = "\<lambda>c :: rchar. [c]"
  have "(registry_step sample_chrono sample_preset_io ?lower)\<^sup>*\<^sup>* with_builtins
      (snd (preset_insert ?lower (snd (hd sample_registry)) with_builtins))"
    by (rule r_into_rtranclp) (rule reg_insert)
  from builtins_immutable [OF this, of PRESET_RESTRICT] show ?thesis by (simp add: is_builtin_def)
qed

text \<open>
  A preset file that loads is bounded in every dimension: its name is not empty and holds no
  colon, its resolver chain names only the five resolvers, it holds at most a hundred grants, and
  each of their capabilities and parameters is within the limits of the layer.
\<close>

theorem parsed_preset_bounded:
  assumes "parse_custom_yaml ch io lower path = Inr p"
  shows "ps_name p \<noteq> [] \<and> colon \<notin> set (ps_name p) \<and> \<not> is_builtin (normalized lower (ps_name p))
     \<and> set (ps_resolver_chain_names p) \<subseteq> set VALID_RESOLVER_NAMES
     \<and> length (ps_grants p) \<le> MAX_PRESET_GRANTS \<and> list_all preset_grant_ok (ps_grants p)"
proof -
  from parse_custom_yaml_value [OF assms] obtain root where r: "parse_custom_value ch io lower root = Inr p" by blast
  then have "parse_preset ch io root = Inr p" by (auto simp: parse_custom_value_def rbind_Inr_iff)
  then have "ps_name p \<noteq> [] \<and> colon \<notin> set (ps_name p) \<and> set (ps_resolver_chain_names p) \<subseteq> set VALID_RESOLVER_NAMES
     \<and> length (ps_grants p) \<le> MAX_PRESET_GRANTS \<and> list_all preset_grant_ok (ps_grants p)"
    by (auto simp: parse_preset_def rbind_Inr_iff list_all_iff [of "\<lambda>r. r \<in> set VALID_RESOLVER_NAMES"]
        dest: parse_grants_ok split: if_splits option.splits)
  with parse_custom_value_shadow [OF r] show ?thesis by (simp add: shadow_ok)
qed

end
