(* ===== verification/ApprovalIntake.thy ===== *)
theory ApprovalIntake
  imports ResolverProps Presets
begin

text \<open>
  \<open>cap-grant/src/approval_intake.rs\<close>: the operator's side of the channel resolver. Requests are parked
  in a bounded registry; the operator lists, approves, denies or narrows them, revokes grants and
  applies presets; the resolver's retry reads the decision and consumes it. The registry behind its mutex
  is the record \<open>pending_registry\<close>, the intake that record with the grant store it shares (whose event log is
  the bus the intake emits on). \<open>GrantApprovalIntake\<close> as a \<open>ChannelApprovalPort\<close> is
  \<open>intake_port\<close>, an instance of the contract the channel resolver is verified against.
\<close>

section \<open>The registry\<close>

definition MAX_PENDING_REQUESTS :: nat where "MAX_PENDING_REQUESTS = 1024"
definition MAX_PENDING_PER_CALLER :: nat where "MAX_PENDING_PER_CALLER = 64"
definition MAX_NARROW_PARAMS_ENTRIES :: nat where "MAX_NARROW_PARAMS_ENTRIES = 64"
definition MAX_NARROW_PARAM_KEY_BYTES :: nat where "MAX_NARROW_PARAM_KEY_BYTES = 256"
definition MAX_NARROW_PARAM_VALUE_BYTES :: nat where "MAX_NARROW_PARAM_VALUE_BYTES = 4096"
definition MAX_NARROW_PARAMS_TOTAL_BYTES :: nat where "MAX_NARROW_PARAMS_TOTAL_BYTES = 4096"
definition INTAKE_RESOLVER_TYPE :: rstr where "INTAKE_RESOLVER_TYPE = lit ''GrantApprovalIntake''"

datatype intake_decision = Undecided | Approved "cap_param list option" | Denied rstr

fun is_pending :: "intake_decision \<Rightarrow> bool" where
  "is_pending Undecided = True"
| "is_pending _ = False"

fun is_denied :: "intake_decision \<Rightarrow> bool" where
  "is_denied (Denied _) = True"
| "is_denied _ = False"

record pending_entry =
  pe_request :: channel_approval_request
  pe_decision :: intake_decision
  pe_seq :: nat

record pending_registry =
  pr_entries :: "(rstr, pending_entry) hmap"
  pr_next_seq :: nat

record intake =
  it_pending :: pending_registry
  it_store :: store

type_synonym 'a intake_op = "intake \<Rightarrow> 'a result \<times> intake"

definition new_registry :: pending_registry where
  "new_registry = \<lparr>pr_entries = [], pr_next_seq = 1\<rparr>"

text \<open>The counter is a \<open>u64\<close>; \<open>checked_add\<close> fails at its greatest value, which is never handed out.\<close>

definition try_next_seq :: "pending_registry \<Rightarrow> (string + nat) \<times> pending_registry" where
  "try_next_seq r =
     (let s = pr_next_seq r in
      if s = 0 then (Inl ''pending generation counter wrapped'', r)
      else if s = u64_max then (Inl ''pending generation counter wrapped'', r)
      else (Inr s, r\<lparr>pr_next_seq := s + 1\<rparr>))"

definition evict_one_terminal :: "pending_registry \<Rightarrow> bool \<times> pending_registry" where
  "evict_one_terminal r =
     (case filter (\<lambda>(_, e). \<not> is_pending (pe_decision e)) (pr_entries r) of
        [] \<Rightarrow> (False, r)
      | v # vs \<Rightarrow>
          (True, r\<lparr>pr_entries := AList.delete (fst (arg_min_list (\<lambda>(_, e). pe_seq e) (v # vs))) (pr_entries r)\<rparr>))"

section \<open>The channel port\<close>

definition decision :: "pending_registry \<Rightarrow> rstr \<Rightarrow> channel_approval_decision" where
  "decision r request_id =
     (case map_of (pr_entries r) request_id of
        Some e \<Rightarrow> (case pe_decision e of
            Undecided \<Rightarrow> ChPending | Approved _ \<Rightarrow> ChApproved | Denied reason \<Rightarrow> ChDenied reason)
      | None \<Rightarrow> ChPending)"

definition caller_pending :: "rstr \<Rightarrow> pending_registry \<Rightarrow> nat" where
  "caller_pending caller r =
     length (filter (\<lambda>(_, e). cq_caller (pe_request e) = caller \<and> is_pending (pe_decision e)) (pr_entries r))"

definition park :: "channel_approval_request \<Rightarrow> pending_registry \<Rightarrow> (string + unit) \<times> pending_registry" where
  "park q r =
     (case try_next_seq r of
        (Inl e, r1) \<Rightarrow> (Inl e, r1)
      | (Inr seq, r1) \<Rightarrow>
          (Inr (), r1\<lparr>pr_entries := AList.update (cq_request_id q)
              \<lparr>pe_request = q, pe_decision = Undecided, pe_seq = seq\<rparr> (pr_entries r1)\<rparr>))"

definition request_approval :: "channel_approval_request \<Rightarrow> pending_registry \<Rightarrow> (string + unit) \<times> pending_registry" where
  "request_approval q r =
     (if map_of (pr_entries r) (cq_request_id q) = None then
        (if caller_pending (cq_caller q) r \<ge> MAX_PENDING_PER_CALLER
         then (Inl ''per-agent pending approval limit reached'', r)
         else if length (pr_entries r) \<ge> MAX_PENDING_REQUESTS then
           (case evict_one_terminal r of
              (False, r1) \<Rightarrow> (Inl ''pending registry full'', r1)
            | (True, r1) \<Rightarrow> park q r1)
         else park q r)
      else park q r)"

definition take_approved :: "rstr \<Rightarrow> pending_registry \<Rightarrow> cap_param list option option \<times> pending_registry" where
  "take_approved request_id r =
     (case map_of (pr_entries r) request_id of
        Some e \<Rightarrow> (case pe_decision e of
            Approved narrowed \<Rightarrow> (Some narrowed, r\<lparr>pr_entries := AList.delete request_id (pr_entries r)\<rparr>)
          | _ \<Rightarrow> (None, r))
      | None \<Rightarrow> (None, r))"

definition resolved :: "rstr \<Rightarrow> pending_registry \<Rightarrow> pending_registry" where
  "resolved request_id r = r\<lparr>pr_entries := AList.delete request_id (pr_entries r)\<rparr>"

definition intake_port :: "pending_registry approval_port" where
  "intake_port = \<lparr>port_decision = decision, port_request_approval = request_approval,
     port_take_approved = take_approved, port_resolved = resolved\<rparr>"

section \<open>The operator's surface\<close>

record pending_approval_view =
  pv_request_id :: rstr
  pv_caller :: rstr
  pv_capability :: rstr
  pv_params :: "cap_param list option"
  pv_ttl :: grant_ttl
  pv_justification :: "rstr option"
  pv_generation :: nat

definition pending_view :: "pending_entry \<Rightarrow> pending_approval_view" where
  "pending_view e =
     (let q = pe_request e in
      \<lparr>pv_request_id = cq_request_id q, pv_caller = cq_caller q, pv_capability = cq_capability q,
       pv_params = cq_params q, pv_ttl = cq_ttl q, pv_justification = cq_justification q,
       pv_generation = pe_seq e\<rparr>)"

definition list_pending :: "pending_registry \<Rightarrow> pending_approval_view list" where
  "list_pending r =
     map snd (sort_key fst
       (map (\<lambda>(_, e). (pe_seq e, pending_view e))
         (filter (\<lambda>(_, e). is_pending (pe_decision e)) (pr_entries r))))"

datatype request_inspect =
    InspectDecided
  | InspectPending (ri_caller: rstr) (ri_generation: nat) (ri_capability: rstr)
      (ri_params: "cap_param list option") (ri_ttl: grant_ttl) (ri_justification: "rstr option")

definition inspect_request :: "pending_registry \<Rightarrow> rstr \<Rightarrow> request_inspect option" where
  "inspect_request r request_id =
     (case map_of (pr_entries r) request_id of
        None \<Rightarrow> None
      | Some e \<Rightarrow>
          (let q = pe_request e in
           Some (if is_pending (pe_decision e)
                 then InspectPending (cq_caller q) (pe_seq e) (cq_capability q) (cq_params q) (cq_ttl q) (cq_justification q)
                 else InspectDecided)))"

definition total_entries :: "pending_registry \<Rightarrow> nat" where
  "total_entries r = length (pr_entries r)"

definition already_decided :: cap_grant_error where
  "already_decided = PermissionDenied ''grant-approval-intake: request already decided''"

text \<open>The lookup every decision starts with: the entry exists, is undecided, and, for the variants
  that name a generation, is of that generation.\<close>

definition undecided_entry :: "rstr \<Rightarrow> nat option \<Rightarrow> pending_registry \<Rightarrow> pending_entry result" where
  "undecided_entry request_id expected_gen r =
     (case map_of (pr_entries r) request_id of
        None \<Rightarrow> Inl (NotFound request_id)
      | Some e \<Rightarrow>
          if \<not> is_pending (pe_decision e) then Inl already_decided
          else if (case expected_gen of Some n \<Rightarrow> pe_seq e \<noteq> n | None \<Rightarrow> False)
          then Inl (InvalidConfig ''stale pending generation'')
          else Inr e)"

definition record_decision :: "rstr \<Rightarrow> intake_decision \<Rightarrow> pending_registry \<Rightarrow> pending_registry" where
  "record_decision request_id d r =
     r\<lparr>pr_entries := AList.map_entry request_id (\<lambda>e. e\<lparr>pe_decision := d\<rparr>) (pr_entries r)\<rparr>"

definition set_decision :: "rstr \<Rightarrow> nat option \<Rightarrow> intake_decision \<Rightarrow> (rstr \<times> rstr) intake_op" where
  "set_decision request_id expected_gen d t =
     sbind (\<lambda>t. slift (undecided_entry request_id expected_gen (it_pending t)) t)
       (\<lambda>e t. sreturn (cq_caller (pe_request e), cq_capability (pe_request e))
          (t\<lparr>it_pending := record_decision request_id d (it_pending t)\<rparr>)) t"

definition announce :: "string \<Rightarrow> rstr \<times> rstr \<Rightarrow> unit intake_op" where
  "announce dec cc t =
     sreturn () (t\<lparr>it_store := emit (resolver_invoked_event (fst cc) (snd cc) INTAKE_RESOLVER_TYPE (lit dec)) (it_store t)\<rparr>)"

definition approve_gen :: "nat option \<Rightarrow> rstr \<Rightarrow> unit intake_op" where
  "approve_gen expected_gen request_id =
     sbind (set_decision request_id expected_gen (Approved None)) (announce ''approve'')"

definition deny_gen :: "nat option \<Rightarrow> rstr \<Rightarrow> rstr \<Rightarrow> unit intake_op" where
  "deny_gen expected_gen request_id reason =
     sbind (set_decision request_id expected_gen (Denied reason)) (announce ''deny'')"

definition approve :: "rstr \<Rightarrow> unit intake_op" where
  "approve = approve_gen None"

definition deny :: "rstr \<Rightarrow> rstr \<Rightarrow> unit intake_op" where
  "deny = deny_gen None"

definition approve_if_generation :: "rstr \<Rightarrow> nat \<Rightarrow> unit intake_op" where
  "approve_if_generation request_id n = approve_gen (Some n) request_id"

definition deny_if_generation :: "rstr \<Rightarrow> nat \<Rightarrow> rstr \<Rightarrow> unit intake_op" where
  "deny_if_generation request_id n = deny_gen (Some n) request_id"

definition narrow_param_check :: "cap_param \<Rightarrow> cap_grant_error option" where
  "narrow_param_check p =
     (if str_len (p_key p) > MAX_NARROW_PARAM_KEY_BYTES
      then Some (InvalidConfig ''narrow: cap-param key exceeds the byte cap'')
      else if str_len (p_value p) > MAX_NARROW_PARAM_VALUE_BYTES
      then Some (InvalidConfig ''narrow: cap-param value exceeds the byte cap'')
      else None)"

text \<open>The running total saturates at \<open>usize::MAX\<close>, far above what 64 checked parameters add up to.\<close>

definition narrow_params_ok :: "cap_param list \<Rightarrow> unit result" where
  "narrow_params_ok ps =
     (if length ps > MAX_NARROW_PARAMS_ENTRIES then Inl (InvalidConfig ''narrow: params exceed the entry cap'')
      else rbind (check_each narrow_param_check ps) (\<lambda>_.
        if params_bytes ps > MAX_NARROW_PARAMS_TOTAL_BYTES
        then Inl (InvalidConfig ''narrow: aggregate params exceed the byte cap'') else Inr ()))"

definition synthetic_parent_grant :: "instant \<Rightarrow> rstr \<Rightarrow> rstr \<Rightarrow> cap_param list \<Rightarrow> grant" where
  "synthetic_parent_grant now grantee capability ps =
     \<lparr>g_id = lit ''intake-narrow-parent:'' @ grantee @ lit '':'' @ capability, g_grantee = grantee,
      g_capability = capability, g_params = ps, g_ttl = Once, g_issuer = Admin, g_provenance = Requested,
      g_status = Active, g_created_at = now, g_expires_at = None\<rparr>"

definition narrow_gen ::
    "(grant \<Rightarrow> grant_draft \<Rightarrow> unit result) \<Rightarrow> instant \<Rightarrow> nat option \<Rightarrow> rstr \<Rightarrow> cap_param list \<Rightarrow> unit intake_op" where
  "narrow_gen validator now expected_gen request_id new_params =
     sbind (slift (narrow_params_ok new_params)) (\<lambda>_.
     sbind (\<lambda>t. slift (undecided_entry request_id expected_gen (it_pending t)) t) (\<lambda>e.
     sbind (slift (validator
              (synthetic_parent_grant now (cq_caller (pe_request e)) (cq_capability (pe_request e))
                 (request_params (cq_params (pe_request e))))
              \<lparr>d_capability = cq_capability (pe_request e), d_params = new_params, d_ttl = cq_ttl (pe_request e)\<rparr>)) (\<lambda>_.
     sbind (set_decision request_id expected_gen (Approved (Some new_params))) (\<lambda>_.
     announce ''approve'' (cq_caller (pe_request e), cq_capability (pe_request e))))))"

definition narrow_request ::
    "(grant \<Rightarrow> grant_draft \<Rightarrow> unit result) \<Rightarrow> instant \<Rightarrow> rstr \<Rightarrow> cap_param list \<Rightarrow> unit intake_op" where
  "narrow_request validator now = narrow_gen validator now None"

definition narrow_if_generation ::
    "(grant \<Rightarrow> grant_draft \<Rightarrow> unit result) \<Rightarrow> instant \<Rightarrow> rstr \<Rightarrow> nat \<Rightarrow> cap_param list \<Rightarrow> unit intake_op" where
  "narrow_if_generation validator now request_id n = narrow_gen validator now (Some n) request_id"

text \<open>The calls into the shared store, made without the registry's lock.\<close>

definition on_store :: "'a store_op \<Rightarrow> 'a intake_op" where
  "on_store f t = (let (r, s) = f (it_store t) in (r, t\<lparr>it_store := s\<rparr>))"

definition snapshot_grant :: "rstr \<Rightarrow> intake \<Rightarrow> grant option" where
  "snapshot_grant grant_id t = get (it_store t) grant_id"

definition revoke :: "rstr \<Rightarrow> nat intake_op" where
  "revoke grant_id t =
     (case get (it_store t) grant_id of
        None \<Rightarrow> sfail (NotFound grant_id) t
      | Some g \<Rightarrow>
          if g_provenance g = StaticConfig then sfail (NotFound grant_id) t
          else sbind (on_store (cascade_revoke grant_id)) (\<lambda>res. sreturn (length (cr_revoked res))) t)"

definition invalidate_pending_for :: "rstr \<Rightarrow> pending_registry \<Rightarrow> pending_registry" where
  "invalidate_pending_for target r =
     r\<lparr>pr_entries := map (\<lambda>(i, e).
          (i, if cq_caller (pe_request e) = target \<and> \<not> is_denied (pe_decision e)
              then e\<lparr>pe_decision := Denied (lit ''superseded-by-preset'')\<rparr> else e)) (pr_entries r)\<rparr>"

definition apply_preset_for ::
    "chrono \<Rightarrow> serde \<Rightarrow> (grant \<Rightarrow> grant_draft \<Rightarrow> unit result) \<Rightarrow> registry \<Rightarrow> instant
       \<Rightarrow> (nat \<Rightarrow> rstr \<times> instant \<times> instant) \<Rightarrow> rstr \<Rightarrow> rstr \<Rightarrow> rstr list intake_op" where
  "apply_preset_for ch sd validator reg now fresh target name =
     sbind (slift (preset_name_ok name)) (\<lambda>_.
     sbind (slift (ok_or (preset_get reg name) (PresetNotFound name))) (\<lambda>_ t.
     sbind (on_store (apply_preset ch sd validator reg now fresh name target target))
       (\<lambda>res. sreturn (ap_created res))
       (t\<lparr>it_pending := invalidate_pending_for target (it_pending t)\<rparr>)))"

section \<open>The invariant of the registry\<close>

text \<open>Each entry is filed under the id of its request, generations are distinct and below the counter,
  and both caps hold.\<close>

definition entry_ok :: "nat \<Rightarrow> rstr \<times> pending_entry \<Rightarrow> bool" where
  "entry_ok n = (\<lambda>(i, e). cq_request_id (pe_request e) = i \<and> 0 < pe_seq e \<and> pe_seq e < n)"

definition registry_wf :: "pending_registry \<Rightarrow> bool" where
  "registry_wf r \<longleftrightarrow> distinct (map fst (pr_entries r)) \<and> distinct (map (pe_seq \<circ> snd) (pr_entries r))
     \<and> list_all (entry_ok (pr_next_seq r)) (pr_entries r) \<and> 0 < pr_next_seq r \<and> pr_next_seq r \<le> u64_max
     \<and> length (pr_entries r) \<le> MAX_PENDING_REQUESTS \<and> (\<forall>a. caller_pending a r \<le> MAX_PENDING_PER_CALLER)"

lemma registry_wf_new: "registry_wf new_registry"
  by (simp add: registry_wf_def new_registry_def caller_pending_def u64_max_def)

lemma caller_pending_update: "caller_pending a (r\<lparr>pr_entries := es\<rparr>) =
    length (filter (\<lambda>(_, e). cq_caller (pe_request e) = a \<and> is_pending (pe_decision e)) es)"
  by (simp add: caller_pending_def)

lemma filter_swap: "filter P (filter Q xs) = filter Q (filter P xs)"
  by (induction xs) simp_all

lemma caller_pending_filter: "caller_pending a (r\<lparr>pr_entries := filter P (pr_entries r)\<rparr>) \<le> caller_pending a r"
  unfolding caller_pending_update unfolding caller_pending_def by (subst filter_swap) (rule length_filter_le)

lemma registry_wf_delete:
  assumes "registry_wf r"
  shows "registry_wf (r\<lparr>pr_entries := AList.delete i (pr_entries r)\<rparr>)"
  using assms le_trans [OF caller_pending_filter]
  by (auto simp: registry_wf_def AList.delete_eq list_all_iff distinct_map_filter intro: le_trans [OF length_filter_le])

text \<open>Changing decisions keeps the entries; it may only take requests out of the undecided ones.\<close>

definition redecide :: "(rstr \<Rightarrow> pending_entry \<Rightarrow> intake_decision) \<Rightarrow> pending_registry \<Rightarrow> pending_registry" where
  "redecide h r = r\<lparr>pr_entries := map (\<lambda>x. (fst x, (snd x)\<lparr>pe_decision := h (fst x) (snd x)\<rparr>)) (pr_entries r)\<rparr>"

lemma length_filter_mono: "(\<And>x. P x \<Longrightarrow> Q x) \<Longrightarrow> length (filter P xs) \<le> length (filter Q xs)"
  by (induction xs) auto

lemma redecide_simps [simp]:
  "map fst (pr_entries (redecide h r)) = map fst (pr_entries r)"
  "map (pe_seq \<circ> snd) (pr_entries (redecide h r)) = map (pe_seq \<circ> snd) (pr_entries r)"
  "pr_next_seq (redecide h r) = pr_next_seq r" "length (pr_entries (redecide h r)) = length (pr_entries r)"
  by (simp_all add: redecide_def)

lemma caller_pending_redecide:
  assumes "\<And>i e. is_pending (h i e) \<Longrightarrow> is_pending (pe_decision e)"
  shows "caller_pending a (redecide h r) \<le> caller_pending a r"
  unfolding redecide_def caller_pending_update filter_map length_map unfolding caller_pending_def
  by (rule length_filter_mono) (use assms in auto)

lemma registry_wf_redecide:
  assumes "registry_wf r" and "\<And>i e. is_pending (h i e) \<Longrightarrow> is_pending (pe_decision e)"
  shows "registry_wf (redecide h r)"
proof -
  have "caller_pending a (redecide h r) \<le> caller_pending a r" for a
    by (rule caller_pending_redecide [OF assms(2)])
  moreover have "list_all (entry_ok n) (pr_entries (redecide h r)) = list_all (entry_ok n) (pr_entries r)" for n
    by (simp add: redecide_def list_all_iff entry_ok_def split_beta)
  moreover have "caller_pending a r \<le> MAX_PENDING_PER_CALLER" for a using assms(1) by (simp add: registry_wf_def)
  ultimately have "\<forall>a. caller_pending a (redecide h r) \<le> MAX_PENDING_PER_CALLER"
    and "list_all (entry_ok (pr_next_seq r)) (pr_entries (redecide h r)) = list_all (entry_ok (pr_next_seq r)) (pr_entries r)"
    using le_trans by blast+
  with assms(1) show ?thesis by (simp add: registry_wf_def)
qed

lemma map_entry_absent: "i \<notin> fst ` set m \<Longrightarrow> AList.map_entry i f m = m"
  by (induction m) auto

lemma map_entry_map:
  "distinct (map fst m) \<Longrightarrow> AList.map_entry i f m = map (\<lambda>(k, v). (k, if k = i then f v else v)) m"
proof (induction m)
  case (Cons x m)
  obtain k v where x: "x = (k, v)" by (cases x)
  show ?case
  proof (cases "k = i")
    case True
    then have "map (\<lambda>(k, v). (k, if k = i then f v else v)) m = m"
      using Cons.prems x by (intro map_idI) force
    with True x show ?thesis by simp
  qed (use Cons x in simp)
qed simp

lemma record_decision_redecide:
  assumes "distinct (map fst (pr_entries r))"
  shows "record_decision i d r = redecide (\<lambda>k e. if k = i then d else pe_decision e) r"
  unfolding record_decision_def redecide_def map_entry_map [OF assms] by (simp add: split_beta)

lemma invalidate_redecide:
  "invalidate_pending_for a r = redecide (\<lambda>k e. if cq_caller (pe_request e) = a \<and> \<not> is_denied (pe_decision e)
      then Denied (lit ''superseded-by-preset'') else pe_decision e) r"
  by (simp add: invalidate_pending_for_def redecide_def split_beta)

lemma map_of_redecide:
  "map_of (pr_entries (redecide h r)) i = map_option (\<lambda>e. e\<lparr>pe_decision := h i e\<rparr>) (map_of (pr_entries r) i)"
proof -
  have "map_of (map (\<lambda>x. (fst x, (snd x)\<lparr>pe_decision := h (fst x) (snd x)\<rparr>)) m) i
      = map_option (\<lambda>e. e\<lparr>pe_decision := h i e\<rparr>) (map_of m i)" for m
    by (induction m) auto
  then show ?thesis by (simp add: redecide_def)
qed

lemma update_new: "k \<notin> fst ` set m \<Longrightarrow> AList.update k v m = m @ [(k, v)]"
  by (induction m) auto

lemma keys_dom: "map_of m k = None \<longleftrightarrow> k \<notin> fst ` set m"
  by (rule map_of_eq_None_iff)

lemma park_wf:
  assumes "registry_wf r" "map_of (pr_entries r) (cq_request_id q) = None"
    "length (pr_entries r) < MAX_PENDING_REQUESTS" "caller_pending (cq_caller q) r < MAX_PENDING_PER_CALLER"
  shows "registry_wf (snd (park q r))"
proof (cases "pr_next_seq r = u64_max")
  case False
  define n where "n = pr_next_seq r"
  define x where "x = (cq_request_id q, \<lparr>pe_request = q, pe_decision = Undecided, pe_seq = n\<rparr>)"
  have n: "0 < n" "n < u64_max" using assms(1) False by (auto simp: registry_wf_def n_def)
  have e: "snd (park q r) = \<lparr>pr_entries = pr_entries r @ [x], pr_next_seq = n + 1\<rparr>"
    using n assms(2) by (simp add: park_def try_next_seq_def n_def [symmetric] update_new keys_dom x_def Let_def)
  have old: "entry_ok n y" if "y \<in> set (pr_entries r)" for y
    using assms(1) that by (auto simp: registry_wf_def list_all_iff n_def)
  then have "list_all (entry_ok (n + 1)) (pr_entries r @ [x])" using n
    by (auto simp: list_all_iff entry_ok_def x_def split_beta intro: less_SucI)
  moreover have "n \<notin> (pe_seq \<circ> snd) ` set (pr_entries r)" using old by (force simp: entry_ok_def)
  moreover have "caller_pending a \<lparr>pr_entries = pr_entries r @ [x], pr_next_seq = n + 1\<rparr> \<le> MAX_PENDING_PER_CALLER" for a
    using assms(1,4) by (auto simp: caller_pending_def x_def registry_wf_def)
  ultimately show ?thesis
    using assms n by (auto simp: registry_wf_def e x_def keys_dom)
qed (use assms in \<open>auto simp: park_def try_next_seq_def Let_def registry_wf_def\<close>)

text \<open>An eviction removes one entry, a decided one.\<close>

lemma evict_cases:
  assumes "evict_one_terminal r = (b, r')"
  obtains (none) "\<not> b" "r' = r" "\<And>i e. (i, e) \<in> set (pr_entries r) \<Longrightarrow> is_pending (pe_decision e)"
  | (one) i e where "b" "(i, e) \<in> set (pr_entries r)" "\<not> is_pending (pe_decision e)"
      "\<And>j f. (j, f) \<in> set (pr_entries r) \<Longrightarrow> \<not> is_pending (pe_decision f) \<Longrightarrow> pe_seq e \<le> pe_seq f"
      "r' = r\<lparr>pr_entries := AList.delete i (pr_entries r)\<rparr>"
proof (cases "filter (\<lambda>(_, e). \<not> is_pending (pe_decision e)) (pr_entries r)")
  case Nil
  then have "\<And>i e. (i, e) \<in> set (pr_entries r) \<Longrightarrow> is_pending (pe_decision e)" by (auto simp: filter_empty_conv)
  with Nil assms none show ?thesis by (simp add: evict_one_terminal_def)
next
  case (Cons v vs)
  let ?m = "arg_min_list (\<lambda>(_, e). pe_seq e) (v # vs)"
  have mem: "?m \<in> set (v # vs)" by (rule arg_min_list_in) simp
  have least: "(\<lambda>(_, e). pe_seq e) ?m \<le> (\<lambda>(_, e). pe_seq e) y" if "y \<in> set (v # vs)" for y
    using f_arg_min_list_f [of "v # vs" "\<lambda>(_, e). pe_seq e"] that
    by (auto simp del: arg_min_list.simps intro!: Min_le)
  obtain i e where m: "?m = (i, e)" by (cases ?m)
  have "set (v # vs) = {x \<in> set (pr_entries r). \<not> is_pending (pe_decision (snd x))}"
    by (simp add: split_beta flip: Cons)
  then show ?thesis
    using one [of i e] mem least m assms Cons by (fastforce simp: evict_one_terminal_def simp del: arg_min_list.simps)
qed

lemma delete_shrinks: "(i, e) \<in> set m \<Longrightarrow> length (AList.delete i m) < length m"
  unfolding AList.delete_eq by (rule length_filter_less) auto

lemma request_approval_wf:
  assumes "registry_wf r" "map_of (pr_entries r) (cq_request_id q) = None"
  shows "registry_wf (snd (request_approval q r))"
proof -
  obtain b r1 where ev: "evict_one_terminal r = (b, r1)" by fastforce
  have len: "length (pr_entries r) \<le> MAX_PENDING_REQUESTS" using assms(1) by (simp add: registry_wf_def)
  have evicted: "registry_wf (snd (park q r1))" if "b" "caller_pending (cq_caller q) r < MAX_PENDING_PER_CALLER"
    using ev
  proof (cases rule: evict_cases)
    case (one i e)
    have "caller_pending (cq_caller q) r1 \<le> caller_pending (cq_caller q) r"
      unfolding one(5) AList.delete_eq by (rule caller_pending_filter)
    then show ?thesis
      using registry_wf_delete [OF assms(1), of i] delete_shrinks [OF one(2)] len assms(2) that(2) one(5)
      by (intro park_wf) auto
  qed (use that in simp)
  show ?thesis
    using ev assms park_wf [OF assms] evicted by (auto simp: request_approval_def elim: evict_cases)
qed

text \<open>What filing a request does to the registry: the new entry waits; of the others at most a decided
  one is gone.\<close>

definition filed_entry :: "channel_approval_request \<Rightarrow> nat \<Rightarrow> pending_entry" where
  "filed_entry q n = \<lparr>pe_request = q, pe_decision = Undecided, pe_seq = n\<rparr>"

lemma park_effect:
  assumes "park q r = (res, r')"
  shows "case res of Inl _ \<Rightarrow> r' = r
     | Inr _ \<Rightarrow> map_of (pr_entries r') = (map_of (pr_entries r))(cq_request_id q \<mapsto> filed_entry q (pr_next_seq r))"
  using assms by (auto simp: park_def try_next_seq_def filed_entry_def Let_def split: if_splits)

lemma request_effect:
  assumes "request_approval q r = (res, r')" and "distinct (map fst (pr_entries r))"
  shows "res = Inr () \<Longrightarrow> \<exists>n. map_of (pr_entries r') (cq_request_id q) = Some (filed_entry q n)"
    and "j \<noteq> cq_request_id q \<or> res \<noteq> Inr () \<Longrightarrow> map_of (pr_entries r') j = map_of (pr_entries r) j
       \<or> map_of (pr_entries r') j = None \<and> (\<exists>e. map_of (pr_entries r) j = Some e \<and> \<not> is_pending (pe_decision e))"
proof -
  obtain b r1 where ev: "evict_one_terminal r = (b, r1)" by fastforce
  have r1: "map_of (pr_entries r1) j = map_of (pr_entries r) j
       \<or> map_of (pr_entries r1) j = None \<and> (\<exists>e. map_of (pr_entries r) j = Some e \<and> \<not> is_pending (pe_decision e))" for j
    using ev by (cases rule: evict_cases) (use assms(2) in \<open>auto simp: map_of_is_SomeI\<close>)
  have parked: "(res, r') = park q r \<or> (res, r') = park q r1 \<or> res \<noteq> Inr () \<and> (r' = r \<or> r' = r1)"
    using assms(1) ev by (auto simp: request_approval_def split: if_splits bool.splits)
  show "res = Inr () \<Longrightarrow> \<exists>n. map_of (pr_entries r') (cq_request_id q) = Some (filed_entry q n)"
    using parked park_effect [of q _ res r'] by fastforce
  show "j \<noteq> cq_request_id q \<or> res \<noteq> Inr () \<Longrightarrow> map_of (pr_entries r') j = map_of (pr_entries r) j
       \<or> map_of (pr_entries r') j = None \<and> (\<exists>e. map_of (pr_entries r) j = Some e \<and> \<not> is_pending (pe_decision e))"
    using parked r1 [of j] park_effect [of q _ res r'] by (cases res) fastforce+
qed

interpretation ip: approval_backend intake_port
proof
  show "port_decision intake_port p i = ChApproved \<longleftrightarrow> fst (port_take_approved intake_port i p) \<noteq> None" for p i
    by (auto simp: intake_port_def decision_def take_approved_def split: option.splits intake_decision.splits)
  show "port_take_approved intake_port i p = (Some x, p') \<Longrightarrow> port_decision intake_port p' i = ChPending" for i p x p'
    by (auto simp: intake_port_def decision_def take_approved_def split: option.splits intake_decision.splits)
  show "port_request_approval intake_port q p = (Inr (), p') \<Longrightarrow> port_decision intake_port p' (cq_request_id q) = ChPending"
    for q p p'
    by (auto simp: intake_port_def decision_def request_approval_def split: if_splits prod.splits bool.splits
        dest!: park_effect simp: filed_entry_def)
qed

end
