(* ===== verification/ApprovalProps.thy ===== *)
theory ApprovalProps
  imports ApprovalIntake
begin

text \<open>
  The channel resolver and the operator's intake together. A run interleaves retries of requests with the
  operator's decisions and preset applications; the ids of delivered requests are fresh, as version 4
  UUIDs are. The invariant ties each remembered delivery to the request parked for it, each narrowed
  approval to the check it passed, and the approvals handed out to those the operator gave.
\<close>

section \<open>Runs\<close>

record approval_state =
  as_used :: "rstr set"
  as_cache :: sent_cache
  as_registry :: pending_registry
  as_given :: nat
  as_consumed :: nat

definition start_state :: "nat \<Rightarrow> approval_state" where
  "start_state n = \<lparr>as_used = {}, as_cache = new_sent_cache n, as_registry = new_registry, as_given = 0, as_consumed = 0\<rparr>"

fun is_approve :: "resolver_outcome \<Rightarrow> bool" where
  "is_approve (Approve _) = True"
| "is_approve _ = False"

abbreviation intake_of :: "approval_state \<Rightarrow> store \<Rightarrow> intake" where
  "intake_of a s \<equiv> \<lparr>it_pending = as_registry a, it_store = s\<rparr>"

inductive approval_step ::
    "(fingerprint \<Rightarrow> rstr option) \<Rightarrow> (grant_request \<Rightarrow> rstr) \<Rightarrow> approval_state \<Rightarrow> approval_state \<Rightarrow> bool" for ser fb where
  retry: "ce_serialize env = ser \<Longrightarrow> ce_fallback env = fb \<Longrightarrow> new_channel_request_id env \<notin> as_used a \<Longrightarrow>
    channel_resolve env intake_port req (as_cache a) (as_registry a) = (Returns out, c', r') \<Longrightarrow>
    approval_step ser fb a (a\<lparr>as_used := insert (new_channel_request_id env) (as_used a), as_cache := c',
      as_registry := r', as_consumed := as_consumed a + (if is_approve out then 1 else 0)\<rparr>)"
| approving: "approve_gen g i (intake_of a s) = (res, t) \<Longrightarrow>
    approval_step ser fb a (a\<lparr>as_registry := it_pending t, as_given := as_given a + (if isl res then 0 else 1)\<rparr>)"
| narrowing: "narrow_gen validate now g i ps (intake_of a s) = (res, t) \<Longrightarrow>
    approval_step ser fb a (a\<lparr>as_registry := it_pending t, as_given := as_given a + (if isl res then 0 else 1)\<rparr>)"
| denying: "deny_gen g i reason (intake_of a s) = (res, t) \<Longrightarrow>
    approval_step ser fb a (a\<lparr>as_registry := it_pending t\<rparr>)"
| presetting: "apply_preset_for ch sd vld reg now fresh target name (intake_of a s) = (res, t) \<Longrightarrow>
    approval_step ser fb a (a\<lparr>as_registry := it_pending t\<rparr>)"

inductive approval_run ::
    "(fingerprint \<Rightarrow> rstr option) \<Rightarrow> (grant_request \<Rightarrow> rstr) \<Rightarrow> approval_state \<Rightarrow> approval_state \<Rightarrow> bool" for ser fb where
  run_start: "approval_run ser fb a a"
| run_more: "approval_run ser fb a b \<Longrightarrow> approval_step ser fb b c \<Longrightarrow> approval_run ser fb a c"

section \<open>The effect of the operator's calls on the registry\<close>

text \<open>A decision is recorded for an entry that is there and undecided, or nothing changes.\<close>

lemma set_decision_cases:
  assumes "set_decision i g d t = (res, t')"
  obtains (set) e where "map_of (pr_entries (it_pending t)) i = Some e" "is_pending (pe_decision e)"
      "res = Inr (cq_caller (pe_request e), cq_capability (pe_request e))"
      "t' = t\<lparr>it_pending := record_decision i d (it_pending t)\<rparr>"
  | (refused) x where "res = Inl x" "t' = t"
proof (cases "undecided_entry i g (it_pending t)")
  case (Inl x)
  show ?thesis by (rule refused [of x]) (use assms Inl in \<open>simp_all add: set_decision_def sbind_def slift_def\<close>)
next
  case (Inr e)
  then have e: "map_of (pr_entries (it_pending t)) i = Some e" "is_pending (pe_decision e)"
    by (auto simp: undecided_entry_def split: option.splits if_splits)
  show ?thesis
    by (rule set [OF e]) (use assms Inr in \<open>simp_all add: set_decision_def sbind_def slift_def sreturn_def\<close>)
qed

lemma announce_simps [simp]:
  "fst (announce d cc t) = Inr ()" "it_pending (snd (announce d cc t)) = it_pending t"
  by (simp_all add: announce_def)

lemma decided_then_announced:
  assumes "sbind (set_decision i g d) (\<lambda>x. announce l (h x)) t = (res, t')"
  obtains (set) e where "map_of (pr_entries (it_pending t)) i = Some e" "is_pending (pe_decision e)" "res = Inr ()"
      "it_pending t' = record_decision i d (it_pending t)"
  | (refused) x where "res = Inl x" "t' = t"
proof -
  obtain r1 t1 where s: "set_decision i g d t = (r1, t1)" by fastforce
  from s show ?thesis
  proof (cases rule: set_decision_cases)
    case (set e)
    with assms s have "res = Inr () \<and> it_pending t' = record_decision i d (it_pending t)"
      using announce_simps by (auto simp: sbind_def dest!: arg_cong [of "announce _ _ _" _ "\<lambda>x. (fst x, it_pending (snd x))"])
    with that(1) set(1,2) show ?thesis by blast
  next
    case (refused x)
    show ?thesis by (rule that(2) [of x]) (use assms s refused in \<open>simp_all add: sbind_def\<close>)
  qed
qed

lemma narrow_gen_cases:
  assumes "narrow_gen vld now g i ps t = (res, t')"
  obtains (set) e where "map_of (pr_entries (it_pending t)) i = Some e" "is_pending (pe_decision e)" "res = Inr ()"
      "it_pending t' = record_decision i (Approved (Some ps)) (it_pending t)" "narrow_params_ok ps = Inr ()"
      "vld (ApprovalIntake.synthetic_parent_grant now (cq_caller (pe_request e)) (cq_capability (pe_request e))
              (request_params (cq_params (pe_request e))))
         \<lparr>d_capability = cq_capability (pe_request e), d_params = ps, d_ttl = cq_ttl (pe_request e)\<rparr> = Inr ()"
  | (refused) x where "res = Inl x" "t' = t"
proof -
  show ?thesis
  proof (cases "narrow_params_ok ps")
    case (Inl x)
    show ?thesis by (rule refused [of x]) (use assms Inl in \<open>simp_all add: narrow_gen_def sbind_def slift_def\<close>)
  next
    case ok: (Inr u)
    show ?thesis
    proof (cases "undecided_entry i g (it_pending t)")
      case (Inl x)
      show ?thesis by (rule refused [of x]) (use assms Inl ok in \<open>simp_all add: narrow_gen_def sbind_def slift_def\<close>)
    next
      case (Inr e)
      then have e: "map_of (pr_entries (it_pending t)) i = Some e" "is_pending (pe_decision e)"
        by (auto simp: undecided_entry_def split: option.splits if_splits)
      let ?v = "vld (ApprovalIntake.synthetic_parent_grant now (cq_caller (pe_request e)) (cq_capability (pe_request e))
              (request_params (cq_params (pe_request e))))
         \<lparr>d_capability = cq_capability (pe_request e), d_params = ps, d_ttl = cq_ttl (pe_request e)\<rparr>"
      show ?thesis
      proof (cases ?v)
        case (Inl x)
        show ?thesis by (rule refused [of x]) (use assms Inl ok Inr in \<open>simp_all add: narrow_gen_def sbind_def slift_def\<close>)
      next
        case v: (Inr w)
        have "sbind (set_decision i g (Approved (Some ps)))
            (\<lambda>_. announce ''approve'' (cq_caller (pe_request e), cq_capability (pe_request e))) t = (res, t')"
          using assms v ok Inr by (simp add: narrow_gen_def sbind_def slift_def)
        then show ?thesis
          by (cases rule: decided_then_announced) (use set [of e] refused e v ok in auto)
      qed
    qed
  qed
qed

lemma on_store_pending [simp]: "it_pending (snd (sbind (on_store f) (\<lambda>x. sreturn (h x)) t)) = it_pending t"
  by (cases "f (it_store t)") (simp add: sbind_def on_store_def split: sum.splits)

lemma preset_registry:
  assumes "apply_preset_for ch sd vld reg now fresh target name t = (res, t')"
  shows "it_pending t' = it_pending t \<or> it_pending t' = invalidate_pending_for target (it_pending t)"
proof -
  have "it_pending (snd (apply_preset_for ch sd vld reg now fresh target name t)) \<in>
      {it_pending t, invalidate_pending_for target (it_pending t)}"
    by (cases "preset_name_ok name"; cases "preset_get reg name")
      (simp_all add: apply_preset_for_def sbind_slift ok_or_def)
  with assms show ?thesis by simp
qed

section \<open>Counting approvals\<close>

definition is_approved :: "intake_decision \<Rightarrow> bool" where
  "is_approved d \<longleftrightarrow> \<not> is_pending d \<and> \<not> is_denied d"

lemma is_approved_simps [simp]: "is_approved (Approved x)" "\<not> is_approved Undecided" "\<not> is_approved (Denied y)"
  by (simp_all add: is_approved_def)

lemma is_approved_iff: "is_approved d \<longleftrightarrow> (\<exists>x. d = Approved x)"
  by (cases d) auto

definition approved_count :: "pending_registry \<Rightarrow> nat" where
  "approved_count r = length (filter (\<lambda>x. is_approved (pe_decision (snd x))) (pr_entries r))"

lemma approved_count_delete_eq:
  "approved_count (r\<lparr>pr_entries := AList.delete i (pr_entries r)\<rparr>)
     = length (filter (\<lambda>(k, _). i \<noteq> k) (filter (\<lambda>x. is_approved (pe_decision (snd x))) (pr_entries r)))"
  unfolding filter_swap [of "\<lambda>(k, _). i \<noteq> k"] by (simp add: approved_count_def AList.delete_eq)

lemma approved_count_delete: "approved_count (r\<lparr>pr_entries := AList.delete i (pr_entries r)\<rparr>) \<le> approved_count r"
  unfolding approved_count_delete_eq unfolding approved_count_def by (rule length_filter_le)

lemma approved_count_take:
  assumes "map_of (pr_entries r) i = Some e" "is_approved (pe_decision e)"
  shows "approved_count (r\<lparr>pr_entries := AList.delete i (pr_entries r)\<rparr>) < approved_count r"
proof -
  have "(i, e) \<in> set (filter (\<lambda>x. is_approved (pe_decision (snd x))) (pr_entries r))"
    using assms by (auto dest: map_of_SomeD)
  then show ?thesis
    unfolding approved_count_delete_eq unfolding approved_count_def by (rule length_filter_less) simp
qed

lemma approved_count_redecide:
  assumes "\<And>i e. is_approved (h i e) \<Longrightarrow> is_approved (pe_decision e)"
  shows "approved_count (redecide h r) \<le> approved_count r"
proof -
  have "length (filter ((\<lambda>x. is_approved (pe_decision (snd x))) \<circ> (\<lambda>x. (fst x, snd x\<lparr>pe_decision := h (fst x) (snd x)\<rparr>))) xs)
      \<le> length (filter (\<lambda>x. is_approved (pe_decision (snd x))) xs)" for xs
    by (rule length_filter_mono) (use assms in auto)
  then show ?thesis by (simp add: approved_count_def redecide_def filter_map)
qed

lemma approved_count_record:
  assumes "distinct (map fst (pr_entries r))"
  shows "approved_count (record_decision i d r) \<le> approved_count r + (if is_approved d then 1 else 0)"
proof -
  have one: "distinct (map fst xs) \<Longrightarrow> length (filter (\<lambda>x. is_approved (pe_decision (snd x)))
        (AList.map_entry i (\<lambda>e. e\<lparr>pe_decision := d\<rparr>) xs))
      \<le> length (filter (\<lambda>x. is_approved (pe_decision (snd x))) xs) + (if is_approved d then 1 else 0)" for xs
    by (induction xs) auto
  show ?thesis using one [OF assms] by (simp add: approved_count_def record_decision_def)
qed

lemma approved_count_park: "approved_count (snd (park q r)) \<le> approved_count r"
proof -
  have "length (filter (\<lambda>x. is_approved (pe_decision (snd x))) (AList.update k \<lparr>pe_request = q, pe_decision = Undecided, pe_seq = n\<rparr> m))
      \<le> length (filter (\<lambda>x. is_approved (pe_decision (snd x))) m)" for k n m
    by (induction m) auto
  then show ?thesis by (auto simp: park_def try_next_seq_def approved_count_def Let_def)
qed

lemma approved_count_request: "approved_count (snd (request_approval q r)) \<le> approved_count r"
proof -
  obtain b r1 where ev: "evict_one_terminal r = (b, r1)" by fastforce
  then have "approved_count r1 \<le> approved_count r" by (cases rule: evict_cases) (simp_all add: approved_count_delete)
  with ev approved_count_park [of q r] approved_count_park [of q r1] show ?thesis
    by (auto simp: request_approval_def split: bool.splits)
qed

section \<open>The invariant of a run\<close>

abbreviation fingerprint_of :: "(fingerprint \<Rightarrow> rstr option) \<Rightarrow> (grant_request \<Rightarrow> rstr) \<Rightarrow> grant_request \<Rightarrow> rstr" where
  "fingerprint_of ser fb req \<equiv>
     lit ''grant-approval:'' @ (case ser (request_fingerprint req) of Some t \<Rightarrow> t | None \<Rightarrow> fb req)"

text \<open>A remembered delivery is the draft of a request with that fingerprint, and what is parked under its
  id, if anything, is that request.\<close>

definition linked :: "(fingerprint \<Rightarrow> rstr option) \<Rightarrow> (grant_request \<Rightarrow> rstr) \<Rightarrow> sent_cache \<Rightarrow> pending_registry \<Rightarrow> bool" where
  "linked ser fb c r \<longleftrightarrow>
     (\<forall>f i d. delivered_approval f c = Some (i, d) \<longrightarrow>
        (\<exists>req. f = fingerprint_of ser fb req \<and> d = grant_draft_from_request req
           \<and> (\<forall>e. map_of (pr_entries r) i = Some e \<longrightarrow> pe_request e = from_grant_request req i)))"

definition narrowed_ok :: "pending_entry \<Rightarrow> bool" where
  "narrowed_ok e \<longleftrightarrow>
     (\<forall>ps. pe_decision e = Approved (Some ps) \<longrightarrow> narrow_params_ok ps = Inr ()
        \<and> (\<exists>now. validate (ApprovalIntake.synthetic_parent_grant now (cq_caller (pe_request e)) (cq_capability (pe_request e))
              (request_params (cq_params (pe_request e))))
            \<lparr>d_capability = cq_capability (pe_request e), d_params = ps, d_ttl = cq_ttl (pe_request e)\<rparr> = Inr ()))"

definition registry_inv :: "rstr set \<Rightarrow> pending_registry \<Rightarrow> bool" where
  "registry_inv used r \<longleftrightarrow> registry_wf r \<and> dom (map_of (pr_entries r)) \<subseteq> used
     \<and> (\<forall>i e. map_of (pr_entries r) i = Some e \<longrightarrow> narrowed_ok e)"

definition approval_inv :: "(fingerprint \<Rightarrow> rstr option) \<Rightarrow> (grant_request \<Rightarrow> rstr) \<Rightarrow> approval_state \<Rightarrow> bool" where
  "approval_inv ser fb a \<longleftrightarrow> settled (as_cache a) \<and> registry_inv (as_used a) (as_registry a)
     \<and> (\<forall>f i d. delivered_approval f (as_cache a) = Some (i, d) \<longrightarrow> i \<in> as_used a)
     \<and> linked ser fb (as_cache a) (as_registry a)
     \<and> as_consumed a + approved_count (as_registry a) \<le> as_given a"

lemma approval_inv_start: "approval_inv ser fb (start_state n)"
  by (simp add: approval_inv_def registry_inv_def start_state_def settled_new registry_wf_new linked_def)
    (simp add: new_registry_def approved_count_def new_sent_cache_def delivered_approval_def)

text \<open>The registry may lose entries and change decisions; the link to the cache stays.\<close>

definition same_requests :: "pending_registry \<Rightarrow> pending_registry \<Rightarrow> bool" where
  "same_requests r r' \<longleftrightarrow> (\<forall>i e'. map_of (pr_entries r') i = Some e' \<longrightarrow>
      (\<exists>e. map_of (pr_entries r) i = Some e \<and> pe_request e' = pe_request e))"

lemma same_requests_refl [simp]: "same_requests r r"
  by (simp add: same_requests_def)

lemma linked_mono: "linked ser fb c r \<Longrightarrow> same_requests r r' \<Longrightarrow> linked ser fb c r'"
  unfolding linked_def same_requests_def
proof (intro allI impI)
  fix f i d assume l: "\<forall>f i d. delivered_approval f c = Some (i, d) \<longrightarrow>
        (\<exists>req. f = fingerprint_of ser fb req \<and> d = grant_draft_from_request req
           \<and> (\<forall>e. map_of (pr_entries r) i = Some e \<longrightarrow> pe_request e = from_grant_request req i))"
    and s: "\<forall>i e'. map_of (pr_entries r') i = Some e' \<longrightarrow>
      (\<exists>e. map_of (pr_entries r) i = Some e \<and> pe_request e' = pe_request e)"
    and d: "delivered_approval f c = Some (i, d)"
  from l d obtain req where "f = fingerprint_of ser fb req" "d = grant_draft_from_request req"
    "\<forall>e. map_of (pr_entries r) i = Some e \<longrightarrow> pe_request e = from_grant_request req i" by blast
  with s show "\<exists>req. f = fingerprint_of ser fb req \<and> d = grant_draft_from_request req
           \<and> (\<forall>e. map_of (pr_entries r') i = Some e \<longrightarrow> pe_request e = from_grant_request req i)"
    by (intro exI [of _ req]) force
qed

lemma same_requests_redecide: "same_requests r (redecide h r)"
  by (auto simp: same_requests_def map_of_redecide)

lemma same_requests_delete: "same_requests r (r\<lparr>pr_entries := AList.delete i (pr_entries r)\<rparr>)"
  by (auto simp: same_requests_def split: if_splits)

lemma registry_inv_delete:
  "registry_inv used r \<Longrightarrow> registry_inv used (r\<lparr>pr_entries := AList.delete i (pr_entries r)\<rparr>)"
  by (auto simp: registry_inv_def registry_wf_delete split: if_splits)

lemma registry_inv_redecide:
  assumes "registry_inv used r" "\<And>i e. is_pending (h i e) \<Longrightarrow> is_pending (pe_decision e)"
    and "\<And>i e. map_of (pr_entries r) i = Some e \<Longrightarrow> narrowed_ok (e\<lparr>pe_decision := h i e\<rparr>)"
  shows "registry_inv used (redecide h r)"
proof -
  have "dom (map_of (pr_entries (redecide h r))) = dom (map_of (pr_entries r))" by (simp add: dom_map_of_conv_image_fst flip: set_map)
  with assms show ?thesis by (auto simp: registry_inv_def registry_wf_redecide map_of_redecide)
qed

text \<open>Filing a request under a fresh id.\<close>

lemma registry_inv_request:
  assumes "registry_inv used r" "cq_request_id q \<notin> used" "request_approval q r = (res, r')"
  shows "registry_inv (insert (cq_request_id q) used) r'" "approved_count r' \<le> approved_count r"
    "j \<in> used \<Longrightarrow> map_of (pr_entries r') j = None \<or> map_of (pr_entries r') j = map_of (pr_entries r) j"
    "map_of (pr_entries r') (cq_request_id q) = Some e \<Longrightarrow> pe_request e = q"
proof -
  have wf: "registry_wf r" and dist: "distinct (map fst (pr_entries r))" and sub: "dom (map_of (pr_entries r)) \<subseteq> used"
    using assms(1) by (auto simp: registry_inv_def registry_wf_def)
  have new: "map_of (pr_entries r) (cq_request_id q) = None" using sub assms(2) by (auto simp: domIff)
  note eff = request_effect [OF assms(3) dist]
  have old: "map_of (pr_entries r') j = None \<or> map_of (pr_entries r') j = map_of (pr_entries r) j" if "j \<noteq> cq_request_id q" for j
    using eff(2) that by blast
  have here: "map_of (pr_entries r') (cq_request_id q) = None
      \<or> (\<exists>n. map_of (pr_entries r') (cq_request_id q) = Some (filed_entry q n))"
    using eff(1) eff(2) [of "cq_request_id q"] new by auto
  have entries: "(\<exists>n. e = filed_entry q n) \<or> map_of (pr_entries r) i = Some e"
    if "map_of (pr_entries r') i = Some e" for i e
    using old [of i] here that by (cases "i = cq_request_id q") auto
  have "registry_wf r'" using request_approval_wf [OF wf new] assms(3) by simp
  moreover have "dom (map_of (pr_entries r')) \<subseteq> insert (cq_request_id q) used"
  proof
    fix i assume "i \<in> dom (map_of (pr_entries r'))"
    then show "i \<in> insert (cq_request_id q) used" using old [of i] sub by (cases "i = cq_request_id q") auto
  qed
  moreover have "narrowed_ok e" if "map_of (pr_entries r') i = Some e" for i e
    using entries [OF that]
  proof
    assume "\<exists>n. e = filed_entry q n"
    then show ?thesis by (auto simp: narrowed_ok_def filed_entry_def)
  qed (use assms(1) in \<open>simp add: registry_inv_def\<close>)
  ultimately show "registry_inv (insert (cq_request_id q) used) r'" by (simp add: registry_inv_def)
  show "approved_count r' \<le> approved_count r" using approved_count_request [of q r] assms(3) by simp
  show "j \<in> used \<Longrightarrow> map_of (pr_entries r') j = None \<or> map_of (pr_entries r') j = map_of (pr_entries r) j"
    using old [of j] assms(2) by (cases "j = cq_request_id q") simp_all
  show "map_of (pr_entries r') (cq_request_id q) = Some e \<Longrightarrow> pe_request e = q" using here by (auto simp: filed_entry_def)
qed

text \<open>The link after a delivery: the old deliveries keep their ids, which are not the new one.\<close>

lemma linked_request:
  assumes "linked ser fb c r" "\<And>f i d. delivered_approval f c = Some (i, d) \<Longrightarrow> i \<in> used"
    and "\<And>j. j \<in> used \<Longrightarrow> map_of (pr_entries r') j = None \<or> map_of (pr_entries r') j = map_of (pr_entries r) j"
    and "\<And>g. g \<noteq> f \<Longrightarrow> delivered_approval g c' = None \<or> delivered_approval g c' = delivered_approval g c"
    and "\<And>i d. delivered_approval f c' = Some (i, d) \<Longrightarrow> \<exists>req. f = fingerprint_of ser fb req
           \<and> d = grant_draft_from_request req \<and> (\<forall>e. map_of (pr_entries r') i = Some e \<longrightarrow> pe_request e = from_grant_request req i)"
  shows "linked ser fb c' r'"
  unfolding linked_def
proof (intro allI impI)
  fix g i d assume g: "delivered_approval g c' = Some (i, d)"
  show "\<exists>req. g = fingerprint_of ser fb req \<and> d = grant_draft_from_request req
      \<and> (\<forall>e. map_of (pr_entries r') i = Some e \<longrightarrow> pe_request e = from_grant_request req i)"
  proof (cases "g = f")
    case True
    with assms(5) g show ?thesis by simp
  next
    case False
    with assms(4) g have old: "delivered_approval g c = Some (i, d)" by force
    then obtain req where req: "g = fingerprint_of ser fb req" "d = grant_draft_from_request req"
      "\<forall>e. map_of (pr_entries r) i = Some e \<longrightarrow> pe_request e = from_grant_request req i"
      using assms(1) unfolding linked_def by blast
    with assms(3) [OF assms(2) [OF old]] show ?thesis by (intro exI [of _ req]) auto
  qed
qed

lemma fingerprint_of_env:
  "ce_serialize env = ser \<Longrightarrow> ce_fallback env = fb \<Longrightarrow> channel_request_fingerprint env req = fingerprint_of ser fb req"
  by (auto simp: channel_request_fingerprint_def)

lemma from_grant_request_id [simp]: "cq_request_id (from_grant_request req i) = i"
  by (simp add: from_grant_request_def)

text \<open>A retry. Its delivery first, then the decision it may find.\<close>

lemma deliver_inv:
  assumes inv: "approval_inv ser fb a" and env: "ce_serialize env = ser" "ce_fallback env = fb"
    and new: "new_channel_request_id env \<notin> as_used a"
    and run: "channel_deliver env intake_port req (as_cache a) (as_registry a) = (r, c', r')"
  shows "approval_inv ser fb (a\<lparr>as_used := insert (new_channel_request_id env) (as_used a), as_cache := c', as_registry := r'\<rparr>)"
proof -
  let ?i = "new_channel_request_id env" and ?f = "channel_request_fingerprint env req"
  let ?q = "from_grant_request req ?i"
  have set: "settled (as_cache a)" and reg: "registry_inv (as_used a) (as_registry a)"
    and ids: "\<And>f i d. delivered_approval f (as_cache a) = Some (i, d) \<Longrightarrow> i \<in> as_used a"
    and lnk: "linked ser fb (as_cache a) (as_registry a)"
    and cnt: "as_consumed a + approved_count (as_registry a) \<le> as_given a"
    using inv by (auto simp: approval_inv_def)
  have reg': "registry_inv (insert ?i (as_used a)) (as_registry a)" using reg by (auto simp: registry_inv_def)
  obtain res r1 where rq: "request_approval ?q (as_registry a) = (res, r1)" by fastforce
  note rr = registry_inv_request [OF reg _ rq, simplified, OF new]
  have keep: "linked ser fb c' r2" if "\<And>g. g \<noteq> ?f \<Longrightarrow> delivered_approval g c' = None \<or> delivered_approval g c' = delivered_approval g (as_cache a)"
      and "r2 = as_registry a \<or> r2 = r1" and "\<And>i d. delivered_approval ?f c' = Some (i, d) \<Longrightarrow> i = ?i \<and> d = grant_draft_from_request req \<and> r2 = r1" for r2
  proof (rule linked_request [OF lnk ids _ that(1)])
    show "map_of (pr_entries r2) j = None \<or> map_of (pr_entries r2) j = map_of (pr_entries (as_registry a)) j" if "j \<in> as_used a" for j
      using rr(3) [OF that] \<open>r2 = as_registry a \<or> r2 = r1\<close> by auto
    show "\<exists>req. ?f = fingerprint_of ser fb req \<and> d = grant_draft_from_request req
        \<and> (\<forall>e. map_of (pr_entries r2) i = Some e \<longrightarrow> pe_request e = from_grant_request req i)"
      if "delivered_approval ?f c' = Some (i, d)" for i d
      using \<open>\<And>i d. delivered_approval ?f c' = Some (i, d) \<Longrightarrow> i = ?i \<and> d = grant_draft_from_request req \<and> r2 = r1\<close> [OF that]
        rr(4) fingerprint_of_env [OF env] by (intro exI [of _ req]) auto
  qed
  have ids': "\<And>f i d. delivered_approval f c' = Some (i, d) \<Longrightarrow> i \<in> insert ?i (as_used a)"
    if "\<And>g. g \<noteq> ?f \<Longrightarrow> delivered_approval g c' = None \<or> delivered_approval g c' = delivered_approval g (as_cache a)"
      "\<And>i d. delivered_approval ?f c' = Some (i, d) \<Longrightarrow> i = ?i"
  proof -
    fix f i d assume d: "delivered_approval f c' = Some (i, d)"
    show "i \<in> insert ?i (as_used a)"
      using that(1) [of f] that(2) [of i d] ids [of f i d] d by (cases "f = ?f") auto
  qed
  show ?thesis
  proof (cases rule: channel_deliver_cases [OF set run])
    case (1 i d)
    then show ?thesis using inv reg' by (auto simp: approval_inv_def)
  next
    case 2
    then have "r' = r1" using rq by (simp add: intake_port_def)
    with 2 keep [of r1] ids' rr(1,2) cnt show ?thesis by (simp add: approval_inv_def)
  next
    case 3
    then have r': "r' = as_registry a \<or> r' = r1" using rq by (auto simp: intake_port_def)
    with 3 keep [of r'] have "linked ser fb c' r'" by simp
    moreover have "registry_inv (insert ?i (as_used a)) r'" "approved_count r' \<le> approved_count (as_registry a)"
      using r' reg' rr(1,2) by auto
    ultimately show ?thesis using 3(3-5) ids' cnt by (simp add: approval_inv_def)
  qed
qed

text \<open>Dropping an entry and forgetting its delivery, with \<open>k\<close> approvals consumed.\<close>

lemma drop_inv:
  assumes "approval_inv ser fb a" "k + approved_count (as_registry a\<lparr>pr_entries := AList.delete i (pr_entries (as_registry a))\<rparr>)
      \<le> approved_count (as_registry a)"
  shows "approval_inv ser fb (a\<lparr>as_used := insert j (as_used a), as_cache := forget f (as_cache a),
     as_registry := as_registry a\<lparr>pr_entries := AList.delete i (pr_entries (as_registry a))\<rparr>, as_consumed := as_consumed a + k\<rparr>)"
proof -
  let ?r = "as_registry a\<lparr>pr_entries := AList.delete i (pr_entries (as_registry a))\<rparr>"
  have "linked ser fb (as_cache a) ?r"
    using assms(1) by (intro linked_mono [OF _ same_requests_delete]) (simp add: approval_inv_def)
  then have "linked ser fb (forget f (as_cache a)) ?r" unfolding linked_def by (simp split: if_splits)
  moreover have "registry_inv (as_used a) ?r" using assms(1) by (intro registry_inv_delete) (simp add: approval_inv_def)
  then have "registry_inv (insert j (as_used a)) ?r" by (auto simp: registry_inv_def)
  ultimately show ?thesis using assms by (auto simp: approval_inv_def settled_forget split: if_splits)
qed

lemma take_approved_Some:
  assumes "take_approved i r = (Some n, r')"
  shows "\<exists>e. map_of (pr_entries r) i = Some e \<and> pe_decision e = Approved n"
    "r' = r\<lparr>pr_entries := AList.delete i (pr_entries r)\<rparr>"
  using assms by (auto simp: take_approved_def split: option.splits intake_decision.splits)

lemma retry_inv:
  assumes inv: "approval_inv ser fb a" and env: "ce_serialize env = ser" "ce_fallback env = fb"
    and new: "new_channel_request_id env \<notin> as_used a"
    and run: "channel_resolve env intake_port req (as_cache a) (as_registry a) = (Returns out, c', r')"
  shows "approval_inv ser fb (a\<lparr>as_used := insert (new_channel_request_id env) (as_used a), as_cache := c', as_registry := r',
      as_consumed := as_consumed a + (if is_approve out then 1 else 0)\<rparr>)"
proof -
  have set: "settled (as_cache a)" using inv by (simp add: approval_inv_def)
  show ?thesis
  proof (cases rule: channel_resolve_cases [OF set run])
    case (1 i d narrowed)
    then have t: "take_approved i (as_registry a) = (Some narrowed, r')" by (simp add: intake_port_def)
    from take_approved_Some [OF t] obtain e where e: "map_of (pr_entries (as_registry a)) i = Some e"
      "is_approved (pe_decision e)" and r': "r' = as_registry a\<lparr>pr_entries := AList.delete i (pr_entries (as_registry a))\<rparr>"
      by auto
    from drop_inv [OF inv, of 1 i] approved_count_take [OF e] 1(4,5) r' show ?thesis by simp
  next
    case (2 i d reason)
    with drop_inv [OF inv, of 0 i] approved_count_delete show ?thesis by (simp add: intake_port_def resolved_def)
  next
    case (3 i d)
    with ip.take_iff [of "as_registry a" i] show ?thesis by simp
  next
    case (4 i d)
    with inv show ?thesis by (auto simp: approval_inv_def registry_inv_def)
  next
    case 5
    from 5(2) have "\<not> is_approve out" by (cases rule: channel_deliver_cases [OF set 5(2)]) auto
    with deliver_inv [OF inv env new 5(2)] show ?thesis by simp
  qed
qed

text \<open>A decision of the operator, and the decisions a preset overrides.\<close>

lemma redecide_inv:
  assumes "approval_inv ser fb a" "\<And>i e. is_pending (h i e) \<Longrightarrow> is_pending (pe_decision e)"
    and "\<And>i e. map_of (pr_entries (as_registry a)) i = Some e \<Longrightarrow> narrowed_ok (e\<lparr>pe_decision := h i e\<rparr>)"
    and "approved_count (redecide h (as_registry a)) \<le> approved_count (as_registry a) + k"
  shows "approval_inv ser fb (a\<lparr>as_registry := redecide h (as_registry a), as_given := as_given a + k\<rparr>)"
  using assms registry_inv_redecide [of "as_used a" "as_registry a" h] linked_mono [OF _ same_requests_redecide]
  by (simp add: approval_inv_def)

lemma record_inv:
  assumes inv: "approval_inv ser fb a" and d: "\<not> is_pending d"
    and e: "map_of (pr_entries (as_registry a)) i = Some e" "narrowed_ok (e\<lparr>pe_decision := d\<rparr>)"
  shows "approval_inv ser fb (a\<lparr>as_registry := record_decision i d (as_registry a),
    as_given := as_given a + (if is_approved d then 1 else 0)\<rparr>)"
proof -
  have dist: "distinct (map fst (pr_entries (as_registry a)))"
    using inv by (simp add: approval_inv_def registry_inv_def registry_wf_def)
  have ok: "\<And>j f. map_of (pr_entries (as_registry a)) j = Some f \<Longrightarrow> narrowed_ok f"
    using inv by (simp add: approval_inv_def registry_inv_def)
  show ?thesis
    unfolding record_decision_redecide [OF dist]
    by (rule redecide_inv [OF inv])
      (use d e ok approved_count_record [OF dist, of i d, unfolded record_decision_redecide [OF dist]] in \<open>auto split: if_splits\<close>)
qed

lemma approval_step_inv:
  assumes "approval_step ser fb a b" "approval_inv ser fb a"
  shows "approval_inv ser fb b"
  using assms(1)
proof (cases rule: approval_step.cases)
  case (retry env req out c' r')
  with retry_inv [OF assms(2) retry(2,3,4,5)] show ?thesis by simp
next
  case (approving g i s res t)
  from approving(2) [unfolded approve_gen_def] show ?thesis
    by (cases rule: decided_then_announced [where h = "\<lambda>x. x"])
      (use approving(1) assms(2) record_inv [OF assms(2), of "Approved None" i] in \<open>auto simp: narrowed_ok_def\<close>)
next
  case (narrowing now g i ps s res t)
  from narrowing(2) show ?thesis
  proof (cases rule: narrow_gen_cases)
    case (set e)
    with narrowing(1) record_inv [OF assms(2), of "Approved (Some ps)" i e] show ?thesis
      by (auto simp: narrowed_ok_def)
  qed (use narrowing(1) assms(2) in auto)
next
  case (denying g i reason s res t)
  from denying(2) [unfolded deny_gen_def] show ?thesis
    by (cases rule: decided_then_announced [where h = "\<lambda>x. x"])
      (use denying(1) assms(2) record_inv [OF assms(2), of "Denied reason" i] in \<open>auto simp: narrowed_ok_def\<close>)
next
  case (presetting ch sd vld reg now fresh target name s res t)
  have ok: "\<And>j f. map_of (pr_entries (as_registry a)) j = Some f \<Longrightarrow> narrowed_ok f"
    using assms(2) by (simp add: approval_inv_def registry_inv_def)
  have "approval_inv ser fb (a\<lparr>as_registry := invalidate_pending_for target (as_registry a)\<rparr>)"
    unfolding invalidate_redecide
    by (rule redecide_inv [OF assms(2), where k = 0, simplified])
      (use ok in \<open>auto simp: narrowed_ok_def intro!: approved_count_redecide split: if_splits\<close>)
  with presetting(1) preset_registry [OF presetting(2)] assms(2) show ?thesis by auto
qed

lemma approval_run_inv: "approval_run ser fb a b \<Longrightarrow> approval_inv ser fb a \<Longrightarrow> approval_inv ser fb b"
  by (induction rule: approval_run.induct) (auto intro: approval_step_inv)

text \<open>The listing: one view per undecided entry, in the order of the generations.\<close>

lemma list_pending_exact:
  assumes "registry_wf r"
  shows "sorted (map pv_generation (list_pending r))" "distinct (map pv_generation (list_pending r))"
    "set (list_pending r) = pending_view ` {e. \<exists>i. map_of (pr_entries r) i = Some e \<and> is_pending (pe_decision e)}"
proof -
  let ?es = "filter (\<lambda>(_, e). is_pending (pe_decision e)) (pr_entries r)"
  let ?vs = "sort_key fst (map (\<lambda>(_, e). (pe_seq e, pending_view e)) ?es)"
  have gen: "map pv_generation (list_pending r) = map fst ?vs"
    by (auto simp: list_pending_def pending_view_def Let_def)
  show "sorted (map pv_generation (list_pending r))" unfolding gen by (rule sorted_sort_key)
  have "distinct (map (pe_seq \<circ> snd) (pr_entries r))" using assms by (simp add: registry_wf_def)
  then have "distinct (map (pe_seq \<circ> snd) ?es)" by (rule distinct_map_filter)
  moreover have "map fst (map (\<lambda>(_, e). (pe_seq e, pending_view e)) ?es) = map (pe_seq \<circ> snd) ?es" by (simp add: split_beta)
  ultimately have "distinct (map fst (map (\<lambda>(_, e). (pe_seq e, pending_view e)) ?es))" by (simp only:)
  then have "distinct (map fst ?vs)" unfolding distinct_map [of fst] by simp
  then show "distinct (map pv_generation (list_pending r))" unfolding gen .
  have "distinct (map fst (pr_entries r))" using assms by (simp add: registry_wf_def)
  then have m: "(i, e) \<in> set (pr_entries r) \<longleftrightarrow> map_of (pr_entries r) i = Some e" for i e by simp
  have "set (list_pending r) = pending_view ` snd ` set ?es"
    by (force simp: list_pending_def)
  also have "snd ` set ?es = {e. \<exists>i. map_of (pr_entries r) i = Some e \<and> is_pending (pe_decision e)}"
    by (force simp flip: m)
  finally show "set (list_pending r) = pending_view ` {e. \<exists>i. map_of (pr_entries r) i = Some e \<and> is_pending (pe_decision e)}" .
qed

lemma covers_less_same: "g_capability g = g_capability h \<Longrightarrow> g_params g = g_params h \<Longrightarrow> covers_less g h"
  by (simp add: covers_less_def covers_request_def validate_def)

section \<open>Entries that are gone\<close>

text \<open>A retry leaves the registry alone, drops an entry, or files a request under its fresh id.\<close>

lemma retry_registry:
  assumes "settled c" "channel_resolve env intake_port req c r = (out, c', r')"
  shows "r' = r \<or> (\<exists>i. r' = r\<lparr>pr_entries := AList.delete i (pr_entries r)\<rparr>)
    \<or> r' = snd (request_approval (from_grant_request req (new_channel_request_id env)) r)"
proof (cases rule: channel_resolve_cases [OF assms])
  case (1 i d narrowed)
  then show ?thesis using take_approved_Some(2) [of i r narrowed r'] by (auto simp: intake_port_def)
next
  case (2 i d reason)
  then show ?thesis by (auto simp: intake_port_def resolved_def)
next
  case (3 i d)
  with ip.take_iff [of r i] show ?thesis by simp
next
  case 5
  show ?thesis
    by (cases rule: channel_deliver_cases [OF assms(1) 5(2)]) (auto simp: intake_port_def dest: arg_cong [of _ _ snd])
qed simp

lemma redecide_gone [simp]: "map_of (pr_entries (redecide h r)) i = None \<longleftrightarrow> map_of (pr_entries r) i = None"
  by (simp add: map_of_redecide)

lemma gone_step:
  assumes "approval_step ser fb a b" "approval_inv ser fb a" "i \<in> as_used a" "map_of (pr_entries (as_registry a)) i = None"
  shows "i \<in> as_used b \<and> map_of (pr_entries (as_registry b)) i = None"
proof -
  have dist: "distinct (map fst (pr_entries (as_registry a)))" and set: "settled (as_cache a)"
    and reg: "registry_inv (as_used a) (as_registry a)"
    using assms(2) by (simp_all add: approval_inv_def registry_inv_def registry_wf_def)
  have rec: "map_of (pr_entries (record_decision j d (as_registry a))) i = None" for j d
    unfolding record_decision_redecide [OF dist] using assms(4) by simp
  from assms(1) show ?thesis
  proof (cases rule: approval_step.cases)
    case (retry env req out c' r')
    let ?q = "from_grant_request req (new_channel_request_id env)"
    have "map_of (pr_entries (snd (request_approval ?q (as_registry a)))) i = None"
      using registry_inv_request(3) [OF reg _ surjective_pairing [of "request_approval ?q (as_registry a)"] assms(3)]
        retry(4) assms(4) by auto
    with retry(1) retry_registry [OF set retry(5)] assms(3,4) show ?thesis by auto
  next
    case (approving g j s res t)
    from approving(2) [unfolded approve_gen_def] show ?thesis
      by (cases rule: decided_then_announced [where h = "\<lambda>x. x"]) (use approving(1) assms(3,4) rec in auto)
  next
    case (narrowing now g j ps s res t)
    from narrowing(2) show ?thesis
      by (cases rule: narrow_gen_cases) (use narrowing(1) assms(3,4) rec in auto)
  next
    case (denying g j reason s res t)
    from denying(2) [unfolded deny_gen_def] show ?thesis
      by (cases rule: decided_then_announced [where h = "\<lambda>x. x"]) (use denying(1) assms(3,4) rec in auto)
  next
    case (presetting ch sd vld reg now fresh target name s res t)
    with preset_registry [OF presetting(2)] assms(3,4) show ?thesis by (auto simp: invalidate_redecide)
  qed
qed

lemma gone_run:
  assumes "approval_run ser fb a b" "approval_inv ser fb a" "i \<in> as_used a" "map_of (pr_entries (as_registry a)) i = None"
  shows "map_of (pr_entries (as_registry b)) i = None"
proof -
  from assms have "approval_inv ser fb b \<and> i \<in> as_used b \<and> map_of (pr_entries (as_registry b)) i = None"
    by (induction rule: approval_run.induct) (auto intro: approval_step_inv dest: gone_step)
  then show ?thesis by simp
qed

end
