(* ===== verification/ApprovalRuns.thy ===== *)
theory ApprovalRuns
  imports ApprovalProps
begin

text \<open>
  Concrete runs of the channel resolver and the intake: the properties of the composition applied to them,
  and a run at the production limits in which an approval the operator gave is lost.
\<close>

section \<open>Deliveries up to the limit\<close>

text \<open>Requests numbered from 0, sixty-four to a caller, told apart by their justification; a serialiser that
  is faithful for them.\<close>

definition nth_request :: "nat \<Rightarrow> grant_request" where
  "nth_request k = \<lparr>r_caller = [k div 64], r_capability = lit ''fs'', r_params = None, r_ttl = Once,
     r_justification = Some [k]\<rparr>"

definition nth_ser :: "fingerprint \<Rightarrow> rstr option" where
  "nth_ser f = (case fp_justification f of
     Some [k] \<Rightarrow> if f = request_fingerprint (nth_request k) then Some [k] else Some [] | _ \<Rightarrow> Some [])"

definition nth_env :: "nat \<Rightarrow> channel_env" where
  "nth_env k = \<lparr>ce_serialize = nth_ser, ce_fallback = \<lambda>_. [], ce_uuid = [k], ce_delivery = Prompt\<rparr>"

definition nth_id :: "nat \<Rightarrow> rstr" where
  "nth_id k = lit ''grant-approval:'' @ [k]"

definition nth_sent :: "nat \<Rightarrow> rstr \<times> sent_approval_state" where
  "nth_sent k = (nth_id k, Delivered (nth_id k) (grant_draft_from_request (nth_request k)))"

definition nth_entry :: "nat \<Rightarrow> rstr \<times> pending_entry" where
  "nth_entry k = (nth_id k, filed_entry (from_grant_request (nth_request k) (nth_id k)) (k + 1))"

definition nth_cache :: "nat \<Rightarrow> sent_cache" where
  "nth_cache k = \<lparr>sc_seen = map nth_sent [0..<k], sc_order = map nth_id [0..<k],
     sc_max_entries = CHANNEL_APPROVAL_SENT_CACHE_MAX\<rparr>"

definition nth_registry :: "nat \<Rightarrow> pending_registry" where
  "nth_registry k = \<lparr>pr_entries = map nth_entry [0..<k], pr_next_seq = k + 1\<rparr>"

definition nth_state :: "nat \<Rightarrow> approval_state" where
  "nth_state k = \<lparr>as_used = nth_id ` {..<k}, as_cache = nth_cache k, as_registry = nth_registry k, as_given = 0,
     as_consumed = 0\<rparr>"

lemma nth_id_inj [simp]: "nth_id j = nth_id k \<longleftrightarrow> j = k"
  by (simp add: nth_id_def)

lemma nth_ser_nth [simp]: "nth_ser (request_fingerprint (nth_request k)) = Some [k]"
  by (simp add: nth_ser_def request_fingerprint_def nth_request_def)

lemma nth_ser_faithful: "nth_ser f = Some [k] \<Longrightarrow> f = request_fingerprint (nth_request k)"
  by (auto simp: nth_ser_def split: option.splits list.splits if_splits)

lemma nth_ser_total: "\<exists>t. nth_ser f = Some t"
  by (auto simp: nth_ser_def split: option.splits list.splits)

lemma nth_env_simps [simp]:
  "ce_serialize (nth_env k) = nth_ser" "ce_fallback (nth_env k) = (\<lambda>_. [])" "ce_delivery (nth_env k) = Prompt"
  "new_channel_request_id (nth_env k) = nth_id k"
  "channel_request_fingerprint (nth_env k) (nth_request j) = nth_id j"
  by (simp_all add: nth_env_def new_channel_request_id_def channel_request_fingerprint_def nth_id_def)

lemma nth_keys [simp]: "fst (nth_sent k) = nth_id k" "fst (nth_entry k) = nth_id k"
  by (simp_all add: nth_sent_def nth_entry_def)

lemma map_of_nth:
  assumes "\<And>j. fst (h j) = nth_id j"
  shows "map_of (map h [0..<k]) (nth_id i) = (if i < k then Some (snd (h i)) else None)"
proof (induction k)
  case (Suc k)
  then show ?case using assms [of k] by (auto simp: map_add_def less_Suc_eq)
qed simp

lemmas map_of_sent [simp] = map_of_nth [of nth_sent, simplified]
lemmas map_of_entry [simp] = map_of_nth [of nth_entry, simplified]

lemma nth_caller_pending: "caller_pending [k div 64] (nth_registry k) < MAX_PENDING_PER_CALLER"
proof -
  have "{j. j < k \<and> j div 64 = k div 64} \<subseteq> {64 * (k div 64)..<k}" by auto
  then have "card {j. j < k \<and> j div 64 = k div 64} \<le> k - 64 * (k div 64)"
    by (metis card_atLeastLessThan card_mono finite_atLeastLessThan)
  also have "\<dots> < 64" by (metis minus_mult_div_eq_mod mod_less_divisor zero_less_numeral)
  finally have "length (filter (\<lambda>j. j div 64 = k div 64) [0..<k]) < 64"
    by (simp add: length_filter_conv_card cong: conj_cong)
  then show ?thesis
    by (simp add: caller_pending_def nth_registry_def filter_map o_def nth_entry_def filed_entry_def
        from_grant_request_def nth_request_def MAX_PENDING_PER_CALLER_def)
qed

lemma update_last: "k \<notin> fst ` set m \<Longrightarrow> AList.update k v (m @ [(k, w)]) = m @ [(k, v)]"
  by (induction m) auto

text \<open>The next request is parked and remembered.\<close>

lemma nth_delivery:
  assumes "k < CHANNEL_APPROVAL_SENT_CACHE_MAX"
  shows "channel_resolve (nth_env k) intake_port (nth_request k) (nth_cache k) (nth_registry k)
     = (Returns Pending, nth_cache (k + 1), nth_registry (k + 1))"
proof -
  have kmax: "k < 1024" "Suc k \<noteq> u64_max" using assms by (simp_all add: CHANNEL_APPROVAL_SENT_CACHE_MAX_def u64_max_def)
  have no: "delivered_approval (nth_id k) (nth_cache k) = None" by (simp add: delivered_approval_def nth_cache_def)
  have nk: "nth_id k \<notin> fst ` set (map nth_sent [0..<k])" "nth_id k \<notin> fst ` set (map nth_entry [0..<k])"
    by (auto simp: image_image)
  define c1 where "c1 = nth_cache k\<lparr>sc_seen := map nth_sent [0..<k] @ [(nth_id k, Delivering (nth_id k) (grant_draft_from_request (nth_request k)))],
      sc_order := map nth_id [0..<k] @ [nth_id k]\<rparr>"
  have b: "begin_delivery (nth_id k) (nth_id k) (grant_draft_from_request (nth_request k)) (nth_cache k) = (DeliverNow (nth_id k), c1)"
    using assms nk(1) by (simp add: begin_delivery_def nth_cache_def c1_def update_new Let_def)
  have seen: "map_of (sc_seen c1) (nth_id k) = Some (Delivering (nth_id k) (grant_draft_from_request (nth_request k)))"
    by (simp add: c1_def map_add_def)
  have sent: "nth_sent k = (nth_id k, Delivered (nth_id k) (grant_draft_from_request (nth_request k)))" by (simp add: nth_sent_def)
  have f: "finish_delivery (nth_id k) True c1 = nth_cache (k + 1)"
    using assms nk(1) by (simp add: finish_delivery_def seen) (simp add: c1_def nth_cache_def update_last sent)
  have "request_approval (from_grant_request (nth_request k) (nth_id k)) (nth_registry k) = (Inr (), nth_registry (k + 1))"
    using nth_caller_pending [of k] kmax nk(2)
    by (simp add: request_approval_def park_def try_next_seq_def nth_registry_def from_grant_request_def nth_request_def
        update_new nth_entry_def filed_entry_def MAX_PENDING_REQUESTS_def Let_def)
  with no b f show ?thesis
    by (simp add: channel_resolve_def channel_deliver_def intake_port_def Let_def)
qed

lemma nth_run: "k \<le> CHANNEL_APPROVAL_SENT_CACHE_MAX \<Longrightarrow>
  approval_run nth_ser (\<lambda>_. []) (start_state CHANNEL_APPROVAL_SENT_CACHE_MAX) (nth_state k)"
proof (induction k)
  case 0
  have "start_state CHANNEL_APPROVAL_SENT_CACHE_MAX = nth_state 0"
    by (simp add: start_state_def nth_state_def nth_cache_def nth_registry_def new_sent_cache_def new_registry_def
        CHANNEL_APPROVAL_SENT_CACHE_MAX_def)
  then show ?case by (simp add: run_start)
next
  case (Suc k)
  have "approval_step nth_ser (\<lambda>_. []) (nth_state k) (nth_state (Suc k))"
    using approval_step.retry [of "nth_env k" nth_ser "\<lambda>_. []" "nth_state k" "nth_request k"] nth_delivery [of k] Suc.prems
    by (simp add: nth_state_def lessThan_Suc image_iff)
  with Suc show ?case by (simp add: run_more)
qed

section \<open>An approval that is consumed\<close>

abbreviation quiet_store :: store where
  "quiet_store \<equiv> new_store (empty_db [])"

text \<open>The operator approves request \<open>i\<close> of the first \<open>k\<close>.\<close>

definition approved_state :: "nat \<Rightarrow> nat \<Rightarrow> approval_state" where
  "approved_state i k = nth_state k\<lparr>as_registry := record_decision (nth_id i) (Approved None) (nth_registry k), as_given := 1\<rparr>"

lemma approved_step:
  assumes "i < k"
  shows "approval_step nth_ser (\<lambda>_. []) (nth_state k) (approved_state i k)"
proof -
  obtain res t where ap: "approve_gen None (nth_id i) (intake_of (nth_state k) quiet_store) = (res, t)" by fastforce
  have e: "map_of (pr_entries (nth_registry k)) (nth_id i) = Some (snd (nth_entry i))"
    using assms by (simp add: nth_registry_def)
  have "res = Inr () \<and> it_pending t = record_decision (nth_id i) (Approved None) (nth_registry k)"
    using ap e by (auto simp: approve_gen_def set_decision_def announce_def undecided_entry_def sbind_def slift_def sreturn_def
        nth_state_def nth_entry_def filed_entry_def)
  with approval_step.approving [OF ap] show ?thesis by (simp add: approved_state_def nth_state_def)
qed

lemma approved_run:
  assumes "i < k" "k \<le> CHANNEL_APPROVAL_SENT_CACHE_MAX"
  shows "approval_run nth_ser (\<lambda>_. []) (start_state CHANNEL_APPROVAL_SENT_CACHE_MAX) (approved_state i k)"
  using nth_run [OF assms(2)] approved_step [OF assms(1)] by (rule run_more)

lemma approved_entry:
  assumes "i < k"
  shows "map_of (pr_entries (as_registry (approved_state i k))) (nth_id j) =
     (if j = i then Some ((snd (nth_entry i))\<lparr>pe_decision := Approved None\<rparr>) else if j < k then Some (snd (nth_entry j)) else None)"
  using assms by (auto simp: approved_state_def record_decision_def map_of_map_entry nth_registry_def)

lemma approved_cache [simp]: "as_cache (approved_state i k) = nth_cache k" "as_used (approved_state i k) = nth_id ` {..<k}"
    "as_given (approved_state i k) = 1" "as_consumed (approved_state i k) = 0"
  by (simp_all add: approved_state_def nth_state_def)

lemma approved_retry:
  assumes "i < k"
  shows "\<exists>r. channel_resolve (nth_env j) intake_port (nth_request i) (nth_cache k) (as_registry (approved_state i k))
     = (Returns (Approve (grant_draft_from_request (nth_request i))), forget (nth_id i) (nth_cache k), r)"
  using assms approved_entry [OF assms, of i]
  by (simp add: channel_resolve_def delivered_approval_def nth_cache_def nth_sent_def intake_port_def decision_def
      take_approved_def Let_def)

text \<open>C15. The approvals the chain hands out never exceed those the operator gave: in every interleaving
  of retries, approvals, narrowings, denials and presets, each approval is consumed at most once.\<close>

theorem approvals_consumed_once:
  assumes "approval_run ser fb (start_state n) a"
  shows "as_consumed a \<le> as_given a"
  using approval_run_inv [OF assms approval_inv_start] by (auto simp: approval_inv_def)

theorem approvals_consumed_once_witness:
  "\<exists>a. approval_run nth_ser (\<lambda>_. []) (start_state CHANNEL_APPROVAL_SENT_CACHE_MAX) a
     \<and> as_consumed a = 1 \<and> as_consumed a \<le> as_given a"
proof -
  from approved_retry [of 0 1 1] obtain r where r: "channel_resolve (nth_env 1) intake_port (nth_request 0)
      (as_cache (approved_state 0 1)) (as_registry (approved_state 0 1))
     = (Returns (Approve (grant_draft_from_request (nth_request 0))), forget (nth_id 0) (nth_cache 1), r)" by auto
  have new: "new_channel_request_id (nth_env 1) \<notin> as_used (approved_state 0 1)" by auto
  let ?a = "approved_state 0 1\<lparr>as_used := insert (nth_id 1) (as_used (approved_state 0 1)), as_cache := forget (nth_id 0) (nth_cache 1),
      as_registry := r, as_consumed := 1\<rparr>"
  have "approval_step nth_ser (\<lambda>_. []) (approved_state 0 1) ?a"
    using approval_step.retry [OF _ _ new r, of nth_ser "\<lambda>_. []"] by simp
  then have run: "approval_run nth_ser (\<lambda>_. []) (start_state CHANNEL_APPROVAL_SENT_CACHE_MAX) ?a"
    using approved_run [of 0 1] by (auto simp: CHANNEL_APPROVAL_SENT_CACHE_MAX_def intro: run_more)
  with approvals_consumed_once [OF run] show ?thesis by (intro exI [of _ ?a]) simp
qed

text \<open>C34. The intake stays within its caps in every run: at most 1024 entries, at most 64 undecided ones
  of one caller; and the operator's listing shows exactly the undecided requests, once each, oldest
  first.\<close>

theorem intake_bounded:
  assumes "approval_run ser fb (start_state n) a"
  shows "total_entries (as_registry a) \<le> MAX_PENDING_REQUESTS
     \<and> (\<forall>caller. caller_pending caller (as_registry a) \<le> MAX_PENDING_PER_CALLER)
     \<and> sorted (map pv_generation (list_pending (as_registry a)))
     \<and> distinct (map pv_generation (list_pending (as_registry a)))
     \<and> set (list_pending (as_registry a)) = pending_view `
         {e. \<exists>i. map_of (pr_entries (as_registry a)) i = Some e \<and> is_pending (pe_decision e)}"
proof -
  have wf: "registry_wf (as_registry a)"
    using approval_run_inv [OF assms approval_inv_start] by (simp add: approval_inv_def registry_inv_def)
  with list_pending_exact [OF wf] show ?thesis by (simp add: registry_wf_def total_entries_def)
qed

theorem intake_bounded_witness:
  "total_entries (nth_registry 70) \<le> MAX_PENDING_REQUESTS \<and> caller_pending [0] (nth_registry 70) \<le> MAX_PENDING_PER_CALLER"
  using intake_bounded [OF nth_run [of 70]] by (simp add: nth_state_def CHANNEL_APPROVAL_SENT_CACHE_MAX_def)

text \<open>C14. What the channel approves is what the operator saw and approved. When a retry is approved, the registry holds an entry that
  the operator has approved, one of more approvals given than were handed out so far; the request parked there has the caller, capability,
  lifetime and canonical parameters of the retry; the draft has that capability and lifetime, and its parameters are those of the parked
  request or, if the operator narrowed it, parameters that passed the narrowing checks against it; the entry is taken out. A
  grant issued from the draft covers no call that a grant of the parked request would not.\<close>

theorem channel_approval_confined:
  assumes "approval_run ser fb (start_state n) a"
    and "ce_serialize env = ser" and "ce_fallback env = fb"
    and "channel_resolve env intake_port req (as_cache a) (as_registry a) = (Returns (Approve draft), c', r')"
    and "\<forall>f. ser f \<noteq> None" and "\<forall>f. ser f = ser (request_fingerprint req) \<longrightarrow> f = request_fingerprint req"
  shows "\<exists>i e narrowed now. map_of (pr_entries (as_registry a)) i = Some e \<and> pe_decision e = Approved narrowed
     \<and> as_consumed a < as_given a \<and> map_of (pr_entries r') i = None
     \<and> cq_caller (pe_request e) = r_caller req \<and> cq_capability (pe_request e) = r_capability req \<and> cq_ttl (pe_request e) = r_ttl req
     \<and> canonical_params (request_params (cq_params (pe_request e))) = canonical_params (request_params (r_params req))
     \<and> d_capability draft = r_capability req \<and> d_ttl draft = r_ttl req
     \<and> (case narrowed of
          None \<Rightarrow> d_params draft = request_params (cq_params (pe_request e))
        | Some ps \<Rightarrow> d_params draft = ps \<and> narrow_params_ok ps = Inr ()
            \<and> validate (ApprovalIntake.synthetic_parent_grant now (r_caller req) (r_capability req) (request_params (cq_params (pe_request e)))) draft = Inr ())
     \<and> (\<forall>g. issued_as draft g \<longrightarrow>
          covers_less g (ApprovalIntake.synthetic_parent_grant now (r_caller req) (r_capability req) (request_params (cq_params (pe_request e)))))"
proof -
  have inv: "approval_inv ser fb a" by (rule approval_run_inv [OF assms(1) approval_inv_start])
  have set: "settled (as_cache a)" using inv by (simp add: approval_inv_def)
  obtain i d narrowed where del: "delivered_approval (channel_request_fingerprint env req) (as_cache a) = Some (i, d)"
    and t: "take_approved i (as_registry a) = (Some narrowed, r')"
    and draft: "draft = (case narrowed of None \<Rightarrow> d | Some ps \<Rightarrow> d\<lparr>d_params := ps\<rparr>)"
  proof (cases rule: channel_resolve_cases [OF set assms(4)])
    case (1 i d narrowed)
    then show ?thesis using that [of i d narrowed] by (simp add: intake_port_def)
  next
    case 5
    show ?thesis by (cases rule: channel_deliver_cases [OF set 5(2)]) auto
  qed simp_all
  from take_approved_Some(1) [OF t] obtain e where e: "map_of (pr_entries (as_registry a)) i = Some e"
    "pe_decision e = Approved narrowed" by blast
  have gone: "map_of (pr_entries r') i = None"
    using t e by (auto simp: take_approved_def split: option.splits intake_decision.splits)
  have "approved_count (as_registry a) \<noteq> 0"
    using approved_count_take [OF e(1)] e(2) by force
  then have given: "as_consumed a < as_given a" using inv by (simp add: approval_inv_def)
  from inv del obtain req0 where f: "channel_request_fingerprint env req = fingerprint_of ser fb req0"
    and d: "d = grant_draft_from_request req0" and q: "pe_request e = from_grant_request req0 i"
    using e(1) unfolding approval_inv_def linked_def by blast
  have "ser (request_fingerprint req0) = ser (request_fingerprint req)"
    using f assms(2,3) assms(5) [rule_format, of "request_fingerprint req"]
      assms(5) [rule_format, of "request_fingerprint req0"]
    by (auto simp: channel_request_fingerprint_def)
  with assms(6) have same: "request_fingerprint req0 = request_fingerprint req" by blast
  then have eqs: "r_caller req0 = r_caller req" "r_capability req0 = r_capability req" "r_ttl req0 = r_ttl req"
    "canonical_params (request_params (r_params req0)) = canonical_params (request_params (r_params req))"
    by (simp_all add: request_fingerprint_def)
  have cq: "cq_caller (pe_request e) = r_caller req" "cq_capability (pe_request e) = r_capability req" "cq_ttl (pe_request e) = r_ttl req"
    "cq_params (pe_request e) = r_params req0" using q eqs by (simp_all add: from_grant_request_def)
  have dr: "d_capability draft = r_capability req" "d_ttl draft = r_ttl req"
    "d_params draft = (case narrowed of None \<Rightarrow> request_params (r_params req0) | Some ps \<Rightarrow> ps)"
    using draft d eqs by (simp_all add: grant_draft_from_request_def split: option.splits)
  have ok: "narrowed_ok e" using inv e(1) by (auto simp: approval_inv_def registry_inv_def)
  let ?P = "\<lambda>now. ApprovalIntake.synthetic_parent_grant now (r_caller req) (r_capability req) (request_params (r_params req0))"
  have "\<exists>now. (case narrowed of None \<Rightarrow> True | Some ps \<Rightarrow> narrow_params_ok ps = Inr () \<and> validate (?P now) draft = Inr ())
      \<and> (\<forall>g. issued_as draft g \<longrightarrow> covers_less g (?P now))"
  proof (cases narrowed)
    case None
    then have "covers_less g (?P 0)" if "issued_as draft g" for g
      using dr that by (intro covers_less_same)
        (simp_all add: issued_as_def ApprovalIntake.synthetic_parent_grant_def)
    then show ?thesis using None by auto
  next
    case (Some ps)
    have "draft = \<lparr>d_capability = r_capability req, d_params = ps, d_ttl = r_ttl req\<rparr>" using dr Some by simp
    with Some ok e(2) cq obtain now where "narrow_params_ok ps = Inr ()" "validate (?P now) draft = Inr ()"
      by (auto simp: narrowed_ok_def)
    then show ?thesis using Some validated_covers_less by auto
  qed
  then obtain now where now: "case narrowed of None \<Rightarrow> True | Some ps \<Rightarrow> narrow_params_ok ps = Inr () \<and> validate (?P now) draft = Inr ()"
    "\<forall>g. issued_as draft g \<longrightarrow> covers_less g (?P now)" by blast
  show ?thesis
    by (intro exI [of _ i] exI [of _ e] exI [of _ narrowed] exI [of _ now])
      (use e gone given cq eqs dr now in \<open>auto split: option.splits\<close>)
qed

theorem channel_approval_confined_witness:
  "\<exists>i e. map_of (pr_entries (as_registry (approved_state 0 1))) i = Some e \<and> is_approved (pe_decision e)
     \<and> cq_caller (pe_request e) = [0] \<and> as_consumed (approved_state 0 1) < as_given (approved_state 0 1)"
proof -
  have ser: "\<forall>f. nth_ser f \<noteq> None"
    and one: "\<forall>f. nth_ser f = nth_ser (request_fingerprint (nth_request 0)) \<longrightarrow> f = request_fingerprint (nth_request 0)"
    by (simp_all add: nth_ser_total nth_ser_faithful)
  obtain r where r: "channel_resolve (nth_env 1) intake_port (nth_request 0) (as_cache (approved_state 0 1))
      (as_registry (approved_state 0 1))
     = (Returns (Approve (grant_draft_from_request (nth_request 0))), forget (nth_id 0) (nth_cache 1), r)"
    using approved_retry [of 0 1 1] by auto
  have "approval_run nth_ser (\<lambda>_. []) (start_state CHANNEL_APPROVAL_SENT_CACHE_MAX) (approved_state 0 1)"
    using approved_run [of 0 1] by (simp add: CHANNEL_APPROVAL_SENT_CACHE_MAX_def)
  from channel_approval_confined [OF this _ _ r ser one] show ?thesis
    by (auto simp: nth_request_def) (metis is_approved_simps(1))
qed

section \<open>An approval that is lost\<close>

text \<open>A decided request that the full registry evicts before its retry is lost: as long as the sent cache
  remembers the delivery, every retry of the request stays pending and files nothing, while the
  operator neither sees the request nor can decide it again.\<close>

theorem lost_decision_waits_forever:
  assumes "approval_run ser fb (start_state n) a"
    and "delivered_approval (channel_request_fingerprint env req) (as_cache a) = Some (i, d)"
    and "map_of (pr_entries (as_registry a)) i = None"
    and "approval_run ser fb a b"
    and "delivered_approval (channel_request_fingerprint env req) (as_cache b) = Some (i, d)"
  shows "channel_resolve env intake_port req (as_cache b) (as_registry b) = (Returns Pending, as_cache b, as_registry b)
     \<and> approve_gen g i (intake_of b s) = (Inl (NotFound i), intake_of b s)
     \<and> (\<forall>v\<in>set (list_pending (as_registry b)). pv_request_id v \<noteq> i)"
proof -
  have inv: "approval_inv ser fb a" by (rule approval_run_inv [OF assms(1) approval_inv_start])
  have invb: "approval_inv ser fb b" by (rule approval_run_inv [OF assms(4) inv])
  have "i \<in> as_used a" using inv assms(2) by (auto simp: approval_inv_def)
  then have gone: "map_of (pr_entries (as_registry b)) i = None" by (rule gone_run [OF assms(4) inv _ assms(3)])
  have "pv_request_id v \<noteq> i" if "v \<in> set (list_pending (as_registry b))" for v
  proof -
    have wf: "registry_wf (as_registry b)" using invb by (simp add: approval_inv_def registry_inv_def)
    from that list_pending_exact(3) [OF wf] obtain j e where e: "map_of (pr_entries (as_registry b)) j = Some e" "v = pending_view e"
      by auto
    then have "cq_request_id (pe_request e) = j"
      using wf by (auto simp: registry_wf_def list_all_iff entry_ok_def dest!: map_of_SomeD)
    with e gone show ?thesis by (auto simp: pending_view_def Let_def)
  qed
  moreover have "channel_deliver env intake_port req (as_cache b) (as_registry b) = (Returns Pending, as_cache b, as_registry b)"
    using assms(5) by (simp add: channel_deliver_def begin_delivery_def delivered_approval_Some Let_def)
  ultimately show ?thesis
    using assms(5) gone
    by (simp add: channel_resolve_def intake_port_def decision_def approve_gen_def set_decision_def undecided_entry_def
        sbind_def slift_def Let_def)
qed

text \<open>The run: 1024 requests are waiting, the operator approves the sixth, and before its retry one more
  request arrives. The registry evicts the approved entry, the cache its oldest delivery.\<close>

abbreviation sent_cap :: nat where "sent_cap \<equiv> CHANNEL_APPROVAL_SENT_CACHE_MAX"

lemma caps_agree: "MAX_PENDING_REQUESTS = sent_cap"
  by (simp add: MAX_PENDING_REQUESTS_def CHANNEL_APPROVAL_SENT_CACHE_MAX_def)

lemma approved_registry:
  "as_registry (approved_state i k) = redecide (\<lambda>j e. if j = nth_id i then Approved None else pe_decision e) (nth_registry k)"
proof -
  have "distinct (map fst (pr_entries (nth_registry k)))" by (simp add: nth_registry_def distinct_map inj_on_def)
  then show ?thesis by (simp add: approved_state_def record_decision_redecide)
qed

lemma overflow_evicts:
  assumes "i < sent_cap" "evict_one_terminal (as_registry (approved_state i sent_cap)) = (b, r)"
  shows "b \<and> map_of (pr_entries r) (nth_id i) = None"
proof -
  let ?r = "as_registry (approved_state i sent_cap)"
  have dist: "distinct (map fst (pr_entries ?r))"
    unfolding approved_registry by (simp add: nth_registry_def distinct_map inj_on_def)
  have mem: "(j, e) \<in> set (pr_entries ?r) \<longleftrightarrow> map_of (pr_entries ?r) j = Some e" for j e using dist by simp
  from assms(2) show ?thesis
  proof (cases rule: evict_cases)
    case none
    with mem [of "nth_id i"] approved_entry [OF assms(1), of i] show ?thesis by fastforce
  next
    case (one j e)
    from one(2) have "j \<in> fst ` set (pr_entries ?r)" by force
    then obtain k where j: "j = nth_id k"
      unfolding approved_registry by (auto simp: redecide_def nth_registry_def)
    have "k = i"
      using one(2,3) mem [of j e] approved_entry [OF assms(1), of k] j
      by (auto simp: nth_entry_def filed_entry_def split: if_splits)
    with one(1,5) j show ?thesis by simp
  qed
qed

lemma overflow_registry:
  assumes "i < sent_cap"
  shows "map_of (pr_entries (snd (request_approval (from_grant_request (nth_request sent_cap) (nth_id sent_cap))
      (as_registry (approved_state i sent_cap))))) (nth_id i) = None"
proof -
  let ?q = "from_grant_request (nth_request sent_cap) (nth_id sent_cap)" and ?r = "as_registry (approved_state i sent_cap)"
  obtain b r where ev: "evict_one_terminal ?r = (b, r)" by fastforce
  note gone = overflow_evicts [OF assms ev]
  have len: "length (pr_entries ?r) = sent_cap" unfolding approved_registry by (simp add: nth_registry_def)
  have new: "map_of (pr_entries ?r) (nth_id sent_cap) = None" using approved_entry [OF assms, of sent_cap] assms by simp
  have "caller_pending [sent_cap div 64] ?r \<le> caller_pending [sent_cap div 64] (nth_registry sent_cap)"
    unfolding approved_registry by (rule caller_pending_redecide) (simp split: if_splits)
  with nth_caller_pending [of sent_cap] have few: "caller_pending (cq_caller ?q) ?r < MAX_PENDING_PER_CALLER"
    by (simp add: from_grant_request_def nth_request_def)
  have "snd (request_approval ?q ?r) = snd (park ?q r)"
    using ev gone few new len by (simp add: request_approval_def caps_agree)
  moreover have "map_of (pr_entries (snd (park ?q r))) (nth_id i) = None"
    using park_effect [OF surjective_pairing [of "park ?q r"]] gone assms by (auto split: sum.splits)
  ultimately show ?thesis by simp
qed

lemma overflow_cache:
  assumes "0 < i" "i < sent_cap" "begin_delivery j (nth_id sent_cap) d (nth_cache sent_cap) = (a, c)"
  shows "a = DeliverNow j" "delivered_approval (nth_id i) (finish_delivery (nth_id sent_cap) b c)
     = Some (nth_id i, grant_draft_from_request (nth_request i))"
proof -
  have set: "settled (nth_cache sent_cap)"
    using approval_run_inv [OF nth_run [of sent_cap] approval_inv_start] by (simp add: approval_inv_def nth_state_def)
  have none: "delivered_approval (nth_id sent_cap) (nth_cache sent_cap) = None" by (simp add: delivered_approval_def nth_cache_def)
  show "a = DeliverNow j" by (rule begin_settled(1) [OF set none assms(3)])
  have up: "[0..<sent_cap] = 0 # [1..<sent_cap]" using assms(2) by (simp add: upt_conv_Cons)
  have evict: "evict_one_delivered_entry (nth_cache sent_cap) = nth_cache sent_cap\<lparr>
      sc_seen := AList.delete (nth_id 0) (map nth_sent [0..<sent_cap]), sc_order := map nth_id [1..<sent_cap]\<rparr>"
    unfolding evict_one_delivered_entry_def nth_cache_def sent_cache.select_convs
    by (subst (2) up) (simp add: evict_one_loop_step nth_sent_def)
  have "map_of (sc_seen c) (nth_id i) = Some (snd (nth_sent i))"
    using assms evict by (auto simp: begin_delivery_def nth_cache_def Let_def split: if_splits)
  moreover have "cache_wf c" using set begin_delivery_wf(1) [OF _ assms(3)] by (simp add: settled_def)
  ultimately show "delivered_approval (nth_id i) (finish_delivery (nth_id sent_cap) b c)
     = Some (nth_id i, grant_draft_from_request (nth_request i))"
    using finish_effect [of c "nth_id sent_cap"] assms(2)
    by (cases b) (simp_all add: delivered_approval_def nth_sent_def)
qed

lemma overflow_run:
  obtains a where "approval_run nth_ser (\<lambda>_. []) (start_state sent_cap) a" "as_given a = 1" "as_consumed a = 0"
    "delivered_approval (nth_id 5) (as_cache a) = Some (nth_id 5, grant_draft_from_request (nth_request 5))"
    "map_of (pr_entries (as_registry a)) (nth_id 5) = None"
proof -
  have five: "5 < sent_cap" by (simp add: CHANNEL_APPROVAL_SENT_CACHE_MAX_def)
  let ?a = "approved_state 5 sent_cap" and ?q = "from_grant_request (nth_request sent_cap) (nth_id sent_cap)"
  obtain x c where b: "begin_delivery (nth_id sent_cap) (nth_id sent_cap) (grant_draft_from_request (nth_request sent_cap))
      (nth_cache sent_cap) = (x, c)" by fastforce
  obtain res r where rq: "request_approval ?q (as_registry ?a) = (res, r)" by fastforce
  note oc = overflow_cache [OF _ five b, simplified]
  have none: "delivered_approval (nth_id sent_cap) (nth_cache sent_cap) = None" by (simp add: delivered_approval_def nth_cache_def)
  let ?out = "if isl res then Deny (lit ''channel-approval-unavailable'') else Pending"
  let ?c = "finish_delivery (nth_id sent_cap) (\<not> isl res) c"
  have run: "channel_resolve (nth_env sent_cap) intake_port (nth_request sent_cap) (as_cache ?a) (as_registry ?a)
      = (Returns ?out, ?c, r)"
    using b oc(1) rq none by (simp add: channel_resolve_def channel_deliver_def intake_port_def Let_def)
  have new: "new_channel_request_id (nth_env sent_cap) \<notin> as_used ?a" by auto
  let ?b = "?a\<lparr>as_used := insert (nth_id sent_cap) (as_used ?a), as_cache := ?c, as_registry := r, as_consumed := 0\<rparr>"
  have no: "\<not> is_approve ?out" by simp
  have "approval_step nth_ser (\<lambda>_. []) ?a ?b"
    using approval_step.retry [OF _ _ new run, of nth_ser "\<lambda>_. []"] no by (simp del: if_split)
  then have "approval_run nth_ser (\<lambda>_. []) (start_state sent_cap) ?b"
    using approved_run [OF five] by (auto intro: run_more)
  moreover have "map_of (pr_entries r) (nth_id 5) = None" using overflow_registry [OF five] rq by simp
  ultimately show ?thesis using that [of ?b] oc(2) by simp
qed

theorem lost_decision_waits_forever_example:
  "\<exists>a. as_given a = 1 \<and> as_consumed a = 0
     \<and> channel_resolve (nth_env 0) intake_port (nth_request 5) (as_cache a) (as_registry a)
        = (Returns Pending, as_cache a, as_registry a)
     \<and> approve_gen None (nth_id 5) (intake_of a quiet_store) = (Inl (NotFound (nth_id 5)), intake_of a quiet_store)"
proof -
  from overflow_run obtain a where a: "approval_run nth_ser (\<lambda>_. []) (start_state sent_cap) a" "as_given a = 1" "as_consumed a = 0"
    "delivered_approval (nth_id 5) (as_cache a) = Some (nth_id 5, grant_draft_from_request (nth_request 5))"
    "map_of (pr_entries (as_registry a)) (nth_id 5) = None" .
  have d: "delivered_approval (channel_request_fingerprint (nth_env 0) (nth_request 5)) (as_cache a)
      = Some (nth_id 5, grant_draft_from_request (nth_request 5))" using a(4) by simp
  from lost_decision_waits_forever [OF a(1) d a(5) run_start d, of None quiet_store] a(2,3) show ?thesis by blast
qed

section \<open>Presets supersede\<close>

text \<open>A preset applied by the operator supersedes what is parked: once the preset's name is accepted and
  known, whether or not its grants pass, every request of the target is denied in the registry, none of them can be
  consumed as an approval, and the requests of others are untouched; before that point nothing changes.\<close>

theorem preset_supersedes:
  assumes "apply_preset_for ch sd vld reg now fresh target name t = (res, t')"
  shows "if preset_name_ok name = Inr () \<and> preset_get reg name \<noteq> None
     then (\<forall>i. map_of (pr_entries (it_pending t')) i = map_option (\<lambda>e.
              if cq_caller (pe_request e) = target \<and> \<not> is_denied (pe_decision e)
              then e\<lparr>pe_decision := Denied (lit ''superseded-by-preset'')\<rparr> else e) (map_of (pr_entries (it_pending t)) i))
        \<and> (\<forall>i e. map_of (pr_entries (it_pending t)) i = Some e \<and> cq_caller (pe_request e) = target
             \<longrightarrow> fst (take_approved i (it_pending t')) = None)
     else t' = t \<and> (\<exists>e. res = Inl e)"
proof (cases "preset_name_ok name = Inr () \<and> preset_get reg name \<noteq> None")
  case True
  then have "it_pending t' = invalidate_pending_for target (it_pending t)"
    using arg_cong [OF assms, of "\<lambda>x. it_pending (snd x)"]
    by (auto simp: apply_preset_for_def sbind_slift ok_or_def)
  with True show ?thesis
    by (auto simp: invalidate_redecide map_of_redecide take_approved_def intro!: map_option_cong
        split: option.splits intake_decision.splits)
next
  case False
  then show ?thesis using assms
    by (cases "preset_name_ok name"; cases "preset_get reg name")
      (auto simp: apply_preset_for_def sbind_slift ok_or_def)
qed

theorem preset_supersedes_example:
  "fst (take_approved (nth_id 0) (it_pending (snd (apply_preset_for sample_chrono sample_serde validate with_builtins 0
      (\<lambda>_. ([], 0, 0)) [0] (lit ''restrict'') (intake_of (approved_state 0 1) quiet_store))))) = None"
proof -
  let ?t = "intake_of (approved_state 0 1) quiet_store"
  have n: "preset_name_ok (lit ''restrict'') = Inr () \<and> preset_get with_builtins (lit ''restrict'') \<noteq> None"
    by (simp add: preset_name_ok_def preset_get_def with_builtins_def PRESET_RESTRICT_def PRESET_SUPERVISED_def PRESET_AUTONOMOUS_def
        lit_def is_control_def utf8_len_def)
  have e: "map_of (pr_entries (it_pending ?t)) (nth_id 0) = Some ((snd (nth_entry 0))\<lparr>pe_decision := Approved None\<rparr>)"
    using approved_entry [of 0 1 0] by simp
  show ?thesis
    using preset_supersedes [OF surjective_pairing [of "apply_preset_for sample_chrono sample_serde validate with_builtins 0
      (\<lambda>_. ([], 0, 0)) [0] (lit ''restrict'') ?t"]] n e
    by (auto simp: nth_entry_def filed_entry_def from_grant_request_def nth_request_def)
qed

end
