(* ===== verification/AgentGrant.thy ===== *)
theory AgentGrant
  imports ApprovalRuns GrantCheck
begin

text \<open>
  \<open>cap-grant/src/wit_impl.rs\<close>: the seven host functions of the \<open>agent-grant\<close> interface. A handler takes the
  call context, the lowered parameters and the expected number of results, and returns either a host error
  (\<open>HostCallError::HandlerError\<close>, with a tag for its message) or the results, with the state it leaves. The values of
  \<open>wasmtime\<close> the handlers distinguish are the constructors of \<open>wit_val\<close>; \<open>VOther\<close> stands for the kinds none of
  them accepts. Readings of the clock and fresh ids are arguments. Registration of the handlers with the
  host (\<open>register_agent_grant\<close>) is left out.
\<close>

section \<open>Values\<close>

datatype wit_val =
    VString rstr
  | VU64 nat
  | VList "wit_val list"
  | VRecord "(rstr \<times> wit_val) list"
  | VVariant rstr "wit_val option"
  | VOption "wit_val option"
  | VOk "wit_val option"
  | VErr "wit_val option"
  | VOther

datatype host_call_error = HandlerError string

type_synonym 'a host_result = "host_call_error + 'a"

record call_context =
  cx_agent_id :: rstr
  cx_run_id :: "rstr option"

definition MAX_CAPABILITY_BYTES :: nat where "MAX_CAPABILITY_BYTES = 256"
definition MAX_JUSTIFICATION_BYTES :: nat where "MAX_JUSTIFICATION_BYTES = 1024"
definition WIT_MAX_PARAMS_ENTRIES :: nat where "WIT_MAX_PARAMS_ENTRIES = 64"
definition MAX_PARAM_KEY_BYTES :: nat where "MAX_PARAM_KEY_BYTES = 256"
definition MAX_PARAM_VALUE_BYTES :: nat where "MAX_PARAM_VALUE_BYTES = 4096"
definition MAX_PARAMS_TOTAL_BYTES :: nat where "MAX_PARAMS_TOTAL_BYTES = 4096"
definition MAX_TARGET_BYTES :: nat where "MAX_TARGET_BYTES = 256"
definition MAX_PRESET_NAME_BYTES :: nat where "MAX_PRESET_NAME_BYTES = 256"
definition MAX_GRANT_ID_BYTES :: nat where "MAX_GRANT_ID_BYTES = 256"
definition MAX_ACTIVE_GRANTS_RESPONSE :: nat where "MAX_ACTIVE_GRANTS_RESPONSE = 1024"

subsection \<open>Checks at the entry of a handler\<close>

definition check_results_len :: "nat \<Rightarrow> nat \<Rightarrow> unit host_result" where
  "check_results_len got want = (if got = want then Inr () else Inl (HandlerError ''unexpected results_len''))"

definition check_params_len :: "wit_val list \<Rightarrow> nat \<Rightarrow> unit host_result" where
  "check_params_len got want = (if length got = want then Inr () else Inl (HandlerError ''unexpected number of parameters''))"

definition single_record :: "wit_val list \<Rightarrow> wit_val host_result" where
  "single_record params = (case params of [v] \<Rightarrow> Inr v | _ \<Rightarrow> Inl (HandlerError ''expected single record parameter''))"

definition validate_capability_string :: "rstr \<Rightarrow> cap_grant_error option" where
  "validate_capability_string s =
     (if s = [] then Some (InvalidConfig ''capability must not be empty'')
      else if str_len s > MAX_CAPABILITY_BYTES then Some (InvalidConfig ''capability exceeds the byte cap'')
      else if colon \<in> set s then Some (InvalidConfig ''capability contains forbidden character'')
      else if list_ex is_control s then Some (InvalidConfig ''capability contains control bytes'')
      else None)"

definition target_too_long :: "rstr \<Rightarrow> cap_grant_error option" where
  "target_too_long s = (if str_len s > MAX_TARGET_BYTES then Some (InvalidConfig ''target exceeds the byte cap'') else None)"

definition grant_id_too_long :: "rstr \<Rightarrow> cap_grant_error option" where
  "grant_id_too_long s = (if str_len s > MAX_GRANT_ID_BYTES then Some (InvalidConfig ''grant-id exceeds the byte cap'') else None)"

definition param_cap_error :: "cap_param \<Rightarrow> cap_grant_error option" where
  "param_cap_error p =
     (if str_len (p_key p) > MAX_PARAM_KEY_BYTES then Some (InvalidConfig ''cap-param key exceeds the byte cap'')
      else if str_len (p_value p) > MAX_PARAM_VALUE_BYTES then Some (InvalidConfig ''cap-param value exceeds the byte cap'')
      else None)"

definition check_params_caps :: "cap_param list \<Rightarrow> cap_grant_error option" where
  "check_params_caps ps =
     (if length ps > WIT_MAX_PARAMS_ENTRIES then Some (InvalidConfig ''params exceeds the entry cap'')
      else (case check_each param_cap_error ps of
              Inl e \<Rightarrow> Some e
            | Inr _ \<Rightarrow> if params_bytes ps > MAX_PARAMS_TOTAL_BYTES
                then Some (InvalidConfig ''params total bytes exceed the aggregate cap'') else None))"

subsection \<open>Lowering and lifting\<close>

text \<open>The loops over the fields of a record keep the last field of the right name and kind.\<close>

fun string_field :: "rstr \<Rightarrow> rstr option \<Rightarrow> (rstr \<times> wit_val) list \<Rightarrow> rstr option" where
  "string_field name acc [] = acc"
| "string_field name acc ((n, v) # fs) =
     string_field name (case v of VString s \<Rightarrow> if n = name then Some s else acc | _ \<Rightarrow> acc) fs"

fun cap_param_from_val :: "wit_val \<Rightarrow> cap_param result" where
  "cap_param_from_val (VRecord fs) =
     (case (string_field (lit ''key'') None fs, string_field (lit ''value'') None fs) of
        (Some k, Some v) \<Rightarrow> Inr \<lparr>p_key = k, p_value = v\<rparr>
      | _ \<Rightarrow> Inl (InvalidConfig ''cap-param record missing key/value field''))"
| "cap_param_from_val _ = Inl (InvalidConfig ''cap-param: expected Val::Record'')"

definition cap_param_to_val :: "cap_param \<Rightarrow> wit_val" where
  "cap_param_to_val p = VRecord [(lit ''key'', VString (p_key p)), (lit ''value'', VString (p_value p))]"

fun cap_param_list_from_val :: "wit_val \<Rightarrow> cap_param list result" where
  "cap_param_list_from_val (VList items) = collect_results cap_param_from_val items"
| "cap_param_list_from_val _ = Inl (InvalidConfig ''expected Val::List for cap-param list'')"

text \<open>\<open>from_str\<close> is \<open>str::parse::<DateTime<Utc>>\<close> of the \<open>chrono\<close> crate.\<close>

definition grant_ttl_from_val :: "(rstr \<Rightarrow> instant option) \<Rightarrow> wit_val \<Rightarrow> grant_ttl result" where
  "grant_ttl_from_val from_str v =
     (case v of
        VVariant c None \<Rightarrow>
          (if c = lit ''once'' then Inr Once
           else if c = lit ''lifecycle'' then Inr Lifecycle
           else if c = lit ''persistent'' then Inr Persistent
           else Inl (InvalidConfig ''grant-ttl: unknown variant case''))
      | VVariant c (Some (VU64 n)) \<Rightarrow>
          (if c = lit ''duration'' then Inr (Duration n) else Inl (InvalidConfig ''grant-ttl: unknown variant case''))
      | VVariant c (Some (VString s)) \<Rightarrow>
          (if c = lit ''until''
           then (case from_str s of
                   Some t \<Rightarrow> Inr (Until t) | None \<Rightarrow> Inl (InvalidConfig ''grant-ttl::until: invalid timestamp''))
           else Inl (InvalidConfig ''grant-ttl: unknown variant case''))
      | VVariant c (Some _) \<Rightarrow> Inl (InvalidConfig ''grant-ttl: unknown variant case'')
      | _ \<Rightarrow> Inl (InvalidConfig ''grant-ttl: expected Val::Variant''))"

fun grant_ttl_to_val :: "chrono \<Rightarrow> grant_ttl \<Rightarrow> wit_val" where
  "grant_ttl_to_val ch Once = VVariant (lit ''once'') None"
| "grant_ttl_to_val ch Lifecycle = VVariant (lit ''lifecycle'') None"
| "grant_ttl_to_val ch Persistent = VVariant (lit ''persistent'') None"
| "grant_ttl_to_val ch (Duration n) = VVariant (lit ''duration'') (Some (VU64 n))"
| "grant_ttl_to_val ch (Until t) = VVariant (lit ''until'') (Some (VString (to_rfc3339 ch t)))"

fun grant_status_to_val :: "grant_status \<Rightarrow> wit_val" where
  "grant_status_to_val Active = VVariant (lit ''active'') None"
| "grant_status_to_val Consumed = VVariant (lit ''consumed'') None"
| "grant_status_to_val Expired = VVariant (lit ''expired'') None"
| "grant_status_to_val Revoked = VVariant (lit ''revoked'') None"

fun issuer_to_string :: "grant_issuer \<Rightarrow> rstr" where
  "issuer_to_string Config = lit ''config''"
| "issuer_to_string (Parent i) = lit ''parent:'' @ i"
| "issuer_to_string (Resolver name) = lit ''resolver:'' @ name"
| "issuer_to_string Admin = lit ''admin''"

fun provenance_to_string :: "grant_provenance \<Rightarrow> rstr" where
  "provenance_to_string StaticConfig = lit ''static-config''"
| "provenance_to_string (Delegated i) = lit ''delegated:'' @ i"
| "provenance_to_string Requested = lit ''requested''"
| "provenance_to_string (Preset name) = lit ''preset:'' @ name"

definition grant_info_to_val :: "chrono \<Rightarrow> grant \<Rightarrow> wit_val" where
  "grant_info_to_val ch g =
     VRecord [(lit ''id'', VString (g_id g)), (lit ''grantee'', VString (g_grantee g)),
       (lit ''capability'', VString (g_capability g)), (lit ''params'', VList (map cap_param_to_val (g_params g))),
       (lit ''ttl'', grant_ttl_to_val ch (g_ttl g)), (lit ''issuer'', VString (issuer_to_string (g_issuer g))),
       (lit ''provenance'', VString (provenance_to_string (g_provenance g))),
       (lit ''status'', grant_status_to_val (g_status g)), (lit ''created-at'', VString (to_rfc3339 ch (g_created_at g))),
       (lit ''expires-at'', VOption (map_option (\<lambda>t. VString (to_rfc3339 ch t)) (g_expires_at g)))]"

definition grant_info_list_to_val :: "chrono \<Rightarrow> grant list \<Rightarrow> wit_val" where
  "grant_info_list_to_val ch gs = VList (map (grant_info_to_val ch) gs)"

text \<open>The loops over the fields of the two records; an error inside a field ends the loop.\<close>

fun fold_fields :: "(rstr \<times> wit_val \<Rightarrow> 'a \<Rightarrow> 'a result) \<Rightarrow> (rstr \<times> wit_val) list \<Rightarrow> 'a \<Rightarrow> 'a result" where
  "fold_fields f [] acc = Inr acc"
| "fold_fields f (x # xs) acc = rbind (f x acc) (fold_fields f xs)"

record request_fields =
  rf_capability :: "rstr option"
  rf_params :: "cap_param list option option"
  rf_justification :: "rstr option option"

definition request_field :: "rstr \<times> wit_val \<Rightarrow> request_fields \<Rightarrow> request_fields result" where
  "request_field x acc =
     (case snd x of
        VString s \<Rightarrow> Inr (if fst x = lit ''capability'' then acc\<lparr>rf_capability := Some s\<rparr> else acc)
      | VOption opt \<Rightarrow>
          (if fst x = lit ''params'' then
             (case opt of
                None \<Rightarrow> Inr (acc\<lparr>rf_params := Some None\<rparr>)
              | Some inner \<Rightarrow> rbind (cap_param_list_from_val inner) (\<lambda>ps. Inr (acc\<lparr>rf_params := Some (Some ps)\<rparr>)))
           else if fst x = lit ''justification'' then
             (case opt of
                None \<Rightarrow> Inr (acc\<lparr>rf_justification := Some None\<rparr>)
              | Some (VString s) \<Rightarrow> Inr (acc\<lparr>rf_justification := Some (Some s)\<rparr>)
              | Some _ \<Rightarrow> Inl (InvalidConfig ''grant-request: justification expected option<string>''))
           else Inr acc)
      | _ \<Rightarrow> Inr acc)"

definition grant_request_from_val :: "wit_val \<Rightarrow> (rstr \<times> cap_param list option \<times> rstr option) result" where
  "grant_request_from_val v =
     (case v of
        VRecord fs \<Rightarrow>
          rbind (fold_fields request_field fs \<lparr>rf_capability = None, rf_params = None, rf_justification = None\<rparr>) (\<lambda>acc.
          rbind (ok_or (rf_capability acc) (InvalidConfig ''grant-request: missing capability field'')) (\<lambda>cap.
          rbind (ok_or (rf_params acc) (InvalidConfig ''grant-request: missing params field'')) (\<lambda>ps.
          rbind (ok_or (rf_justification acc) (InvalidConfig ''grant-request: missing justification field'')) (\<lambda>j.
          Inr (cap, ps, j)))))
      | _ \<Rightarrow> Inl (InvalidConfig ''grant-request: expected Val::Record''))"

record draft_fields =
  df_capability :: "rstr option"
  df_params :: "cap_param list option"
  df_ttl :: "grant_ttl option"

definition draft_field :: "(rstr \<Rightarrow> instant option) \<Rightarrow> rstr \<times> wit_val \<Rightarrow> draft_fields \<Rightarrow> draft_fields result" where
  "draft_field from_str x acc =
     (if fst x = lit ''capability''
      then (case snd x of VString s \<Rightarrow> Inr (acc\<lparr>df_capability := Some s\<rparr>) | _ \<Rightarrow> Inr acc)
      else if fst x = lit ''params''
      then rbind (cap_param_list_from_val (snd x)) (\<lambda>ps. Inr (acc\<lparr>df_params := Some ps\<rparr>))
      else if fst x = lit ''ttl''
      then rbind (grant_ttl_from_val from_str (snd x)) (\<lambda>t. Inr (acc\<lparr>df_ttl := Some t\<rparr>))
      else Inr acc)"

definition grant_draft_from_val :: "(rstr \<Rightarrow> instant option) \<Rightarrow> wit_val \<Rightarrow> grant_draft result" where
  "grant_draft_from_val from_str v =
     (case v of
        VRecord fs \<Rightarrow>
          rbind (fold_fields (draft_field from_str) fs \<lparr>df_capability = None, df_params = None, df_ttl = None\<rparr>) (\<lambda>acc.
          rbind (ok_or (df_capability acc) (InvalidConfig ''grant-draft: missing capability field'')) (\<lambda>cap.
          rbind (ok_or (df_params acc) (InvalidConfig ''grant-draft: missing params field'')) (\<lambda>ps.
          rbind (ok_or (df_ttl acc) (InvalidConfig ''grant-draft: missing ttl field'')) (\<lambda>t.
          Inr \<lparr>d_capability = cap, d_params = ps, d_ttl = t\<rparr>))))
      | _ \<Rightarrow> Inl (InvalidConfig ''grant-draft: expected Val::Record''))"

fun chain_decision_to_val :: "chain_decision \<Rightarrow> wit_val" where
  "chain_decision_to_val (ChainApproved i) = VVariant (lit ''approved'') (Some (VString i))"
| "chain_decision_to_val (ChainDenied reason) = VVariant (lit ''denied'') (Some (VString reason))"
| "chain_decision_to_val ChainPending = VVariant (lit ''pending'') None"

fun cap_grant_error_to_val :: "cap_grant_error \<Rightarrow> wit_val" where
  "cap_grant_error_to_val (NotFound i) = VVariant (lit ''not-found'') (Some (VString i))"
| "cap_grant_error_to_val (PermissionDenied m) = VVariant (lit ''permission-denied'') (Some (VString (lit m)))"
| "cap_grant_error_to_val (SubsetViolation m) = VVariant (lit ''subset-violation'') (Some (VString (lit m)))"
| "cap_grant_error_to_val (InvalidConfig m) = VVariant (lit ''invalid-params'') (Some (VString (lit m)))"
| "cap_grant_error_to_val (PresetNotFound n) = VVariant (lit ''preset-not-found'') (Some (VString n))"
| "cap_grant_error_to_val Db = VVariant (lit ''invalid-params'') (Some (VString (lit ''internal-error'')))"
| "cap_grant_error_to_val Yaml = VVariant (lit ''invalid-params'') (Some (VString (lit ''internal-error'')))"

definition ok_some :: "wit_val \<Rightarrow> wit_val" where
  "ok_some v = VOk (Some v)"

definition ok_err :: "cap_grant_error \<Rightarrow> wit_val" where
  "ok_err e = VErr (Some (cap_grant_error_to_val e))"

section \<open>Handlers\<close>

definition filter_active_unexpired :: "instant \<Rightarrow> grant list \<Rightarrow> grant list" where
  "filter_active_unexpired now gs = filter (\<lambda>g. g_status g = Active \<and> unexpired now g) gs"

definition active_grants_handler ::
    "chrono \<Rightarrow> instant \<Rightarrow> call_context \<Rightarrow> wit_val list \<Rightarrow> nat \<Rightarrow> store \<Rightarrow> wit_val list host_result" where
  "active_grants_handler ch now ctx params results_len s =
     rbind (check_results_len results_len 1) (\<lambda>_.
     rbind (check_params_len params 0) (\<lambda>_.
     Inr [ok_some (grant_info_list_to_val ch
       (take MAX_ACTIVE_GRANTS_RESPONSE
         (sort_key g_id (filter_active_unexpired now (list_by_grantee s (cx_agent_id ctx))))))]))"

definition grant_status_handler ::
    "chrono \<Rightarrow> instant \<Rightarrow> call_context \<Rightarrow> wit_val list \<Rightarrow> nat \<Rightarrow> store \<Rightarrow> wit_val list host_result" where
  "grant_status_handler ch now ctx params results_len s =
     rbind (check_results_len results_len 1) (\<lambda>_.
     case params of
       [VString capability] \<Rightarrow>
         (case validate_capability_string capability of
            Some e \<Rightarrow> Inr [ok_err e]
          | None \<Rightarrow>
              Inr [ok_some (case take MAX_ACTIVE_GRANTS_RESPONSE
                     (sort_key g_id (filter (\<lambda>g. g_capability g = capability)
                        (filter_active_unexpired now (list_by_grantee s (cx_agent_id ctx))))) of
                   g # _ \<Rightarrow> VOption (Some (grant_info_to_val ch g))
                 | [] \<Rightarrow> VOption None)])
     | _ \<Rightarrow> Inl (HandlerError ''grant-status: expected single Val::String parameter''))"

text \<open>The lowering and the checks of \<open>request-capability\<close>, before the chain runs.\<close>

definition request_justification_error :: "rstr option \<Rightarrow> cap_grant_error option" where
  "request_justification_error justification =
     (case justification of
        None \<Rightarrow> None
      | Some j \<Rightarrow>
          if str_len j > MAX_JUSTIFICATION_BYTES then Some (InvalidConfig ''justification exceeds the byte cap'')
          else if list_ex is_control j then Some (InvalidConfig ''justification must not contain control characters'')
          else None)"

definition lower_request :: "rstr \<Rightarrow> wit_val \<Rightarrow> grant_request result" where
  "lower_request agent_id v =
     rbind (grant_request_from_val v) (\<lambda>(capability, params_opt, justification).
       case validate_capability_string capability of
         Some e \<Rightarrow> Inl e
       | None \<Rightarrow>
           (case request_justification_error justification of
              Some e \<Rightarrow> Inl e
            | None \<Rightarrow>
                (case (case params_opt of None \<Rightarrow> None | Some p \<Rightarrow> check_params_caps p) of
                   Some e \<Rightarrow> Inl e
                 | None \<Rightarrow> Inr \<lparr>r_caller = agent_id, r_capability = capability, r_params = params_opt, r_ttl = Once,
                                 r_justification = justification\<rparr>)))"

text \<open>A panic in the blocking task surfaces as a host error.\<close>

definition request_capability_handler ::
    "chrono \<Rightarrow> serde \<Rightarrow> (nat \<Rightarrow> channel_env) \<Rightarrow> instant \<Rightarrow> instant \<Rightarrow> rstr \<Rightarrow> call_context \<Rightarrow> wit_val list \<Rightarrow> nat
       \<Rightarrow> 'p resolver list \<Rightarrow> store \<Rightarrow> 'p \<Rightarrow> wit_val list host_result outcome \<times> 'p resolver list \<times> store \<times> 'p" where
  "request_capability_handler ch sd env now_filter now new_id ctx params results_len rs s p =
     (case rbind (check_results_len results_len 1) (\<lambda>_. single_record params) of
        Inl e \<Rightarrow> (Returns (Inl e), rs, s, p)
      | Inr v \<Rightarrow>
          (case lower_request (cx_agent_id ctx) v of
             Inl e \<Rightarrow> (Returns (Inr [ok_err e]), rs, s, p)
           | Inr req \<Rightarrow>
               (let parents = filter_active_unexpired now_filter (list_by_grantee s (cx_agent_id ctx));
                    (d, rs', s', p') = evaluate_with_dynamic_insert_barrier ch sd env now new_id req
                       \<lparr>parent_grants = parents, ctx_run_id = cx_run_id ctx\<rparr> rs s p in
                (case d of
                   Returns dec \<Rightarrow> Returns (Inr [ok_some (chain_decision_to_val dec)])
                 | Panics \<Rightarrow> Returns (Inl (HandlerError ''request-capability resolver failed''))
                 | Waits \<Rightarrow> Waits, rs', s', p'))))"

text \<open>The parent a delegation is made from: the only covering live grant of the caller.\<close>

definition infer_parent ::
    "(grant \<Rightarrow> grant_draft \<Rightarrow> unit result) \<Rightarrow> instant \<Rightarrow> rstr \<Rightarrow> grant_draft \<Rightarrow> store \<Rightarrow> grant result" where
  "infer_parent validator now agent_id draft s =
     (case filter (\<lambda>parent. is_ok (validator parent draft))
             (sort_key g_id (filter (\<lambda>g. g_capability g = d_capability draft)
                (filter_active_unexpired now (list_by_grantee s agent_id)))) of
        [p] \<Rightarrow> Inr p
      | [] \<Rightarrow> Inl (PermissionDenied ''delegate-grant: no parent grant covers requested draft'')
      | _ \<Rightarrow> Inl (PermissionDenied ''delegate-grant: ambiguous parent''))"

definition lower_draft :: "(rstr \<Rightarrow> instant option) \<Rightarrow> rstr \<Rightarrow> wit_val \<Rightarrow> grant_draft result" where
  "lower_draft from_str target v =
     (case target_too_long target of
        Some e \<Rightarrow> Inl e
      | None \<Rightarrow>
          rbind (grant_draft_from_val from_str v) (\<lambda>draft.
            case validate_capability_string (d_capability draft) of
              Some e \<Rightarrow> Inl e
            | None \<Rightarrow> (case check_params_caps (d_params draft) of Some e \<Rightarrow> Inl e | None \<Rightarrow> Inr draft)))"

text \<open>The end of a handler that returns an id: both arms are values of the guest.\<close>

definition respond :: "('a \<Rightarrow> wit_val) \<Rightarrow> 'a result \<times> store \<Rightarrow> wit_val list host_result \<times> store" where
  "respond f x = (Inr [case fst x of Inr a \<Rightarrow> f a | Inl e \<Rightarrow> ok_err e], snd x)"

definition delegate_grant_handler ::
    "chrono \<Rightarrow> serde \<Rightarrow> (grant \<Rightarrow> grant_draft \<Rightarrow> unit result) \<Rightarrow> (rstr \<Rightarrow> instant option) \<Rightarrow> instant \<Rightarrow> instant \<Rightarrow> instant
       \<Rightarrow> rstr \<Rightarrow> call_context \<Rightarrow> wit_val list \<Rightarrow> nat \<Rightarrow> store \<Rightarrow> wit_val list host_result \<times> store" where
  "delegate_grant_handler ch sd validator from_str now_filter now_check now new_id ctx params results_len s =
     (case check_results_len results_len 1 of
        Inl e \<Rightarrow> (Inl e, s)
      | Inr _ \<Rightarrow>
          (case params of
             [VString target, v] \<Rightarrow>
               respond (\<lambda>i. ok_some (VString i))
                 (sbind (slift (lower_draft from_str target v)) (\<lambda>draft.
                  sbind (\<lambda>s. slift (infer_parent validator now_filter (cx_agent_id ctx) draft s) s) (\<lambda>parent.
                  delegate_grant ch sd validator now_check now new_id (g_id parent) target draft (cx_agent_id ctx))) s)
           | _ \<Rightarrow> (Inl (HandlerError ''delegate-grant: expected (string, grant-draft) parameters''), s)))"

text \<open>The gate that \<open>narrow-grant\<close> and \<open>revoke-grant\<close> share: the target is the caller, who holds the grant.\<close>

definition owns :: "store \<Rightarrow> rstr \<Rightarrow> rstr \<Rightarrow> bool" where
  "owns s agent_id grant_id = list_ex (\<lambda>g. g_id g = grant_id) (list_by_grantee s agent_id)"

definition ids_ok :: "rstr \<Rightarrow> rstr \<Rightarrow> unit result" where
  "ids_ok target grant_id =
     (case target_too_long target of
        Some e \<Rightarrow> Inl e
      | None \<Rightarrow> (case grant_id_too_long grant_id of Some e \<Rightarrow> Inl e | None \<Rightarrow> Inr ()))"

definition narrow_grant_handler ::
    "chrono \<Rightarrow> serde \<Rightarrow> (grant \<Rightarrow> grant_draft \<Rightarrow> unit result) \<Rightarrow> instant \<Rightarrow> rstr \<Rightarrow> call_context \<Rightarrow> wit_val list
       \<Rightarrow> nat \<Rightarrow> store \<Rightarrow> wit_val list host_result \<times> store" where
  "narrow_grant_handler ch sd validator now new_id ctx params results_len s =
     (case check_results_len results_len 1 of
        Inl e \<Rightarrow> (Inl e, s)
      | Inr _ \<Rightarrow>
          (case params of
             [VString target, VString grant_id, v] \<Rightarrow>
               respond (\<lambda>i. ok_some (VString i))
                 (sbind (slift (ids_ok target grant_id)) (\<lambda>_.
                  sbind (slift (if target \<noteq> cx_agent_id ctx
                     then Inl (PermissionDenied ''narrow-grant: cross-agent narrow not yet supported'') else Inr ())) (\<lambda>_.
                  sbind (slift (cap_param_list_from_val v)) (\<lambda>new_params.
                  sbind (slift (case check_params_caps new_params of Some e \<Rightarrow> Inl e | None \<Rightarrow> Inr ())) (\<lambda>_.
                  sbind (\<lambda>s. slift (if \<not> owns s (cx_agent_id ctx) grant_id
                     then Inl (PermissionDenied ''narrow-grant: caller does not own grant'') else Inr ()) s) (\<lambda>_.
                  narrow ch sd validator now new_id grant_id new_params (cx_agent_id ctx)))))) s)
           | _ \<Rightarrow> (Inl (HandlerError ''narrow-grant: expected (string, grant-id, list<cap-param>) parameters''), s)))"

definition revoke_grant_handler ::
    "call_context \<Rightarrow> wit_val list \<Rightarrow> nat \<Rightarrow> store \<Rightarrow> wit_val list host_result \<times> store" where
  "revoke_grant_handler ctx params results_len s =
     (case check_results_len results_len 1 of
        Inl e \<Rightarrow> (Inl e, s)
      | Inr _ \<Rightarrow>
          (case params of
             [VString target, VString grant_id] \<Rightarrow>
               respond (\<lambda>_. VOk None)
                 (sbind (slift (ids_ok target grant_id)) (\<lambda>_.
                  sbind (slift (if target \<noteq> cx_agent_id ctx
                     then Inl (PermissionDenied ''revoke-grant: cross-agent revoke not yet supported'') else Inr ())) (\<lambda>_.
                  sbind (\<lambda>s. slift (if \<not> owns s (cx_agent_id ctx) grant_id
                     then Inl (PermissionDenied ''revoke-grant: caller does not own grant'') else Inr ()) s) (\<lambda>_.
                  cascade_revoke grant_id))) s)
           | _ \<Rightarrow> (Inl (HandlerError ''revoke-grant: expected (string, grant-id) parameters''), s)))"

definition preset_name_caps :: "rstr \<Rightarrow> unit result" where
  "preset_name_caps name =
     (if str_len name > MAX_PRESET_NAME_BYTES then Inl (InvalidConfig ''apply-preset: preset-name exceeds the byte cap'')
      else if list_ex is_control name then Inl (InvalidConfig ''apply-preset: preset-name contains control bytes'')
      else Inr ())"

definition apply_preset_handler ::
    "chrono \<Rightarrow> serde \<Rightarrow> (grant \<Rightarrow> grant_draft \<Rightarrow> unit result) \<Rightarrow> registry \<Rightarrow> instant
       \<Rightarrow> (nat \<Rightarrow> rstr \<times> instant \<times> instant) \<Rightarrow> call_context \<Rightarrow> wit_val list \<Rightarrow> nat \<Rightarrow> store
       \<Rightarrow> wit_val list host_result \<times> store" where
  "apply_preset_handler ch sd validator reg now fresh ctx params results_len s =
     (case check_results_len results_len 1 of
        Inl e \<Rightarrow> (Inl e, s)
      | Inr _ \<Rightarrow>
          (case params of
             [VString target, VString preset_name] \<Rightarrow>
               respond (\<lambda>res. ok_some (VList (map VString (ap_created res))))
                 (sbind (slift (case target_too_long target of Some e \<Rightarrow> Inl e | None \<Rightarrow> Inr ())) (\<lambda>_.
                  sbind (slift (preset_name_caps preset_name)) (\<lambda>_.
                  sbind (slift (if target \<noteq> cx_agent_id ctx
                     then Inl (PermissionDenied ''apply-preset: cross-target apply not yet supported'') else Inr ())) (\<lambda>_.
                  apply_preset ch sd validator reg now fresh preset_name target (cx_agent_id ctx)))) s)
           | _ \<Rightarrow> (Inl (HandlerError ''apply-preset: expected (string, string) parameters''), s)))"

end
