(* ===== verification/AgentGrantProps.thy ===== *)
theory AgentGrantProps
  imports AgentGrant
begin

text \<open>
  What a guest can do through the \<open>agent-grant\<close> interface: a requested grant that is approved without the
  operator is covered by a live grant of the caller; grants of other agents can neither be changed nor probed; the
  listings are exact up to their cap; parameters and lifetimes survive the crossing of the boundary.
\<close>

section \<open>Lemmas\<close>

lemma list_by_grantee_iff:
  assumes "indexed s"
  shows "g \<in> set (list_by_grantee s a) \<longleftrightarrow> (\<exists>i. get s i = Some g \<and> g_grantee g = a)"
  using assms unfolding list_by_grantee_def get_def
  by (auto simp: map_filter_def indexed_def intro: rev_image_eqI)

lemma run_indexed: "store_run ch sd (new_store db) s \<Longrightarrow> indexed s \<and> keyed s"
  using run_invariants [of ch sd "new_store db" s] new_store_invariants by blast

lemma owns_iff:
  assumes "indexed s" "keyed s"
  shows "owns s a i \<longleftrightarrow> (\<exists>g. get s i = Some g \<and> g_grantee g = a)"
proof -
  have "owns s a i \<longleftrightarrow> (\<exists>g j. get s j = Some g \<and> g_grantee g = a \<and> g_id g = i)"
    unfolding owns_def list_ex_iff using list_by_grantee_iff [OF assms(1), of _ a] by blast
  then show ?thesis using keyedD [OF assms(2)] by (auto simp: get_def)
qed

lemma set_filter_active [simp]: "g \<in> set (filter_active_unexpired now gs) \<longleftrightarrow> g \<in> set gs \<and> live now g"
  by (auto simp: filter_active_unexpired_def live_def)

lemma lower_request_Inr:
  assumes "lower_request a v = Inr req"
  shows "r_caller req = a \<and> r_ttl req = Once"
  using assms by (auto simp: lower_request_def rbind_Inr_iff split: option.splits)

text \<open>Which resolvers of the production chain can approve, and what.\<close>

lemma subset_approves:
  assumes "subset_auto_approve validate req ctx = Approve draft"
  shows "draft = grant_draft_from_request req \<and> (\<exists>h\<in>set (parent_grants ctx). g_grantee h = r_caller req \<and> validate h draft = Inr ())"
  using assms by (auto simp: subset_auto_approve_def list_ex_iff is_ok_unit Let_def split: if_splits)

lemma chain_effect_approved:
  assumes "chain_effect ch now new_id (insert_dynamic_inner ch sd) req name out s (ChainApproved i) s'"
  obtains draft expires where "out = Approve draft" "chain_expires_at ch now (d_ttl draft) = Returns expires"
    "i = new_id" "map_of (s_grants s') = (map_of (s_grants s))(new_id \<mapsto> requested_grant new_id now (r_caller req) name draft expires)"
proof (cases out)
  case (Approve draft)
  from assms [unfolded Approve chain_effect_def resolver_outcome.case]
  obtain expires where x: "chain_expires_at ch now (d_ttl draft) = Returns expires
    \<and> (case insert_dynamic_inner ch sd (requested_grant new_id now (r_caller req) name draft expires) s of
      (Inr j, s2) \<Rightarrow> ChainApproved i = ChainApproved j \<and> s' = s2
    | (Inl e, s2) \<Rightarrow> ChainApproved i = ChainDenied (lit ''resolver '' @ name
         @ lit '' approved but insert failed (internal error)'') \<and> s' = s2)"
    by (rule exE)
  note e = conjunct1 [OF x] and c = conjunct2 [OF x]
  from c have i: "insert_dynamic_inner ch sd (requested_grant new_id now (r_caller req) name draft expires) s = (Inr i, s')"
    by (auto split: prod.splits sum.splits)
  show ?thesis
    by (rule that [OF Approve e]) (use dual_write_success [OF insert_dynamic_inner_success [OF i]] in \<open>simp_all add: requested_grant_def\<close>)
qed (use assms in \<open>simp_all add: chain_effect_def\<close>)

lemma emit_all_grants [simp]: "s_grants (emit_all es s) = s_grants s"
  by (simp add: emit_all_def)

abbreviation production_chain :: "(rstr \<Rightarrow> rstr option) \<Rightarrow> 'p approval_port option \<Rightarrow> sent_cache \<Rightarrow> 'p resolver list" where
  "production_chain budget port c \<equiv>
     [SubsetAutoApproveResolver validate, BudgetCheckResolver (Some budget), ParentApprovalResolver False False,
      ChannelResolver port c, AutoDenyResolver]"

lemma production_chain_built:
  "build_grant_resolver_chain validate budget port = production_chain budget port (new_sent_cache CHANNEL_APPROVAL_SENT_CACHE_MAX)"
  by (simp add: build_grant_resolver_chain_def)

text \<open>An evaluation changes the chain in the cache of its channel resolver only.\<close>

lemma resolve_shape:
  assumes "resolve env req ctx r p = (out, r1, p1)"
  shows "r1 = r \<or> (\<exists>port c c'. r = ChannelResolver port c \<and> r1 = ChannelResolver port c')"
proof (cases r)
  case (ChannelResolver port c)
  with assms show ?thesis by (cases port) (auto simp: Let_def split: prod.splits)
qed (use assms in auto)

lemma chain_shape:
  assumes "evaluate_with_dynamic_insert_barrier ch sd env now new_id req ctx (production_chain budget port c) s p = (Returns d, rs', s', p')"
  shows "\<exists>c'. rs' = production_chain budget port c'"
proof -
  consider "rs' = production_chain budget port c" | pre r post r1 out where "production_chain budget port c = pre @ r # post"
    "rs' = pre @ r1 # post" "resolve (env (length pre)) req ctx r p = (out, r1, p')"
    using evaluate_loop_decides [OF assms [unfolded evaluate_with_dynamic_insert_barrier_def]]
    by (auto simp: decided_by_def)
  then show ?thesis
  proof cases
    case 1
    then show ?thesis by blast
  next
    case 2
    from resolve_shape [OF 2(3)] show ?thesis
    proof
      assume "r1 = r"
      then show ?thesis using 2(1,2) by metis
    next
      assume "\<exists>port c c'. r = ChannelResolver port c \<and> r1 = ChannelResolver port c'"
      then show ?thesis using 2(1,2) by (auto simp: Cons_eq_append_conv)
    qed
  qed
qed

lemma chain_approves:
  assumes "evaluate_with_dynamic_insert_barrier ch sd env now new_id req ctx (production_chain budget port c) s p
     = (Returns (ChainApproved i), rs', s', p')"
  obtains (auto) draft h expires where "draft = grant_draft_from_request req" "h \<in> set (parent_grants ctx)"
      "g_grantee h = r_caller req" "validate h draft = Inr ()" "chain_expires_at ch now (d_ttl draft) = Returns expires" "i = new_id"
      "map_of (s_grants s') = (map_of (s_grants s))(new_id \<mapsto> requested_grant new_id now (r_caller req) (lit ''SubsetAutoApprove'') draft expires)"
  | (channel) draft expires where "i = new_id"
      "map_of (s_grants s') = (map_of (s_grants s))(new_id \<mapsto> requested_grant new_id now (r_caller req) (lit ''Channel'') draft expires)"
proof -
  have "\<exists>r out. decided_by ch env now new_id (insert_dynamic_inner ch sd) req ctx 0 (production_chain budget port c) s p r out
      (ChainApproved i) rs' s' p'"
    using evaluate_loop_decides [OF assms [unfolded evaluate_with_dynamic_insert_barrier_def]] by auto
  then obtain pre r post out r1 where split: "production_chain budget port c = pre @ r # post"
    and res: "resolve (env (length pre)) req ctx r p = (Returns out, r1, p')"
    and eff: "chain_effect ch now new_id (insert_dynamic_inner ch sd) req (resolver_name r) out
       (emit_all (map (\<lambda>q. invoked req q Abstain) pre @ [invoked req r out]) s) (ChainApproved i) s'"
    by (auto simp: decided_by_def)
  from eff obtain draft expires where a: "out = Approve draft" "chain_expires_at ch now (d_ttl draft) = Returns expires" "i = new_id"
    "map_of (s_grants s') = (map_of (s_grants s))(new_id \<mapsto> requested_grant new_id now (r_caller req) (resolver_name r) draft expires)"
    by (rule chain_effect_approved) simp
  have "r \<in> set (production_chain budget port c)" unfolding split by simp
  then consider "r = SubsetAutoApproveResolver validate" | "r = BudgetCheckResolver (Some budget)"
    | "r = ParentApprovalResolver False False" | "r = ChannelResolver port c" | "r = AutoDenyResolver" by auto
  then show ?thesis
  proof cases
    case 1
    with res a(1) subset_approves [of req ctx draft] show ?thesis
      using auto [of draft _ expires] a by auto
  next
    case 2
    with res a(1) show ?thesis by (auto split: option.splits)
  next
    case 3
    with res a(1) show ?thesis by (simp add: parent_approval_def)
  next
    case 4
    with a channel show ?thesis by simp
  next
    case 5
    with res a(1) show ?thesis by simp
  qed
qed

section \<open>Properties\<close>

text \<open>C9. A guest's request is granted only within what it holds or what the operator approved. When
  \<open>request-capability\<close> answers \<open>approved\<close> over the production chain, in whatever state its cache is, one grant is added, active and for the
  caller, and nothing else changes; unless the channel approved it, it covers no call that some live grant of
  the caller does not cover. That grant keeps its status, and the new one, always single-use, has no deadline.\<close>

theorem request_confined:
  assumes "store_run ch sd (new_store db) s" and "get s new_id = None"
    and "request_capability_handler ch sd env t0 now new_id ctx params n (production_chain budget port c) s p
      = (Returns (Inr [ok_some (VVariant (lit ''approved'') (Some (VString i)))]), rs', s', p')"
  shows "(\<exists>c'. rs' = production_chain budget port c') \<and> i = new_id \<and> (\<forall>j. j \<noteq> i \<longrightarrow> get s' j = get s j)
     \<and> (\<exists>g. get s' i = Some g \<and> g_grantee g = cx_agent_id ctx \<and> g_status g = Active \<and> g_provenance g = Requested
          \<and> (g_issuer g = Resolver (lit ''Channel'')
             \<or> g_issuer g = Resolver (lit ''SubsetAutoApprove'') \<and> g_ttl g = Once \<and> g_expires_at g = None
               \<and> (\<exists>h\<in>set (list_by_grantee s (cx_agent_id ctx)). live t0 h \<and> covers_less g h \<and> get s' (g_id h) = Some h)))"
proof -
  from assms(3) obtain v req where req: "lower_request (cx_agent_id ctx) v = Inr req"
    and run: "evaluate_with_dynamic_insert_barrier ch sd env now new_id req
        \<lparr>parent_grants = filter_active_unexpired t0 (list_by_grantee s (cx_agent_id ctx)), ctx_run_id = cx_run_id ctx\<rparr>
        (production_chain budget port c) s p = (Returns (ChainApproved i), rs', s', p')"
    by (auto simp: request_capability_handler_def ok_some_def ok_err_def Let_def
        split: sum.splits prod.splits outcome.splits elim: chain_decision_to_val.elims)
  have caller: "r_caller req = cx_agent_id ctx" "r_ttl req = Once" using lower_request_Inr [OF req] by auto
  have shape: "\<exists>c'. rs' = production_chain budget port c'" by (rule chain_shape [OF run])
  from run show ?thesis
  proof (cases rule: chain_approves)
    case (auto draft h expires)
    then have e: "expires = None" and ttl: "d_ttl draft = Once" by (auto simp: grant_draft_from_request_def caller)
    have h: "h \<in> set (list_by_grantee s (cx_agent_id ctx))" "live t0 h" using auto(2) by auto
    have "get s (g_id h) = Some h"
      using h(1) run_indexed [OF assms(1)] keyedD [of s] by (auto simp: list_by_grantee_iff get_def)
    with assms(2) auto(7) have "get s' (g_id h) = Some h" by (auto simp: get_def)
    moreover have "covers_less (requested_grant new_id now (r_caller req) (lit ''SubsetAutoApprove'') draft expires) h"
      by (rule validated_covers_less [OF auto(4)]) (simp add: issued_as_def requested_grant_def)
    ultimately show ?thesis using auto(6,7) h e ttl caller shape by (auto simp: get_def requested_grant_def)
  next
    case (channel draft expires)
    then show ?thesis using caller shape by (auto simp: get_def requested_grant_def)
  qed
qed

text \<open>A caller that holds a single-use grant for an hour, and asks for the same again.\<close>

abbreviation short_grant :: grant where
  "short_grant \<equiv> (sample_grant ''p'' ''a'' ''fs'' [])\<lparr>g_ttl := Once, g_expires_at := Some 100\<rparr>"

abbreviation short_store :: store where
  "short_store \<equiv> sample_store [short_grant] []"

definition sample_call :: "wit_val list host_result outcome \<times> nat resolver list \<times> store \<times> nat" where
  "sample_call = request_capability_handler sample_chrono sample_serde (\<lambda>_. sample_env) 5 6 (lit ''n'')
     \<lparr>cx_agent_id = lit ''a'', cx_run_id = None\<rparr>
     [VRecord [(lit ''capability'', VString (lit ''fs'')), (lit ''params'', VOption None), (lit ''justification'', VOption None)]] 1
     (build_grant_resolver_chain validate (\<lambda>_. None) None) short_store 0"

lemmas request_eval = request_capability_handler_def check_results_len_def single_record_def lower_request_def
  grant_request_from_val_def request_field_def validate_capability_string_def request_justification_error_def
  filter_active_unexpired_def list_by_grantee_def map_filter_def evaluate_with_dynamic_insert_barrier_def
  subset_auto_approve_def grant_draft_from_request_def request_params_def requested_grant_def MAX_CAPABILITY_BYTES_def
  ok_or_def ok_some_def

theorem request_confined_witness:
  "\<exists>g. get (fst (snd (snd sample_call))) (lit ''n'') = Some g \<and> g_expires_at g = None
     \<and> get (fst (snd (snd sample_call))) (lit ''p'') = Some short_grant"
proof -
  have d: "fst sample_call = Returns (Inr [ok_some (VVariant (lit ''approved'') (Some (VString (lit ''n''))))])"
    and g: "get (fst (snd (snd sample_call))) (lit ''n'') = Some (requested_grant (lit ''n'') 6 (lit ''a'') (lit ''SubsetAutoApprove'')
       \<lparr>d_capability = lit ''fs'', d_params = [], d_ttl = Once\<rparr> None)"
    by (simp_all add: sample_call_def production_chain_built request_eval delegate_eval sample_grant_def get_def)
  have run: "store_run sample_chrono sample_serde (new_store (empty_db [])) short_store"
    by (rule sample_store_run) (simp_all add: sample_grant_def)
  have new: "get short_store (lit ''n'') = None" by (simp add: store_eval sample_grant_def get_def)
  obtain rs' s' p' where c: "sample_call = (Returns (Inr [ok_some (VVariant (lit ''approved'') (Some (VString (lit ''n''))))]), rs', s', p')"
    using d by (metis prod.collapse)
  have old: "get short_store (lit ''p'') = Some short_grant" by (simp add: store_eval sample_grant_def get_def)
  from request_confined [OF run new c [unfolded sample_call_def production_chain_built]]
  have p: "get s' (lit ''p'') = get short_store (lit ''p'')" by simp
  have s': "fst (snd (snd sample_call)) = s'" unfolding c by simp
  show ?thesis using old p g unfolding s' by (simp add: requested_grant_def)
qed

text \<open>The shared gate refuses before the store is read any further.\<close>

lemma gate_refuses:
  "\<not> owns s a i \<Longrightarrow> sbind (\<lambda>s. slift (if \<not> owns s a i then Inl e else Inr ()) s) f s = (Inl e, s)"
  by (simp add: sbind_def slift_def)

lemma narrow_refused:
  assumes "\<not> owns s (cx_agent_id ctx) i"
  shows "\<exists>x. \<forall>t. \<not> owns t (cx_agent_id ctx) i \<longrightarrow>
     narrow_grant_handler ch sd vld now new_id ctx (VString target # VString i # rest) n t = (x, t)"
proof (cases "n = 1 \<and> (\<exists>v. rest = [v])")
  case True
  then obtain v where v: "n = 1" "rest = [v]" by blast
  show ?thesis
    by (cases "ids_ok target i"; cases "target = cx_agent_id ctx"; cases "cap_param_list_from_val v";
        cases "check_params_caps (projr (cap_param_list_from_val v))")
      (simp_all add: narrow_grant_handler_def check_results_len_def v respond_def sbind_slift gate_refuses)
next
  case False
  then show ?thesis
    by (auto simp: narrow_grant_handler_def check_results_len_def split: list.splits)
qed

lemma revoke_refused:
  assumes "\<not> owns s (cx_agent_id ctx) i"
  shows "\<exists>x. \<forall>t. \<not> owns t (cx_agent_id ctx) i \<longrightarrow>
     revoke_grant_handler ctx (VString target # VString i # rest) n t = (x, t)"
proof (cases "n = 1 \<and> rest = []")
  case True
  show ?thesis
    by (cases "ids_ok target i"; cases "target = cx_agent_id ctx")
      (simp_all add: revoke_grant_handler_def check_results_len_def True respond_def sbind_slift gate_refuses)
next
  case False
  then show ?thesis
    by (auto simp: revoke_grant_handler_def check_results_len_def split: list.splits)
qed

text \<open>C24. A guest cannot touch or probe a grant it does not hold. For an id that is not among the caller's
  grants, \<open>narrow-grant\<close> and \<open>revoke-grant\<close> change nothing, and their answer does not depend on whether the id
  names a grant of someone else or nothing at all.\<close>

theorem foreign_grants_hidden:
  assumes "\<not> owns s (cx_agent_id ctx) i" and "\<not> owns s2 (cx_agent_id ctx) i"
  shows "snd (narrow_grant_handler ch sd vld now new_id ctx (VString target # VString i # rest) n s) = s
     \<and> fst (narrow_grant_handler ch sd vld now new_id ctx (VString target # VString i # rest) n s)
         = fst (narrow_grant_handler ch sd vld now new_id ctx (VString target # VString i # rest) n s2)
     \<and> snd (revoke_grant_handler ctx (VString target # VString i # rest) n s) = s
     \<and> fst (revoke_grant_handler ctx (VString target # VString i # rest) n s)
         = fst (revoke_grant_handler ctx (VString target # VString i # rest) n s2)"
  using narrow_refused [OF assms(1), of ch sd vld now new_id target rest n] revoke_refused [OF assms(1), of target rest n] assms
  by fastforce

theorem foreign_grants_hidden_witness:
  "fst (revoke_grant_handler \<lparr>cx_agent_id = lit ''b'', cx_run_id = None\<rparr> [VString (lit ''b''), VString (lit ''p'')] 1 sample_held)
     = fst (revoke_grant_handler \<lparr>cx_agent_id = lit ''b'', cx_run_id = None\<rparr> [VString (lit ''b''), VString (lit ''p'')] 1 quiet_store)"
proof -
  let ?ctx = "\<lparr>cx_agent_id = lit ''b'', cx_run_id = None\<rparr>"
  have "\<not> owns sample_held (cx_agent_id ?ctx) (lit ''p'')" "\<not> owns quiet_store (cx_agent_id ?ctx) (lit ''p'')"
    by (simp_all add: owns_def list_by_grantee_def map_filter_def store_eval sample_grant_def)
  from foreign_grants_hidden [OF this, of sample_chrono sample_serde validate 0 "[]" "lit ''b''" "[]" 1] show ?thesis by simp
qed

text \<open>\<open>active-grants\<close> answers exactly: the views, ordered by id, of grants of the caller that are active and
  within their deadline; all of them, unless the response cap of 1024 is reached.\<close>

theorem active_grants_exact:
  assumes "store_run ch sd (new_store db) s"
  shows "\<exists>gs. active_grants_handler ch now ctx [] 1 s = Inr [ok_some (VList (map (grant_info_to_val ch) gs))]
     \<and> sorted (map g_id gs) \<and> length gs \<le> MAX_ACTIVE_GRANTS_RESPONSE
     \<and> set gs \<subseteq> {g. get s (g_id g) = Some g \<and> g_grantee g = cx_agent_id ctx \<and> live now g}
     \<and> (length gs < MAX_ACTIVE_GRANTS_RESPONSE \<longrightarrow>
          set gs = {g. get s (g_id g) = Some g \<and> g_grantee g = cx_agent_id ctx \<and> live now g})"
proof -
  let ?all = "sort_key g_id (filter_active_unexpired now (list_by_grantee s (cx_agent_id ctx)))"
  let ?gs = "take MAX_ACTIVE_GRANTS_RESPONSE ?all"
  have ix: "indexed s" and k: "keyed s" using run_indexed [OF assms] by auto
  have "\<And>g i. get s i = Some g \<Longrightarrow> i = g_id g" using keyedD [OF k] by (simp add: get_def)
  then have all: "set ?all = {g. get s (g_id g) = Some g \<and> g_grantee g = cx_agent_id ctx \<and> live now g}"
    by (auto simp: list_by_grantee_iff [OF ix])
  have "sorted (map g_id ?gs)" by (simp add: sorted_sort_key sorted_wrt_take flip: take_map)
  moreover have "set ?gs \<subseteq> set ?all" by (rule set_take_subset)
  moreover have "length ?gs < MAX_ACTIVE_GRANTS_RESPONSE \<Longrightarrow> ?gs = ?all" by simp
  moreover have "active_grants_handler ch now ctx [] 1 s = Inr [ok_some (VList (map (grant_info_to_val ch) ?gs))]"
    by (simp add: active_grants_handler_def check_results_len_def check_params_len_def grant_info_list_to_val_def)
  ultimately show ?thesis using all by (intro exI [of _ ?gs]) auto
qed

text \<open>Parameters and lifetimes cross the boundary unchanged: reading back what a view shows of the
  parameters and of the lifetime of a grant gives them again, if the timestamp parser reads what the
  printer writes.\<close>

theorem boundary_roundtrip:
  assumes "\<forall>t. from_str (to_rfc3339 ch t) = Some t"
  shows "cap_param_list_from_val (VList (map cap_param_to_val ps)) = Inr ps
     \<and> grant_ttl_from_val from_str (grant_ttl_to_val ch ttl) = Inr ttl"
proof -
  have "cap_param_from_val (cap_param_to_val p) = Inr p" for p by (simp add: cap_param_to_val_def)
  then have "list_all2 (\<lambda>x y. cap_param_from_val x = Inr y) (map cap_param_to_val ps) ps"
    by (simp add: list_all2_map1 list_all2_same)
  moreover have "grant_ttl_from_val from_str (grant_ttl_to_val ch ttl) = Inr ttl"
    using assms by (cases ttl) (simp_all add: grant_ttl_from_val_def)
  ultimately show ?thesis by (simp add: collect_results_Inr_iff)
qed

lemma infer_parent_only:
  assumes "infer_parent validate now a draft s = Inr parent"
  shows "{h \<in> set (list_by_grantee s a). live now h \<and> validate h draft = Inr ()} = {parent}"
proof -
  have "filter (\<lambda>parent. is_ok (validate parent draft)) (sort_key g_id (filter (\<lambda>g. g_capability g = d_capability draft)
      (filter_active_unexpired now (list_by_grantee s a)))) = [parent]"
    using assms by (auto simp: infer_parent_def split: list.splits)
  from arg_cong [OF this, of set]
  have "{h \<in> set (list_by_grantee s a). live now h \<and> g_capability h = d_capability draft \<and> is_ok (validate h draft)} = {parent}"
    by (simp add: conj_assoc Collect_conj_eq [symmetric])
  moreover have "validate h draft = Inr () \<Longrightarrow> g_capability h = d_capability draft" for h
    by (simp add: validate_def split: if_splits)
  ultimately show ?thesis by (auto simp: is_ok_unit)
qed

text \<open>\<open>delegate-grant\<close> infers its parent without ambiguity: when it answers with an id, exactly one live grant of
  the caller covers the draft, the new grant was delegated from that one, for the target, and covers no
  call it does not cover; on every other answer the store is unchanged.\<close>

theorem delegate_handler_exact:
  assumes "store_run ch sd (new_store db) s"
    and "delegate_grant_handler ch sd validate from_str t0 t1 now new_id ctx [VString target, v] 1 s = (Inr [r], s')"
  shows "(\<exists>i parent g draft. r = ok_some (VString i) \<and> grant_draft_from_val from_str v = Inr draft
        \<and> {h \<in> set (list_by_grantee s (cx_agent_id ctx)). live t0 h \<and> validate h draft = Inr ()} = {parent}
        \<and> get s' i = Some g \<and> g_grantee g = target \<and> g_provenance g = Delegated (g_id parent) \<and> covers_less g parent)
     \<or> (\<exists>e. r = ok_err e \<and> untouched s s')"
proof -
  let ?m = "sbind (slift (lower_draft from_str target v)) (\<lambda>draft.
      sbind (\<lambda>s. slift (infer_parent validate t0 (cx_agent_id ctx) draft s) s) (\<lambda>parent.
      delegate_grant ch sd validate t1 now new_id (g_id parent) target draft (cx_agent_id ctx))) s"
  obtain res where m: "?m = (res, s')" and r: "r = (case res of Inr i \<Rightarrow> ok_some (VString i) | Inl e \<Rightarrow> ok_err e)"
    using assms(2) by (cases ?m) (simp add: delegate_grant_handler_def check_results_len_def respond_def)
  show ?thesis
  proof (cases res)
    case (Inl e)
    with m have "untouched s s'" by (auto dest!: sbind_slift_error sbind_read_error delegate_error)
    moreover have "r = ok_err e" using Inl r by simp
    ultimately show ?thesis by blast
  next
    case (Inr i)
    with m obtain draft parent where d: "lower_draft from_str target v = Inr draft"
      and p: "infer_parent validate t0 (cx_agent_id ctx) draft s = Inr parent"
      and dg: "delegate_grant ch sd validate t1 now new_id (g_id parent) target draft (cx_agent_id ctx) s = (Inr i, s')"
      by (auto simp: sbind_Inr_iff slift_def)
    have draft: "grant_draft_from_val from_str v = Inr draft"
      using d by (auto simp: lower_draft_def rbind_Inr_iff split: option.splits)
    have only: "{h \<in> set (list_by_grantee s (cx_agent_id ctx)). live t0 h \<and> validate h draft = Inr ()} = {parent}"
      by (rule infer_parent_only [OF p])
    have id: "get s (g_id parent) = Some parent"
      using only run_indexed [OF assms(1)] keyedD [of s] by (auto simp: list_by_grantee_iff get_def)
    from dg obtain q where q: "map_of (s_grants s) (g_id parent) = Some q" "validate q draft = Inr ()" "i = new_id"
      "map_of (s_grants s') = (map_of (s_grants s))(new_id \<mapsto> delegated_grant ch now new_id (cx_agent_id ctx) target draft q)"
      by (rule delegate_success)
    let ?g = "delegated_grant ch now new_id (cx_agent_id ctx) target draft q"
    have q': "q = parent" using q(1) id by (simp add: get_def)
    have "covers_less ?g parent"
      unfolding q' by (rule validated_covers_less [OF q(2) [unfolded q']])
        (use q(2) q' in \<open>simp add: delegated_issued validate_Inr_iff\<close>)
    with q q' only draft r Inr show ?thesis
      by (intro disjI1 exI [of _ i] exI [of _ parent] exI [of _ ?g] exI [of _ draft]) (simp add: get_def delegated_grant_def)
  qed
qed

definition sample_delegate_call :: "wit_val list host_result \<times> store" where
  "sample_delegate_call = delegate_grant_handler sample_chrono sample_serde validate (\<lambda>_. None) 1 1 2 (lit ''n'')
     \<lparr>cx_agent_id = lit ''a'', cx_run_id = None\<rparr>
     [VString (lit ''b''), VRecord [(lit ''capability'', VString (lit ''fs'')), (lit ''params'', VList []),
        (lit ''ttl'', VVariant (lit ''persistent'') None)]] 1 sample_held"

theorem delegate_handler_exact_example:
  "fst sample_delegate_call = Inr [ok_some (VString (lit ''n''))]
     \<and> (\<exists>parent g. get (snd sample_delegate_call) (lit ''n'') = Some g \<and> covers_less g parent)"
proof -
  have d: "fst sample_delegate_call = Inr [ok_some (VString (lit ''n''))]"
    by (simp add: sample_delegate_call_def delegate_grant_handler_def check_results_len_def respond_def lower_draft_def
        target_too_long_def grant_draft_from_val_def draft_field_def grant_ttl_from_val_def validate_capability_string_def
        check_params_caps_def infer_parent_def filter_active_unexpired_def list_by_grantee_def map_filter_def ok_or_def
        MAX_TARGET_BYTES_def MAX_CAPABILITY_BYTES_def MAX_PARAMS_TOTAL_BYTES_def delegate_eval sample_grant_def)
  then have c: "sample_delegate_call = (Inr [ok_some (VString (lit ''n''))], snd sample_delegate_call)"
    by (simp add: prod_eq_iff)
  from delegate_handler_exact [OF sample_held_run c [unfolded sample_delegate_call_def]] d show ?thesis
    by (auto simp: ok_some_def ok_err_def sample_delegate_call_def)
qed

end
