(* ===== verification/Floats.thy ===== *)
theory Floats
  imports Main "HOL-Library.Log_Nat" "HOL-Library.Word"
begin

text \<open>
  The machine numbers of the run manager: \<open>f64\<close> with the operations its budget uses, and saturating
  addition of unsigned words.

  Every finite \<open>f64\<close> is an integral multiple of the smallest positive one, \<open>2 ^ -1074\<close>: \<open>Fin k\<close> is the number
  \<open>k * 2 ^ -1074\<close>. The exact sum of two such numbers is again a multiple, so addition is exact on the integers
  followed by the rounding of IEEE 754, to the nearest number of 53 significant bits, ties to even; a result
  of magnitude \<open>2 ^ 1024\<close> or more is an infinity. The two zeros are not told apart: no operation of the
  sources does.
\<close>

section \<open>Binary64\<close>

datatype f64 = Fin int | PosInf | NegInf | NaN

definition round_nat :: "nat \<Rightarrow> nat" where
  "round_nat n =
     (let s = floorlog 2 n - 53; u = 2 ^ s; q = n div u; r = n mod u
      in (if 2 * r < u \<or> 2 * r = u \<and> even q then q else q + 1) * u)"

text \<open>The first magnitude that is not finite.\<close>

definition f64_bound :: nat where
  "f64_bound = 2 ^ 2098"

definition f64_round :: "int \<Rightarrow> f64" where
  "f64_round k =
     (let m = round_nat (nat \<bar>k\<bar>)
      in if f64_bound \<le> m then (if k < 0 then NegInf else PosInf)
         else Fin (if k < 0 then - int m else int m))"

fun f64_neg :: "f64 \<Rightarrow> f64" where
  "f64_neg (Fin k) = Fin (- k)"
| "f64_neg PosInf = NegInf"
| "f64_neg NegInf = PosInf"
| "f64_neg NaN = NaN"

fun f64_add :: "f64 \<Rightarrow> f64 \<Rightarrow> f64" where
  "f64_add (Fin a) (Fin b) = f64_round (a + b)"
| "f64_add NaN y = NaN"
| "f64_add x NaN = NaN"
| "f64_add PosInf NegInf = NaN"
| "f64_add NegInf PosInf = NaN"
| "f64_add PosInf y = PosInf"
| "f64_add NegInf y = NegInf"
| "f64_add x y = y"

definition f64_sub :: "f64 \<Rightarrow> f64 \<Rightarrow> f64" where
  "f64_sub x y = f64_add x (f64_neg y)"

text \<open>\<open><\<close> on \<open>f64\<close>: false when an operand is not a number.\<close>

fun f64_lt :: "f64 \<Rightarrow> f64 \<Rightarrow> bool" where
  "f64_lt (Fin a) (Fin b) \<longleftrightarrow> a < b"
| "f64_lt NegInf (Fin b) \<longleftrightarrow> True"
| "f64_lt NegInf PosInf \<longleftrightarrow> True"
| "f64_lt (Fin a) PosInf \<longleftrightarrow> True"
| "f64_lt _ _ \<longleftrightarrow> False"

text \<open>\<open>f64::min\<close>: the other operand when one is not a number.\<close>

fun f64_min :: "f64 \<Rightarrow> f64 \<Rightarrow> f64" where
  "f64_min NaN y = y"
| "f64_min x NaN = x"
| "f64_min x y = (if f64_lt y x then y else x)"

fun is_finite :: "f64 \<Rightarrow> bool" where
  "is_finite (Fin k) \<longleftrightarrow> True"
| "is_finite _ \<longleftrightarrow> False"

text \<open>The integers that are the significand of a finite \<open>f64\<close>, and the well-formed values.\<close>

definition representable :: "nat \<Rightarrow> bool" where
  "representable n \<longleftrightarrow> n < f64_bound \<and> (let u = 2 ^ (floorlog 2 n - 53) in n mod u = 0)"

fun f64_ok :: "f64 \<Rightarrow> bool" where
  "f64_ok (Fin k) \<longleftrightarrow> representable (nat \<bar>k\<bar>)"
| "f64_ok _ \<longleftrightarrow> True"

text \<open>Amounts of money: not negative and a number.\<close>

fun nonneg :: "f64 \<Rightarrow> bool" where
  "nonneg (Fin k) \<longleftrightarrow> 0 \<le> k"
| "nonneg PosInf \<longleftrightarrow> True"
| "nonneg _ \<longleftrightarrow> False"

section \<open>Lemmas on rounding\<close>

lemma floorlog2_bounds:
  assumes "0 < n"
  shows "2 ^ (floorlog 2 n - 1) \<le> n" "n < 2 ^ floorlog 2 n"
  using floorlog_bounds [of n 2] assms by auto

lemma quotient_bounds:
  fixes n :: nat
  assumes "53 < floorlog 2 n"
  shows "2 ^ 52 \<le> n div 2 ^ (floorlog 2 n - 53)" "n div 2 ^ (floorlog 2 n - 53) < 2 ^ 53"
proof -
  let ?s = "floorlog 2 n - 53"
  have n: "0 < n" using assms by (cases "n = 0") (auto simp: floorlog_def)
  have "floorlog 2 n - 1 = 52 + ?s" "floorlog 2 n = 53 + ?s" using assms by simp_all
  then have e: "(2::nat) ^ (floorlog 2 n - 1) = 2 ^ 52 * 2 ^ ?s" "(2::nat) ^ floorlog 2 n = 2 ^ 53 * 2 ^ ?s"
    by (metis power_add)+
  show "2 ^ 52 \<le> n div 2 ^ ?s"
    using floorlog2_bounds(1) [OF n] unfolding e by (simp add: less_eq_div_iff_mult_less_eq)
  show "n div 2 ^ ?s < 2 ^ 53"
    using floorlog2_bounds(2) [OF n] e(2) by (simp add: div_less_iff_less_mult)
qed

lemma round_nat_bounds:
  "n div 2 ^ (floorlog 2 n - 53) * 2 ^ (floorlog 2 n - 53) \<le> round_nat n"
  "round_nat n \<le> (n div 2 ^ (floorlog 2 n - 53) + 1) * 2 ^ (floorlog 2 n - 53)"
  by (simp_all add: round_nat_def Let_def)

lemma round_nat_exact: "n mod 2 ^ (floorlog 2 n - 53) = 0 \<Longrightarrow> round_nat n = n"
  by (auto simp: round_nat_def Let_def)

lemma representable_mult:
  assumes "q \<le> 2 ^ 53" "q * 2 ^ s < f64_bound"
  shows "representable (q * 2 ^ s)"
proof (cases "q = 0")
  case False
  then have f: "floorlog 2 (q * 2 ^ s) = floorlog 2 q + s" by simp
  show ?thesis
  proof (cases "q = 2 ^ 53")
    case True
    have "floorlog 2 (2 ^ 53 :: nat) = 54" using floorlog_power [of 1 2 53] by (simp add: floorlog_def)
    with True f have "floorlog 2 (q * 2 ^ s) - 53 = Suc s" by simp
    moreover have "(2::nat) ^ Suc s dvd q * 2 ^ s" unfolding True by (simp add: mult_dvd_mono)
    ultimately show ?thesis using assms(2) by (simp add: representable_def Let_def mod_eq_0_iff_dvd)
  next
    case False
    then have "floorlog 2 q \<le> 53" using assms(1) by (simp add: floorlog_le_iff)
    then have "floorlog 2 (q * 2 ^ s) - 53 \<le> s" using f by simp
    then have "(2::nat) ^ (floorlog 2 (q * 2 ^ s) - 53) dvd q * 2 ^ s"
      by (meson dvd_mult le_imp_power_dvd)
    then show ?thesis using assms(2) by (simp add: representable_def Let_def mod_eq_0_iff_dvd)
  qed
qed (use assms(2) in \<open>simp add: representable_def\<close>)

lemma round_nat_representable:
  assumes "round_nat n < f64_bound"
  shows "representable (round_nat n)"
proof -
  define s where "s = floorlog 2 n - 53"
  obtain q where q: "round_nat n = q * 2 ^ s" "q \<le> n div 2 ^ s + 1"
    by (auto simp: round_nat_def Let_def s_def)
  have "n div 2 ^ s < 2 ^ 53"
  proof (cases "53 < floorlog 2 n")
    case True
    then show ?thesis using quotient_bounds(2) by (simp add: s_def)
  next
    case False
    then show ?thesis using floorlog_leD [of 2 n 53] by (simp add: s_def)
  qed
  with q have "q \<le> 2 ^ 53" by simp
  then show ?thesis using representable_mult assms q(1) by metis
qed

lemma round_nat_ge:
  assumes "representable a" "a \<le> n"
  shows "a \<le> round_nat n"
proof -
  let ?s = "floorlog 2 n - 53" and ?t = "floorlog 2 a - 53"
  have le: "?t \<le> ?s" using floorlog_mono [OF assms(2)] by (rule diff_le_mono)
  show ?thesis
  proof (cases "?t = ?s")
    case True
    have "a = a div 2 ^ ?s * 2 ^ ?s"
      using assms(1) True by (auto simp: representable_def Let_def mult.commute)
    also have "\<dots> \<le> n div 2 ^ ?s * 2 ^ ?s" using assms(2) by (simp add: div_le_mono)
    also have "\<dots> \<le> round_nat n" by (rule round_nat_bounds)
    finally show ?thesis .
  next
    case False
    with le have lt: "?t < ?s" by simp
    then have big: "53 < floorlog 2 n" by simp
    have "a < 2 ^ floorlog 2 a" by (rule floorlog_leD) simp_all
    also have "\<dots> \<le> 2 ^ (53 + ?t)" by simp
    also have "\<dots> \<le> 2 ^ (52 + ?s)" using lt by (intro power_increasing) auto
    also have "\<dots> \<le> n div 2 ^ ?s * 2 ^ ?s" using quotient_bounds(1) [OF big] by (simp add: power_add)
    also have "\<dots> \<le> round_nat n" by (rule round_nat_bounds)
    finally show ?thesis by simp
  qed
qed

lemma round_nat_mono:
  assumes "n' \<le> n"
  shows "round_nat n' \<le> round_nat n"
proof -
  let ?s = "floorlog 2 n - 53" and ?t = "floorlog 2 n' - 53"
  have le: "?t \<le> ?s" using floorlog_mono [OF assms] by (rule diff_le_mono)
  show ?thesis
  proof (cases "?t = ?s")
    case True
    let ?u = "(2::nat) ^ ?s"
    have q: "n' div ?u \<le> n div ?u" using assms by (rule div_le_mono)
    show ?thesis
    proof (cases "n' div ?u = n div ?u")
      case same: True
      have "n' mod ?u \<le> n mod ?u" using assms same by (metis add_le_cancel_left mult_div_mod_eq)
      with same True show ?thesis by (simp add: round_nat_def Let_def)
    next
      case False
      with q have "n' div ?u + 1 \<le> n div ?u" by simp
      then have "(n' div ?u + 1) * ?u \<le> n div ?u * ?u" by (rule mult_le_mono1)
      then show ?thesis using round_nat_bounds(2) [of n'] round_nat_bounds(1) [of n] True by simp
    qed
  next
    case False
    with le have lt: "?t < ?s" by simp
    then have big: "53 < floorlog 2 n" by simp
    have "n' div 2 ^ ?t < 2 ^ 53"
    proof (cases "53 < floorlog 2 n'")
      case True
      then show ?thesis by (rule quotient_bounds)
    next
      case False
      then show ?thesis using floorlog_leD [of 2 n' 53] by simp
    qed
    then have "n' div 2 ^ ?t + 1 \<le> 2 ^ 53" by simp
    then have "(n' div 2 ^ ?t + 1) * 2 ^ ?t \<le> 2 ^ 53 * 2 ^ ?t" by (rule mult_le_mono1)
    then have "round_nat n' \<le> 2 ^ (53 + ?t)" using round_nat_bounds(2) [of n'] unfolding power_add by linarith
    also have "\<dots> \<le> 2 ^ (52 + ?s)" using lt by (intro power_increasing) auto
    also have "\<dots> \<le> n div 2 ^ ?s * 2 ^ ?s" using quotient_bounds(1) [OF big] by (simp add: power_add)
    also have "\<dots> \<le> round_nat n" by (rule round_nat_bounds)
    finally show ?thesis .
  qed
qed

section \<open>Lemmas on the operations\<close>

lemma f64_ok_round [simp]: "f64_ok (f64_round k)"
  by (auto simp: f64_round_def Let_def round_nat_representable)

lemma f64_ok_neg [simp]: "f64_ok (f64_neg x) = f64_ok x"
  by (cases x) auto

text \<open>A sum is the result of a rounding, or not finite.\<close>

lemma f64_ok_add [simp]: "f64_ok (f64_add x y)"
  by (cases x; cases y) auto

lemma f64_ok_sub [simp]: "f64_ok (f64_sub x y)"
  by (simp add: f64_sub_def)

lemma f64_ok_min [simp]: "f64_ok x \<Longrightarrow> f64_ok y \<Longrightarrow> f64_ok (f64_min x y)"
  by (cases x; cases y) auto

lemma nonneg_round [simp]: "0 \<le> k \<Longrightarrow> nonneg (f64_round k)"
  by (simp add: f64_round_def Let_def)

lemma nonneg_add [simp]: "nonneg x \<Longrightarrow> nonneg y \<Longrightarrow> nonneg (f64_add x y)"
  by (cases x; cases y) auto

lemma nonneg_min [simp]: "nonneg x \<Longrightarrow> nonneg y \<Longrightarrow> nonneg (f64_min x y)"
  by (cases x; cases y) auto

lemma nonneg_sub_min:
  assumes "nonneg x" "nonneg y" "is_finite x"
  shows "nonneg (f64_sub x (f64_min x y))"
  using assms by (cases x; cases y) (auto simp: f64_sub_def)

lemma nonneg_iff: "nonneg x \<longleftrightarrow> x \<noteq> NaN \<and> \<not> f64_lt x (Fin 0)"
  by (cases x) auto

text \<open>Adding an amount never makes a sum smaller, whatever the rounding.\<close>

lemma f64_add_ge:
  assumes "f64_ok x" "nonneg x" "nonneg y"
  shows "\<not> f64_lt (f64_add x y) x"
proof (cases x)
  case (Fin a)
  show ?thesis
  proof (cases y)
    case (Fin b)
    have "nat a \<le> round_nat (nat (a + b))"
      using assms \<open>x = Fin a\<close> Fin by (intro round_nat_ge) auto
    then show ?thesis using assms \<open>x = Fin a\<close> Fin by (auto simp: f64_round_def Let_def)
  qed (use assms \<open>x = Fin a\<close> in auto)
qed (use assms in \<open>cases y; auto\<close>)+

text \<open>Dropping a summand keeps a sum finite.\<close>

lemma is_finite_round: "0 \<le> k \<Longrightarrow> is_finite (f64_round k) \<longleftrightarrow> round_nat (nat k) < f64_bound"
  by (auto simp: f64_round_def Let_def)

lemma is_finite_round_mono: "0 \<le> k' \<Longrightarrow> k' \<le> k \<Longrightarrow> is_finite (f64_round k) \<Longrightarrow> is_finite (f64_round k')"
  using round_nat_mono [of "nat k'" "nat k"] by (simp add: is_finite_round nat_mono)

lemma f64_round_ge:
  assumes "representable (nat a)" "0 \<le> a" "a \<le> k" "f64_round k = Fin j"
  shows "a \<le> j"
  using assms round_nat_ge [of "nat a" "nat k"] by (auto simp: f64_round_def Let_def nat_mono split: if_splits)

lemma is_finite_add_drop:
  assumes "nonneg e" "nonneg x" "f64_ok x" "nonneg y" "is_finite (f64_add (f64_add e x) y)"
  shows "is_finite (f64_add x y)"
proof -
  obtain b where y: "y = Fin b" using assms(4,5) by (cases y; cases "f64_add e x") auto
  obtain c where c: "f64_add e x = Fin c" using assms(5) y by (cases "f64_add e x") auto
  obtain k where e: "e = Fin k" using assms(1) c by (cases e; cases x) auto
  obtain a where x: "x = Fin a" using assms(2) c e by (cases x) auto
  have "a \<le> c" using f64_round_ge [of a "k + a" c] assms c e x by auto
  then show ?thesis using assms c e x y is_finite_round_mono [of "a + b" "c + b"] by auto
qed

section \<open>Saturating addition\<close>

text \<open>\<open>u64::saturating_add\<close> and \<open>u32::saturating_add\<close>.\<close>

definition sat_add :: "'a::len word \<Rightarrow> 'a word \<Rightarrow> 'a word" where
  "sat_add a b = (if a + b < a then - 1 else a + b)"

lemma unat_less: "unat a < 2 ^ LENGTH('a)" for a :: "'a::len word"
  by (rule unsigned_less)

lemma unat_sat_add: "unat (sat_add a b) = min (2 ^ LENGTH('a) - 1) (unat a + unat b)"
  for a b :: "'a::len word"
proof (cases "unat a + unat b < 2 ^ LENGTH('a)")
  case True
  then have "unat (a + b) = unat a + unat b" by (simp add: unat_word_ariths)
  with True show ?thesis by (auto simp: sat_add_def word_less_nat_alt)
next
  case False
  have lt: "unat a + unat b - 2 ^ LENGTH('a) < unat a"
    using unat_less [of b] False by linarith
  then have "unat a + unat b - 2 ^ LENGTH('a) < 2 ^ LENGTH('a)"
    using unat_less [of a] by linarith
  then have "unat (a + b) = unat a + unat b - 2 ^ LENGTH('a)"
    using False by (simp add: unat_word_ariths le_mod_geq)
  with lt have "sat_add a b = - 1" by (simp add: sat_add_def word_less_nat_alt)
  then show ?thesis using False by (simp add: unsigned_minus_1_eq_mask mask_eq_exp_minus_1)
qed

lemma sat_add_0 [simp]: "sat_add a 0 = a" "sat_add 0 a = a"
  by (simp_all add: sat_add_def)

lemma sat_add_ge: "a \<le> sat_add a b" "b \<le> sat_add a b" for a b :: "'a::len word"
proof -
  have "unat a \<le> 2 ^ LENGTH('a) - 1" "unat b \<le> 2 ^ LENGTH('a) - 1"
    using unat_less [of a] unat_less [of b] by linarith+
  then show "a \<le> sat_add a b" "b \<le> sat_add a b" by (auto simp: word_le_nat_alt unat_sat_add)
qed

end
