(* ===== verification/RunData.thy ===== *)
theory RunData
  imports GrantData Floats
begin

text \<open>
  The data model of the run manager: \<open>shared-types/src/run.rs\<close> (statuses, errors, decisions),
  \<open>run-manager/src/identifier.rs\<close> (identifier rules), \<open>retry.rs\<close> and \<open>wit_types.rs\<close> (configurations), the data
  part of \<open>run.rs\<close> (budget, run, reason texts) and \<open>events.rs\<close> (the eleven \<open>run.*\<close> events).

  Token counts are 64 bit words, round counts and delays 32 bit words, costs are \<open>f64\<close>. An error keeps its
  variant; a message that is formatted from values of the call is abbreviated to its fixed prefix.
\<close>

section \<open>Statuses, decisions and errors (shared-types/src/run.rs)\<close>

datatype task_run_status = Active | Suspended | Paused | Completed | Failed rstr | Cancelled rstr

datatype run_error =
    NotFound rstr
  | AlreadyExists string
  | InvalidState string
  | BudgetExceeded string
  | PermissionDenied string

type_synonym 'a run_result = "run_error + 'a"

datatype round_decision = ContinueAllowed | Blocked string

record metric_sample =
  ms_name :: rstr
  ms_value :: rstr

record round_result =
  rr_summary :: "rstr option"
  rr_metrics :: "metric_sample list"

section \<open>Identifiers (identifier.rs)\<close>

definition run_id_char :: "rchar \<Rightarrow> bool" where
  "run_id_char c \<longleftrightarrow> is_ascii_alphanumeric c \<or> c = 95 \<or> c = 45"

definition validate_run_id :: "rstr \<Rightarrow> string + unit" where
  "validate_run_id s =
     (if s = [] then Inl ''empty''
      else if str_len s > 64 then Inl ''overlong''
      else if \<not> list_all run_id_char s then Inl ''invalid-char''
      else Inr ())"

definition validate_task_id :: "rstr \<Rightarrow> string + unit" where
  "validate_task_id s =
     (if s = [] then Inl ''empty''
      else if str_len s > 128 then Inl ''overlong''
      else if \<not> list_all (\<lambda>c. is_ascii_alphanumeric c \<or> c = 95 \<or> c = 45 \<or> c = 58 \<or> c = 46) s then Inl ''invalid-char''
      else Inr ())"

definition validate_agent_id :: "rstr \<Rightarrow> string + unit" where
  "validate_agent_id s = validate_task_id s"

definition validate_session_id :: "rstr \<Rightarrow> string + unit" where
  "validate_session_id s = validate_run_id s"

definition is_auto_mode :: "rstr \<Rightarrow> bool" where
  "is_auto_mode task_id \<longleftrightarrow> prefix (lit ''auto:'') task_id"

text \<open>\<open>Result::is_ok\<close>.\<close>

fun valid :: "'e + 'a \<Rightarrow> bool" where
  "valid (Inr _) \<longleftrightarrow> True"
| "valid (Inl _) \<longleftrightarrow> False"

section \<open>Retry configuration (retry.rs)\<close>

definition MAX_RETRIES_CAP :: "32 word" where "MAX_RETRIES_CAP = 10"
definition MAX_DELAY_MS_CAP :: "32 word" where "MAX_DELAY_MS_CAP = 300000"

record retry_config =
  rc_llm_max_retries :: "32 word option"
  rc_llm_base_delay_ms :: "32 word option"
  rc_llm_max_delay_ms :: "32 word option"
  rc_tool_max_retries :: "32 word option"
  rc_tool_base_delay_ms :: "32 word option"
  rc_tool_max_delay_ms :: "32 word option"

record retry_config_defaults =
  rd_llm_max_retries :: "32 word"
  rd_llm_base_delay_ms :: "32 word"
  rd_llm_max_delay_ms :: "32 word"
  rd_tool_max_retries :: "32 word"
  rd_tool_base_delay_ms :: "32 word"
  rd_tool_max_delay_ms :: "32 word"

definition clamp_retries :: "32 word \<Rightarrow> 32 word" where
  "clamp_retries n = min n MAX_RETRIES_CAP"

definition clamp_delay :: "32 word \<Rightarrow> 32 word" where
  "clamp_delay n = min n MAX_DELAY_MS_CAP"

text \<open>\<open>Option::unwrap_or\<close>.\<close>

fun unwrap_or :: "'a option \<Rightarrow> 'a \<Rightarrow> 'a" where
  "unwrap_or (Some x) d = x"
| "unwrap_or None d = d"

definition apply_retry_defaults :: "retry_config \<Rightarrow> retry_config_defaults" where
  "apply_retry_defaults c =
     \<lparr>rd_llm_max_retries = clamp_retries (unwrap_or (rc_llm_max_retries c) 3),
      rd_llm_base_delay_ms = clamp_delay (unwrap_or (rc_llm_base_delay_ms c) 1000),
      rd_llm_max_delay_ms = clamp_delay (unwrap_or (rc_llm_max_delay_ms c) 30000),
      rd_tool_max_retries = clamp_retries (unwrap_or (rc_tool_max_retries c) 2),
      rd_tool_base_delay_ms = clamp_delay (unwrap_or (rc_tool_base_delay_ms c) 500),
      rd_tool_max_delay_ms = clamp_delay (unwrap_or (rc_tool_max_delay_ms c) 10000)\<rparr>"

section \<open>Configurations of the interface (wit_types.rs)\<close>

datatype repetition_action = WarnOnly | Terminate | WarnThenTerminate

record repetition_guard_config =
  gc_enabled :: "bool option"
  gc_window_size :: "32 word option"
  gc_repeat_threshold :: "32 word option"
  gc_action :: "rstr option"

record repetition_guard_config_defaults =
  gd_enabled :: bool
  gd_window_size :: "32 word"
  gd_repeat_threshold :: "32 word"
  gd_action :: rstr

definition apply_guard_defaults :: "repetition_guard_config \<Rightarrow> repetition_guard_config_defaults" where
  "apply_guard_defaults c =
     \<lparr>gd_enabled = unwrap_or (gc_enabled c) True,
      gd_window_size = unwrap_or (gc_window_size c) 10,
      gd_repeat_threshold = unwrap_or (gc_repeat_threshold c) 3,
      gd_action = unwrap_or (gc_action c) (lit ''warn-then-terminate'')\<rparr>"

definition action_to_repetition_action :: "rstr \<Rightarrow> repetition_action option" where
  "action_to_repetition_action s =
     (if s = lit ''warn-only'' then Some WarnOnly
      else if s = lit ''terminate'' then Some Terminate
      else if s = lit ''warn-then-terminate'' then Some WarnThenTerminate
      else None)"

text \<open>\<open>RunConfig\<close> and its image \<open>WitRunConfig\<close> have the same fields, and the conversions between them copy
  each; one record stands for both.\<close>

record run_config =
  cfg_token_limit :: "64 word option"
  cfg_cost_usd_limit :: "f64 option"
  cfg_rounds_limit :: "32 word option"
  cfg_retry_overrides :: "retry_config option"
  cfg_repetition_guard :: "repetition_guard_config option"

section \<open>Runs (run.rs)\<close>

record budget_state =
  b_token_used :: "64 word"
  b_token_reserved :: "64 word"
  b_token_limit :: "64 word option"
  b_cost_usd :: f64
  b_cost_reserved :: f64
  b_cost_limit :: "f64 option"
  b_rounds_used :: "32 word"
  b_rounds_limit :: "32 word option"

definition from_config :: "run_config \<Rightarrow> budget_state" where
  "from_config cfg =
     \<lparr>b_token_used = 0, b_token_reserved = 0, b_token_limit = cfg_token_limit cfg,
      b_cost_usd = Fin 0, b_cost_reserved = Fin 0, b_cost_limit = cfg_cost_usd_limit cfg,
      b_rounds_used = 0, b_rounds_limit = cfg_rounds_limit cfg\<rparr>"

record run =
  rn_id :: rstr
  rn_task_id :: rstr
  rn_controller_agent :: rstr
  rn_status :: task_run_status
  rn_root_await :: "rstr option"
  rn_budget :: budget_state
  rn_iteration :: "32 word"
  rn_created_at :: instant
  rn_updated_at :: instant
  rn_pause_pending :: "rstr option"
  rn_cancel_pending :: "rstr option"
  rn_retry_overrides :: "retry_config option"
  rn_repetition_guard :: "repetition_guard_config option"

text \<open>\<open>Run::new\<close>, with the UUID and the clock reading as arguments.\<close>

definition new_run :: "rstr \<Rightarrow> rstr \<Rightarrow> rstr \<Rightarrow> run_config \<Rightarrow> instant \<Rightarrow> run" where
  "new_run uuid task_id controller_agent cfg now =
     \<lparr>rn_id = lit ''run-'' @ uuid, rn_task_id = task_id, rn_controller_agent = controller_agent,
      rn_status = Active, rn_root_await = None, rn_budget = from_config cfg, rn_iteration = 0,
      rn_created_at = now, rn_updated_at = now, rn_pause_pending = None, rn_cancel_pending = None,
      rn_retry_overrides = cfg_retry_overrides cfg, rn_repetition_guard = cfg_repetition_guard cfg\<rparr>"

fun is_live_status :: "task_run_status \<Rightarrow> bool" where
  "is_live_status Active \<longleftrightarrow> True"
| "is_live_status Suspended \<longleftrightarrow> True"
| "is_live_status Paused \<longleftrightarrow> True"
| "is_live_status _ \<longleftrightarrow> False"

fun task_run_status_label :: "task_run_status \<Rightarrow> rstr" where
  "task_run_status_label Active = lit ''active''"
| "task_run_status_label Suspended = lit ''suspended''"
| "task_run_status_label Paused = lit ''paused''"
| "task_run_status_label Completed = lit ''completed''"
| "task_run_status_label (Failed _) = lit ''failed''"
| "task_run_status_label (Cancelled _) = lit ''cancelled''"

definition MAX_REASON_LEN_BYTES :: nat where "MAX_REASON_LEN_BYTES = 256"
definition MAX_RUNS_PER_STORE :: nat where "MAX_RUNS_PER_STORE = 100000"
definition DESCENDANT_CASCADE_RETRY_LIMIT :: nat where "DESCENDANT_CASCADE_RETRY_LIMIT = 2"
definition DESCENDANT_CASCADE_SCAN_LIMIT :: nat where "DESCENDANT_CASCADE_SCAN_LIMIT = 2"
definition CANCEL_RACE_RETRY_LIMIT :: nat where "CANCEL_RACE_RETRY_LIMIT = 3"
definition RESUME_REASONS :: "rstr list" where "RESUME_REASONS = [lit ''await_complete'', lit ''manual'']"

text \<open>Control characters other than the tab become underscores, then the text is cut to 256 bytes.\<close>

definition truncate_reason :: "rstr \<Rightarrow> rstr" where
  "truncate_reason s =
     (let stripped = map (\<lambda>c. if c = 9 \<or> c = 32 \<or> \<not> is_control c then c else 95) s
      in if str_len stripped \<le> MAX_REASON_LEN_BYTES then stripped
         else take_bytes MAX_REASON_LEN_BYTES stripped @ 0x2026 # lit ''[truncated]'')"

section \<open>Events (events.rs)\<close>

text \<open>The id, time and span of an event are fresh at each emission and left out; \<open>re_trace_id\<close> is \<open>None\<close> when
  the trace is a fresh one too. The text of a number is that of the serialiser, a parameter.\<close>

record run_event = event +
  re_run_id :: "rstr option"
  re_task_id :: "rstr option"
  re_trace_id :: "rstr option"
  re_parent_span_id :: "rstr option"

definition base_event :: "string \<Rightarrow> rstr option \<Rightarrow> rstr option \<Rightarrow> rstr \<Rightarrow> json \<Rightarrow> run_event" where
  "base_event ty run_id task_id agent payload =
     \<lparr>ev_agent_id = agent, ev_type = lit ty, ev_payload = payload,
      re_run_id = run_id, re_task_id = task_id, re_trace_id = None, re_parent_span_id = None\<rparr>"

definition run_created_event :: "rstr \<Rightarrow> rstr \<Rightarrow> rstr \<Rightarrow> run_event" where
  "run_created_event run_id task_id agent =
     base_event ''run.created'' (Some run_id) (Some task_id) agent
       (JObject [(lit ''task_id'', JString task_id), (lit ''controller_agent'', JString agent)])"

definition run_reused_event :: "rstr \<Rightarrow> rstr \<Rightarrow> rstr \<Rightarrow> rstr \<Rightarrow> run_event" where
  "run_reused_event run_id task_id agent status =
     base_event ''run.reused'' (Some run_id) (Some task_id) agent
       (JObject [(lit ''task_id'', JString task_id), (lit ''controller_agent'', JString agent),
                 (lit ''status'', JString status)])"

text \<open>\<open>json!\<close> of an \<open>f64\<close>: \<open>null\<close> unless it is finite.\<close>

definition json_f64 :: "(f64 \<Rightarrow> rstr) \<Rightarrow> f64 \<Rightarrow> json" where
  "json_f64 show x = (if is_finite x then JNumber (FloatNum (show x)) else JNull)"

definition run_round_completed_event ::
    "(f64 \<Rightarrow> rstr) \<Rightarrow> rstr \<Rightarrow> rstr \<Rightarrow> rstr \<Rightarrow> 32 word \<Rightarrow> 64 word \<Rightarrow> f64 \<Rightarrow> string \<Rightarrow> rstr option \<Rightarrow> rstr option \<Rightarrow> run_event" where
  "run_round_completed_event show run_id task_id agent iteration token_used cost_usd decision trace parent_span =
     (base_event ''run.round_completed'' (Some run_id) (Some task_id) agent
       (JObject [(lit ''iteration'', JNumber (PosInt (unat iteration))), (lit ''token_used'', JNumber (PosInt (unat token_used))),
                 (lit ''cost_usd'', json_f64 show cost_usd), (lit ''decision'', JString (lit decision))]))
       \<lparr>re_trace_id := trace, re_parent_span_id := parent_span\<rparr>"

definition run_completed_event :: "rstr \<Rightarrow> rstr \<Rightarrow> rstr \<Rightarrow> rstr \<Rightarrow> run_event" where
  "run_completed_event run_id task_id agent outcome =
     base_event ''run.completed'' (Some run_id) (Some task_id) agent (JObject [(lit ''outcome'', JString outcome)])"

definition run_suspended_event :: "rstr \<Rightarrow> rstr \<Rightarrow> rstr \<Rightarrow> rstr \<Rightarrow> run_event" where
  "run_suspended_event run_id task_id agent session =
     base_event ''run.suspended'' (Some run_id) (Some task_id) agent
       (JObject [(lit ''root_await_session_id'', JString session)])"

definition run_resumed_event :: "rstr \<Rightarrow> rstr \<Rightarrow> rstr \<Rightarrow> rstr \<Rightarrow> run_event" where
  "run_resumed_event run_id task_id agent reason =
     base_event ''run.resumed'' (Some run_id) (Some task_id) agent (JObject [(lit ''reason'', JString reason)])"

definition run_paused_event :: "rstr \<Rightarrow> rstr \<Rightarrow> rstr \<Rightarrow> rstr \<Rightarrow> run_event" where
  "run_paused_event run_id task_id agent reason =
     base_event ''run.paused'' (Some run_id) (Some task_id) agent (JObject [(lit ''reason'', JString reason)])"

definition run_failed_event :: "rstr \<Rightarrow> rstr \<Rightarrow> rstr \<Rightarrow> rstr \<Rightarrow> run_event" where
  "run_failed_event run_id task_id agent reason =
     base_event ''run.failed'' (Some run_id) (Some task_id) agent (JObject [(lit ''reason'', JString reason)])"

definition run_cancelled_event :: "rstr \<Rightarrow> rstr \<Rightarrow> rstr \<Rightarrow> rstr \<Rightarrow> run_event" where
  "run_cancelled_event run_id task_id agent reason =
     base_event ''run.cancelled'' (Some run_id) (Some task_id) agent (JObject [(lit ''reason'', JString reason)])"

definition run_interrupted_event :: "rstr \<Rightarrow> rstr \<Rightarrow> rstr \<Rightarrow> rstr \<Rightarrow> run_event" where
  "run_interrupted_event run_id task_id agent reason =
     base_event ''run.interrupted'' (Some run_id) (Some task_id) agent (JObject [(lit ''reason'', JString reason)])"

definition run_repetition_detected_event ::
    "rstr option \<Rightarrow> rstr option \<Rightarrow> rstr \<Rightarrow> string \<Rightarrow> rstr \<Rightarrow> 32 word \<Rightarrow> string \<Rightarrow> run_event" where
  "run_repetition_detected_event run_id task_id agent detection_type details repeat_count action_taken =
     base_event ''run.repetition_detected'' run_id task_id agent
       (JObject [(lit ''detection_type'', JString (lit detection_type)), (lit ''details'', JString details),
                 (lit ''repeat_count'', JNumber (PosInt (unat repeat_count))),
                 (lit ''action_taken'', JString (lit action_taken))])"

section \<open>Lemmas\<close>

lemma str_len_map_control:
  "str_len (map (\<lambda>c. if c = 9 \<or> c = 32 \<or> \<not> is_control c then c else 95) s) \<le> str_len s"
  by (induction s) (auto simp: utf8_len_def is_control_def)

text \<open>A reason never carries a control character into a log line, and is at most 270 bytes long.\<close>

lemma truncate_reason_bounded: "str_len (truncate_reason s) \<le> 270"
proof -
  have "str_len (take_bytes 256 t) \<le> 256" for t by (rule str_len_take_bytes)
  then show ?thesis
    by (auto simp: truncate_reason_def Let_def MAX_REASON_LEN_BYTES_def lit_def utf8_len_def)
qed

lemma set_take_bytes: "set (take_bytes n s) \<subseteq> set s"
  by (induction n s rule: take_bytes.induct) auto

lemma truncate_reason_printable:
  assumes "c \<in> set (truncate_reason s)"
  shows "c = 9 \<or> \<not> is_control c"
proof -
  let ?t = "map (\<lambda>c. if c = 9 \<or> c = 32 \<or> \<not> is_control c then c else 95) s"
  have "c \<in> set ?t \<or> c \<in> set (0x2026 # lit ''[truncated]'')"
    using assms set_take_bytes [of MAX_REASON_LEN_BYTES ?t]
    by (auto simp: truncate_reason_def Let_def split: if_splits)
  then show ?thesis by (auto simp: lit_def is_control_def split: if_splits)
qed

lemma is_live_status_iff: "is_live_status s \<longleftrightarrow> s = Active \<or> s = Suspended \<or> s = Paused"
  by (cases s) auto

end
