(* ===== verification/RunStore.thy ===== *)
theory RunStore
  imports RunData
begin

text \<open>
  \<open>run-manager/src/store.rs\<close>, the rows of the runs with the index of live runs by task, and
  \<open>run-manager/src/persist.rs\<close>, one file per task in the state directory.

  The directory maps file names to entries; its listing order is the order of the list. Writing a file is
  atomic (a temporary file renamed over the target), so a write either replaces the entry or fails before it.
  The YAML text of a run is that of the serialiser, a parameter. The methods of \<open>store.rs\<close> that exist only for
  tests are left out.
\<close>

section \<open>The store (store.rs)\<close>

record run_store =
  rs_runs :: "(rstr, run) hmap"
  rs_live_by_task :: "(rstr, rstr) hmap"

definition run_store_new :: run_store where
  "run_store_new = \<lparr>rs_runs = [], rs_live_by_task = []\<rparr>"

definition store_get :: "run_store \<Rightarrow> rstr \<Rightarrow> run option" where
  "store_get st run_id = map_of (rs_runs st) run_id"

definition find_live_by_task :: "run_store \<Rightarrow> rstr \<Rightarrow> run option" where
  "find_live_by_task st task_id =
     (case map_of (rs_live_by_task st) task_id of
        None \<Rightarrow> None
      | Some run_id \<Rightarrow>
          (case store_get st run_id of
             None \<Rightarrow> None
           | Some r \<Rightarrow> if is_live_status (rn_status r) then Some r else None))"

definition store_insert :: "run \<Rightarrow> run_store \<Rightarrow> run_store" where
  "store_insert r st =
     (let st' = st\<lparr>rs_runs := AList.update (rn_id r) r (rs_runs st)\<rparr>
      in if is_live_status (rn_status r)
         then st'\<lparr>rs_live_by_task := AList.update (rn_task_id r) (rn_id r) (rs_live_by_task st')\<rparr>
         else st')"

text \<open>A mutation through \<open>get_mut\<close>: the row under \<open>run_id\<close> is replaced.\<close>

definition store_put :: "rstr \<Rightarrow> run \<Rightarrow> run_store \<Rightarrow> run_store" where
  "store_put run_id r st = st\<lparr>rs_runs := AList.update run_id r (rs_runs st)\<rparr>"

definition drop_live_by_task :: "rstr \<Rightarrow> run_store \<Rightarrow> run_store" where
  "drop_live_by_task task_id st = st\<lparr>rs_live_by_task := AList.delete task_id (rs_live_by_task st)\<rparr>"

definition runs_len :: "run_store \<Rightarrow> nat" where
  "runs_len st = length (rs_runs st)"

definition store_remove :: "rstr \<Rightarrow> run_store \<Rightarrow> run_store" where
  "store_remove run_id st = st\<lparr>rs_runs := AList.delete run_id (rs_runs st)\<rparr>"

definition store_iter :: "run_store \<Rightarrow> run list" where
  "store_iter st = map snd (rs_runs st)"

section \<open>The state directory (persist.rs)\<close>

definition validate_path_safe :: "rstr \<Rightarrow> string + unit" where
  "validate_path_safe task_id =
     (if task_id = [] then Inl ''empty''
      else if task_id = lit ''.'' \<or> task_id = lit ''..'' then Inl ''reserved''
      else if prefix (lit ''.'') task_id then Inl ''leading-dot''
      else if contains_str (lit ''..'') task_id then Inl ''interior-dotdot''
      else Inr ())"

text \<open>What a name of the directory stands for: a regular file with its text, a regular file whose text cannot
  be read (of the given size), a symbolic link, another kind of file, or an entry without metadata.\<close>

datatype dir_entry = RegularFile rstr | UnreadableFile nat | SymlinkEntry | SpecialFile | NoMetadata

type_synonym state_dir = "(rstr, dir_entry) hmap"

definition target_path :: "rstr \<Rightarrow> rstr" where
  "target_path task_id = task_id @ lit ''.yaml''"

text \<open>\<open>Path::file_stem\<close> and \<open>Path::extension\<close>: the last dot separates, unless the name starts with it.\<close>

definition split_extension :: "rstr \<Rightarrow> rstr \<times> rstr option" where
  "split_extension name =
     (let after = rev (takeWhile (\<lambda>c. c \<noteq> 46) (rev name));
          before = take (length name - length after - 1) name
      in if 46 \<notin> set name \<or> name = lit ''..'' \<or> before = [] then (name, None) else (before, Some after))"

text \<open>\<open>persist\<close>: \<open>io\<close> is the tag of the step that fails, if one does.\<close>

definition persist :: "(run \<Rightarrow> rstr option) \<Rightarrow> string option \<Rightarrow> run \<Rightarrow> state_dir \<Rightarrow> unit run_result \<times> state_dir" where
  "persist to_yaml io r dir =
     (case validate_path_safe (rn_task_id r) of
        Inl _ \<Rightarrow> (Inl (PermissionDenied ''persist-unsafe-task-id''), dir)
      | Inr _ \<Rightarrow>
          (case to_yaml r of
             None \<Rightarrow> (Inl (PermissionDenied ''persist-serialize''), dir)
           | Some body \<Rightarrow>
               (case io of
                  Some step \<Rightarrow> (Inl (PermissionDenied step), dir)
                | None \<Rightarrow> (Inr (), AList.update (target_path (rn_task_id r)) (RegularFile body) dir))))"

definition MAX_LOAD_ROWS :: nat where "MAX_LOAD_ROWS = MAX_RUNS_PER_STORE"
definition MAX_SCAN_ENTRIES :: nat where "MAX_SCAN_ENTRIES = MAX_LOAD_ROWS * 2"
definition MAX_YAML_BODY_BYTES :: nat where "MAX_YAML_BODY_BYTES = 65536"

text \<open>The text of an entry that is a regular file of acceptable size.\<close>

fun read_entry :: "dir_entry \<Rightarrow> rstr option" where
  "read_entry (RegularFile body) = (if str_len body > MAX_YAML_BODY_BYTES then None else Some body)"
| "read_entry _ = None"

definition bad_amount :: "f64 \<Rightarrow> bool" where
  "bad_amount x \<longleftrightarrow> \<not> is_finite x \<or> f64_lt x (Fin 0)"

text \<open>The checks of \<open>load_all\<close> on a parsed row, in order: the name, the identifiers, the amounts, and the
  agreement of status, session and reservations.\<close>

definition row_invariant_ok :: "run \<Rightarrow> bool" where
  "row_invariant_ok r =
     (case (rn_status r, rn_root_await r) of
        (Active, Some _) \<Rightarrow> False
      | (Completed, _) \<Rightarrow> b_token_reserved (rn_budget r) = 0 \<and> b_cost_reserved (rn_budget r) = Fin 0
      | (Failed _, _) \<Rightarrow> b_token_reserved (rn_budget r) = 0 \<and> b_cost_reserved (rn_budget r) = Fin 0
      | (Cancelled _, _) \<Rightarrow> b_token_reserved (rn_budget r) = 0 \<and> b_cost_reserved (rn_budget r) = Fin 0
      | _ \<Rightarrow> True)"

definition row_acceptable :: "rstr \<Rightarrow> run \<Rightarrow> bool" where
  "row_acceptable stem r \<longleftrightarrow>
     stem = rn_task_id r
     \<and> valid (validate_run_id (rn_id r)) \<and> valid (validate_task_id (rn_task_id r))
     \<and> valid (validate_agent_id (rn_controller_agent r))
     \<and> valid (validate_path_safe (rn_task_id r))
     \<and> \<not> bad_amount (b_cost_usd (rn_budget r)) \<and> \<not> bad_amount (b_cost_reserved (rn_budget r))
     \<and> (case b_cost_limit (rn_budget r) of None \<Rightarrow> True | Some limit \<Rightarrow> \<not> bad_amount limit)
     \<and> row_invariant_ok r"

definition load_entry :: "(rstr \<Rightarrow> run option) \<Rightarrow> rstr \<Rightarrow> dir_entry \<Rightarrow> run option" where
  "load_entry from_yaml stem e =
     (case read_entry e of
        None \<Rightarrow> None
      | Some body \<Rightarrow>
          (case from_yaml body of
             None \<Rightarrow> None
           | Some r \<Rightarrow> if row_acceptable stem r then Some r else None))"

fun load_loop ::
    "(rstr \<Rightarrow> run option) \<Rightarrow> state_dir \<Rightarrow> nat \<Rightarrow> run list \<Rightarrow> 32 word \<Rightarrow> run list \<times> 32 word" where
  "load_loop from_yaml [] scanned runs invalid = (runs, invalid)"
| "load_loop from_yaml ((name, e) # es) scanned runs invalid =
     (if scanned + 1 > MAX_SCAN_ENTRIES then (runs, sat_add invalid 1)
      else (case split_extension name of
         (stem, ext) \<Rightarrow>
           if ext \<noteq> Some (lit ''yaml'') then load_loop from_yaml es (scanned + 1) runs invalid
           else (case load_entry from_yaml stem e of
              None \<Rightarrow> load_loop from_yaml es (scanned + 1) runs (sat_add invalid 1)
            | Some r \<Rightarrow>
                if length runs \<ge> MAX_LOAD_ROWS then (runs, sat_add invalid 1)
                else load_loop from_yaml es (scanned + 1) (runs @ [r]) invalid)))"

text \<open>\<open>listing\<close> is the result of \<open>read_dir\<close>, \<open>None\<close> when it fails.\<close>

definition load_all :: "(rstr \<Rightarrow> run option) \<Rightarrow> state_dir option \<Rightarrow> (run list \<times> 32 word) run_result" where
  "load_all from_yaml listing =
     (case listing of
        None \<Rightarrow> Inl (PermissionDenied ''load_all-read_dir'')
      | Some es \<Rightarrow> Inr (load_loop from_yaml es 0 [] 0))"

section \<open>Lemmas\<close>

lemma store_get_insert [simp]: "store_get (store_insert r st) i = (if i = rn_id r then Some r else store_get st i)"
  by (simp add: store_get_def store_insert_def Let_def)

lemma store_get_put [simp]: "store_get (store_put i r st) j = (if j = i then Some r else store_get st j)"
  by (simp add: store_get_def store_put_def)

lemma store_get_drop [simp]: "store_get (drop_live_by_task t st) i = store_get st i"
  by (simp add: store_get_def drop_live_by_task_def)

lemma store_get_remove [simp]: "store_get (store_remove i st) j = (if j = i then None else store_get st j)"
  by (simp add: store_get_def store_remove_def)

lemma live_of_put [simp]: "rs_live_by_task (store_put i r st) = rs_live_by_task st"
  by (simp add: store_put_def)

lemma live_of_remove [simp]: "rs_live_by_task (store_remove i st) = rs_live_by_task st"
  by (simp add: store_remove_def)

lemma live_of_drop [simp]: "map_of (rs_live_by_task (drop_live_by_task t st)) = (map_of (rs_live_by_task st))(t := None)"
  by (simp add: drop_live_by_task_def)

lemma live_of_insert [simp]:
  "map_of (rs_live_by_task (store_insert r st)) =
     (if is_live_status (rn_status r) then (map_of (rs_live_by_task st))(rn_task_id r \<mapsto> rn_id r)
      else map_of (rs_live_by_task st))"
  by (simp add: store_insert_def Let_def)

text \<open>The file of a task is read back under the task's name.\<close>

lemma takeWhile_rev_append:
  assumes "d \<notin> set b"
  shows "takeWhile (\<lambda>c. c \<noteq> d) (rev (a @ d # b)) = rev b"
  using assms by (simp add: takeWhile_append takeWhile_eq_all_conv[THEN iffD2])

lemma split_extension_target:
  assumes "t \<noteq> []"
  shows "split_extension (target_path t) = (t, Some (lit ''yaml''))"
proof -
  have e: "target_path t = t @ 46 # lit ''yaml''" by (simp add: target_path_def lit_def)
  have n: "46 \<notin> set (lit ''yaml'')" by (simp add: lit_def)
  have "rev (takeWhile (\<lambda>c. c \<noteq> 46) (rev (target_path t))) = lit ''yaml''"
    unfolding e using takeWhile_rev_append [OF n, of t] by simp
  moreover have "take (length (target_path t) - length (lit ''yaml'') - 1) (target_path t) = t" by (simp add: e)
  moreover have "target_path t \<noteq> lit ''..''" by (auto simp: target_path_def lit_def append_eq_Cons_conv)
  ultimately show ?thesis using assms by (simp add: split_extension_def Let_def) (simp add: e)
qed

lemma load_loop_sound:
  assumes "load_loop fy es n rs0 k = (rs, k')" "r \<in> set rs"
  shows "r \<in> set rs0 \<or> (\<exists>name e stem. (name, e) \<in> set es \<and> split_extension name = (stem, Some (lit ''yaml''))
     \<and> load_entry fy stem e = Some r)"
  using assms
proof (induction fy es n rs0 k rule: load_loop.induct)
  case (2 fy name e es n rs0 k)
  obtain stem ext where se: "split_extension name = (stem, ext)" by force
  show ?case
  proof (cases "n + 1 > MAX_SCAN_ENTRIES \<or> ext \<noteq> Some (lit ''yaml'')")
    case True
    then show ?thesis using "2.prems" "2.IH"(1) [OF _ se [symmetric]] se by (fastforce split: if_splits)
  next
    case False
    show ?thesis
    proof (cases "load_entry fy stem e")
      case None
      then show ?thesis using "2.prems" "2.IH"(2) [OF _ se [symmetric] _ None] se False by fastforce
    next
      case (Some r')
      show ?thesis
      proof (cases "length rs0 \<ge> MAX_LOAD_ROWS")
        case True
        then show ?thesis using "2.prems" se False Some by simp
      next
        case short: False
        have "load_loop fy es (n + 1) (rs0 @ [r']) k = (rs, k')"
          using "2.prems" se False Some short by simp
        from "2.IH"(3) [OF _ se [symmetric] _ Some short this "2.prems"(2)] False
        show ?thesis using se Some by auto
      qed
    qed
  qed
qed auto

lemma load_loop_bounded:
  "length rs0 \<le> MAX_LOAD_ROWS \<Longrightarrow> load_loop fy es n rs0 k = (rs, k') \<Longrightarrow> length rs \<le> MAX_LOAD_ROWS"
  by (induction fy es n rs0 k rule: load_loop.induct) (auto split: if_splits prod.splits option.splits)

end
