(* ===== verification/RunManager.thy ===== *)
theory RunManager
  imports RunStore
begin

text \<open>
  \<open>run-manager/src/run.rs\<close>: the methods of \<open>RunManager\<close>.

  A method acquires its locks one after the other, and between two critical sections, as well as at each await
  point, other tasks may run. The model keeps those points: a method is a sequence of sections, and before each
  section \<open>release\<close> lets the environment act on the state. What the environment does at the \<open>n\<close>-th such point is
  the function \<open>e_others E n\<close>; the identity gives the sequential behaviour, and a theorem that only asks the
  environment to respect a relation covers every interleaving that does. The other readings of the outside
  world (clock, UUIDs, agent tree, await sessions, file system) are functions of the same counter, so
  each reading may differ from the one before.
\<close>

section \<open>The manager and its environment\<close>

datatype orchestration_error =
    CapabilityDenied rstr
  | InvalidTarget rstr
  | DeadlockDetected rstr
  | SessionLimitExceeded rstr
  | SessionClosed rstr
  | IdleTimeoutExceeded rstr
  | SessionNotFound rstr
  | InvalidRequest rstr
  | Downstream rstr

record session_summary =
  ss_session_id :: rstr
  ss_parent_session_id :: "rstr option"
  ss_agent_id :: rstr
  ss_mode :: rstr
  ss_expected :: "32 word"
  ss_received :: "32 word"
  ss_status :: rstr

record await_tree_summary =
  at_depth :: "32 word"
  at_total_sessions :: "32 word"
  at_pending_replies :: "32 word"
  at_sessions :: "session_summary list"

text \<open>\<open>AwaitSessionRef\<close>: each call may answer differently at each point.\<close>

record await_session_ref =
  ar_exists :: "nat \<Rightarrow> rstr \<Rightarrow> bool"
  ar_walk_tree :: "nat \<Rightarrow> rstr \<Rightarrow> await_tree_summary option"
  ar_close :: "nat \<Rightarrow> rstr \<Rightarrow> rstr \<Rightarrow> orchestration_error option"

text \<open>The parts of \<open>AgentTreeSnapshotData\<close> that the cascade reads.\<close>

record tree_snapshot =
  ts_nodes :: "rstr list"
  ts_children_of :: "(rstr, rstr list) hmap"

text \<open>Calls to other components, in order: the completion and interrupt sinks (agent, run, task, text) and
  \<open>AwaitSessionRef::close\<close> (session, reason).\<close>

datatype notice =
    OnRunCompleted rstr rstr rstr rstr
  | DeliverRunInterrupted rstr rstr rstr rstr
  | CloseSession rstr rstr

record run_manager =
  m_store :: run_store
  m_terminated :: "rstr list"
  m_scoped :: "(rstr, nat) hmap"
  m_dir :: state_dir
  m_bus :: "run_event list"
  m_notices :: "notice list"
  m_tick :: nat

record run_env =
  e_others :: "nat \<Rightarrow> run_manager \<Rightarrow> run_manager"
  e_now :: "nat \<Rightarrow> instant"
  e_uuid :: "nat \<Rightarrow> rstr list \<Rightarrow> rstr"
  e_persister :: bool
  e_io :: "nat \<Rightarrow> string option"
  e_read_dir :: "nat \<Rightarrow> bool"
  e_to_yaml :: "run \<Rightarrow> rstr option"
  e_from_yaml :: "rstr \<Rightarrow> run option"
  e_await :: "await_session_ref option"
  e_tree :: "(nat \<Rightarrow> tree_snapshot) option"
  e_advancer :: "(nat \<Rightarrow> rstr \<Rightarrow> round_result \<Rightarrow> round_decision run_result) option"
  e_cost_tracker :: "(nat \<Rightarrow> rstr \<Rightarrow> f64 option) option"
  e_completion_sink :: bool
  e_interrupt_sink :: bool
  e_show_f64 :: "f64 \<Rightarrow> rstr"

type_synonym 'a rm_op = "run_manager \<Rightarrow> 'a run_result \<times> run_manager"

definition run_manager_new :: "state_dir \<Rightarrow> run_manager" where
  "run_manager_new dir =
     \<lparr>m_store = run_store_new, m_terminated = [], m_scoped = [], m_dir = dir, m_bus = [], m_notices = [], m_tick = 0\<rparr>"

definition release :: "run_env \<Rightarrow> run_manager \<Rightarrow> run_manager" where
  "release E m = (e_others E (m_tick m) m)\<lparr>m_tick := Suc (m_tick m)\<rparr>"

text \<open>One critical section, after others have run.\<close>

definition sect :: "run_env \<Rightarrow> (run_manager \<Rightarrow> 'a \<times> run_manager) \<Rightarrow> run_manager \<Rightarrow> 'a \<times> run_manager" where
  "sect E f m = f (release E m)"

text \<open>A section entered while read guards on the two creation blockers are held: others cannot change those.\<close>

definition guarded_sect :: "run_env \<Rightarrow> (run_manager \<Rightarrow> 'a \<times> run_manager) \<Rightarrow> run_manager \<Rightarrow> 'a \<times> run_manager" where
  "guarded_sect E f m = f ((release E m)\<lparr>m_terminated := m_terminated m, m_scoped := m_scoped m\<rparr>)"

definition now :: "run_env \<Rightarrow> run_manager \<Rightarrow> instant" where
  "now E m = e_now E (m_tick m)"

definition read_store :: "(run_store \<Rightarrow> 'a run_result) \<Rightarrow> 'a rm_op" where
  "read_store f m = (f (m_store m), m)"

text \<open>\<open>store.get(run_id).ok_or(NotFound)\<close> followed by a use of the row.\<close>

definition on_run :: "rstr \<Rightarrow> (run \<Rightarrow> 'a rm_op) \<Rightarrow> 'a rm_op" where
  "on_run run_id f m =
     (case store_get (m_store m) run_id of None \<Rightarrow> (Inl (NotFound run_id), m) | Some r \<Rightarrow> f r m)"

definition put_run :: "rstr \<Rightarrow> run \<Rightarrow> run_manager \<Rightarrow> run_manager" where
  "put_run run_id r m = m\<lparr>m_store := store_put run_id r (m_store m)\<rparr>"

definition finish_run :: "rstr \<Rightarrow> run \<Rightarrow> run_manager \<Rightarrow> run_manager" where
  "finish_run run_id r m = m\<lparr>m_store := drop_live_by_task (rn_task_id r) (store_put run_id r (m_store m))\<rparr>"

definition emit_block :: "run_event \<Rightarrow> unit rm_op" where
  "emit_block ev m = (Inr (), m\<lparr>m_bus := m_bus m @ [ev]\<rparr>)"

definition notify_block :: "notice \<Rightarrow> unit rm_op" where
  "notify_block n m = (Inr (), m\<lparr>m_notices := m_notices m @ [n]\<rparr>)"

definition emit :: "run_env \<Rightarrow> run_event \<Rightarrow> unit rm_op" where
  "emit E ev = sect E (emit_block ev)"

section \<open>Persistence\<close>

definition persist_block :: "run_env \<Rightarrow> run \<Rightarrow> unit rm_op" where
  "persist_block E r m =
     (case persist (e_to_yaml E) (e_io E (m_tick m)) r (m_dir m) of (res, dir) \<Rightarrow> (res, m\<lparr>m_dir := dir\<rparr>))"

definition persist_best_effort :: "run_env \<Rightarrow> run \<Rightarrow> unit rm_op" where
  "persist_best_effort E r m =
     (if e_persister E then (Inr (), snd (sect E (persist_block E r) m)) else (Inr (), m))"

definition persist_snapshot_best_effort :: "run_env \<Rightarrow> rstr \<Rightarrow> unit rm_op" where
  "persist_snapshot_best_effort E run_id =
     (if \<not> e_persister E then sreturn ()
      else sbind (sect E (read_store (\<lambda>st. Inr (store_get st run_id))))
        (\<lambda>snapshot. case snapshot of None \<Rightarrow> sreturn () | Some r \<Rightarrow> persist_best_effort E r))"

section \<open>Descendants of an agent\<close>

definition cycle_error :: run_error where
  "cycle_error = InvalidState ''agent-tree-cycle-in-descendant-cascade''"

text \<open>The recursive visit with its sets of agents in progress and done and the list it builds. The depth that
  is left before the limit is exceeded decreases with each call, which is why the recursion ends on cyclic data too.\<close>

record visit_state =
  v_visiting :: "rstr list"
  v_visited :: "rstr list"
  v_out :: "rstr list"

function visit :: "tree_snapshot \<Rightarrow> rstr \<Rightarrow> nat \<Rightarrow> rstr \<Rightarrow> visit_state \<Rightarrow> visit_state run_result"
  and visit_children :: "tree_snapshot \<Rightarrow> rstr \<Rightarrow> nat \<Rightarrow> rstr list \<Rightarrow> visit_state \<Rightarrow> visit_state run_result" where
  "visit snap top_id left current s =
     (case left of
        0 \<Rightarrow> Inl cycle_error
      | Suc l \<Rightarrow>
         if current \<in> set (v_visited s) then Inr s
         else if current \<in> set (v_visiting s) then Inl cycle_error
         else rbind (visit_children snap top_id l (case map_of (ts_children_of snap) current of None \<Rightarrow> [] | Some cs \<Rightarrow> cs)
                (s\<lparr>v_visiting := current # v_visiting s\<rparr>))
              (\<lambda>s'. Inr \<lparr>v_visiting = removeAll current (v_visiting s'), v_visited = current # v_visited s',
                 v_out = (if current \<noteq> top_id then v_out s' @ [current] else v_out s')\<rparr>))"
| "visit_children snap top_id left [] s = Inr s"
| "visit_children snap top_id left (child # cs) s =
     (if child = top_id then Inl cycle_error
      else rbind (visit snap top_id left child s) (visit_children snap top_id left cs))"
  by pat_completeness auto
termination
  by (relation "measures [\<lambda>x. case x of Inl (_, _, l, _, _) \<Rightarrow> l | Inr (_, _, l, _, _) \<Rightarrow> l,
       \<lambda>x. case x of Inl _ \<Rightarrow> 0 | Inr (_, _, _, cs, _) \<Rightarrow> Suc (length cs)]") auto

definition post_order_descendant_agents :: "tree_snapshot \<Rightarrow> rstr \<Rightarrow> rstr list run_result" where
  "post_order_descendant_agents snap top_id =
     rbind (visit snap top_id (length (ts_nodes snap) + 2) top_id \<lparr>v_visiting = [], v_visited = [], v_out = []\<rparr>)
       (\<lambda>s. Inr (v_out s))"

definition live_run_ids_for_agent_in_store :: "run_store \<Rightarrow> rstr \<Rightarrow> rstr list" where
  "live_run_ids_for_agent_in_store st agent =
     sort (map rn_id (filter (\<lambda>r. rn_controller_agent r = agent \<and> is_live_status (rn_status r)) (store_iter st)))"

definition live_run_ids_for_agents_in_store :: "run_store \<Rightarrow> rstr list \<Rightarrow> rstr list" where
  "live_run_ids_for_agents_in_store st agents = concat (map (live_run_ids_for_agent_in_store st) agents)"

definition live_run_ids_for_agents :: "run_env \<Rightarrow> rstr list \<Rightarrow> rstr list rm_op" where
  "live_run_ids_for_agents E agents =
     sect E (read_store (\<lambda>st. Inr (live_run_ids_for_agents_in_store st agents)))"

definition descendant_agents_for_run :: "run_env \<Rightarrow> rstr \<Rightarrow> rstr list rm_op" where
  "descendant_agents_for_run E root_run_id =
     (case e_tree E of
        None \<Rightarrow> sreturn []
      | Some tree \<Rightarrow>
          sbind (sect E (on_run root_run_id (\<lambda>r. sreturn (rn_controller_agent r))))
            (\<lambda>root_agent. sect E (\<lambda>m. (post_order_descendant_agents (tree (m_tick m)) root_agent, m))))"

definition descendant_run_ids_for_run :: "run_env \<Rightarrow> rstr \<Rightarrow> rstr list rm_op" where
  "descendant_run_ids_for_run E root_run_id =
     sbind (descendant_agents_for_run E root_run_id) (live_run_ids_for_agents E)"

definition preflight_for_agent_in_store :: "run_env \<Rightarrow> rstr \<Rightarrow> unit rm_op" where
  "preflight_for_agent_in_store E root_agent m =
     (case e_tree E of
        None \<Rightarrow> (Inr (), m)
      | Some tree \<Rightarrow> (rbind (post_order_descendant_agents (tree (m_tick m)) root_agent) (\<lambda>_. Inr ()), m))"

definition preflight_for_run :: "run_env \<Rightarrow> rstr \<Rightarrow> unit rm_op" where
  "preflight_for_run E root_run_id = sbind (descendant_agents_for_run E root_run_id) (\<lambda>_. sreturn ())"

section \<open>Blocking the creation of runs\<close>

text \<open>\<open>ScopedRunCreationBlock\<close>: \<open>add_agents\<close> counts each agent once per block, and dropping the block takes
  the counts back.\<close>

fun add_agents_block :: "rstr list \<Rightarrow> rstr list \<Rightarrow> run_manager \<Rightarrow> rstr list \<times> run_manager" where
  "add_agents_block [] blocked m = (blocked, m)"
| "add_agents_block (a # as) blocked m =
     (if a \<in> set blocked then add_agents_block as blocked m
      else add_agents_block as (blocked @ [a])
        (m\<lparr>m_scoped := AList.update a (unwrap_or (map_of (m_scoped m) a) 0 + 1) (m_scoped m)\<rparr>))"

definition add_agents :: "run_env \<Rightarrow> rstr list \<Rightarrow> rstr list \<Rightarrow> run_manager \<Rightarrow> rstr list \<times> run_manager" where
  "add_agents E agents blocked m =
     (if agents = [] then (blocked, m) else sect E (add_agents_block agents blocked) m)"

fun drop_agents_block :: "rstr list \<Rightarrow> run_manager \<Rightarrow> run_manager" where
  "drop_agents_block [] m = m"
| "drop_agents_block (a # as) m = drop_agents_block as
     (case map_of (m_scoped m) a of
        None \<Rightarrow> m
      | Some n \<Rightarrow> if n \<le> 1 then m\<lparr>m_scoped := AList.delete a (m_scoped m)\<rparr>
                   else m\<lparr>m_scoped := AList.update a (n - 1) (m_scoped m)\<rparr>)"

definition drop_creation_block :: "run_env \<Rightarrow> rstr list \<Rightarrow> run_manager \<Rightarrow> run_manager" where
  "drop_creation_block E blocked m =
     (if blocked = [] then m else snd (sect E (\<lambda>m. ((), drop_agents_block blocked m)) m))"

definition block_terminated_block :: "rstr \<Rightarrow> run_manager \<Rightarrow> run_manager" where
  "block_terminated_block agent m = m\<lparr>m_terminated := List.insert agent (m_terminated m)\<rparr>"

section \<open>Cancelling descendants\<close>

text \<open>Reservations are released when a run ends.\<close>

definition drain :: "budget_state \<Rightarrow> budget_state" where
  "drain b = b\<lparr>b_token_reserved := 0, b_cost_reserved := Fin 0\<rparr>"

definition cancelled_row :: "rstr \<Rightarrow> instant \<Rightarrow> run \<Rightarrow> run" where
  "cancelled_row reason t r =
     r\<lparr>rn_status := Cancelled reason, rn_root_await := None, rn_pause_pending := None, rn_cancel_pending := None,
       rn_budget := drain (rn_budget r), rn_updated_at := t\<rparr>"

definition cancelled_event_of :: "run \<Rightarrow> rstr \<Rightarrow> run_event" where
  "cancelled_event_of r reason = run_cancelled_event (rn_id r) (rn_task_id r) (rn_controller_agent r) reason"

text \<open>The outcome of the section that settles a descendant: nothing to do, retry, or the event to emit.\<close>

datatype descendant_step = DescendantGone | DescendantRaced | DescendantSettled run_event

definition settle_descendant_block ::
    "run_env \<Rightarrow> rstr \<Rightarrow> rstr \<Rightarrow> rstr option \<Rightarrow> run_manager \<Rightarrow> descendant_step \<times> run_manager" where
  "settle_descendant_block E run_id reason snapshot m =
     (case store_get (m_store m) run_id of
        None \<Rightarrow> (DescendantGone, m)
      | Some r \<Rightarrow>
          if \<not> is_live_status (rn_status r) then (DescendantGone, m)
          else if rn_root_await r \<noteq> snapshot \<and> rn_root_await r \<noteq> None then (DescendantRaced, m)
          else (DescendantSettled (cancelled_event_of r reason), finish_run run_id (cancelled_row reason (now E m) r) m))"

fun close_answer :: "orchestration_error option \<Rightarrow> unit run_result" where
  "close_answer None = Inr ()"
| "close_answer (Some (SessionNotFound _)) = Inr ()"
| "close_answer (Some (SessionClosed _)) = Inr ()"
| "close_answer (Some _) = Inl (InvalidState ''descendant-cascade-await-close-failed'')"

text \<open>\<open>AwaitSessionRef::close\<close> of a descendant's session: a session that is already gone is not an error.\<close>

definition close_descendant :: "run_env \<Rightarrow> rstr option \<Rightarrow> rstr \<Rightarrow> unit rm_op" where
  "close_descendant E root_await reason =
     (case root_await of
        None \<Rightarrow> sreturn ()
      | Some sid \<Rightarrow>
          (case e_await E of
             None \<Rightarrow> sfail (PermissionDenied ''await-session-ref-not-configured'')
           | Some ar \<Rightarrow>
               sbind (sect E (notify_block (CloseSession sid reason)))
                 (\<lambda>_ m. (close_answer (ar_close ar (m_tick m) sid reason), m))))"

definition descendant_snapshot :: "rstr \<Rightarrow> run_store \<Rightarrow> rstr option option run_result" where
  "descendant_snapshot run_id st =
     Inr (case store_get st run_id of
            None \<Rightarrow> None
          | Some r \<Rightarrow> if is_live_status (rn_status r) then Some (rn_root_await r) else None)"

fun cancel_descendant_loop :: "run_env \<Rightarrow> rstr \<Rightarrow> rstr \<Rightarrow> nat \<Rightarrow> unit rm_op" where
  "cancel_descendant_loop E run_id reason retries_left m =
     sbind (sect E (read_store (descendant_snapshot run_id)))
       (\<lambda>snap. case snap of
          None \<Rightarrow> sreturn ()
        | Some root_await \<Rightarrow>
            sbind (close_descendant E root_await reason)
              (\<lambda>_ m. case sect E (settle_descendant_block E run_id reason root_await) m of
                 (DescendantGone, m') \<Rightarrow> (Inr (), m')
               | (DescendantSettled ev, m') \<Rightarrow>
                   sbind (persist_snapshot_best_effort E run_id) (\<lambda>_. emit E ev) m'
               | (DescendantRaced, m') \<Rightarrow>
                   (case retries_left of
                      0 \<Rightarrow> (Inl (InvalidState ''descendant-cascade-raced''), m')
                    | Suc n \<Rightarrow> cancel_descendant_loop E run_id reason n m'))) m"

definition cancel_descendant_run :: "run_env \<Rightarrow> rstr \<Rightarrow> rstr \<Rightarrow> unit rm_op" where
  "cancel_descendant_run E run_id reason = cancel_descendant_loop E run_id reason DESCENDANT_CASCADE_RETRY_LIMIT"

text \<open>One pass over the runs found; the first error is remembered and the pass goes on.\<close>

fun cancel_descendants :: "run_env \<Rightarrow> rstr \<Rightarrow> rstr list \<Rightarrow> run_error option \<Rightarrow> run_manager \<Rightarrow> run_error option \<times> run_manager" where
  "cancel_descendants E reason [] err m = (err, m)"
| "cancel_descendants E reason (i # is) err m =
     (case cancel_descendant_run E i reason m of
        (Inr _, m') \<Rightarrow> cancel_descendants E reason is err m'
      | (Inl e, m') \<Rightarrow> cancel_descendants E reason is (case err of None \<Rightarrow> Some e | Some _ \<Rightarrow> err) m')"

fun cascade_scan ::
    "run_env \<Rightarrow> rstr \<Rightarrow> rstr \<Rightarrow> nat \<Rightarrow> rstr list \<Rightarrow> run_error option \<Rightarrow> run_manager \<Rightarrow> (unit run_result \<times> rstr list) \<times> run_manager" where
  "cascade_scan E top_id reason 0 blocked last_error m =
     (case last_error of
        Some e \<Rightarrow> ((Inl e, blocked), m)
      | None \<Rightarrow>
          (case descendant_run_ids_for_run E top_id m of
             (Inl e, m1) \<Rightarrow> ((Inl e, blocked), m1)
           | (Inr ids, m1) \<Rightarrow>
               ((if ids = [] then Inr () else Inl (InvalidState ''descendant-cascade-raced''), blocked), m1)))"
| "cascade_scan E top_id reason (Suc n) blocked last_error m =
     (case descendant_agents_for_run E top_id m of
        (Inl e, m1) \<Rightarrow> ((Inl e, blocked), m1)
      | (Inr agents, m1) \<Rightarrow>
          (case add_agents E agents blocked m1 of
             (blocked', m2) \<Rightarrow>
               (case live_run_ids_for_agents E agents m2 of
                  (Inl e, m3) \<Rightarrow> ((Inl e, blocked'), m3)
                | (Inr ids, m3) \<Rightarrow>
                    if ids = [] then ((Inr (), blocked'), m3)
                    else (case cancel_descendants E reason ids None m3 of
                       (err, m4) \<Rightarrow> cascade_scan E top_id reason n blocked' err m4))))"

definition cascade_descendants_for_run :: "run_env \<Rightarrow> rstr \<Rightarrow> rstr \<Rightarrow> unit rm_op" where
  "cascade_descendants_for_run E top_id reason m =
     (case cascade_scan E top_id reason (Suc DESCENDANT_CASCADE_SCAN_LIMIT) [] None m of
        ((res, blocked), m1) \<Rightarrow> (res, drop_creation_block E blocked m1))"

section \<open>Reading accessors\<close>

definition task_owner_if_live :: "run_env \<Rightarrow> rstr \<Rightarrow> rstr option rm_op" where
  "task_owner_if_live E task_id =
     sect E (read_store (\<lambda>st. Inr (map_option rn_controller_agent (find_live_by_task st task_id))))"

definition controller_agent_of :: "run_env \<Rightarrow> rstr \<Rightarrow> rstr option rm_op" where
  "controller_agent_of E run_id =
     sect E (read_store (\<lambda>st. Inr (map_option rn_controller_agent (store_get st run_id))))"

definition retry_overrides :: "run_env \<Rightarrow> rstr \<Rightarrow> retry_config option rm_op" where
  "retry_overrides E run_id =
     sect E (read_store (\<lambda>st. Inr (Option.bind (store_get st run_id) rn_retry_overrides)))"

definition repetition_guard_overrides :: "run_env \<Rightarrow> rstr \<Rightarrow> repetition_guard_config option rm_op" where
  "repetition_guard_overrides E run_id =
     sect E (read_store (\<lambda>st. Inr (Option.bind (store_get st run_id) rn_repetition_guard)))"

definition list_runs :: "run_env \<Rightarrow> run list rm_op" where
  "list_runs E = sect E (read_store (\<lambda>st. Inr (store_iter st)))"

record wit_run_state =
  ws_task_id :: rstr
  ws_controller_agent :: rstr
  ws_status :: task_run_status
  ws_iteration :: "32 word"
  ws_root_await :: "rstr option"
  ws_await_tree :: "await_tree_summary option"
  ws_token_used :: "64 word"
  ws_token_limit :: "64 word option"
  ws_cost_usd :: f64
  ws_cost_usd_limit :: "f64 option"
  ws_rounds_limit :: "32 word option"

definition run_status_block :: "run_env \<Rightarrow> rstr \<Rightarrow> wit_run_state rm_op" where
  "run_status_block E run_id = on_run run_id (\<lambda>r m.
     let await_tree = (case (rn_status r, rn_root_await r, e_await E) of
            (Suspended, Some sid, Some walker) \<Rightarrow>
              if valid (validate_session_id sid) then ar_walk_tree walker (m_tick m) sid else None
          | _ \<Rightarrow> None)
     in (Inr \<lparr>ws_task_id = rn_task_id r, ws_controller_agent = rn_controller_agent r, ws_status = rn_status r,
           ws_iteration = rn_iteration r, ws_root_await = rn_root_await r, ws_await_tree = await_tree,
           ws_token_used = b_token_used (rn_budget r), ws_token_limit = b_token_limit (rn_budget r),
           ws_cost_usd = b_cost_usd (rn_budget r), ws_cost_usd_limit = b_cost_limit (rn_budget r),
           ws_rounds_limit = b_rounds_limit (rn_budget r)\<rparr>, m))"

definition run_status :: "run_env \<Rightarrow> rstr \<Rightarrow> wit_run_state rm_op" where
  "run_status E run_id = sect E (run_status_block E run_id)"

text \<open>\<open>AgentRunResolver::resolve\<close>: the single live run of an agent; none when there are several.\<close>

definition resolve_in_store :: "run_store \<Rightarrow> rstr \<Rightarrow> rstr option \<times> rstr option" where
  "resolve_in_store st agent =
     (case filter (\<lambda>r. rn_controller_agent r = agent \<and> is_live_status (rn_status r)) (store_iter st) of
        [r] \<Rightarrow> (Some (rn_id r), Some (rn_task_id r))
      | _ \<Rightarrow> (None, None))"

definition resolve_run :: "run_env \<Rightarrow> rstr \<Rightarrow> (rstr option \<times> rstr option) rm_op" where
  "resolve_run E agent = sect E (read_store (\<lambda>st. Inr (resolve_in_store st agent)))"

section \<open>Creating and reusing runs\<close>

definition creation_blocked :: "run_manager \<Rightarrow> rstr \<Rightarrow> bool" where
  "creation_blocked m agent \<longleftrightarrow>
     agent \<in> set (m_terminated m) \<or> 0 < unwrap_or (map_of (m_scoped m) agent) 0"

definition ensure_run_checks :: "run_env \<Rightarrow> rstr \<Rightarrow> rstr \<Rightarrow> run_config \<Rightarrow> unit run_result" where
  "ensure_run_checks E task_id agent cfg =
     (if \<not> valid (validate_task_id task_id) then Inl (PermissionDenied ''invalid-task-id'')
      else if \<not> valid (validate_agent_id agent) then Inl (PermissionDenied ''invalid-controller-agent'')
      else if e_persister E \<and> \<not> valid (validate_path_safe task_id) then Inl (PermissionDenied ''persist-unsafe-task-id'')
      else (case cfg_cost_usd_limit cfg of
         Some limit \<Rightarrow> if bad_amount limit then Inl (PermissionDenied ''invalid-cost-usd-limit'') else Inr ()
       | None \<Rightarrow> Inr ()))"

text \<open>The section under \<open>store.write()\<close>: the id, the event, and the row when it is a new one.\<close>

definition ensure_block ::
    "run_env \<Rightarrow> rstr \<Rightarrow> rstr \<Rightarrow> run_config \<Rightarrow> bool \<Rightarrow> (rstr \<times> run_event \<times> run option) rm_op" where
  "ensure_block E task_id agent cfg strict m =
     (case find_live_by_task (m_store m) task_id of
        Some r \<Rightarrow>
          if strict \<and> rn_controller_agent r \<noteq> agent
          then (Inl (PermissionDenied ''task-owned-by-different-agent''), m)
          else (Inr (rn_id r, run_reused_event (rn_id r) task_id agent (task_run_status_label (rn_status r)), None), m)
      | None \<Rightarrow>
          if runs_len (m_store m) \<ge> MAX_RUNS_PER_STORE
          then (Inl (PermissionDenied ''run-store-cap-reached''), m)
          else (let r = new_run (e_uuid E (m_tick m) (map fst (rs_runs (m_store m)))) task_id agent cfg (now E m)
                in (Inr (rn_id r, run_created_event (rn_id r) task_id agent, Some r),
                    m\<lparr>m_store := store_insert r (m_store m)\<rparr>)))"

definition rollback_block :: "run \<Rightarrow> run_manager \<Rightarrow> run_manager" where
  "rollback_block r m = m\<lparr>m_store := store_remove (rn_id r) (drop_live_by_task (rn_task_id r) (m_store m))\<rparr>"

text \<open>The strict write of a new row; when it fails the insertion is taken back.\<close>

definition persist_new :: "run_env \<Rightarrow> run option \<Rightarrow> unit rm_op" where
  "persist_new E new_row m =
     (case new_row of
        None \<Rightarrow> (Inr (), m)
      | Some r \<Rightarrow>
          if \<not> e_persister E then (Inr (), m)
          else (case guarded_sect E (persist_block E r) m of
             (Inr _, m1) \<Rightarrow> (Inr (), m1)
           | (Inl e, m1) \<Rightarrow> (Inl e, snd (guarded_sect E (\<lambda>m. ((), rollback_block r m)) m1))))"

definition ensure_run_inner :: "run_env \<Rightarrow> rstr \<Rightarrow> rstr \<Rightarrow> run_config \<Rightarrow> bool \<Rightarrow> rstr rm_op" where
  "ensure_run_inner E task_id agent cfg strict =
     sbind (slift (ensure_run_checks E task_id agent cfg)) (\<lambda>_.
     sbind (sect E (\<lambda>m. (if creation_blocked m agent then Inl (PermissionDenied ''run-creation-blocked-for-terminating-agent'')
                            else Inr (), m))) (\<lambda>_.
     sbind (guarded_sect E (ensure_block E task_id agent cfg strict)) (\<lambda>(run_id, ev, new_row).
     sbind (persist_new E new_row) (\<lambda>_.
     sbind (emit E ev) (\<lambda>_. sreturn run_id)))))"

definition ensure_run :: "run_env \<Rightarrow> rstr \<Rightarrow> rstr \<Rightarrow> run_config \<Rightarrow> rstr rm_op" where
  "ensure_run E task_id agent cfg = ensure_run_inner E task_id agent cfg False"

definition ensure_run_strict :: "run_env \<Rightarrow> rstr \<Rightarrow> rstr \<Rightarrow> run_config \<Rightarrow> rstr rm_op" where
  "ensure_run_strict E task_id agent cfg = ensure_run_inner E task_id agent cfg True"

section \<open>Rounds\<close>

text \<open>The row after a round, before any pending request is settled, and whether the limit is exceeded.\<close>

definition advance_row :: "instant \<Rightarrow> run \<Rightarrow> run" where
  "advance_row t r =
     (let used = sat_add (b_rounds_used (rn_budget r)) 1
      in r\<lparr>rn_budget := (rn_budget r)\<lparr>b_rounds_used := used\<rparr>, rn_iteration := used, rn_updated_at := t\<rparr>)"

definition rounds_blocked :: "run \<Rightarrow> bool" where
  "rounds_blocked r =
     (case b_rounds_limit (rn_budget r) of None \<Rightarrow> False | Some limit \<Rightarrow> b_rounds_used (rn_budget r) > limit)"

definition decision_label :: "run \<Rightarrow> string" where
  "decision_label r =
     (if rounds_blocked r then ''blocked:rounds-exceeded''
      else if rn_cancel_pending r \<noteq> None then ''blocked:cancel-pending''
      else ''continue-allowed'')"

definition round_event_of :: "run_env \<Rightarrow> run \<Rightarrow> rstr option \<Rightarrow> rstr option \<Rightarrow> run_event" where
  "round_event_of E r trace parent_span =
     run_round_completed_event (e_show_f64 E) (rn_id r) (rn_task_id r) (rn_controller_agent r) (rn_iteration r)
       (b_token_used (rn_budget r)) (b_cost_usd (rn_budget r)) (decision_label r) trace parent_span"

definition settled_cancel :: "rstr \<Rightarrow> run \<Rightarrow> run" where
  "settled_cancel reason r =
     r\<lparr>rn_status := Cancelled reason, rn_cancel_pending := None, rn_pause_pending := None,
       rn_budget := drain (rn_budget r)\<rparr>"

definition settled_pause :: "run \<Rightarrow> run" where
  "settled_pause r = r\<lparr>rn_status := Paused, rn_pause_pending := None\<rparr>"

definition over_limit_decision :: "run \<Rightarrow> round_decision" where
  "over_limit_decision r = (if rounds_blocked r then Blocked ''rounds-exceeded'' else ContinueAllowed)"

record round_effect =
  fx_round_event :: run_event
  fx_settle_event :: "run_event option"
  fx_cascade_reason :: "rstr option"
  fx_outcome :: round_decision

definition round_mutation :: "run_env \<Rightarrow> rstr \<Rightarrow> rstr option \<Rightarrow> rstr option \<Rightarrow> run \<Rightarrow> round_effect rm_op" where
  "round_mutation E run_id trace parent_span r0 m =
     (let r = advance_row (now E m) r0; ev = round_event_of E r trace parent_span in
      case rn_cancel_pending r of
        Some pending \<Rightarrow>
          (let reason = truncate_reason pending in
           (Inr \<lparr>fx_round_event = ev, fx_settle_event = Some (cancelled_event_of r reason),
              fx_cascade_reason = Some reason, fx_outcome = Blocked ''cancel-pending''\<rparr>,
            finish_run run_id (settled_cancel reason r) m))
      | None \<Rightarrow>
          (case rn_pause_pending r of
             Some pending \<Rightarrow>
               (let reason = truncate_reason pending in
                (Inr \<lparr>fx_round_event = ev,
                   fx_settle_event = Some (run_paused_event (rn_id r) (rn_task_id r) (rn_controller_agent r) reason),
                   fx_cascade_reason = Some reason, fx_outcome = over_limit_decision r\<rparr>,
                 put_run run_id (settled_pause r) m))
           | None \<Rightarrow>
               (Inr \<lparr>fx_round_event = ev, fx_settle_event = None, fx_cascade_reason = None,
                  fx_outcome = over_limit_decision r\<rparr>,
                put_run run_id r m)))"

definition round_block :: "run_env \<Rightarrow> rstr \<Rightarrow> rstr option \<Rightarrow> rstr option \<Rightarrow> round_effect rm_op" where
  "round_block E run_id trace parent_span = on_run run_id (\<lambda>r.
     if rn_status r \<noteq> Active then sfail (InvalidState ''complete-round-on-non-active'')
     else sbind (if rn_pause_pending r \<noteq> None \<or> rn_cancel_pending r \<noteq> None
                 then preflight_for_agent_in_store E (rn_controller_agent r) else sreturn ())
            (\<lambda>_. round_mutation E run_id trace parent_span r))"

definition emit_opt :: "run_env \<Rightarrow> run_event option \<Rightarrow> unit rm_op" where
  "emit_opt E ev = (case ev of None \<Rightarrow> sreturn () | Some e \<Rightarrow> emit E e)"

definition normal_round :: "run_env \<Rightarrow> rstr \<Rightarrow> rstr option \<Rightarrow> rstr option \<Rightarrow> round_decision rm_op" where
  "normal_round E run_id trace parent_span =
     sbind (sect E (round_block E run_id trace parent_span)) (\<lambda>fx.
     sbind (persist_snapshot_best_effort E run_id) (\<lambda>_.
     sbind (emit E (fx_round_event fx)) (\<lambda>_.
     sbind (emit_opt E (fx_settle_event fx)) (\<lambda>_.
     sbind (case fx_cascade_reason fx of None \<Rightarrow> sreturn () | Some reason \<Rightarrow> cascade_descendants_for_run E run_id reason) (\<lambda>_.
     sreturn (fx_outcome fx))))))"

definition auto_round :: "run_env \<Rightarrow> rstr \<Rightarrow> round_result \<Rightarrow> round_decision rm_op" where
  "auto_round E run_id result =
     (case e_advancer E of
        None \<Rightarrow> sfail (PermissionDenied ''auto-mode-requires-round-advancer'')
      | Some advance \<Rightarrow>
          sbind (sect E (\<lambda>m. (advance (m_tick m) run_id result, m))) (\<lambda>_.
          sect E (on_run run_id (\<lambda>r. if rn_status r \<noteq> Active then sfail (InvalidState ''complete-round-raced-from-active'')
                                       else sreturn ContinueAllowed))))"

definition complete_round_with_trace ::
    "run_env \<Rightarrow> rstr \<Rightarrow> round_result \<Rightarrow> rstr option \<Rightarrow> rstr option \<Rightarrow> round_decision rm_op" where
  "complete_round_with_trace E run_id result trace parent_span =
     sbind (sect E (on_run run_id sreturn)) (\<lambda>r.
       if rn_status r \<noteq> Active then sfail (InvalidState ''complete-round-on-non-active'')
       else if is_auto_mode (rn_task_id r) then auto_round E run_id result
       else sbind (if rn_pause_pending r \<noteq> None \<or> rn_cancel_pending r \<noteq> None then preflight_for_run E run_id else sreturn ())
              (\<lambda>_. normal_round E run_id trace parent_span))"

definition complete_round :: "run_env \<Rightarrow> rstr \<Rightarrow> round_result \<Rightarrow> round_decision rm_op" where
  "complete_round E run_id result = complete_round_with_trace E run_id result None None"

section \<open>Ending a run\<close>

definition ended_row :: "task_run_status \<Rightarrow> instant \<Rightarrow> run \<Rightarrow> run" where
  "ended_row status t r =
     r\<lparr>rn_status := status, rn_updated_at := t, rn_budget := drain (rn_budget r), rn_pause_pending := None,
       rn_cancel_pending := None\<rparr>"

definition end_block :: "run_env \<Rightarrow> rstr \<Rightarrow> task_run_status \<Rightarrow> string \<Rightarrow> run rm_op" where
  "end_block E run_id status err = on_run run_id (\<lambda>r m.
     if rn_status r \<noteq> Active then (Inl (InvalidState err), m)
     else (let r' = ended_row status (now E m) r in (Inr r', finish_run run_id r' m)))"

definition complete_run :: "run_env \<Rightarrow> rstr \<Rightarrow> rstr \<Rightarrow> unit rm_op" where
  "complete_run E run_id outcome0 =
     (let outcome = truncate_reason outcome0 in
      sbind (sect E (end_block E run_id Completed ''complete-run-on-non-active'')) (\<lambda>r.
      sbind (persist_snapshot_best_effort E (rn_id r)) (\<lambda>_.
      sbind (emit E (run_completed_event (rn_id r) (rn_task_id r) (rn_controller_agent r) outcome)) (\<lambda>_.
      if e_completion_sink E
      then sect E (notify_block (OnRunCompleted (rn_controller_agent r) (rn_id r) (rn_task_id r) outcome))
      else sreturn ()))))"

definition fail_run :: "run_env \<Rightarrow> rstr \<Rightarrow> rstr \<Rightarrow> unit rm_op" where
  "fail_run E run_id reason0 =
     (let reason = truncate_reason reason0 in
      sbind (sect E (end_block E run_id (Failed reason) ''fail-run-on-non-active'')) (\<lambda>r.
      sbind (persist_snapshot_best_effort E (rn_id r)) (\<lambda>_.
      emit E (run_failed_event (rn_id r) (rn_task_id r) (rn_controller_agent r) reason))))"

section \<open>Pausing\<close>

text \<open>Closing the session of a suspended run: whatever it answers, the method goes on.\<close>

definition close_session :: "run_env \<Rightarrow> rstr option \<Rightarrow> rstr \<Rightarrow> unit rm_op" where
  "close_session E root_await reason =
     (case e_await E of
        None \<Rightarrow> sfail (PermissionDenied ''await-session-ref-not-configured'')
      | Some ar \<Rightarrow>
          (case root_await of
             None \<Rightarrow> sreturn ()
           | Some sid \<Rightarrow> sect E (notify_block (CloseSession sid reason))))"

definition paused_row :: "instant \<Rightarrow> run \<Rightarrow> run" where
  "paused_row t r =
     r\<lparr>rn_status := Paused, rn_root_await := None, rn_pause_pending := None, rn_updated_at := t\<rparr>"

text \<open>The second section of the suspended branch: it acts only if status and session are those of the first.\<close>

definition pause_settle_block :: "run_env \<Rightarrow> rstr \<Rightarrow> rstr \<Rightarrow> rstr option \<Rightarrow> run_event option rm_op" where
  "pause_settle_block E run_id reason snapshot = on_run run_id (\<lambda>r m.
     if rn_status r \<noteq> Suspended \<or> rn_root_await r \<noteq> snapshot then (Inr None, m)
     else (Inr (Some (run_paused_event (rn_id r) (rn_task_id r) (rn_controller_agent r) reason)),
           put_run run_id (paused_row (now E m) r) m))"

text \<open>The active branch only records the request; the next round settles it. The answer tells whether the row
  was changed.\<close>

definition pause_arm_block :: "run_env \<Rightarrow> rstr \<Rightarrow> rstr \<Rightarrow> rstr option \<Rightarrow> bool rm_op" where
  "pause_arm_block E run_id reason snapshot = on_run run_id (\<lambda>r m.
     if rn_status r \<noteq> Active then (Inl (InvalidState ''pause-run-raced-from-active''), m)
     else if rn_cancel_pending r \<noteq> None then (Inl (InvalidState ''cancel-pending-already-set''), m)
     else if snapshot \<noteq> None then (Inl (InvalidState ''active-with-root-await-invariant-violation''), m)
     else if rn_pause_pending r \<noteq> None then (Inr False, m)
     else (Inr True, put_run run_id (r\<lparr>rn_pause_pending := Some reason, rn_updated_at := now E m\<rparr>) m))"

definition pause_run :: "run_env \<Rightarrow> rstr \<Rightarrow> rstr \<Rightarrow> unit rm_op" where
  "pause_run E run_id reason0 =
     (let reason = truncate_reason reason0 in
      sbind (sect E (on_run run_id (\<lambda>r. sreturn (rn_status r, rn_root_await r)))) (\<lambda>(status, root_await).
        case status of
          Suspended \<Rightarrow>
            sbind (preflight_for_run E run_id) (\<lambda>_.
            sbind (close_session E root_await reason) (\<lambda>_.
            sbind (sect E (pause_settle_block E run_id reason root_await)) (\<lambda>settled.
            case settled of
              None \<Rightarrow> sreturn ()
            | Some ev \<Rightarrow>
                sbind (persist_snapshot_best_effort E run_id) (\<lambda>_.
                sbind (emit E ev) (\<lambda>_. cascade_descendants_for_run E run_id reason)))))
        | Paused \<Rightarrow> cascade_descendants_for_run E run_id reason
        | Active \<Rightarrow>
            sbind (sect E (pause_arm_block E run_id reason root_await)) (\<lambda>armed.
            if armed then persist_snapshot_best_effort E run_id else sreturn ())
        | _ \<Rightarrow> sfail (InvalidState ''pause-run-on'')))"

section \<open>Cancelling\<close>

datatype cancel_recheck = CancelSettled run_event | RacedTerminal | RacedLive task_run_status "rstr option"

definition cancel_suspended_block :: "run_env \<Rightarrow> rstr \<Rightarrow> rstr \<Rightarrow> rstr option \<Rightarrow> cancel_recheck rm_op" where
  "cancel_suspended_block E run_id reason snapshot = on_run run_id (\<lambda>r m.
     if rn_status r \<noteq> Suspended \<or> rn_root_await r \<noteq> snapshot
     then (Inr (if is_live_status (rn_status r) then RacedLive (rn_status r) (rn_root_await r) else RacedTerminal), m)
     else (Inr (CancelSettled (cancelled_event_of r reason)), finish_run run_id (cancelled_row reason (now E m) r) m))"

definition cancelled_paused_row :: "rstr \<Rightarrow> instant \<Rightarrow> run \<Rightarrow> run" where
  "cancelled_paused_row reason t r =
     r\<lparr>rn_status := Cancelled reason, rn_pause_pending := None, rn_cancel_pending := None,
       rn_budget := drain (rn_budget r), rn_updated_at := t\<rparr>"

definition cancel_paused_block :: "run_env \<Rightarrow> rstr \<Rightarrow> rstr \<Rightarrow> cancel_recheck rm_op" where
  "cancel_paused_block E run_id reason = on_run run_id (\<lambda>r m.
     if rn_status r \<noteq> Paused
     then (Inr (if is_live_status (rn_status r) then RacedLive (rn_status r) (rn_root_await r) else RacedTerminal), m)
     else (Inr (CancelSettled (cancelled_event_of r reason)),
           finish_run run_id (cancelled_paused_row reason (now E m) r) m))"

definition cancel_arm_block :: "run_env \<Rightarrow> rstr \<Rightarrow> rstr \<Rightarrow> bool rm_op" where
  "cancel_arm_block E run_id reason = on_run run_id (\<lambda>r m.
     if rn_status r \<noteq> Active then (Inl (InvalidState ''cancel-run-raced-from-active''), m)
     else if rn_cancel_pending r \<noteq> None then (Inr False, m)
     else (Inr True, put_run run_id
             (r\<lparr>rn_pause_pending := None, rn_cancel_pending := Some reason, rn_updated_at := now E m\<rparr>) m))"

definition after_settle :: "run_env \<Rightarrow> rstr \<Rightarrow> rstr \<Rightarrow> run_event \<Rightarrow> unit rm_op" where
  "after_settle E run_id reason ev =
     sbind (persist_snapshot_best_effort E run_id) (\<lambda>_.
     sbind (emit E ev) (\<lambda>_. cascade_descendants_for_run E run_id reason))"

fun cancel_loop :: "run_env \<Rightarrow> rstr \<Rightarrow> rstr \<Rightarrow> nat \<Rightarrow> task_run_status \<Rightarrow> rstr option \<Rightarrow> unit rm_op" where
  "cancel_loop E run_id reason 0 status root_await m = (Inl (InvalidState ''cancel-run-raced''), m)"
| "cancel_loop E run_id reason (Suc n) status root_await m =
     (case status of
        Suspended \<Rightarrow>
          sbind (preflight_for_run E run_id) (\<lambda>_.
          sbind (close_session E root_await reason) (\<lambda>_.
          sbind (sect E (cancel_suspended_block E run_id reason root_await)) (\<lambda>outcome m.
            case outcome of
              CancelSettled ev \<Rightarrow> after_settle E run_id reason ev m
            | RacedTerminal \<Rightarrow> (Inr (), m)
            | RacedLive status' root_await' \<Rightarrow> cancel_loop E run_id reason n status' root_await' m))) m
      | Paused \<Rightarrow>
          sbind (preflight_for_run E run_id) (\<lambda>_.
          sbind (sect E (cancel_paused_block E run_id reason)) (\<lambda>outcome m.
            case outcome of
              CancelSettled ev \<Rightarrow> after_settle E run_id reason ev m
            | RacedTerminal \<Rightarrow> (Inr (), m)
            | RacedLive status' root_await' \<Rightarrow> cancel_loop E run_id reason n status' root_await' m)) m
      | Cancelled _ \<Rightarrow> cascade_descendants_for_run E run_id reason m
      | Active \<Rightarrow>
          sbind (sect E (cancel_arm_block E run_id reason))
            (\<lambda>armed. if armed then persist_snapshot_best_effort E run_id else sreturn ()) m
      | _ \<Rightarrow> (Inl (InvalidState ''cancel-run-on''), m))"

definition cancel_run :: "run_env \<Rightarrow> rstr \<Rightarrow> rstr \<Rightarrow> unit rm_op" where
  "cancel_run E run_id reason =
     sbind (sect E (on_run run_id (\<lambda>r. sreturn (rn_status r, rn_root_await r))))
       (\<lambda>(status, root_await). cancel_loop E run_id (truncate_reason reason) CANCEL_RACE_RETRY_LIMIT status root_await)"

section \<open>Forced cancellation\<close>

definition force_cancel_block :: "run_env \<Rightarrow> rstr \<Rightarrow> rstr \<Rightarrow> run_manager \<Rightarrow> run_event option \<times> run_manager" where
  "force_cancel_block E run_id reason m =
     (case store_get (m_store m) run_id of
        None \<Rightarrow> (None, m)
      | Some r \<Rightarrow>
          if \<not> is_live_status (rn_status r) then (None, m)
          else (Some (cancelled_event_of r reason), finish_run run_id (cancelled_row reason (now E m) r) m))"

definition force_cancel_run_by_id_sync :: "run_env \<Rightarrow> rstr \<Rightarrow> rstr \<Rightarrow> bool rm_op" where
  "force_cancel_run_by_id_sync E run_id reason m =
     (case sect E (force_cancel_block E run_id reason) m of
        (None, m1) \<Rightarrow> (Inr False, m1)
      | (Some ev, m1) \<Rightarrow>
          sbind (persist_snapshot_best_effort E run_id) (\<lambda>_. sbind (emit E ev) (\<lambda>_. sreturn True)) m1)"

definition live_count :: "run_store \<Rightarrow> rstr \<Rightarrow> nat" where
  "live_count st agent =
     length (filter (\<lambda>r. rn_controller_agent r = agent \<and> is_live_status (rn_status r)) (store_iter st))"

definition cancel_run_for_agent :: "run_env \<Rightarrow> rstr \<Rightarrow> rstr \<Rightarrow> unit rm_op" where
  "cancel_run_for_agent E agent reason =
     sbind (resolve_run E agent) (\<lambda>(run_id, _).
       case run_id of
         None \<Rightarrow>
           sbind (sect E (read_store (\<lambda>st. Inr (live_count st agent)))) (\<lambda>live.
           if live = 0 then sreturn () else sfail (InvalidState ''cancel-run-for-agent-ambiguous''))
       | Some i \<Rightarrow> sbind (force_cancel_run_by_id_sync E i (truncate_reason reason)) (\<lambda>_. sreturn ()))"

fun force_cancel_each :: "run_env \<Rightarrow> rstr \<Rightarrow> rstr list \<Rightarrow> unit rm_op" where
  "force_cancel_each E reason [] m = (Inr (), m)"
| "force_cancel_each E reason (i # is) m =
     sbind (force_cancel_run_by_id_sync E i reason) (\<lambda>_. force_cancel_each E reason is) m"

fun cancel_all_loop :: "run_env \<Rightarrow> rstr \<Rightarrow> rstr \<Rightarrow> nat \<Rightarrow> unit rm_op" where
  "cancel_all_loop E agent reason 0 m =
     sbind (sect E (read_store (\<lambda>st. Inr (live_run_ids_for_agent_in_store st agent)))) (\<lambda>ids.
       if ids = [] then sreturn () else sfail (InvalidState ''cancel-all-runs-for-agent-raced'')) m"
| "cancel_all_loop E agent reason (Suc n) m =
     sbind (sect E (read_store (\<lambda>st. Inr (live_run_ids_for_agent_in_store st agent)))) (\<lambda>ids m.
       if ids = [] then (Inr (), m)
       else sbind (force_cancel_each E reason ids) (\<lambda>_. cancel_all_loop E agent reason n) m) m"

definition cancel_all_runs_for_agent :: "run_env \<Rightarrow> rstr \<Rightarrow> rstr \<Rightarrow> unit rm_op" where
  "cancel_all_runs_for_agent E agent reason m =
     cancel_all_loop E agent (truncate_reason reason) (Suc DESCENDANT_CASCADE_SCAN_LIMIT)
       (snd (sect E (\<lambda>m. ((), block_terminated_block agent m)) m))"

section \<open>Resuming and suspending\<close>

definition resumed_event_of :: "run \<Rightarrow> rstr \<Rightarrow> run_event" where
  "resumed_event_of r reason = run_resumed_event (rn_id r) (rn_task_id r) (rn_controller_agent r) reason"

definition woken_row :: "instant \<Rightarrow> run \<Rightarrow> run" where
  "woken_row t r = r\<lparr>rn_status := Active, rn_root_await := None, rn_updated_at := t\<rparr>"

definition resume_block :: "run_env \<Rightarrow> rstr \<Rightarrow> rstr \<Rightarrow> run_event rm_op" where
  "resume_block E run_id reason = on_run run_id (\<lambda>r m.
     case rn_status r of
       Paused \<Rightarrow> (Inr (resumed_event_of r reason),
                   put_run run_id (r\<lparr>rn_status := Active, rn_pause_pending := None, rn_updated_at := now E m\<rparr>) m)
     | Suspended \<Rightarrow> (Inr (resumed_event_of r reason), put_run run_id (woken_row (now E m) r) m)
     | _ \<Rightarrow> (Inl (InvalidState ''resume-run-on''), m))"

definition resume_run :: "run_env \<Rightarrow> rstr \<Rightarrow> rstr \<Rightarrow> unit rm_op" where
  "resume_run E run_id reason0 =
     (let reason = truncate_reason reason0 in
      if reason \<notin> set RESUME_REASONS then sfail (PermissionDenied ''invalid-resume-reason'')
      else sbind (sect E (resume_block E run_id reason)) (\<lambda>ev.
           sbind (persist_snapshot_best_effort E run_id) (\<lambda>_. emit E ev)))"

definition resume_suspended_block :: "run_env \<Rightarrow> rstr \<Rightarrow> rstr \<Rightarrow> run_event option rm_op" where
  "resume_suspended_block E run_id reason = on_run run_id (\<lambda>r m.
     if rn_status r \<noteq> Suspended then (Inr None, m)
     else (Inr (Some (resumed_event_of r reason)), put_run run_id (woken_row (now E m) r) m))"

definition resume_run_if_suspended :: "run_env \<Rightarrow> rstr \<Rightarrow> rstr \<Rightarrow> bool rm_op" where
  "resume_run_if_suspended E run_id reason0 =
     (let reason = truncate_reason reason0 in
      if reason \<noteq> lit ''await_complete'' then sfail (PermissionDenied ''invalid-await-resume-reason'')
      else sbind (sect E (resume_suspended_block E run_id reason)) (\<lambda>ev.
           case ev of
             None \<Rightarrow> sreturn False
           | Some e \<Rightarrow> sbind (persist_snapshot_best_effort E run_id) (\<lambda>_. sbind (emit E e) (\<lambda>_. sreturn True))))"

definition suspended_row :: "rstr \<Rightarrow> instant \<Rightarrow> run \<Rightarrow> run" where
  "suspended_row sid t r = r\<lparr>rn_status := Suspended, rn_root_await := Some sid, rn_updated_at := t\<rparr>"

definition suspend_block :: "run_env \<Rightarrow> rstr \<Rightarrow> rstr \<Rightarrow> run_event rm_op" where
  "suspend_block E run_id sid = on_run run_id (\<lambda>r m.
     if rn_status r \<noteq> Active then (Inl (InvalidState ''suspend-run-on''), m)
     else (Inr (run_suspended_event (rn_id r) (rn_task_id r) (rn_controller_agent r) sid),
           put_run run_id (suspended_row sid (now E m) r) m))"

definition suspend_run :: "run_env \<Rightarrow> rstr \<Rightarrow> rstr \<Rightarrow> unit rm_op" where
  "suspend_run E run_id sid =
     (if \<not> valid (validate_session_id sid) then sfail (PermissionDenied ''invalid-session-id'')
      else sbind (sect E (suspend_block E run_id sid)) (\<lambda>ev.
           sbind (persist_snapshot_best_effort E run_id) (\<lambda>_. emit E ev)))"

end
