(* ===== verification/RunBudget.thy ===== *)
theory RunBudget
  imports RunManager
begin

text \<open>
  \<open>run-manager/src/budget.rs\<close>: a check reserves headroom under the lock of the store, a commit spends it and
  is clamped to what was reserved. \<open>run-manager/src/recovery.rs\<close>: reloading the rows of the state
  directory and resetting the runs whose await session did not survive. Messages on standard error are left out.
\<close>

section \<open>Budgets (budget.rs)\<close>

datatype budget_decision = Allow | Deny string

text \<open>The cost the gate charges: the larger of the local sum and the cost tracker's.\<close>

definition effective_cost :: "run_env \<Rightarrow> nat \<Rightarrow> rstr \<Rightarrow> budget_state \<Rightarrow> f64" where
  "effective_cost E tick run_id b =
     (case e_cost_tracker E of
        None \<Rightarrow> b_cost_usd b
      | Some query_run \<Rightarrow>
          (case query_run tick run_id of
             None \<Rightarrow> b_cost_usd b
           | Some c \<Rightarrow> if f64_lt (b_cost_usd b) c then c else b_cost_usd b))"

definition reserve :: "64 word \<Rightarrow> f64 \<Rightarrow> budget_state \<Rightarrow> budget_state" where
  "reserve tokens cost b =
     b\<lparr>b_token_reserved := sat_add (b_token_reserved b) tokens, b_cost_reserved := f64_add (b_cost_reserved b) cost\<rparr>"

definition exceeds :: "('a \<Rightarrow> 'a \<Rightarrow> bool) \<Rightarrow> 'a option \<Rightarrow> 'a \<Rightarrow> bool" where
  "exceeds over limit x = (case limit of None \<Rightarrow> False | Some l \<Rightarrow> over l x)"

definition check_block :: "run_env \<Rightarrow> rstr \<Rightarrow> 64 word \<Rightarrow> f64 \<Rightarrow> run_manager \<Rightarrow> budget_decision \<times> run_manager" where
  "check_block E run_id tokens cost m =
     (case store_get (m_store m) run_id of
        None \<Rightarrow> (Deny ''budget-unknown-run'', m)
      | Some r \<Rightarrow>
          if \<not> is_live_status (rn_status r) then (Deny ''budget-run-terminal'', m)
          else (let b = rn_budget r;
                    token_after = sat_add (sat_add (b_token_used b) (b_token_reserved b)) tokens;
                    cost_after = f64_add (f64_add (effective_cost E (m_tick m) run_id b) (b_cost_reserved b)) cost
                in if exceeds (\<le>) (b_rounds_limit b) (b_rounds_used b) then (Deny ''budget-exceeded-rounds'', m)
                   else if exceeds (<) (b_token_limit b) token_after then (Deny ''budget-exceeded-tokens'', m)
                   else if \<not> is_finite cost_after then (Deny ''budget-cost-overflow'', m)
                   else if exceeds f64_lt (b_cost_limit b) cost_after then (Deny ''budget-exceeded-cost'', m)
                   else (Allow, put_run run_id (r\<lparr>rn_budget := reserve tokens cost b\<rparr>) m)))"

definition check_budget :: "run_env \<Rightarrow> rstr \<Rightarrow> 64 word \<Rightarrow> f64 \<Rightarrow> run_manager \<Rightarrow> budget_decision \<times> run_manager" where
  "check_budget E run_id tokens cost m =
     (if \<not> valid (validate_run_id run_id) then (Deny ''budget-invalid-run-id'', m)
      else if bad_amount cost then (Deny ''budget-invalid-cost'', m)
      else sect E (check_block E run_id tokens cost) m)"

text \<open>The subtractions stay in range because what is taken is clamped first.\<close>

definition spend :: "64 word \<Rightarrow> f64 \<Rightarrow> budget_state \<Rightarrow> budget_state" where
  "spend tokens cost b =
     (let allowed_tokens = min (b_token_reserved b) tokens; allowed_cost = f64_min (b_cost_reserved b) cost
      in b\<lparr>b_token_reserved := b_token_reserved b - allowed_tokens,
           b_cost_reserved := f64_sub (b_cost_reserved b) allowed_cost,
           b_token_used := sat_add (b_token_used b) allowed_tokens,
           b_cost_usd := f64_add (b_cost_usd b) allowed_cost\<rparr>)"

definition commit_block :: "rstr \<Rightarrow> 64 word \<Rightarrow> f64 \<Rightarrow> run_manager \<Rightarrow> run option \<times> run_manager" where
  "commit_block run_id tokens cost m =
     (case store_get (m_store m) run_id of
        None \<Rightarrow> (None, m)
      | Some r \<Rightarrow>
          if \<not> is_live_status (rn_status r) then (None, m)
          else (let r' = r\<lparr>rn_budget := spend tokens cost (rn_budget r)\<rparr> in (Some r', put_run run_id r' m)))"

definition commit_budget :: "run_env \<Rightarrow> rstr \<Rightarrow> 64 word \<Rightarrow> f64 \<Rightarrow> run_manager \<Rightarrow> run_manager" where
  "commit_budget E run_id tokens cost m =
     (if \<not> valid (validate_run_id run_id) \<or> bad_amount cost then m
      else (case sect E (commit_block run_id tokens cost) m of
         (None, m1) \<Rightarrow> m1
       | (Some snapshot, m1) \<Rightarrow> snd (persist_best_effort E snapshot m1)))"

section \<open>Recovery (recovery.rs)\<close>

record recovery_report =
  rp_suspended_scanned :: "32 word"
  rp_interrupted_emitted :: "32 word"
  rp_invalid_session_id :: "32 word"
  rp_raced_skipped :: "32 word"
  rp_disk_loaded :: "32 word"
  rp_disk_invalid :: "32 word"

definition empty_report :: recovery_report where
  "empty_report = \<lparr>rp_suspended_scanned = 0, rp_interrupted_emitted = 0, rp_invalid_session_id = 0, rp_raced_skipped = 0,
     rp_disk_loaded = 0, rp_disk_invalid = 0\<rparr>"

definition inc :: "32 word \<Rightarrow> 32 word" where
  "inc n = sat_add n 1"

text \<open>The reset of a suspended run whose session is lost, if status and session are still those observed.\<close>

definition interrupt_block :: "run_env \<Rightarrow> rstr \<Rightarrow> rstr \<Rightarrow> run_manager \<Rightarrow> bool \<times> run_manager" where
  "interrupt_block E run_id sid m =
     (case store_get (m_store m) run_id of
        None \<Rightarrow> (False, m)
      | Some r \<Rightarrow>
          if rn_status r \<noteq> Suspended \<or> rn_root_await r \<noteq> Some sid then (False, m)
          else (True, put_run run_id (woken_row (now E m) r) m))"

definition announce_interrupt :: "run_env \<Rightarrow> run \<Rightarrow> unit rm_op" where
  "announce_interrupt E r =
     sbind (persist_snapshot_best_effort E (rn_id r)) (\<lambda>_.
     sbind (emit E (run_interrupted_event (rn_id r) (rn_task_id r) (rn_controller_agent r) (lit ''crash-recovery''))) (\<lambda>_.
     if e_interrupt_sink E
     then sect E (notify_block (DeliverRunInterrupted (rn_controller_agent r) (rn_id r) (rn_task_id r) (lit ''crash-recovery'')))
     else sreturn ()))"

definition recover_one ::
    "run_env \<Rightarrow> await_session_ref \<Rightarrow> run \<Rightarrow> recovery_report \<Rightarrow> run_manager \<Rightarrow> recovery_report \<times> run_manager" where
  "recover_one E ar r rep0 m =
     (let rep = rep0\<lparr>rp_suspended_scanned := inc (rp_suspended_scanned rep0)\<rparr> in
      case rn_root_await r of
        None \<Rightarrow> (rep, m)
      | Some sid \<Rightarrow>
          if \<not> valid (validate_session_id sid)
          then (rep\<lparr>rp_invalid_session_id := inc (rp_invalid_session_id rep)\<rparr>, m)
          else (case sect E (\<lambda>m. (ar_exists ar (m_tick m) sid, m)) m of
             (True, m1) \<Rightarrow> (rep, m1)
           | (False, m1) \<Rightarrow>
               (case sect E (interrupt_block E (rn_id r) sid) m1 of
                  (False, m2) \<Rightarrow> (rep\<lparr>rp_raced_skipped := inc (rp_raced_skipped rep)\<rparr>, m2)
                | (True, m2) \<Rightarrow>
                    (rep\<lparr>rp_interrupted_emitted := inc (rp_interrupted_emitted rep)\<rparr>,
                     snd (announce_interrupt E r m2)))))"

fun recover_each ::
    "run_env \<Rightarrow> await_session_ref \<Rightarrow> run list \<Rightarrow> recovery_report \<Rightarrow> run_manager \<Rightarrow> recovery_report \<times> run_manager" where
  "recover_each E ar [] rep m = (rep, m)"
| "recover_each E ar (r # rs) rep m =
     (case recover_one E ar r rep m of (rep', m') \<Rightarrow> recover_each E ar rs rep' m')"

definition recover_on_startup :: "run_env \<Rightarrow> await_session_ref \<Rightarrow> run_manager \<Rightarrow> recovery_report \<times> run_manager" where
  "recover_on_startup E ar m =
     (case sect E (\<lambda>m. (filter (\<lambda>r. rn_status r = Suspended) (store_iter (m_store m)), m)) m of
        (candidates, m1) \<Rightarrow> recover_each E ar candidates empty_report m1)"

fun insert_rows :: "run list \<Rightarrow> recovery_report \<Rightarrow> run_store \<Rightarrow> recovery_report \<times> run_store" where
  "insert_rows [] rep st = (rep, st)"
| "insert_rows (r # rs) rep st =
     (if runs_len st \<ge> MAX_RUNS_PER_STORE
      then insert_rows rs (rep\<lparr>rp_disk_invalid := inc (rp_disk_invalid rep)\<rparr>) st
      else if store_get st (rn_id r) \<noteq> None then insert_rows rs rep st
      else if is_live_status (rn_status r) \<and> find_live_by_task st (rn_task_id r) \<noteq> None then insert_rows rs rep st
      else insert_rows rs (rep\<lparr>rp_disk_loaded := inc (rp_disk_loaded rep)\<rparr>) (store_insert r st))"

definition load_block :: "run_env \<Rightarrow> recovery_report rm_op" where
  "load_block E m =
     (case load_all (e_from_yaml E) (if e_read_dir E (m_tick m) then Some (m_dir m) else None) of
        Inl e \<Rightarrow> (Inl e, m)
      | Inr (rows, invalid) \<Rightarrow>
          (case insert_rows rows (empty_report\<lparr>rp_disk_invalid := invalid\<rparr>) (m_store m) of
             (rep, st) \<Rightarrow> (Inr rep, m\<lparr>m_store := st\<rparr>)))"

definition recover_from_disk :: "run_env \<Rightarrow> recovery_report rm_op" where
  "recover_from_disk E =
     (if \<not> e_persister E then sfail (PermissionDenied ''recover-from-disk-requires-state-dir'')
      else sect E (load_block E))"

definition cold_start_recovery :: "run_env \<Rightarrow> await_session_ref \<Rightarrow> recovery_report rm_op" where
  "cold_start_recovery E ar =
     sbind (recover_from_disk E) (\<lambda>from_disk m.
       case recover_on_startup E ar m of
         (walked, m') \<Rightarrow>
           (Inr (walked\<lparr>rp_disk_loaded := rp_disk_loaded from_disk, rp_disk_invalid := rp_disk_invalid from_disk\<rparr>), m'))"

end
