(* ===== verification/AgentRun.thy ===== *)
theory AgentRun
  imports RunBudget
begin

text \<open>
  \<open>run-manager/src/wit_impl.rs\<close>: the seven methods of the \<open>agent-run\<close> interface, which act for one calling
  agent. A run of another agent is reported as not found.
\<close>

definition assert_caller_owns :: "run_env \<Rightarrow> rstr \<Rightarrow> rstr \<Rightarrow> unit rm_op" where
  "assert_caller_owns E caller run_id =
     sbind (controller_agent_of E run_id) (\<lambda>owner.
       if owner = Some caller then sreturn () else sfail (NotFound run_id))"

text \<open>\<open>RunId::from_string\<close> and the ownership check, at the head of six of the methods.\<close>

definition owned_run :: "run_env \<Rightarrow> rstr \<Rightarrow> rstr \<Rightarrow> unit rm_op" where
  "owned_run E caller run_id =
     (if \<not> valid (validate_run_id run_id) then sfail (PermissionDenied ''invalid-run-id'')
      else assert_caller_owns E caller run_id)"

definition wit_ensure_run :: "run_env \<Rightarrow> rstr \<Rightarrow> rstr \<Rightarrow> run_config \<Rightarrow> rstr rm_op" where
  "wit_ensure_run E caller task_id config =
     (case strip_prefix (lit ''auto:'') task_id of
        Some agent_in_task \<Rightarrow>
          if agent_in_task \<noteq> caller then sfail (PermissionDenied ''auto-mode-task-id-must-match-caller'')
          else ensure_run_strict E task_id caller config
      | None \<Rightarrow> ensure_run_strict E task_id caller config)"

definition wit_complete_round :: "run_env \<Rightarrow> rstr \<Rightarrow> rstr \<Rightarrow> round_result \<Rightarrow> round_decision rm_op" where
  "wit_complete_round E caller run_id result = sbind (owned_run E caller run_id) (\<lambda>_. complete_round E run_id result)"

definition wit_complete_run :: "run_env \<Rightarrow> rstr \<Rightarrow> rstr \<Rightarrow> rstr \<Rightarrow> unit rm_op" where
  "wit_complete_run E caller run_id outcome = sbind (owned_run E caller run_id) (\<lambda>_. complete_run E run_id outcome)"

definition wit_pause_run :: "run_env \<Rightarrow> rstr \<Rightarrow> rstr \<Rightarrow> rstr option \<Rightarrow> unit rm_op" where
  "wit_pause_run E caller run_id reason =
     sbind (owned_run E caller run_id) (\<lambda>_. pause_run E run_id (unwrap_or reason []))"

definition wit_resume_run :: "run_env \<Rightarrow> rstr \<Rightarrow> rstr \<Rightarrow> unit rm_op" where
  "wit_resume_run E caller run_id = sbind (owned_run E caller run_id) (\<lambda>_. resume_run E run_id (lit ''manual''))"

definition wit_cancel_run :: "run_env \<Rightarrow> rstr \<Rightarrow> rstr \<Rightarrow> rstr option \<Rightarrow> unit rm_op" where
  "wit_cancel_run E caller run_id reason =
     sbind (owned_run E caller run_id) (\<lambda>_. cancel_run E run_id (unwrap_or reason []))"

definition wit_run_status :: "run_env \<Rightarrow> rstr \<Rightarrow> rstr \<Rightarrow> wit_run_state rm_op" where
  "wit_run_status E caller run_id = sbind (owned_run E caller run_id) (\<lambda>_. run_status E run_id)"

end
