(* ===== verification/RunInv.thy ===== *)
theory RunInv
  imports AgentRun
begin

text \<open>
  The critical sections of the run manager as steps on the store, and the fact that every method is a
  sequence of such steps and of steps of others. A row changes only by a \<open>row_step\<close>; the store changes
  by replacing a row, by ending a run (which also drops its task from the index), by inserting a new run or a
  row of the state directory, and by taking an insertion back. The locale \<open>run_invariant\<close> reduces a property of
  reachable stores to these steps.
\<close>

section \<open>Steps\<close>

text \<open>What one section may do to a row.\<close>

inductive row_step :: "run \<Rightarrow> run \<Rightarrow> bool" where
  Round: "rn_status r = Active \<Longrightarrow> rn_cancel_pending r = None \<Longrightarrow> rn_pause_pending r = None \<Longrightarrow> row_step r (advance_row t r)"
| RoundPause: "rn_status r = Active \<Longrightarrow> rn_cancel_pending r = None \<Longrightarrow> row_step r (settled_pause (advance_row t r))"
| RoundCancel: "rn_status r = Active \<Longrightarrow> rn_cancel_pending r \<noteq> None \<Longrightarrow> row_step r (settled_cancel reason (advance_row t r))"
| End: "rn_status r = Active \<Longrightarrow> \<not> is_live_status st \<Longrightarrow> row_step r (ended_row st t r)"
| PauseSettle: "rn_status r = Suspended \<Longrightarrow> row_step r (paused_row t r)"
| PauseArm: "rn_status r = Active \<Longrightarrow> rn_cancel_pending r = None \<Longrightarrow> rn_pause_pending r = None \<Longrightarrow>
    row_step r (r\<lparr>rn_pause_pending := Some reason, rn_updated_at := t\<rparr>)"
| CancelArm: "rn_status r = Active \<Longrightarrow> rn_cancel_pending r = None \<Longrightarrow>
    row_step r (r\<lparr>rn_pause_pending := None, rn_cancel_pending := Some reason, rn_updated_at := t\<rparr>)"
| CancelRow: "is_live_status (rn_status r) \<Longrightarrow> row_step r (cancelled_row reason t r)"
| CancelPaused: "rn_status r = Paused \<Longrightarrow> row_step r (cancelled_paused_row reason t r)"
| ResumePaused: "rn_status r = Paused \<Longrightarrow> row_step r (r\<lparr>rn_status := Active, rn_pause_pending := None, rn_updated_at := t\<rparr>)"
| Wake: "rn_status r = Suspended \<Longrightarrow> row_step r (woken_row t r)"
| Suspend: "rn_status r = Active \<Longrightarrow> row_step r (suspended_row sid t r)"
| Reserve: "is_live_status (rn_status r) \<Longrightarrow>
    \<not> exceeds (<) (b_token_limit (rn_budget r)) (sat_add (sat_add (b_token_used (rn_budget r)) (b_token_reserved (rn_budget r))) tokens) \<Longrightarrow>
    \<not> bad_amount cost \<Longrightarrow> \<not> f64_lt e (b_cost_usd (rn_budget r)) \<Longrightarrow>
    is_finite (f64_add (f64_add e (b_cost_reserved (rn_budget r))) cost) \<Longrightarrow> row_step r (r\<lparr>rn_budget := reserve tokens cost (rn_budget r)\<rparr>)"
| Spend: "is_live_status (rn_status r) \<Longrightarrow> \<not> bad_amount cost \<Longrightarrow> row_step r (r\<lparr>rn_budget := spend tokens cost (rn_budget r)\<rparr>)"

lemmas row_defs = advance_row_def settled_pause_def settled_cancel_def ended_row_def paused_row_def cancelled_row_def
  cancelled_paused_row_def woken_row_def suspended_row_def Let_def

lemma row_status [simp]:
  "rn_status (advance_row t r) = rn_status r" "rn_status (settled_pause r) = Paused"
  "rn_status (settled_cancel reason r) = Cancelled reason" "rn_status (ended_row st t r) = st"
  "rn_status (paused_row t r) = Paused" "rn_status (cancelled_row reason t r) = Cancelled reason"
  "rn_status (cancelled_paused_row reason t r) = Cancelled reason" "rn_status (woken_row t r) = Active"
  "rn_status (suspended_row sid t r) = Suspended"
  by (simp_all add: row_defs)

lemma advance_pending [simp]:
  "rn_cancel_pending (advance_row t r) = rn_cancel_pending r" "rn_pause_pending (advance_row t r) = rn_pause_pending r"
  by (simp_all add: row_defs)

text \<open>The write of a new row cannot fail.\<close>

definition writes_ok :: "run_env \<Rightarrow> bool" where
  "writes_ok E \<longleftrightarrow> e_persister E \<longrightarrow> (\<forall>r. e_to_yaml E r \<noteq> None) \<and> (\<forall>n. e_io E n = None)"

inductive store_step :: "run_env \<Rightarrow> run_manager \<Rightarrow> run_manager \<Rightarrow> bool" for E where
  Frame: "m_store m' = m_store m \<Longrightarrow> store_step E m m'"
| Put: "store_get (m_store m) i = Some r \<Longrightarrow> row_step r r' \<Longrightarrow> is_live_status (rn_status r') \<Longrightarrow>
    store_step E m (put_run i r' m)"
| Finish: "store_get (m_store m) i = Some r \<Longrightarrow> row_step r r' \<Longrightarrow> \<not> is_live_status (rn_status r') \<Longrightarrow>
    store_step E m (finish_run i r' m)"
| Create: "find_live_by_task (m_store m) task_id = None \<Longrightarrow> runs_len (m_store m) < MAX_RUNS_PER_STORE \<Longrightarrow>
    store_step E m (m\<lparr>m_store := store_insert (new_run (e_uuid E n (map fst (rs_runs (m_store m)))) task_id agent cfg t) (m_store m)\<rparr>)"
| Rollback: "\<not> writes_ok E \<Longrightarrow> store_step E m (rollback_block r m)"
| Load: "e_from_yaml E body = Some r \<Longrightarrow> row_acceptable (rn_task_id r) r \<Longrightarrow> store_get (m_store m) (rn_id r) = None \<Longrightarrow>
    (is_live_status (rn_status r) \<longrightarrow> find_live_by_task (m_store m) (rn_task_id r) = None) \<Longrightarrow>
    store_step E m (m\<lparr>m_store := store_insert r (m_store m)\<rparr>)"

abbreviation store_steps :: "run_env \<Rightarrow> run_manager \<Rightarrow> run_manager \<Rightarrow> bool" where
  "store_steps E \<equiv> (store_step E)\<^sup>*\<^sup>*"

text \<open>Others act on the store by such steps only.\<close>

definition interleaved :: "run_env \<Rightarrow> bool" where
  "interleaved E \<longleftrightarrow> (\<forall>n m. store_steps E m (e_others E n m))"

section \<open>Methods are sequences of steps\<close>

text \<open>An operation respects the steps.\<close>

definition stepwise :: "run_env \<Rightarrow> (run_manager \<Rightarrow> 'a \<times> run_manager) \<Rightarrow> bool" where
  "stepwise E f \<longleftrightarrow> (\<forall>m. store_steps E m (snd (f m)))"

named_theorems steps \<open>operations that respect the steps\<close>

lemma frame_step: "m_store m' = m_store m \<Longrightarrow> store_steps E m m'"
  by (rule r_into_rtranclp, rule Frame)

lemma release_steps:
  assumes "interleaved E"
  shows "store_steps E m (release E m)"
proof -
  have "store_steps E m (e_others E (m_tick m) m)" using assms by (simp add: interleaved_def)
  also have "store_steps E (e_others E (m_tick m) m) (release E m)" by (rule frame_step) (simp add: release_def)
  finally show ?thesis .
qed

lemma stepwise_sect [steps]: "interleaved E \<Longrightarrow> stepwise E f \<Longrightarrow> stepwise E (sect E f)"
  unfolding stepwise_def sect_def by (meson release_steps rtranclp_trans)

lemma stepwise_guarded [steps]:
  assumes "interleaved E" "stepwise E f"
  shows "stepwise E (guarded_sect E f)"
  unfolding stepwise_def guarded_sect_def
proof
  fix m
  let ?m = "(release E m)\<lparr>m_terminated := m_terminated m, m_scoped := m_scoped m\<rparr>"
  have "store_steps E (release E m) ?m" by (rule frame_step) simp
  then show "store_steps E m (snd (f ?m))"
    using release_steps [OF assms(1)] assms(2) unfolding stepwise_def by (meson rtranclp_trans)
qed

lemma stepwise_sbind [steps]: "stepwise E f \<Longrightarrow> (\<And>a. stepwise E (g a)) \<Longrightarrow> stepwise E (sbind f g)"
  unfolding stepwise_def by (auto intro!: sbind_rel [where R = "store_steps E"] elim: rtranclp_trans)

lemma stepwise_sreturn [steps]: "stepwise E (sreturn a)"
  by (simp add: stepwise_def)

lemma stepwise_sfail [steps]: "stepwise E (sfail e)"
  by (simp add: stepwise_def)

lemma stepwise_slift [steps]: "stepwise E (slift r)"
  by (simp add: stepwise_def)

lemma stepwise_read_store [steps]: "stepwise E (read_store f)"
  by (simp add: stepwise_def read_store_def)

lemma stepwise_same: "(\<And>m. m_store (snd (f m)) = m_store m) \<Longrightarrow> stepwise E f"
  by (simp add: stepwise_def frame_step)

lemma stepwise_cong: "(\<And>m. g m = f m) \<Longrightarrow> stepwise E f \<Longrightarrow> stepwise E g"
  by (simp add: stepwise_def)

lemma stepwise_case [steps]:
  assumes "stepwise E f" "\<And>a. stepwise E (g a)"
  shows "stepwise E (\<lambda>m. case f m of (a, m') \<Rightarrow> g a m')"
  using assms unfolding stepwise_def by (auto split: prod.splits) (metis rtranclp_trans snd_conv)

lemma stepwise_on_run:
  assumes "\<And>r m. store_get (m_store m) i = Some r \<Longrightarrow> store_steps E m (snd (f r m))"
  shows "stepwise E (on_run i f)"
  using assms by (auto simp: stepwise_def on_run_def split: option.splits)

lemma stepwise_on_run_any [steps]: "(\<And>r. stepwise E (f r)) \<Longrightarrow> stepwise E (on_run i f)"
  by (rule stepwise_on_run) (simp add: stepwise_def)

lemma put_steps:
  "store_get (m_store m) i = Some r \<Longrightarrow> row_step r r' \<Longrightarrow> is_live_status (rn_status r') \<Longrightarrow> store_steps E m (put_run i r' m)"
  by (rule r_into_rtranclp, rule Put)

lemma finish_steps:
  "store_get (m_store m) i = Some r \<Longrightarrow> row_step r r' \<Longrightarrow> \<not> is_live_status (rn_status r') \<Longrightarrow> store_steps E m (finish_run i r' m)"
  by (rule r_into_rtranclp, rule Finish)

subsection \<open>Sections\<close>

lemma stepwise_emit_block [steps]: "stepwise E (emit_block ev)"
  by (rule stepwise_same) (simp add: emit_block_def)

lemma stepwise_notify_block [steps]: "stepwise E (notify_block n)"
  by (rule stepwise_same) (simp add: notify_block_def)

lemma stepwise_persist_block [steps]: "stepwise E (persist_block E r)"
  by (rule stepwise_same) (simp add: persist_block_def split: prod.splits)

lemma stepwise_settle_descendant [steps]: "stepwise E (settle_descendant_block E i reason snap)"
  unfolding stepwise_def settle_descendant_block_def
  by (auto intro!: finish_steps row_step.CancelRow split: option.splits)

lemma stepwise_end_block [steps]: "\<not> is_live_status st \<Longrightarrow> stepwise E (end_block E i st err)"
  unfolding end_block_def
  by (rule stepwise_on_run) (auto intro!: finish_steps row_step.End simp: Let_def)

lemma stepwise_pause_settle [steps]: "stepwise E (pause_settle_block E i reason snap)"
  unfolding pause_settle_block_def
  by (rule stepwise_on_run) (auto intro!: put_steps row_step.PauseSettle)

lemma stepwise_pause_arm [steps]: "stepwise E (pause_arm_block E i reason snap)"
  unfolding pause_arm_block_def
  by (rule stepwise_on_run) (auto intro!: put_steps row_step.PauseArm)

lemma stepwise_cancel_suspended [steps]: "stepwise E (cancel_suspended_block E i reason snap)"
  unfolding cancel_suspended_block_def
  by (rule stepwise_on_run) (auto intro!: finish_steps row_step.CancelRow)

lemma stepwise_cancel_paused [steps]: "stepwise E (cancel_paused_block E i reason)"
  unfolding cancel_paused_block_def
  by (rule stepwise_on_run) (auto intro!: finish_steps row_step.CancelPaused)

lemma stepwise_cancel_arm [steps]: "stepwise E (cancel_arm_block E i reason)"
  unfolding cancel_arm_block_def
  by (rule stepwise_on_run) (auto intro!: put_steps row_step.CancelArm)

lemma stepwise_force_cancel [steps]: "stepwise E (force_cancel_block E i reason)"
  unfolding stepwise_def force_cancel_block_def
  by (auto intro!: finish_steps row_step.CancelRow split: option.splits)

lemma stepwise_resume_block [steps]: "stepwise E (resume_block E i reason)"
  unfolding resume_block_def
  by (rule stepwise_on_run)
    (auto intro!: put_steps row_step.ResumePaused row_step.Wake split: task_run_status.splits)

lemma stepwise_resume_suspended [steps]: "stepwise E (resume_suspended_block E i reason)"
  unfolding resume_suspended_block_def
  by (rule stepwise_on_run) (auto intro!: put_steps row_step.Wake)

lemma stepwise_suspend_block [steps]: "stepwise E (suspend_block E i sid)"
  unfolding suspend_block_def
  by (rule stepwise_on_run) (auto intro!: put_steps row_step.Suspend)

lemma stepwise_interrupt_block [steps]: "stepwise E (interrupt_block E i sid)"
  unfolding stepwise_def interrupt_block_def
  by (auto intro!: put_steps row_step.Wake split: option.splits)

lemma f64_lt_irrefl [simp]: "\<not> f64_lt x x"
  by (cases x) auto

lemma f64_lt_asym: "f64_lt x y \<Longrightarrow> \<not> f64_lt y x"
  by (cases x; cases y) auto

lemma effective_cost_ge: "\<not> f64_lt (effective_cost E n i b) (b_cost_usd b)"
  by (auto simp: effective_cost_def dest: f64_lt_asym split: option.splits)

lemma stepwise_check_block [steps]: "\<not> bad_amount cost \<Longrightarrow> stepwise E (check_block E i tokens cost)"
  unfolding stepwise_def check_block_def
  by (auto intro!: put_steps row_step.Reserve [OF _ _ _ effective_cost_ge] split: option.splits simp: Let_def)

lemma stepwise_commit_block [steps]: "\<not> bad_amount cost \<Longrightarrow> stepwise E (commit_block i tokens cost)"
  unfolding stepwise_def commit_block_def
  by (auto intro!: put_steps row_step.Spend split: option.splits simp: Let_def)

lemma stepwise_ensure_block [steps]: "stepwise E (ensure_block E task_id agent cfg strict)"
  unfolding stepwise_def ensure_block_def
  by (auto intro!: r_into_rtranclp [of "store_step E"] store_step.Create split: option.splits simp: Let_def)

lemma preflight_same [simp]: "snd (preflight_for_agent_in_store E agent m) = m"
  by (simp add: preflight_for_agent_in_store_def split: option.splits)

lemma round_mutation_steps:
  assumes "store_get (m_store m) i = Some r" "rn_status r = Active"
  shows "store_steps E m (snd (round_mutation E i tr ps r m))"
proof (cases "rn_cancel_pending r")
  case None
  show ?thesis
  proof (cases "rn_pause_pending r")
    case (Some p)
    then show ?thesis using assms None row_step.RoundPause [of r "now E m"]
      by (auto simp: round_mutation_def Let_def intro!: put_steps)
  next
    case p: None
    then show ?thesis using assms None row_step.Round [of r "now E m"]
      by (auto simp: round_mutation_def Let_def intro!: put_steps)
  qed
next
  case (Some p)
  then show ?thesis using assms row_step.RoundCancel [of r "truncate_reason p" "now E m"]
    by (auto simp: round_mutation_def Let_def intro!: finish_steps)
qed

lemma stepwise_round_block [steps]: "stepwise E (round_block E i tr ps)"
  unfolding round_block_def
proof (rule stepwise_on_run)
  fix r and m :: run_manager
  assume g: "store_get (m_store m) i = Some r"
  let ?c = "if rn_pause_pending r \<noteq> None \<or> rn_cancel_pending r \<noteq> None
            then preflight_for_agent_in_store E (rn_controller_agent r) else sreturn ()"
  have "\<And>a m1. ?c m = (Inr a, m1) \<Longrightarrow> m1 = m" "snd (?c m) = m"
    by (auto simp: sreturn_def split: if_splits) (metis preflight_same snd_conv)+
  then show "store_steps E m (snd ((if rn_status r \<noteq> Active then sfail (InvalidState ''complete-round-on-non-active'')
      else sbind ?c (\<lambda>_. round_mutation E i tr ps r)) m))"
    using round_mutation_steps [OF g]
    by (auto intro!: sbind_rel [where R = "store_steps E"] elim: rtranclp_trans)
qed

subsection \<open>Methods\<close>

lemma stepwise_if [steps]: "(b \<Longrightarrow> stepwise E f) \<Longrightarrow> (\<not> b \<Longrightarrow> stepwise E g) \<Longrightarrow> stepwise E (if b then f else g)"
  by simp

lemma stepwise_if_app [steps]:
  "(b \<Longrightarrow> stepwise E f) \<Longrightarrow> (\<not> b \<Longrightarrow> stepwise E g) \<Longrightarrow> stepwise E (\<lambda>m. if b then f m else g m)"
  by (cases b) simp_all

lemma stepwise_option [steps]:
  "stepwise E f \<Longrightarrow> (\<And>x. stepwise E (g x)) \<Longrightarrow> stepwise E (case opt of None \<Rightarrow> f | Some x \<Rightarrow> g x)"
  by (cases opt) auto

lemma stepwise_option_app [steps]:
  "stepwise E f \<Longrightarrow> (\<And>x. stepwise E (g x)) \<Longrightarrow> stepwise E (\<lambda>m. case opt of None \<Rightarrow> f m | Some x \<Rightarrow> g x m)"
  by (cases opt) auto

lemma stepwise_prod [steps]: "(\<And>x y. stepwise E (g x y)) \<Longrightarrow> stepwise E (case p of (x, y) \<Rightarrow> g x y)"
  by (cases p) auto

lemma stepwise_answer [steps]: "stepwise E (\<lambda>m. (c m, m))"
  by (simp add: stepwise_def)

lemma stepwise_snd [steps]: "stepwise E f \<Longrightarrow> stepwise E (\<lambda>m. (c m, snd (f m)))"
  by (simp add: stepwise_def)

lemma stepwise_fun: "stepwise E (\<lambda>m. ((), f m)) \<longleftrightarrow> (\<forall>m. store_steps E m (f m))"
  by (simp add: stepwise_def)

lemma add_agents_store [simp]: "m_store (snd (add_agents_block as bs m)) = m_store m"
  by (induction as bs m rule: add_agents_block.induct) auto

lemma drop_agents_store [simp]: "m_store (drop_agents_block as m) = m_store m"
  by (induction as m rule: drop_agents_block.induct) (auto split: option.splits)

lemma stepwise_emit [steps]: "interleaved E \<Longrightarrow> stepwise E (emit E ev)"
  unfolding emit_def by (intro steps)

lemma stepwise_emit_opt [steps]: "interleaved E \<Longrightarrow> stepwise E (emit_opt E ev)"
  unfolding emit_opt_def by (intro steps)

lemma stepwise_persist_best_effort [steps]: "interleaved E \<Longrightarrow> stepwise E (persist_best_effort E r)"
  by (rule stepwise_cong [OF persist_best_effort_def]) (intro steps)

lemma stepwise_persist_snapshot [steps]: "interleaved E \<Longrightarrow> stepwise E (persist_snapshot_best_effort E i)"
  unfolding persist_snapshot_best_effort_def by (intro steps)

lemma stepwise_live_run_ids [steps]: "interleaved E \<Longrightarrow> stepwise E (live_run_ids_for_agents E as)"
  unfolding live_run_ids_for_agents_def by (intro steps)

lemma stepwise_descendant_agents [steps]: "interleaved E \<Longrightarrow> stepwise E (descendant_agents_for_run E i)"
  unfolding descendant_agents_for_run_def by (intro steps)

lemma stepwise_descendant_run_ids [steps]: "interleaved E \<Longrightarrow> stepwise E (descendant_run_ids_for_run E i)"
  unfolding descendant_run_ids_for_run_def by (intro steps)

lemma stepwise_preflight [steps]: "interleaved E \<Longrightarrow> stepwise E (preflight_for_run E i)"
  unfolding preflight_for_run_def by (intro steps)

lemma stepwise_add_agents [steps]: "interleaved E \<Longrightarrow> stepwise E (add_agents E as bs)"
  by (rule stepwise_cong [OF add_agents_def]) (intro steps stepwise_same; simp)

lemma drop_creation_steps: "interleaved E \<Longrightarrow> store_steps E m (drop_creation_block E bs m)"
proof -
  assume "interleaved E"
  then have "stepwise E (sect E (\<lambda>m. ((), drop_agents_block bs m)))" by (intro steps stepwise_same) simp_all
  then show ?thesis by (simp add: drop_creation_block_def stepwise_def)
qed

lemma stepwise_close_descendant [steps]: "interleaved E \<Longrightarrow> stepwise E (close_descendant E sid reason)"
  unfolding close_descendant_def by (intro steps)

lemma stepwise_descendant_step [steps]:
  "stepwise E f \<Longrightarrow> stepwise E g \<Longrightarrow> (\<And>ev. stepwise E (h ev)) \<Longrightarrow>
   stepwise E (\<lambda>m. case d of DescendantGone \<Rightarrow> f m | DescendantRaced \<Rightarrow> g m | DescendantSettled ev \<Rightarrow> h ev m)"
  by (cases d) auto

lemma stepwise_nat [steps]:
  "(n = 0 \<Longrightarrow> stepwise E f) \<Longrightarrow> (\<And>k. n = Suc k \<Longrightarrow> stepwise E (g k)) \<Longrightarrow>
   stepwise E (\<lambda>m. case n of 0 \<Rightarrow> f m | Suc k \<Rightarrow> g k m)"
  by (cases n) auto

lemma stepwise_cancel_descendant_loop [steps]:
  assumes "interleaved E"
  shows "stepwise E (cancel_descendant_loop E i reason n)"
proof (induction n rule: less_induct)
  case (less n)
  show ?case
    by (rule stepwise_cong [OF cancel_descendant_loop.simps]) (intro steps assms less, simp)
qed

lemma stepwise_cancel_descendant_run [steps]: "interleaved E \<Longrightarrow> stepwise E (cancel_descendant_run E i reason)"
  unfolding cancel_descendant_run_def by (intro steps)

lemma stepwise_sum [steps]:
  "(\<And>e. stepwise E (f e)) \<Longrightarrow> (\<And>a. stepwise E (g a)) \<Longrightarrow>
   stepwise E (\<lambda>m. case x of Inl e \<Rightarrow> f e m | Inr a \<Rightarrow> g a m)"
  by (cases x) auto

lemma stepwise_cancel_descendants [steps]:
  assumes "interleaved E"
  shows "stepwise E (cancel_descendants E reason is err)"
proof (induction "is" arbitrary: err)
  case Nil
  show ?case by (rule stepwise_same) simp
next
  case (Cons i "is")
  show ?case
    by (rule stepwise_cong [OF cancel_descendants.simps(2)]) (intro steps assms Cons)
qed

lemma stepwise_cascade_scan [steps]:
  assumes "interleaved E"
  shows "stepwise E (cascade_scan E i reason n blocked err)"
proof (induction n arbitrary: blocked err)
  case 0
  show ?case
    by (rule stepwise_cong [OF cascade_scan.simps(1)]) (intro steps assms)
next
  case (Suc n)
  show ?case
    by (rule stepwise_cong [OF cascade_scan.simps(2)]) (intro steps assms Suc)
qed

lemma stepwise_cascade [steps]:
  assumes "interleaved E"
  shows "stepwise E (cascade_descendants_for_run E i reason)"
  unfolding stepwise_def
proof
  fix m
  obtain res blocked m1 where c: "cascade_scan E i reason (Suc DESCENDANT_CASCADE_SCAN_LIMIT) [] None m = ((res, blocked), m1)"
    by (metis prod.exhaust)
  then have "store_steps E m m1" using stepwise_cascade_scan [OF assms] by (metis stepwise_def snd_conv)
  also have "store_steps E m1 (drop_creation_block E blocked m1)" by (rule drop_creation_steps [OF assms])
  finally show "store_steps E m (snd (cascade_descendants_for_run E i reason m))"
    by (simp add: cascade_descendants_for_run_def c del: cascade_scan.simps)
qed

lemma rollback_steps: "\<not> writes_ok E \<Longrightarrow> store_steps E m (rollback_block r m)"
  by (rule r_into_rtranclp, rule Rollback)

lemma persist_block_ok:
  assumes "writes_ok E" "e_persister E" "valid (validate_path_safe (rn_task_id r))"
  shows "\<exists>m'. persist_block E r m = (Inr (), m')"
proof -
  obtain body where b: "e_to_yaml E r = Some body" using assms by (auto simp: writes_ok_def)
  obtain u where "validate_path_safe (rn_task_id r) = Inr u" using assms(3) by (cases "validate_path_safe (rn_task_id r)") auto
  then show ?thesis using b assms by (simp add: persist_block_def persist_def writes_ok_def)
qed

text \<open>When writes succeed, the rollback is not reached for a task id that passed the checks.\<close>

lemma persist_new_steps:
  assumes "interleaved E" "\<And>r. row = Some r \<Longrightarrow> e_persister E \<Longrightarrow> valid (validate_path_safe (rn_task_id r))"
  shows "store_steps E m (snd (persist_new E row m))"
proof (cases "row = None \<or> \<not> e_persister E")
  case True
  then show ?thesis by (auto simp: persist_new_def split: option.splits)
next
  case False
  then obtain r where r: "row = Some r" and p: "e_persister E" by auto
  obtain res m1 where m1: "guarded_sect E (persist_block E r) m = (res, m1)" by force
  have s1: "store_steps E m m1"
    using stepwise_guarded [OF assms(1) stepwise_persist_block] m1 by (metis stepwise_def snd_conv)
  show ?thesis
  proof (cases res)
    case (Inr u)
    then show ?thesis using s1 by (simp add: persist_new_def r p m1)
  next
    case (Inl e)
    have "\<not> writes_ok E"
      using persist_block_ok [OF _ p assms(2) [OF r p]] m1 Inl by (metis guarded_sect_def prod.inject sum.distinct(1))
    then have "stepwise E (guarded_sect E (\<lambda>m. ((), rollback_block r m)))"
      using rollback_steps by (intro stepwise_guarded [OF assms(1)]) (simp add: stepwise_fun)
    then show ?thesis using s1 Inl by (auto simp: persist_new_def r p m1 stepwise_def elim: rtranclp_trans)
  qed
qed

lemma ensure_block_task:
  "ensure_block E task_id agent cfg strict m = (Inr (i, ev, Some r), m') \<Longrightarrow> rn_task_id r = task_id"
  by (auto simp: ensure_block_def new_run_def Let_def split: option.splits if_splits)

lemma stepwise_ensure_run_inner [steps]:
  assumes E: "interleaved E"
  shows "stepwise E (ensure_run_inner E task_id agent cfg strict)"
proof (cases "ensure_run_checks E task_id agent cfg")
  case (Inl e)
  then show ?thesis by (simp add: ensure_run_inner_def stepwise_def sbind_slift)
next
  case (Inr u)
  then have safe: "e_persister E \<Longrightarrow> valid (validate_path_safe task_id)"
    by (auto simp: ensure_run_checks_def split: if_splits)
  let ?tail = "\<lambda>(run_id, ev, new_row). sbind (persist_new E new_row) (\<lambda>_. sbind (emit E ev) (\<lambda>_. sreturn run_id))"
  have "store_steps E m (snd (sbind (guarded_sect E (ensure_block E task_id agent cfg strict)) ?tail m))" for m
  proof (rule sbind_rel [where R = "store_steps E"])
    show "store_steps E m (snd (guarded_sect E (ensure_block E task_id agent cfg strict) m))"
      using stepwise_guarded [OF E stepwise_ensure_block] by (simp add: stepwise_def)
  next
    fix a m1
    assume b: "guarded_sect E (ensure_block E task_id agent cfg strict) m = (Inr a, m1)"
    obtain i ev row where a: "a = (i, ev, row)" by (metis prod.exhaust)
    have "store_steps E m1 (snd (persist_new E row m1))"
      using ensure_block_task b a safe by (intro persist_new_steps [OF E]) (auto simp: guarded_sect_def)
    moreover have "stepwise E (sbind (emit E ev) (\<lambda>_. sreturn i))" by (intro steps E)
    then have "store_steps E m2 (snd (sbind (emit E ev) (\<lambda>_. sreturn i) m2))" for m2 by (simp add: stepwise_def)
    ultimately show "store_steps E m1 (snd (?tail a m1))"
      unfolding a prod.case by (rule sbind_rel [where R = "store_steps E"]) (auto elim: rtranclp_trans)
  qed (rule rtranclp_trans)
  then have t: "stepwise E (sbind (guarded_sect E (ensure_block E task_id agent cfg strict)) ?tail)"
    by (simp add: stepwise_def)
  show ?thesis unfolding ensure_run_inner_def by (intro steps E t)
qed

lemma stepwise_ensure_run [steps]: "interleaved E \<Longrightarrow> stepwise E (ensure_run E t a c)"
  unfolding ensure_run_def by (intro steps)

lemma stepwise_ensure_run_strict [steps]: "interleaved E \<Longrightarrow> stepwise E (ensure_run_strict E t a c)"
  unfolding ensure_run_strict_def by (intro steps)

lemma stepwise_normal_round [steps]: "interleaved E \<Longrightarrow> stepwise E (normal_round E i tr ps)"
  unfolding normal_round_def by (intro steps)

lemma stepwise_auto_round [steps]: "interleaved E \<Longrightarrow> stepwise E (auto_round E i res)"
  unfolding auto_round_def by (intro steps)

lemma stepwise_complete_round_with_trace [steps]:
  "interleaved E \<Longrightarrow> stepwise E (complete_round_with_trace E i res tr ps)"
  unfolding complete_round_with_trace_def by (intro steps)

lemma stepwise_complete_round [steps]: "interleaved E \<Longrightarrow> stepwise E (complete_round E i res)"
  unfolding complete_round_def by (intro steps)

lemma stepwise_complete_run [steps]: "interleaved E \<Longrightarrow> stepwise E (complete_run E i out)"
  unfolding complete_run_def Let_def by (intro steps) simp_all

lemma stepwise_fail_run [steps]: "interleaved E \<Longrightarrow> stepwise E (fail_run E i reason)"
  unfolding fail_run_def Let_def by (intro steps) simp_all

lemma stepwise_close_session [steps]: "interleaved E \<Longrightarrow> stepwise E (close_session E sid reason)"
  unfolding close_session_def by (intro steps)

lemma stepwise_status [steps]:
  "stepwise E f1 \<Longrightarrow> stepwise E f2 \<Longrightarrow> stepwise E f3 \<Longrightarrow> stepwise E f4 \<Longrightarrow> (\<And>x. stepwise E (f5 x)) \<Longrightarrow> (\<And>x. stepwise E (f6 x)) \<Longrightarrow>
   stepwise E (case st of Active \<Rightarrow> f1 | Suspended \<Rightarrow> f2 | Paused \<Rightarrow> f3 | Completed \<Rightarrow> f4 | Failed x \<Rightarrow> f5 x | Cancelled x \<Rightarrow> f6 x)"
  by (cases st) auto

lemma stepwise_status_app [steps]:
  "stepwise E f1 \<Longrightarrow> stepwise E f2 \<Longrightarrow> stepwise E f3 \<Longrightarrow> stepwise E f4 \<Longrightarrow> (\<And>x. stepwise E (f5 x)) \<Longrightarrow> (\<And>x. stepwise E (f6 x)) \<Longrightarrow>
   stepwise E (\<lambda>m. case st of Active \<Rightarrow> f1 m | Suspended \<Rightarrow> f2 m | Paused \<Rightarrow> f3 m | Completed \<Rightarrow> f4 m
     | Failed x \<Rightarrow> f5 x m | Cancelled x \<Rightarrow> f6 x m)"
  by (cases st) auto

lemma stepwise_pause_run [steps]: "interleaved E \<Longrightarrow> stepwise E (pause_run E i reason)"
  unfolding pause_run_def Let_def by (intro steps)

lemma stepwise_after_settle [steps]: "interleaved E \<Longrightarrow> stepwise E (after_settle E i reason ev)"
  unfolding after_settle_def by (intro steps)

lemma stepwise_recheck [steps]:
  "(\<And>ev. stepwise E (f ev)) \<Longrightarrow> stepwise E g \<Longrightarrow> (\<And>st ra. stepwise E (h st ra)) \<Longrightarrow>
   stepwise E (\<lambda>m. case c of CancelSettled ev \<Rightarrow> f ev m | RacedTerminal \<Rightarrow> g m | RacedLive st ra \<Rightarrow> h st ra m)"
  by (cases c) auto

lemma stepwise_cancel_loop [steps]:
  assumes "interleaved E"
  shows "stepwise E (cancel_loop E i reason n st ra)"
proof (induction n arbitrary: st ra)
  case 0
  show ?case by (rule stepwise_same) simp
next
  case (Suc n)
  show ?case by (rule stepwise_cong [OF cancel_loop.simps(2)]) (intro steps assms Suc)
qed

lemma stepwise_cancel_run [steps]: "interleaved E \<Longrightarrow> stepwise E (cancel_run E i reason)"
  unfolding cancel_run_def by (intro steps)

lemma stepwise_force_cancel_sync [steps]: "interleaved E \<Longrightarrow> stepwise E (force_cancel_run_by_id_sync E i reason)"
  by (rule stepwise_cong [OF force_cancel_run_by_id_sync_def]) (intro steps)

lemma stepwise_resolve_run [steps]: "interleaved E \<Longrightarrow> stepwise E (resolve_run E a)"
  unfolding resolve_run_def by (intro steps)

lemma stepwise_cancel_run_for_agent [steps]: "interleaved E \<Longrightarrow> stepwise E (cancel_run_for_agent E a reason)"
  unfolding cancel_run_for_agent_def by (intro steps)

lemma stepwise_force_cancel_each [steps]:
  assumes "interleaved E"
  shows "stepwise E (force_cancel_each E reason is)"
proof (induction "is")
  case Nil
  show ?case by (rule stepwise_same) simp
next
  case (Cons i "is")
  show ?case by (rule stepwise_cong [OF force_cancel_each.simps(2)]) (intro steps assms Cons)
qed

lemma stepwise_cancel_all_loop [steps]:
  assumes "interleaved E"
  shows "stepwise E (cancel_all_loop E a reason n)"
proof (induction n)
  case 0
  show ?case by (rule stepwise_cong [OF cancel_all_loop.simps(1)]) (intro steps assms)
next
  case (Suc n)
  show ?case by (rule stepwise_cong [OF cancel_all_loop.simps(2)]) (intro steps assms Suc)
qed

lemma stepwise_cancel_all_runs [steps]:
  assumes "interleaved E"
  shows "stepwise E (cancel_all_runs_for_agent E a reason)"
proof -
  let ?b = "sect E (\<lambda>m. ((), block_terminated_block a m))"
  have b: "stepwise E ?b" using assms by (intro steps stepwise_same) (simp_all add: block_terminated_block_def)
  have "stepwise E (\<lambda>m. case ?b m of (u, m') \<Rightarrow> cancel_all_loop E a (truncate_reason reason) (Suc DESCENDANT_CASCADE_SCAN_LIMIT) m')"
    by (intro stepwise_case b stepwise_cancel_all_loop assms)
  then show ?thesis
    by (rule stepwise_cong [rotated]) (simp add: cancel_all_runs_for_agent_def split: prod.splits)
qed

lemma stepwise_resume_run [steps]: "interleaved E \<Longrightarrow> stepwise E (resume_run E i reason)"
  unfolding resume_run_def Let_def by (intro steps)

lemma stepwise_resume_run_if_suspended [steps]: "interleaved E \<Longrightarrow> stepwise E (resume_run_if_suspended E i reason)"
  unfolding resume_run_if_suspended_def Let_def by (intro steps)

lemma stepwise_suspend_run [steps]: "interleaved E \<Longrightarrow> stepwise E (suspend_run E i sid)"
  unfolding suspend_run_def by (intro steps)

lemma stepwise_check_budget [steps]: "interleaved E \<Longrightarrow> stepwise E (check_budget E i tokens cost)"
  by (rule stepwise_cong [OF check_budget_def]) (intro steps)

lemma commit_budget_steps:
  assumes "interleaved E"
  shows "store_steps E m (commit_budget E i tokens cost m)"
proof -
  have "stepwise E (\<lambda>m. ((), commit_budget E i tokens cost m))"
  proof (cases "bad_amount cost")
    case False
    have "stepwise E (\<lambda>m. case sect E (commit_block i tokens cost) m of
        (None, m1) \<Rightarrow> ((), m1) | (Some r, m1) \<Rightarrow> ((), snd (persist_best_effort E r m1)))"
      by (intro steps assms False)
    then show ?thesis
      by (auto simp: stepwise_def commit_budget_def split: prod.splits option.splits) 
  qed (simp add: commit_budget_def stepwise_def)
  then show ?thesis by (simp add: stepwise_fun)
qed

lemma stepwise_announce [steps]: "interleaved E \<Longrightarrow> stepwise E (announce_interrupt E r)"
  unfolding announce_interrupt_def by (intro steps)

lemma stepwise_bool [steps]:
  "stepwise E f \<Longrightarrow> stepwise E g \<Longrightarrow> stepwise E (\<lambda>m. case b of True \<Rightarrow> f m | False \<Rightarrow> g m)"
  by (cases b) auto

lemma stepwise_recover_one [steps]: "interleaved E \<Longrightarrow> stepwise E (recover_one E ar r rep)"
  by (rule stepwise_cong [OF recover_one_def]) (unfold Let_def, intro steps)

lemma stepwise_recover_each [steps]:
  assumes "interleaved E"
  shows "stepwise E (recover_each E ar rs rep)"
proof (induction rs arbitrary: rep)
  case Nil
  show ?case by (rule stepwise_same) simp
next
  case (Cons r rs)
  show ?case by (rule stepwise_cong [OF recover_each.simps(2)]) (intro steps assms Cons)
qed

lemma stepwise_recover_on_startup [steps]: "interleaved E \<Longrightarrow> stepwise E (recover_on_startup E ar)"
  by (rule stepwise_cong [OF recover_on_startup_def]) (intro steps)

lemma insert_rows_steps:
  assumes "\<forall>r\<in>set rows. (\<exists>body. e_from_yaml E body = Some r) \<and> row_acceptable (rn_task_id r) r"
  shows "store_steps E m (m\<lparr>m_store := snd (insert_rows rows rep (m_store m))\<rparr>)"
  using assms
proof (induction rows arbitrary: rep m)
  case (Cons r rows)
  have IH: "store_steps E m' (m'\<lparr>m_store := snd (insert_rows rows rep' (m_store m'))\<rparr>)" for rep' and m' :: run_manager
    using Cons by simp
  show ?case
  proof (cases "runs_len (m_store m) \<ge> MAX_RUNS_PER_STORE \<or> store_get (m_store m) (rn_id r) \<noteq> None
      \<or> is_live_status (rn_status r) \<and> find_live_by_task (m_store m) (rn_task_id r) \<noteq> None")
    case True
    then show ?thesis using IH [of m] by (auto simp del: not_None_eq)
  next
    case False
    let ?m = "m\<lparr>m_store := store_insert r (m_store m)\<rparr>"
    obtain body where "e_from_yaml E body = Some r" using Cons.prems by auto
    then have "store_step E m ?m" using False Cons.prems by (intro Load) auto
    moreover have "store_steps E ?m (m\<lparr>m_store := snd (insert_rows rows (rep\<lparr>rp_disk_loaded := inc (rp_disk_loaded rep)\<rparr>) (store_insert r (m_store m)))\<rparr>)"
      using IH [of ?m] by simp
    ultimately show ?thesis using False by (auto intro: converse_rtranclp_into_rtranclp)
  qed
qed (simp add: frame_step)

lemma load_entry_sound:
  "load_entry fy stem e = Some r \<Longrightarrow> (\<exists>body. fy body = Some r) \<and> row_acceptable (rn_task_id r) r"
  by (auto simp: load_entry_def row_acceptable_def split: option.splits if_splits)

lemma load_all_sound:
  assumes "load_all fy listing = Inr (rows, k)" "r \<in> set rows"
  shows "(\<exists>body. fy body = Some r) \<and> row_acceptable (rn_task_id r) r"
  using assms load_loop_sound [of fy _ 0 "[]" 0 rows k r] load_entry_sound
  by (auto simp: load_all_def split: option.splits) blast+

lemma stepwise_load_block [steps]: "stepwise E (load_block E)"
proof -
  have "store_steps E m (snd (load_block E m))" for m
  proof (cases "load_all (e_from_yaml E) (if e_read_dir E (m_tick m) then Some (m_dir m) else None)")
    case (Inl e)
    then show ?thesis by (simp add: load_block_def)
  next
    case (Inr x)
    obtain rows k where x: "x = (rows, k)" by force
    from Inr x load_all_sound have "\<forall>r\<in>set rows. (\<exists>body. e_from_yaml E body = Some r) \<and> row_acceptable (rn_task_id r) r"
      by blast
    from insert_rows_steps [OF this] show ?thesis
      by (simp add: load_block_def Inr x split: prod.splits) (metis snd_conv)
  qed
  then show ?thesis by (simp add: stepwise_def)
qed

lemma stepwise_recover_from_disk [steps]: "interleaved E \<Longrightarrow> stepwise E (recover_from_disk E)"
  unfolding recover_from_disk_def by (intro steps)

lemma stepwise_cold_start [steps]: "interleaved E \<Longrightarrow> stepwise E (cold_start_recovery E ar)"
  unfolding cold_start_recovery_def by (intro steps)

section \<open>Runs of the manager\<close>

text \<open>One call of a public method, interleaved with others as the environment says.\<close>

inductive method_call :: "run_env \<Rightarrow> run_manager \<Rightarrow> run_manager \<Rightarrow> bool" for E where
  "method_call E m (snd (ensure_run E t a c m))"
| "method_call E m (snd (ensure_run_strict E t a c m))"
| "method_call E m (snd (complete_round_with_trace E i res tr ps m))"
| "method_call E m (snd (complete_run E i out m))"
| "method_call E m (snd (fail_run E i reason m))"
| "method_call E m (snd (pause_run E i reason m))"
| "method_call E m (snd (cancel_run E i reason m))"
| "method_call E m (snd (cancel_run_for_agent E a reason m))"
| "method_call E m (snd (cancel_all_runs_for_agent E a reason m))"
| "method_call E m (snd (resume_run E i reason m))"
| "method_call E m (snd (resume_run_if_suspended E i reason m))"
| "method_call E m (snd (suspend_run E i sid m))"
| "method_call E m (snd (check_budget E i tokens cost m))"
| "method_call E m (commit_budget E i tokens cost m)"
| "method_call E m (snd (recover_on_startup E ar m))"
| "method_call E m (snd (cold_start_recovery E ar m))"
| "method_call E m (snd (recover_from_disk E m))"

abbreviation manager_run :: "run_env \<Rightarrow> run_manager \<Rightarrow> run_manager \<Rightarrow> bool" where
  "manager_run E \<equiv> (method_call E)\<^sup>*\<^sup>*"

lemma method_call_steps:
  assumes "interleaved E" "method_call E m m'"
  shows "store_steps E m m'"
  using assms(2)
proof cases
  case (14 i tokens cost)
  then show ?thesis using commit_budget_steps [OF assms(1)] by simp
qed (use assms(1) steps in \<open>auto simp: stepwise_def\<close>)

lemma manager_run_steps:
  assumes "interleaved E" "manager_run E m m'"
  shows "store_steps E m m'"
  using assms(2) by induction (auto intro: rtranclp_trans method_call_steps [OF assms(1)])

section \<open>Invariants of the store\<close>

text \<open>A UUID differs from the ids in use.\<close>

definition uuid_fresh :: "run_env \<Rightarrow> bool" where
  "uuid_fresh E \<longleftrightarrow> (\<forall>n ids. lit ''run-'' @ e_uuid E n ids \<notin> set ids)"

locale run_invariant =
  fixes E :: run_env and P :: "run_store \<Rightarrow> bool"
  assumes put: "P st \<Longrightarrow> store_get st i = Some r \<Longrightarrow> row_step r r' \<Longrightarrow> is_live_status (rn_status r') \<Longrightarrow> P (store_put i r' st)"
    and finish: "P st \<Longrightarrow> store_get st i = Some r \<Longrightarrow> row_step r r' \<Longrightarrow> \<not> is_live_status (rn_status r') \<Longrightarrow>
      P (drop_live_by_task (rn_task_id r') (store_put i r' st))"
    and create: "P st \<Longrightarrow> find_live_by_task st task_id = None \<Longrightarrow>
      P (store_insert (new_run (e_uuid E n (map fst (rs_runs st))) task_id agent cfg t) st)"
    and load: "P st \<Longrightarrow> e_from_yaml E body = Some r \<Longrightarrow> row_acceptable (rn_task_id r) r \<Longrightarrow> store_get st (rn_id r) = None \<Longrightarrow>
      (is_live_status (rn_status r) \<longrightarrow> find_live_by_task st (rn_task_id r) = None) \<Longrightarrow> P (store_insert r st)"
    and rollback: "P st \<Longrightarrow> \<not> writes_ok E \<Longrightarrow> P (store_remove (rn_id r) (drop_live_by_task (rn_task_id r) st))"
begin

lemma step: "store_step E m m' \<Longrightarrow> P (m_store m) \<Longrightarrow> P (m_store m')"
  by (induction rule: store_step.induct)
    (auto simp: put_run_def finish_run_def rollback_block_def intro: put finish create load rollback)

lemma kept: "store_steps E m m' \<Longrightarrow> P (m_store m) \<Longrightarrow> P (m_store m')"
  by (induction rule: rtranclp_induct) (auto intro: step)

lemma reached: "interleaved E \<Longrightarrow> manager_run E m m' \<Longrightarrow> P (m_store m) \<Longrightarrow> P (m_store m')"
  using kept manager_run_steps by blast

end

end
