(* ===== verification/RunProps.thy ===== *)
theory RunProps
  imports RunInv
begin

text \<open>
  What holds of the run manager in every interleaving: the index of live runs is exact, a run keeps its identity and its
  counters only grow, a run that has ended stays as it is, an accepted cancellation is not lost, and the token
  budget is never exceeded.
\<close>

section \<open>Rows\<close>

definition same_identity :: "run \<Rightarrow> run \<Rightarrow> bool" where
  "same_identity r r' \<longleftrightarrow> rn_id r' = rn_id r \<and> rn_task_id r' = rn_task_id r \<and> rn_controller_agent r' = rn_controller_agent r
     \<and> rn_created_at r' = rn_created_at r \<and> b_token_limit (rn_budget r') = b_token_limit (rn_budget r)
     \<and> b_cost_limit (rn_budget r') = b_cost_limit (rn_budget r) \<and> b_rounds_limit (rn_budget r') = b_rounds_limit (rn_budget r)
     \<and> rn_retry_overrides r' = rn_retry_overrides r \<and> rn_repetition_guard r' = rn_repetition_guard r"

lemma row_step_identity: "row_step r r' \<Longrightarrow> same_identity r r'"
  by (induction rule: row_step.induct) (auto simp: same_identity_def row_defs drain_def reserve_def spend_def)

lemma row_step_live: "row_step r r' \<Longrightarrow> is_live_status (rn_status r)"
  by (induction rule: row_step.induct) auto

lemma row_step_task [simp]: "row_step r r' \<Longrightarrow> rn_task_id r' = rn_task_id r" "row_step r r' \<Longrightarrow> rn_id r' = rn_id r"
  using row_step_identity by (auto simp: same_identity_def)

text \<open>The amounts of a row are amounts of money, and what is reserved is finite.\<close>

definition amounts_ok :: "budget_state \<Rightarrow> bool" where
  "amounts_ok b \<longleftrightarrow> nonneg (b_cost_usd b) \<and> f64_ok (b_cost_usd b) \<and> nonneg (b_cost_reserved b)
     \<and> f64_ok (b_cost_reserved b) \<and> is_finite (b_cost_reserved b)"

definition tokens_within :: "budget_state \<Rightarrow> bool" where
  "tokens_within b \<longleftrightarrow> \<not> exceeds (<) (b_token_limit b) (sat_add (b_token_used b) (b_token_reserved b))"

text \<open>A run has a session exactly while it is suspended, an ended run has no pending request, and the iteration counts the
  rounds.\<close>

definition shape_ok :: "run \<Rightarrow> bool" where
  "shape_ok r \<longleftrightarrow>
     (rn_root_await r \<noteq> None \<longleftrightarrow> rn_status r = Suspended)
     \<and> (\<not> is_live_status (rn_status r) \<longrightarrow> rn_pause_pending r = None \<and> rn_cancel_pending r = None)
     \<and> rn_iteration r = b_rounds_used (rn_budget r)"

definition drained :: "run \<Rightarrow> bool" where
  "drained r \<longleftrightarrow> is_live_status (rn_status r) \<or> b_token_reserved (rn_budget r) = 0 \<and> b_cost_reserved (rn_budget r) = Fin 0"

lemma representable_0 [simp]: "representable 0"
  by (simp add: representable_def f64_bound_def)

lemma not_bad_amount: "\<not> bad_amount x \<longleftrightarrow> nonneg x \<and> is_finite x"
  by (cases x) (auto simp: bad_amount_def)

lemma sat_add_assoc: "sat_add (sat_add a b) c = sat_add a (sat_add b c)" for a b c :: "'a::len word"
  by (auto simp: word_unat_eq_iff unat_sat_add min_def)

lemma drain_simps [simp]:
  "b_token_reserved (drain b) = 0" "b_cost_reserved (drain b) = Fin 0" "b_rounds_used (drain b) = b_rounds_used b"
  "b_token_used (drain b) = b_token_used b" "b_cost_usd (drain b) = b_cost_usd b"
  by (simp_all add: drain_def)

lemma amounts_ok_drain [simp]: "amounts_ok b \<Longrightarrow> amounts_ok (drain b)"
  by (simp add: amounts_ok_def drain_def)

lemma amounts_ok_rounds [simp]: "amounts_ok (b\<lparr>b_rounds_used := n\<rparr>) = amounts_ok b"
  by (simp add: amounts_ok_def)

lemma nonneg_ge: "nonneg x \<Longrightarrow> \<not> f64_lt y x \<Longrightarrow> y \<noteq> NaN \<Longrightarrow> nonneg y"
  by (cases x; cases y) auto

lemma amounts_ok_reserve:
  assumes "amounts_ok b" "\<not> bad_amount cost" "\<not> f64_lt e (b_cost_usd b)" "is_finite (f64_add (f64_add e (b_cost_reserved b)) cost)"
  shows "amounts_ok (reserve tokens cost b)"
proof -
  have "e \<noteq> NaN" using assms(4) by auto
  then have "nonneg e" using assms(1,3) nonneg_ge by (auto simp: amounts_ok_def)
  then show ?thesis using assms is_finite_add_drop [of e "b_cost_reserved b" cost]
    by (auto simp: amounts_ok_def reserve_def not_bad_amount)
qed

lemma tokens_within_reserve:
  assumes "\<not> exceeds (<) (b_token_limit b) (sat_add (sat_add (b_token_used b) (b_token_reserved b)) tokens)"
  shows "tokens_within (reserve tokens cost b)"
  using assms by (simp add: tokens_within_def reserve_def sat_add_assoc)

lemma is_finite_min: "is_finite x \<Longrightarrow> nonneg x \<Longrightarrow> nonneg y \<Longrightarrow> is_finite (f64_min x y)"
  by (cases x; cases y) auto

lemma is_finite_sub_min:
  assumes "is_finite x" "f64_ok x" "nonneg x" "nonneg y"
  shows "is_finite (f64_sub x (f64_min x y))"
proof -
  obtain a where x: "x = Fin a" using assms(1) by (cases x) auto
  have r: "is_finite (f64_round a)"
    using assms x by (auto simp: f64_round_def Let_def representable_def round_nat_exact)
  obtain b where b: "f64_min x y = Fin b" "0 \<le> b" "b \<le> a"
  proof (cases y)
    case (Fin c)
    then show ?thesis using that [of "min a c"] assms x by (auto simp: min_def)
  qed (use assms x that [of a] in auto)
  show ?thesis using is_finite_round_mono [OF _ _ r, of "a - b"] b by (simp add: f64_sub_def x)
qed

lemma amounts_ok_spend:
  assumes "amounts_ok b" "\<not> bad_amount cost"
  shows "amounts_ok (spend tokens cost b)"
  using assms nonneg_sub_min [of "b_cost_reserved b" cost] is_finite_sub_min [of "b_cost_reserved b" cost]
  by (auto simp: amounts_ok_def spend_def Let_def not_bad_amount)

lemma min_split_sum: "x \<le> v \<Longrightarrow> min n (min n (u + x) + (v - x)) = min n (u + v)" for n u v x :: nat
  by (auto simp: min_def)

lemma spend_tokens_sum:
  "sat_add (sat_add u (min v k)) (v - min v k) = sat_add u v" for u v k :: "'a::len word"
proof -
  have "unat (v - min v k) = unat v - unat (min v k)" by (rule unat_sub) simp
  moreover have "unat (min v k) \<le> unat v" by (simp add: word_le_nat_alt [symmetric])
  ultimately show ?thesis by (simp only: word_unat_eq_iff unat_sat_add min_split_sum)
qed

lemma row_step_amounts: "row_step r r' \<Longrightarrow> amounts_ok (rn_budget r) \<Longrightarrow> amounts_ok (rn_budget r')"
  by (induction rule: row_step.induct) (auto simp: row_defs intro: amounts_ok_reserve amounts_ok_spend)

lemma row_step_drained: "row_step r r' \<Longrightarrow> drained r'"
  by (induction rule: row_step.induct) (auto simp: drained_def row_defs)

lemma row_step_shape: "row_step r r' \<Longrightarrow> shape_ok r \<Longrightarrow> shape_ok r'"
  by (induction rule: row_step.induct) (auto simp: shape_ok_def row_defs reserve_def spend_def)

text \<open>What is spent and reserved grows only by a reservation within the limit.\<close>

definition token_sum :: "budget_state \<Rightarrow> 64 word" where
  "token_sum b = sat_add (b_token_used b) (b_token_reserved b)"

lemma token_sum_simps [simp]:
  "token_sum (drain b) = b_token_used b" "token_sum (spend tokens cost b) = token_sum b"
  "token_sum (b\<lparr>b_rounds_used := n\<rparr>) = token_sum b" "b_token_used b \<le> token_sum b"
  by (simp_all add: token_sum_def drain_def spend_def Let_def spend_tokens_sum sat_add_ge)

lemma row_step_tokens: "row_step r r' \<Longrightarrow> tokens_within (rn_budget r') \<or> token_sum (rn_budget r') \<le> token_sum (rn_budget r)"
  by (induction rule: row_step.induct) (auto simp: row_defs intro: tokens_within_reserve)

lemma tokens_within_mono:
  "tokens_within b \<Longrightarrow> token_sum b' \<le> token_sum b \<Longrightarrow> b_token_limit b' = b_token_limit b \<Longrightarrow> tokens_within b'"
  by (auto simp: tokens_within_def token_sum_def exceeds_def split: option.splits)

section \<open>The index of live runs\<close>

lemma distinct_runs [simp]:
  "distinct (map fst (rs_runs st)) \<Longrightarrow> distinct (map fst (rs_runs (store_put i r st)))"
  "distinct (map fst (rs_runs st)) \<Longrightarrow> distinct (map fst (rs_runs (store_insert r st)))"
  "rs_runs (drop_live_by_task t st) = rs_runs st"
  by (simp_all add: store_put_def store_insert_def drop_live_by_task_def Let_def distinct_update)

definition store_wf :: "run_store \<Rightarrow> bool" where
  "store_wf st \<longleftrightarrow>
     distinct (map fst (rs_runs st)) \<and> (\<forall>i r. store_get st i = Some r \<longrightarrow> rn_id r = i)
     \<and> (\<forall>t i. map_of (rs_live_by_task st) t = Some i
          \<longleftrightarrow> (\<exists>r. store_get st i = Some r \<and> is_live_status (rn_status r) \<and> rn_task_id r = t))"

lemma store_wfD:
  assumes "store_wf st"
  shows "distinct (map fst (rs_runs st))" "store_get st i = Some r \<Longrightarrow> rn_id r = i"
    "map_of (rs_live_by_task st) t = Some i
       \<longleftrightarrow> (\<exists>r. store_get st i = Some r \<and> is_live_status (rn_status r) \<and> rn_task_id r = t)"
  using assms by (auto simp: store_wf_def)

text \<open>So a lookup finds the live run of a task, and there is at most one.\<close>

lemma find_live_iff:
  assumes "store_wf st"
  shows "find_live_by_task st t = Some r \<longleftrightarrow>
    store_get st (rn_id r) = Some r \<and> is_live_status (rn_status r) \<and> rn_task_id r = t"
proof
  assume "find_live_by_task st t = Some r"
  then obtain i where i: "map_of (rs_live_by_task st) t = Some i" "store_get st i = Some r" "is_live_status (rn_status r)"
    by (auto simp: find_live_by_task_def split: option.splits if_splits)
  then show "store_get st (rn_id r) = Some r \<and> is_live_status (rn_status r) \<and> rn_task_id r = t"
    using store_wfD(2,3) [OF assms] by auto
next
  assume r: "store_get st (rn_id r) = Some r \<and> is_live_status (rn_status r) \<and> rn_task_id r = t"
  then have "map_of (rs_live_by_task st) t = Some (rn_id r)" using store_wfD(3) [OF assms] by blast
  with r show "find_live_by_task st t = Some r" by (simp add: find_live_by_task_def)
qed

lemma one_live_run:
  assumes "store_wf st" "store_get st i = Some r" "store_get st j = Some r'" "is_live_status (rn_status r)"
    "is_live_status (rn_status r')" "rn_task_id r = rn_task_id r'"
  shows "i = j"
  using store_wfD(3) [OF assms(1)] assms(2-) by (metis option.inject)

lemma store_wf_put:
  assumes "store_wf st" "store_get st i = Some r" "row_step r r'" "is_live_status (rn_status r')"
  shows "store_wf (store_put i r' st)"
  using assms row_step_live [OF assms(3)] unfolding store_wf_def by auto

lemma store_wf_finish:
  assumes "store_wf st" "store_get st i = Some r" "row_step r r'" "\<not> is_live_status (rn_status r')"
  shows "store_wf (drop_live_by_task (rn_task_id r) (store_put i r' st))"
proof -
  let ?st = "drop_live_by_task (rn_task_id r) (store_put i r' st)"
  have only: "j = i" if "store_get st j = Some q" "is_live_status (rn_status q)" "rn_task_id q = rn_task_id r" for j q
    using one_live_run [OF assms(1) that(1) assms(2) that(2) row_step_live [OF assms(3)] that(3)] .
  have "map_of (rs_live_by_task ?st) t = Some j \<longleftrightarrow>
      (\<exists>q. store_get ?st j = Some q \<and> is_live_status (rn_status q) \<and> rn_task_id q = t)" for t j
  proof (cases "j = i \<or> t = rn_task_id r")
    case True
    moreover have "map_of (rs_live_by_task st) t \<noteq> Some i" if "t \<noteq> rn_task_id r"
      using store_wfD(3) [OF assms(1), of t i] assms(2) that by auto
    ultimately show ?thesis using only assms(4) by auto
  next
    case False
    then show ?thesis using store_wfD(3) [OF assms(1), of t j] by auto
  qed
  then show ?thesis using store_wfD [OF assms(1)] assms(2,3) unfolding store_wf_def by auto
qed

lemma store_wf_insert:
  assumes "store_wf st" "store_get st (rn_id r) = None"
    "is_live_status (rn_status r) \<Longrightarrow> find_live_by_task st (rn_task_id r) = None"
  shows "store_wf (store_insert r st)"
proof -
  have "rn_task_id q \<noteq> rn_task_id r" if "is_live_status (rn_status r)" "store_get st j = Some q" "is_live_status (rn_status q)" for j q
    using find_live_iff [OF assms(1), of "rn_task_id r" q] store_wfD(2) [OF assms(1) that(2)] assms(3) that by auto
  then show ?thesis using assms(1,2) unfolding store_wf_def
    by auto
qed

definition sound_env :: "run_env \<Rightarrow> bool" where
  "sound_env E \<longleftrightarrow> writes_ok E \<and> uuid_fresh E"

lemma fresh_run_id:
  "uuid_fresh E \<Longrightarrow> store_get st (rn_id (new_run (e_uuid E n (map fst (rs_runs st))) task_id agent cfg t)) = None"
  by (metis list.set_map map_of_eq_None_iff new_run_def run.select_convs(1) store_get_def uuid_fresh_def)

interpretation li: run_invariant E "\<lambda>st. sound_env E \<longrightarrow> store_wf st" for E
proof unfold_locales
  fix st task_id n agent cfg t
  assume "sound_env E \<longrightarrow> store_wf st" "find_live_by_task st task_id = None"
  then show "sound_env E \<longrightarrow> store_wf (store_insert (new_run (e_uuid E n (map fst (rs_runs st))) task_id agent cfg t) st)"
    using fresh_run_id by (auto intro!: store_wf_insert simp: sound_env_def) (simp add: new_run_def)
qed (auto intro: store_wf_put store_wf_finish store_wf_insert simp: sound_env_def)

lemma store_wf_new [simp]: "store_wf run_store_new"
  by (simp add: store_wf_def run_store_new_def store_get_def)

section \<open>Evolution of a run\<close>

definition row_evolves :: "run \<Rightarrow> run \<Rightarrow> bool" where
  "row_evolves r r' \<longleftrightarrow> same_identity r r'
     \<and> b_token_used (rn_budget r) \<le> b_token_used (rn_budget r') \<and> b_rounds_used (rn_budget r) \<le> b_rounds_used (rn_budget r')
     \<and> (amounts_ok (rn_budget r) \<longrightarrow> amounts_ok (rn_budget r') \<and> \<not> f64_lt (b_cost_usd (rn_budget r')) (b_cost_usd (rn_budget r)))
     \<and> (\<not> is_live_status (rn_status r) \<longrightarrow> r' = r)
     \<and> (rn_cancel_pending r \<noteq> None \<longrightarrow> is_live_status (rn_status r') \<longrightarrow> rn_cancel_pending r' \<noteq> None)"

lemma row_evolves_refl [simp]: "row_evolves r r"
  by (simp add: row_evolves_def same_identity_def)

lemma not_f64_lt_trans:
  "nonneg y \<Longrightarrow> \<not> f64_lt y x \<Longrightarrow> \<not> f64_lt z y \<Longrightarrow> \<not> f64_lt z x"
  by (cases x; cases y; cases z) auto

lemma row_evolves_trans:
  assumes "row_evolves r s" "row_evolves s t"
  shows "row_evolves r t"
proof -
  have "\<not> f64_lt (b_cost_usd (rn_budget t)) (b_cost_usd (rn_budget r))" if "amounts_ok (rn_budget r)"
    using not_f64_lt_trans [of "b_cost_usd (rn_budget s)"] assms that unfolding row_evolves_def amounts_ok_def by blast
  then show ?thesis using assms unfolding row_evolves_def same_identity_def by (metis order_trans)
qed

lemma spend_cost_ge:
  assumes "amounts_ok b" "\<not> bad_amount cost"
  shows "\<not> f64_lt (b_cost_usd (spend tokens cost b)) (b_cost_usd b)"
  using assms f64_add_ge [of "b_cost_usd b" "f64_min (b_cost_reserved b) cost"]
  by (auto simp: spend_def Let_def amounts_ok_def not_bad_amount)

lemma row_step_evolves:
  assumes "row_step r r'"
  shows "row_evolves r r'"
proof -
  have "row_evolves r r'" if "same_identity r r'" "is_live_status (rn_status r)"
    using assms that
  proof (induction rule: row_step.induct)
    case (Reserve r tokens cost e)
    then show ?case using amounts_ok_reserve [of "rn_budget r" cost e tokens]
      by (auto simp: row_evolves_def reserve_def)
  next
    case (Spend r cost tokens)
    then show ?case using amounts_ok_spend spend_cost_ge [of "rn_budget r" cost tokens]
      by (auto simp: row_evolves_def spend_def Let_def sat_add_ge)
  qed (auto simp: row_evolves_def row_defs sat_add_ge)
  then show ?thesis using row_step_identity row_step_live assms by blast
qed

interpretation ev: run_invariant E "\<lambda>st. sound_env E \<longrightarrow> (\<exists>r. store_get st i = Some r \<and> row_evolves r0 r)" for E i r0
proof unfold_locales
  fix st task_id n agent cfg t
  assume "sound_env E \<longrightarrow> (\<exists>r. store_get st i = Some r \<and> row_evolves r0 r)"
  then show "sound_env E \<longrightarrow> (\<exists>r. store_get (store_insert (new_run (e_uuid E n (map fst (rs_runs st))) task_id agent cfg t) st) i = Some r \<and> row_evolves r0 r)"
    using fresh_run_id [of E st n task_id agent cfg t] by (auto simp: sound_env_def)
qed (auto simp: sound_env_def dest: row_step_evolves intro: row_evolves_trans)

section \<open>Well-formed rows\<close>

text \<open>The parser returns numbers of the type \<open>f64\<close>; which rows it returns is left open.\<close>

definition files_typed :: "run_env \<Rightarrow> bool" where
  "files_typed E \<longleftrightarrow> (\<forall>body r. e_from_yaml E body = Some r \<longrightarrow>
     f64_ok (b_cost_usd (rn_budget r)) \<and> f64_ok (b_cost_reserved (rn_budget r)))"

lemma new_run_ok [simp]:
  "amounts_ok (rn_budget (new_run u t a c n))" "shape_ok (new_run u t a c n)" "drained (new_run u t a c n)"
  "tokens_within (rn_budget (new_run u t a c n))"
  by (simp_all add: shape_ok_def drained_def new_run_def from_config_def amounts_ok_def tokens_within_def exceeds_def split: option.splits)

text \<open>What the checks on loading a row ensure.\<close>

lemma acceptable_amounts:
  assumes "files_typed E" "e_from_yaml E body = Some r" "row_acceptable stem r"
  shows "amounts_ok (rn_budget r)"
  using assms by (auto simp: files_typed_def row_acceptable_def amounts_ok_def not_bad_amount)

lemma acceptable_drained: "row_acceptable stem r \<Longrightarrow> drained r"
  by (auto simp: row_acceptable_def row_invariant_ok_def drained_def split: task_run_status.splits)

interpretation am: run_invariant E "\<lambda>st. files_typed E \<longrightarrow> (\<forall>i r. store_get st i = Some r \<longrightarrow> amounts_ok (rn_budget r))" for E
  by unfold_locales (auto intro: row_step_amounts acceptable_amounts)

interpretation dr: run_invariant E "\<lambda>st. \<forall>i r. store_get st i = Some r \<longrightarrow> drained r" for E
  by unfold_locales (auto intro: row_step_drained acceptable_drained)

text \<open>The rows a manager did not get from a file are as it makes them. A row of a file keeps what the checks do not
  exclude.\<close>

definition from_file :: "run_env \<Rightarrow> (run \<Rightarrow> bool) \<Rightarrow> run \<Rightarrow> bool" where
  "from_file E Q r \<longleftrightarrow>
     (\<exists>body r0. e_from_yaml E body = Some r0 \<and> row_acceptable (rn_task_id r0) r0 \<and> same_identity r0 r \<and> Q r0)"

lemma same_identity_refl [simp]: "same_identity r r"
  by (simp add: same_identity_def)

lemma same_identity_trans: "same_identity r s \<Longrightarrow> same_identity s t \<Longrightarrow> same_identity r t"
  by (simp add: same_identity_def)

lemma from_file_step: "from_file E Q r \<Longrightarrow> row_step r r' \<Longrightarrow> from_file E Q r'"
  unfolding from_file_def using same_identity_trans row_step_identity by blast

lemma from_file_load: "e_from_yaml E body = Some r \<Longrightarrow> row_acceptable (rn_task_id r) r \<Longrightarrow> Q r \<Longrightarrow> from_file E Q r"
  unfolding from_file_def using same_identity_refl by blast

interpretation sh: run_invariant E
  "\<lambda>st. \<forall>i r. store_get st i = Some r \<longrightarrow> shape_ok r \<or> from_file E (\<lambda>r0. \<not> shape_ok r0) r" for E
  by unfold_locales (auto intro: row_step_shape from_file_step from_file_load)

text \<open>A run over its token limit came over it from a file, and its tokens only shrink.\<close>

definition over_from_file :: "run_env \<Rightarrow> run \<Rightarrow> bool" where
  "over_from_file E r \<longleftrightarrow>
     from_file E (\<lambda>r0. \<not> tokens_within (rn_budget r0) \<and> token_sum (rn_budget r) \<le> token_sum (rn_budget r0)) r"

lemma over_from_file_step:
  assumes "row_step r r'" "tokens_within (rn_budget r) \<or> over_from_file E r"
  shows "tokens_within (rn_budget r') \<or> over_from_file E r'"
proof (cases "tokens_within (rn_budget r')")
  case False
  then have le: "token_sum (rn_budget r') \<le> token_sum (rn_budget r)" using row_step_tokens assms(1) by blast
  then have "\<not> tokens_within (rn_budget r)"
    using False tokens_within_mono row_step_identity [OF assms(1)] by (auto simp: same_identity_def)
  with assms(2) have "over_from_file E r" by simp
  then have "over_from_file E r'" unfolding over_from_file_def from_file_def
    using le row_step_identity [OF assms(1)] same_identity_trans by (meson order_trans)
  then show ?thesis ..
qed simp

interpretation tk: run_invariant E
  "\<lambda>st. \<forall>i r. store_get st i = Some r \<longrightarrow> tokens_within (rn_budget r) \<or> over_from_file E r" for E
proof unfold_locales
  fix st body r
  assume "\<forall>i r. store_get st i = Some r \<longrightarrow> tokens_within (rn_budget r) \<or> over_from_file E r"
    and "e_from_yaml E body = Some r" "row_acceptable (rn_task_id r) r"
  then show "\<forall>i q. store_get (store_insert r st) i = Some q \<longrightarrow> tokens_within (rn_budget q) \<or> over_from_file E q"
    unfolding over_from_file_def by (auto intro: from_file_load)
qed (auto dest: over_from_file_step)

lemma rows_wf_new [simp]: "store_get run_store_new i = None"
  by (simp add: run_store_new_def store_get_def)

section \<open>An environment that leaves the manager alone\<close>

definition alone :: "run_env \<Rightarrow> bool" where
  "alone E \<longleftrightarrow> (\<forall>n m. e_others E n m = m)"

lemma alone_interleaved: "alone E \<Longrightarrow> interleaved E"
  by (simp add: alone_def interleaved_def)

lemma release_alone: "alone E \<Longrightarrow> release E m = m\<lparr>m_tick := Suc (m_tick m)\<rparr>"
  by (simp add: alone_def release_def)

text \<open>No persistence, no tree, no sessions; an id longer than all in use.\<close>

definition quiet_env :: run_env where
  "quiet_env = \<lparr>e_others = \<lambda>_ m. m, e_now = int, e_uuid = \<lambda>_ ids. concat ids @ [48], e_persister = False, e_io = \<lambda>_. None,
     e_read_dir = \<lambda>_. True, e_to_yaml = \<lambda>_. Some [], e_from_yaml = \<lambda>_. None, e_await = None, e_tree = None,
     e_advancer = None, e_cost_tracker = None, e_completion_sink = False, e_interrupt_sink = False, e_show_f64 = \<lambda>_. []\<rparr>"

lemma longer_than_all: "x \<in> set xs \<Longrightarrow> length x \<le> length (concat xs)"
  by (induction xs) auto

lemma quiet_env_ok: "alone quiet_env" "interleaved quiet_env" "sound_env quiet_env" "files_typed quiet_env"
proof -
  have "lit ''run-'' @ concat ids @ [48] \<notin> set ids" for ids
    using longer_than_all [of "lit ''run-'' @ concat ids @ [48]" ids] by auto
  then show "sound_env quiet_env"
    by (simp add: sound_env_def writes_ok_def uuid_fresh_def quiet_env_def)
  show a: "alone quiet_env" by (simp add: alone_def quiet_env_def)
  show "interleaved quiet_env" by (rule alone_interleaved [OF a])
  show "files_typed quiet_env" by (simp add: files_typed_def quiet_env_def)
qed

definition plain_config :: "64 word option \<Rightarrow> run_config" where
  "plain_config limit = \<lparr>cfg_token_limit = limit, cfg_cost_usd_limit = None, cfg_rounds_limit = None,
     cfg_retry_overrides = None, cfg_repetition_guard = None\<rparr>"

end
