(* ===== verification/RunSafety.thy ===== *)
theory RunSafety
  imports RunProps
begin

text \<open>
  Properties of the run manager in every interleaving, applied to its methods.
\<close>

section \<open>Sample states\<close>

definition job :: rstr where "job = lit ''job''"
definition worker :: rstr where "worker = lit ''worker''"

definition job_state :: run_manager where
  "job_state = snd (ensure_run quiet_env job worker (plain_config (Some 100)) (run_manager_new []))"

definition job_id :: rstr where
  "job_id = lit ''run-0''"

definition job_row :: run where
  "job_row = new_run (lit ''0'') job worker (plain_config (Some 100)) 2"

lemma job_state_run: "manager_run quiet_env (run_manager_new []) job_state"
  unfolding job_state_def by (rule r_into_rtranclp, rule method_call.intros)

lemma ids_valid [simp]:
  "validate_task_id job = Inr ()" "validate_agent_id worker = Inr ()" "validate_run_id job_id = Inr ()"
  by (simp_all add: job_def worker_def job_id_def validate_agent_id_def validate_task_id_def validate_run_id_def lit_def
      utf8_len_def run_id_char_def is_ascii_alphanumeric_def is_ascii_digit_def)

lemma job_state_store: "m_store job_state = \<lparr>rs_runs = [(job_id, job_row)], rs_live_by_task = [(job, job_id)]\<rparr>"
  by (simp add: job_state_def ensure_run_def ensure_run_inner_def ensure_run_checks_def sbind_def slift_def sect_def
      guarded_sect_def release_def quiet_env_def run_manager_new_def run_store_new_def creation_blocked_def ensure_block_def
      find_live_by_task_def runs_len_def MAX_RUNS_PER_STORE_def Let_def persist_new_def emit_def emit_block_def sreturn_def
      store_insert_def plain_config_def job_row_def job_id_def new_run_def now_def lit_def)

lemma job_state_blocks [simp]: "m_terminated job_state = []" "m_scoped job_state = []"
  by (simp_all add: job_state_def ensure_run_def ensure_run_inner_def ensure_run_checks_def sbind_def slift_def sect_def
      guarded_sect_def release_def quiet_env_def run_manager_new_def run_store_new_def creation_blocked_def ensure_block_def
      find_live_by_task_def runs_len_def MAX_RUNS_PER_STORE_def Let_def persist_new_def emit_def emit_block_def sreturn_def
      plain_config_def)

lemma job_state_get: "store_get (m_store job_state) i = (if i = job_id then Some job_row else None)"
  by (simp add: job_state_store store_get_def)

lemma job_row_simps [simp]:
  "rn_status job_row = Active" "rn_task_id job_row = job" "rn_controller_agent job_row = worker" "rn_id job_row = job_id"
  "rn_cancel_pending job_row = None"
  by (simp_all add: job_row_def new_run_def job_id_def lit_def)

section \<open>One live run per task\<close>

text \<open>C2: In every interleaving of method calls in which the writes of new rows succeed, a task has at most
  one live run, and the lookup by task finds exactly that run.\<close>

theorem single_live_run:
  assumes "interleaved E" "sound_env E" "manager_run E (run_manager_new dir) m"
  shows "(find_live_by_task (m_store m) t = Some r
            \<longleftrightarrow> (\<exists>i. store_get (m_store m) i = Some r) \<and> is_live_status (rn_status r) \<and> rn_task_id r = t)
    \<and> (\<forall>i j r'. store_get (m_store m) i = Some r \<and> store_get (m_store m) j = Some r' \<and> is_live_status (rn_status r)
         \<and> is_live_status (rn_status r') \<and> rn_task_id r = rn_task_id r' \<longrightarrow> i = j)"
proof -
  have wf: "store_wf (m_store m)"
    using li.reached [OF assms(1,3)] assms(2) by (simp add: run_manager_new_def)
  have "(\<exists>i. store_get (m_store m) i = Some r) \<longleftrightarrow> store_get (m_store m) (rn_id r) = Some r"
    using store_wfD(2) [OF wf] by blast
  then show ?thesis using find_live_iff [OF wf] one_live_run [OF wf] by simp
qed

theorem single_live_run_witness:
  "find_live_by_task (m_store job_state) job = Some job_row"
  using conjunct1 [OF single_live_run [OF quiet_env_ok(2,3) job_state_run, of job job_row]]
  by (simp add: job_state_get)

section \<open>A failed write of a new row\<close>

lemmas eval_ensure = ensure_run_def ensure_run_inner_def ensure_run_checks_def sbind_def slift_def sect_def
  guarded_sect_def release_def run_manager_new_def run_store_new_def creation_blocked_def ensure_block_def
  find_live_by_task_def runs_len_def MAX_RUNS_PER_STORE_def persist_new_def emit_def emit_block_def sreturn_def
  store_insert_def plain_config_def new_run_def now_def

lemma path_safe_job [simp]: "validate_path_safe job = Inr ()"
  by (simp add: validate_path_safe_def job_def lit_def)

text \<open>C38: The rollback after a failed write removes the task from the index whatever run the index names. If the
  new run was ended and succeeded by another before the rollback, the successor stays live but is no longer found,
  and the next request for the task creates a second live run.\<close>

theorem rollback_drops_successor:
  assumes "store_wf (m_store m)" "store_get (m_store m) (rn_id s) = Some s" "is_live_status (rn_status s)"
    "rn_task_id s = rn_task_id r" "rn_id s \<noteq> rn_id r" "runs_len (m_store m) < MAX_RUNS_PER_STORE" "uuid_fresh E"
  shows "\<exists>s2 ev m2. ensure_block E (rn_task_id r) agent cfg strict (rollback_block r m) = (Inr (rn_id s2, ev, Some s2), m2)
    \<and> store_get (m_store m2) (rn_id s2) = Some s2 \<and> store_get (m_store m2) (rn_id s) = Some s
    \<and> rn_id s2 \<noteq> rn_id s \<and> rn_task_id s2 = rn_task_id s \<and> is_live_status (rn_status s2)"
proof -
  let ?m = "rollback_block r m"
  let ?s2 = "new_run (e_uuid E (m_tick m) (map fst (rs_runs (m_store ?m)))) (rn_task_id r) agent cfg (now E ?m)"
  have none: "find_live_by_task (m_store ?m) (rn_task_id r) = None"
    by (simp add: find_live_by_task_def rollback_block_def)
  have len: "runs_len (m_store ?m) < MAX_RUNS_PER_STORE"
    using assms(6) by (simp add: rollback_block_def runs_len_def store_remove_def drop_live_by_task_def)
      (meson le_less_trans length_filter_le AList.length_delete_le)
  have s: "store_get (m_store ?m) (rn_id s) = Some s" using assms(2,5) by (simp add: rollback_block_def)
  have "rn_id ?s2 \<noteq> rn_id s" using fresh_run_id [OF assms(7), of "m_store ?m"] s by (metis option.distinct(1))
  then show ?thesis using none len s assms(4)
    by (auto simp: ensure_block_def Let_def) (simp_all add: new_run_def rollback_block_def)
qed

text \<open>A request for the task whose write fails, while others complete its run and ask for the task again.\<close>

definition succeed_job :: "run_manager \<Rightarrow> run_manager" where
  "succeed_job m = snd (ensure_run quiet_env job worker (plain_config None) (snd (complete_run quiet_env job_id [] m)))"

definition failing_env :: run_env where
  "failing_env = quiet_env\<lparr>e_persister := True, e_io := \<lambda>n. if n = 3 then Some ''persist-write'' else None,
     e_others := \<lambda>n m. if n = 2 then succeed_job m else m\<rparr>"

definition successor :: run where
  "successor = new_run (lit ''run-00'') job worker (plain_config None) 6"

definition succeeded_state :: run_manager where
  "succeeded_state = succeed_job (job_state\<lparr>m_tick := 2\<rparr>)"

lemma succeeded_store:
  "m_store succeeded_state = \<lparr>rs_runs = [(job_id, ended_row Completed 3 job_row), (rn_id successor, successor)],
     rs_live_by_task = [(job, rn_id successor)]\<rparr>"
  by (simp add: succeeded_state_def job_state_store succeed_job_def complete_run_def end_block_def on_run_def store_get_def finish_run_def store_put_def drop_live_by_task_def
      persist_snapshot_best_effort_def quiet_env_def eval_ensure ended_row_def Let_def job_id_def lit_def successor_def)

lemma successor_simps [simp]:
  "rn_status successor = Active" "rn_task_id successor = job" "rn_id successor = lit ''run-run-00''"
  by (simp_all add: successor_def new_run_def lit_def)

lemma succeeded_wf: "store_wf (m_store succeeded_state)"
  by (auto simp: store_wf_def succeeded_store store_get_def ended_row_def job_id_def lit_def)

lemma failing_request:
  "fst (ensure_run failing_env job worker (plain_config (Some 100)) (run_manager_new [])) = Inl (PermissionDenied ''persist-write'')"
  "m_store (snd (ensure_run failing_env job worker (plain_config (Some 100)) (run_manager_new []))) =
     m_store (rollback_block job_row succeeded_state)"
proof -
  note eval = failing_env_def succeed_job_def complete_run_def end_block_def on_run_def store_get_def finish_run_def
    store_put_def drop_live_by_task_def persist_snapshot_best_effort_def quiet_env_def eval_ensure ended_row_def Let_def
    persist_block_def persist_def rollback_block_def store_remove_def
  show "fst (ensure_run failing_env job worker (plain_config (Some 100)) (run_manager_new [])) = Inl (PermissionDenied ''persist-write'')"
    by (simp add: eval job_id_def lit_def)
  show "m_store (snd (ensure_run failing_env job worker (plain_config (Some 100)) (run_manager_new []))) =
     m_store (rollback_block job_row succeeded_state)"
    by (simp add: eval succeeded_store job_row_def successor_def job_id_def lit_def)
qed

theorem rollback_drops_successor_witness:
  "m_store (snd (ensure_run failing_env job worker (plain_config (Some 100)) (run_manager_new [])))
     = m_store (rollback_block job_row succeeded_state)
   \<and> (\<exists>s2 ev m2. ensure_block quiet_env job worker (plain_config None) True (rollback_block job_row succeeded_state)
        = (Inr (rn_id s2, ev, Some s2), m2)
      \<and> store_get (m_store m2) (rn_id s2) = Some s2 \<and> store_get (m_store m2) (rn_id successor) = Some successor
      \<and> rn_id s2 \<noteq> rn_id successor \<and> rn_task_id s2 = job \<and> is_live_status (rn_status s2))"
proof
  show "m_store (snd (ensure_run failing_env job worker (plain_config (Some 100)) (run_manager_new [])))
     = m_store (rollback_block job_row succeeded_state)" by (rule failing_request)
  have "store_get (m_store succeeded_state) (rn_id successor) = Some successor"
    by (simp add: succeeded_store store_get_def job_id_def lit_def)
  moreover have "runs_len (m_store succeeded_state) < MAX_RUNS_PER_STORE"
    by (simp add: succeeded_store runs_len_def MAX_RUNS_PER_STORE_def)
  moreover have "rn_id successor \<noteq> rn_id job_row" by (simp add: job_id_def)
  moreover have "uuid_fresh quiet_env" using quiet_env_ok(3) by (simp add: sound_env_def)
  ultimately show "\<exists>s2 ev m2. ensure_block quiet_env job worker (plain_config None) True (rollback_block job_row succeeded_state)
        = (Inr (rn_id s2, ev, Some s2), m2)
      \<and> store_get (m_store m2) (rn_id s2) = Some s2 \<and> store_get (m_store m2) (rn_id successor) = Some successor
      \<and> rn_id s2 \<noteq> rn_id successor \<and> rn_task_id s2 = job \<and> is_live_status (rn_status s2)"
    using rollback_drops_successor [OF succeeded_wf, of successor job_row quiet_env] by simp
qed

section \<open>Cancellation\<close>

definition cancel_taken :: "rstr \<Rightarrow> run_manager \<Rightarrow> bool" where
  "cancel_taken i m \<longleftrightarrow>
     (\<exists>r. store_get (m_store m) i = Some r \<and> (\<not> is_live_status (rn_status r) \<or> rn_cancel_pending r \<noteq> None))"

text \<open>A cancellation that has been taken stays taken.\<close>

lemma cancel_taken_kept:
  assumes "sound_env E" "store_steps E m m'" "cancel_taken i m"
  shows "cancel_taken i m'"
proof -
  obtain r where r: "store_get (m_store m) i = Some r" "\<not> is_live_status (rn_status r) \<or> rn_cancel_pending r \<noteq> None"
    using assms(3) by (auto simp: cancel_taken_def)
  obtain r' where "store_get (m_store m') i = Some r'" "row_evolves r r'"
    using ev.kept [OF assms(2), of i r] assms(1) r(1) by auto
  then show ?thesis using r(2) unfolding cancel_taken_def row_evolves_def by blast
qed

lemma stepwiseD: "stepwise E f \<Longrightarrow> f m = (x, m') \<Longrightarrow> store_steps E m m'"
  by (metis stepwise_def snd_conv)

lemma cancel_arm_taken: "cancel_arm_block E i reason m = (Inr b, m') \<Longrightarrow> cancel_taken i m'"
  by (auto simp: cancel_arm_block_def on_run_def cancel_taken_def put_run_def split: option.splits if_splits)

lemma cancel_suspended_taken:
  "cancel_suspended_block E i reason snap m = (Inr c, m') \<Longrightarrow>
   (case c of CancelSettled ev \<Rightarrow> cancel_taken i m' | RacedTerminal \<Rightarrow> cancel_taken i m' | RacedLive st ra \<Rightarrow> is_live_status st)"
  by (auto simp: cancel_suspended_block_def on_run_def cancel_taken_def finish_run_def split: option.splits if_splits)

lemma cancel_paused_taken:
  "cancel_paused_block E i reason m = (Inr c, m') \<Longrightarrow>
   (case c of CancelSettled ev \<Rightarrow> cancel_taken i m' | RacedTerminal \<Rightarrow> cancel_taken i m' | RacedLive st ra \<Rightarrow> is_live_status st)"
  by (auto simp: cancel_paused_block_def on_run_def cancel_taken_def finish_run_def split: option.splits if_splits)

lemma after_recheck:
  assumes "interleaved E" "sound_env E"
    "case c of CancelSettled ev \<Rightarrow> cancel_taken i m | RacedTerminal \<Rightarrow> cancel_taken i m | RacedLive st ra \<Rightarrow> is_live_status st"
    "(case c of CancelSettled ev \<Rightarrow> after_settle E i reason ev m | RacedTerminal \<Rightarrow> (Inr (), m)
      | RacedLive st ra \<Rightarrow> k st ra m) = (Inr (), m')"
    "\<And>st ra. is_live_status st \<Longrightarrow> k st ra m = (Inr (), m') \<Longrightarrow> cancel_taken i m'"
  shows "cancel_taken i m'"
proof (cases c)
  case (CancelSettled ev)
  then have "store_steps E m m'" using assms(4) stepwiseD [OF stepwise_after_settle [OF assms(1)]] by simp
  then show ?thesis using cancel_taken_kept [OF assms(2)] assms(3) CancelSettled by simp
qed (use assms(3-5) in auto)

lemma cancel_loop_taken:
  assumes "interleaved E" "sound_env E"
  shows "cancel_loop E i reason n st ra m = (Inr (), m') \<Longrightarrow> (\<not> is_live_status st \<Longrightarrow> cancel_taken i m) \<Longrightarrow> cancel_taken i m'"
proof (induction n arbitrary: st ra m)
  case (Suc n)
  show ?case
  proof (cases st)
    case Active
    then obtain b m1 where b: "cancel_arm_block E i reason (release E m) = (Inr b, m1)"
      "(if b then persist_snapshot_best_effort E i else sreturn ()) m1 = (Inr (), m')"
      using Suc.prems(1) by (auto simp: sbind_Inr_iff sect_def)
    have "stepwise E (if b then persist_snapshot_best_effort E i else sreturn ())" by (intro steps assms(1))
    from stepwiseD [OF this b(2)] show ?thesis
      using cancel_taken_kept [OF assms(2)] cancel_arm_taken [OF b(1)] by blast
  next
    case Suspended
    then obtain c m1 m2 where c: "cancel_suspended_block E i reason ra m1 = (Inr c, m2)"
      "(case c of CancelSettled ev \<Rightarrow> after_settle E i reason ev m2 | RacedTerminal \<Rightarrow> (Inr (), m2)
        | RacedLive st ra \<Rightarrow> cancel_loop E i reason n st ra m2) = (Inr (), m')"
      using Suc.prems(1) by (auto simp: sbind_Inr_iff sect_def)
    show ?thesis using Suc.IH
      by (rule after_recheck [where k = "cancel_loop E i reason n", OF assms cancel_suspended_taken [OF c(1)] c(2)]) auto
  next
    case Paused
    then obtain c m1 m2 where c: "cancel_paused_block E i reason m1 = (Inr c, m2)"
      "(case c of CancelSettled ev \<Rightarrow> after_settle E i reason ev m2 | RacedTerminal \<Rightarrow> (Inr (), m2)
        | RacedLive st ra \<Rightarrow> cancel_loop E i reason n st ra m2) = (Inr (), m')"
      using Suc.prems(1) by (auto simp: sbind_Inr_iff sect_def)
    show ?thesis using Suc.IH
      by (rule after_recheck [where k = "cancel_loop E i reason n", OF assms cancel_paused_taken [OF c(1)] c(2)]) auto
  next
    case (Cancelled x)
    then have "store_steps E m m'" using Suc.prems(1) stepwiseD [OF stepwise_cascade [OF assms(1)]] by simp
    then show ?thesis using cancel_taken_kept [OF assms(2)] Suc.prems(2) Cancelled by simp
  qed (use Suc.prems in auto)
qed simp

text \<open>C5: When \<open>cancel_run\<close> succeeds, then in every interleaving in which ids are fresh and no write of a state file fails, the run
  has ended or holds the pending cancellation; it is never left live without it. (A failed first write takes its new row back, and then
  the row is gone.)\<close>

theorem cancel_not_lost:
  assumes "interleaved E" "sound_env E" "cancel_run E i reason m = (Inr (), m')"
  shows "\<exists>r. store_get (m_store m') i = Some r \<and> (\<not> is_live_status (rn_status r) \<or> rn_cancel_pending r \<noteq> None)"
proof -
  obtain r where r: "store_get (m_store (release E m)) i = Some r"
    and l: "cancel_loop E i (truncate_reason reason) CANCEL_RACE_RETRY_LIMIT (rn_status r) (rn_root_await r) (release E m) = (Inr (), m')"
    using assms(3) by (auto simp: cancel_run_def sbind_Inr_iff sect_def on_run_def sreturn_def split: option.splits)
  have "cancel_taken i m'"
    by (rule cancel_loop_taken [OF assms(1,2) l]) (use r in \<open>auto simp: cancel_taken_def\<close>)
  then show ?thesis by (simp add: cancel_taken_def)
qed

text \<open>A paused run that is resumed while \<open>cancel_run\<close> is under way: the first attempt finds it active and the
  second one leaves the pending cancellation.\<close>

lemma writes_ok_others [simp]: "writes_ok (E\<lparr>e_others := f\<rparr>) = writes_ok E"
  by (simp add: writes_ok_def)

lemma store_step_others:
  assumes "store_step E m m'"
  shows "store_step (E\<lparr>e_others := f\<rparr>) m m'"
  using assms
proof cases
  case (Create task_id n agent cfg t)
  then show ?thesis using store_step.Create [of m task_id "E\<lparr>e_others := f\<rparr>" n agent cfg t] by simp
qed (auto intro: store_step.intros)

lemma store_steps_others: "store_steps E m m' \<Longrightarrow> store_steps (E\<lparr>e_others := f\<rparr>) m m'"
  by (induction rule: rtranclp_induct) (auto intro: rtranclp.rtrancl_into_rtrancl store_step_others)

lemma sound_env_others [simp]: "sound_env (E\<lparr>e_others := f\<rparr>) = sound_env E"
  by (simp add: sound_env_def writes_ok_def uuid_fresh_def)

definition racing_env :: run_env where
  "racing_env = quiet_env\<lparr>e_others := \<lambda>n m. if n = 1 then snd (resume_run quiet_env job_id (lit ''manual'') m) else m\<rparr>"

definition paused_state :: run_manager where
  "paused_state = job_state\<lparr>m_store := store_put job_id (job_row\<lparr>rn_status := Paused\<rparr>) (m_store job_state), m_tick := 0\<rparr>"

lemma racing_interleaved: "interleaved racing_env"
  using stepwise_resume_run [OF quiet_env_ok(2)] store_steps_others
  by (auto simp: interleaved_def racing_env_def stepwise_def)

lemma racing_cancel:
  "\<exists>m'. cancel_run racing_env job_id (lit ''stop'') paused_state = (Inr (), m')
     \<and> map_option rn_cancel_pending (store_get (m_store m') job_id) = Some (Some (lit ''stop''))"
  by (simp add: cancel_run_def sbind_def sect_def release_def racing_env_def quiet_env_def paused_state_def on_run_def
      sreturn_def CANCEL_RACE_RETRY_LIMIT_def eval_nat_numeral preflight_for_run_def descendant_agents_for_run_def
      cancel_paused_block_def cancel_arm_block_def resume_run_def resume_block_def truncate_reason_def lit_def is_control_def
      RESUME_REASONS_def MAX_REASON_LEN_BYTES_def utf8_len_def persist_snapshot_best_effort_def emit_def emit_block_def
      put_run_def Let_def)

theorem cancel_not_lost_witness:
  "\<exists>m' r. cancel_run racing_env job_id (lit ''stop'') paused_state = (Inr (), m') \<and> store_get (m_store m') job_id = Some r
     \<and> (\<not> is_live_status (rn_status r) \<or> rn_cancel_pending r \<noteq> None)"
  using racing_cancel cancel_not_lost [OF racing_interleaved, of job_id "lit ''stop''" paused_state] quiet_env_ok(3)
  by (auto simp: racing_env_def)

section \<open>Rows along a run\<close>

text \<open>C12: In every interleaving in which ids are fresh and no write of a state file fails (\<open>sound_env\<close>), a run keeps its id, task,
  controller, limits and overrides; its spent tokens, spent cost and rounds never decrease; a pending cancellation stays until the
  run ends; and a run that has ended never changes again. The condition on writes is needed: when the first write of a
  new row fails, the rollback removes the row, which others may have ended or asked to cancel in between, as the
  section on a failed write shows.\<close>

theorem run_evolution:
  assumes "interleaved E" "sound_env E" "manager_run E m m'" "store_get (m_store m) i = Some r"
  shows "\<exists>r'. store_get (m_store m') i = Some r' \<and> same_identity r r'
    \<and> b_token_used (rn_budget r) \<le> b_token_used (rn_budget r') \<and> b_rounds_used (rn_budget r) \<le> b_rounds_used (rn_budget r')
    \<and> (amounts_ok (rn_budget r) \<longrightarrow> \<not> f64_lt (b_cost_usd (rn_budget r')) (b_cost_usd (rn_budget r)))
    \<and> (\<not> is_live_status (rn_status r) \<longrightarrow> r' = r)
    \<and> (rn_cancel_pending r \<noteq> None \<longrightarrow> is_live_status (rn_status r') \<longrightarrow> rn_cancel_pending r' \<noteq> None)"
proof -
  obtain r' where "store_get (m_store m') i = Some r'" "row_evolves r r'"
    using ev.reached [OF assms(1,3), of i r] assms(2,4) by auto
  then show ?thesis unfolding row_evolves_def by blast
qed

lemma complete_run_call: "manager_run E m (snd (complete_run E i out m))"
  by (rule r_into_rtranclp, rule method_call.intros)

theorem run_evolution_witness:
  "\<exists>r'. store_get (m_store (snd (complete_run quiet_env job_id [] job_state))) job_id = Some r' \<and> same_identity job_row r'"
  using run_evolution [OF quiet_env_ok(2,3) complete_run_call, of job_state job_id job_row job_id "[]"]
  by (auto simp: job_state_get)

lemma sum_within_exact:
  fixes limit :: "64 word"
  assumes "sat_add u v \<le> limit" "limit \<noteq> - 1"
  shows "unat u + unat v \<le> unat limit"
proof -
  have "unat limit < 2 ^ LENGTH(64) - 1"
    using assms(2) unat_less [of limit] by (metis unsigned_minus_1_eq_mask mask_eq_exp_minus_1 word_unat_eq_iff
        Suc_diff_1 less_SucE zero_less_numeral zero_less_power)
  then show ?thesis using assms(1) by (auto simp: word_le_nat_alt unat_sat_add)
qed


definition charged_state :: run_manager where
  "charged_state = snd (check_budget quiet_env job_id 60 (Fin 0) job_state)"

lemma charged_run: "manager_run quiet_env (run_manager_new []) charged_state"
  unfolding charged_state_def using job_state_run by (rule rtranclp.rtrancl_into_rtrancl) (rule method_call.intros)

lemma charged_get: "store_get (m_store charged_state) job_id = Some (job_row\<lparr>rn_budget := reserve 60 (Fin 0) (rn_budget job_row)\<rparr>)"
  by (simp add: charged_state_def check_budget_def bad_amount_def sect_def check_block_def release_def quiet_env_def job_state_store
      store_get_def job_row_def new_run_def from_config_def plain_config_def exceeds_def effective_cost_def f64_round_def
      round_nat_def floorlog_def f64_bound_def put_run_def store_put_def sat_add_def Let_def)

text \<open>A state directory with one file, which the parser reads as a row over its limit.\<close>

definition filed_row :: run where
  "filed_row = job_row\<lparr>rn_status := Suspended, rn_budget := (rn_budget job_row)\<lparr>b_token_used := 150\<rparr>\<rparr>"

definition filed_env :: run_env where
  "filed_env = quiet_env\<lparr>e_persister := True, e_from_yaml := \<lambda>body. if body = lit ''row'' then Some filed_row else None\<rparr>"

definition filed_state :: run_manager where
  "filed_state = snd (recover_from_disk filed_env (run_manager_new [(target_path job, RegularFile (lit ''row''))]))"

lemma filed_env_ok: "interleaved filed_env" "files_typed filed_env"
proof -
  show "interleaved filed_env" by (rule alone_interleaved) (simp add: alone_def filed_env_def quiet_env_def)
  show "files_typed filed_env"
    by (simp add: files_typed_def filed_env_def filed_row_def job_row_def new_run_def from_config_def)
qed

lemma filed_run: "manager_run filed_env (run_manager_new [(target_path job, RegularFile (lit ''row''))]) filed_state"
  unfolding filed_state_def by (rule r_into_rtranclp) (rule method_call.intros)

lemma filed_row_acceptable: "row_acceptable job filed_row"
  by (simp add: row_acceptable_def row_invariant_ok_def filed_row_def bad_amount_def)
    (simp add: job_row_def new_run_def from_config_def plain_config_def)

lemma filed_get: "store_get (m_store filed_state) job_id = Some filed_row"
proof -
  have "load_loop (e_from_yaml filed_env) [(target_path job, RegularFile (lit ''row''))] 0 [] 0 = ([filed_row], 0)"
    using filed_row_acceptable
    by (simp add: MAX_SCAN_ENTRIES_def MAX_LOAD_ROWS_def MAX_RUNS_PER_STORE_def load_entry_def filed_env_def MAX_YAML_BODY_BYTES_def
        str_len_def utf8_len_def target_path_def job_def split_extension_def lit_def Let_def)
  moreover have "e_persister filed_env" "e_read_dir filed_env n" "e_others filed_env n m = m" for n m
    by (simp_all add: filed_env_def quiet_env_def)
  ultimately show ?thesis
    by (simp add: filed_state_def recover_from_disk_def sect_def load_block_def load_all_def release_def run_manager_new_def
        run_store_new_def runs_len_def MAX_RUNS_PER_STORE_def find_live_by_task_def store_get_def store_insert_def)
      (simp add: filed_row_def)
qed




section \<open>Ownership at the interface\<close>

lemma owned_run_foreign:
  assumes "\<forall>r. store_get (m_store (release E m)) i = Some r \<longrightarrow> rn_controller_agent r \<noteq> caller"
  shows "owned_run E caller i m =
    (if valid (validate_run_id i) then (Inl (NotFound i), release E m) else (Inl (PermissionDenied ''invalid-run-id''), m))"
  using assms
  by (cases "store_get (m_store (release E m)) i")
    (auto simp: owned_run_def assert_caller_owns_def controller_agent_of_def sect_def read_store_def sbind_def sfail_def)

text \<open>C25: For a run the caller does not control every method of the interface leaves the manager as others left it and gives
  the same answer as for a run that does not exist.\<close>

theorem foreign_runs_hidden:
  assumes "\<forall>r. store_get (m_store (release E m)) i = Some r \<longrightarrow> rn_controller_agent r \<noteq> caller"
    and "e = (if valid (validate_run_id i) then (NotFound i, release E m) else (PermissionDenied ''invalid-run-id'', m))"
  shows "wit_complete_round E caller i result m = (Inl (fst e), snd e)
    \<and> wit_complete_run E caller i outcome m = (Inl (fst e), snd e)
    \<and> wit_pause_run E caller i reason m = (Inl (fst e), snd e)
    \<and> wit_resume_run E caller i m = (Inl (fst e), snd e)
    \<and> wit_cancel_run E caller i reason m = (Inl (fst e), snd e)
    \<and> wit_run_status E caller i m = (Inl (fst e), snd e)"
  using owned_run_foreign [OF assms(1)] assms(2)
  by (simp add: wit_complete_round_def wit_complete_run_def wit_pause_run_def wit_resume_run_def wit_cancel_run_def
      wit_run_status_def sbind_def)

theorem foreign_runs_hidden_witness:
  "wit_cancel_run quiet_env (lit ''intruder'') job_id None job_state = (Inl (NotFound job_id), release quiet_env job_state)
   \<and> fst (wit_cancel_run quiet_env worker job_id None job_state) = Inr ()"
proof
  have "\<forall>r. store_get (m_store (release quiet_env job_state)) job_id = Some r \<longrightarrow> rn_controller_agent r \<noteq> lit ''intruder''"
    by (simp add: release_alone [OF quiet_env_ok(1)] job_state_get worker_def)
  from foreign_runs_hidden [OF this refl]
  show "wit_cancel_run quiet_env (lit ''intruder'') job_id None job_state = (Inl (NotFound job_id), release quiet_env job_state)"
    by simp
  show "fst (wit_cancel_run quiet_env worker job_id None job_state) = Inr ()"
    by (simp add: wit_cancel_run_def owned_run_def assert_caller_owns_def controller_agent_of_def sbind_def sect_def read_store_def
        release_alone [OF quiet_env_ok(1)] job_state_get sreturn_def cancel_run_def on_run_def CANCEL_RACE_RETRY_LIMIT_def
        eval_nat_numeral cancel_arm_block_def persist_snapshot_best_effort_def) (simp add: quiet_env_def)
qed

text \<open>The row that \<open>ensure_run\<close> in strict mode answers for is one of the caller's, at the time of the section.\<close>

lemma ensure_block_owner:
  assumes "store_wf (m_store m)" "ensure_block E t agent cfg True m = (Inr (i, ev, row), m')"
  shows "\<exists>r. store_get (m_store m') i = Some r \<and> rn_controller_agent r = agent \<and> rn_task_id r = t"
proof (cases "find_live_by_task (m_store m) t")
  case None
  with assms(2) show ?thesis by (auto simp: ensure_block_def Let_def split: if_splits) (auto simp: new_run_def)
next
  case (Some r)
  then have "store_get (m_store m) (rn_id r) = Some r" "rn_task_id r = t" using find_live_iff [OF assms(1)] by auto
  then show ?thesis using assms(2) Some by (auto simp: ensure_block_def split: if_splits)
qed

lemma strict_owner:
  assumes "interleaved E" "sound_env E" "store_wf (m_store m)" "ensure_run_strict E t caller cfg m = (Inr i, m')"
  shows "\<exists>r. store_get (m_store m') i = Some r \<and> rn_controller_agent r = caller \<and> rn_task_id r = t"
proof -
  obtain m1 ev row m2 where m1: "store_steps E m m1" and b: "ensure_block E t caller cfg True m1 = (Inr (i, ev, row), m2)"
    and rest: "sbind (persist_new E row) (\<lambda>_. sbind (emit E ev) (\<lambda>_. sreturn i)) m2 = (Inr i, m')"
    and safe: "e_persister E \<Longrightarrow> valid (validate_path_safe t)"
  proof -
    obtain u m1 where c: "ensure_run_checks E t caller cfg = Inr u"
      and r: "release E m = m1"
      and "sbind (guarded_sect E (ensure_block E t caller cfg True)) (\<lambda>(run_id, ev, new_row).
         sbind (persist_new E new_row) (\<lambda>_. sbind (emit E ev) (\<lambda>_. sreturn run_id))) m1 = (Inr i, m')"
      using assms(4) unfolding ensure_run_strict_def ensure_run_inner_def
      by (auto simp: sbind_Inr_iff slift_def sect_def split: if_splits)
    then obtain j ev row m2 where
      b: "ensure_block E t caller cfg True ((release E m1)\<lparr>m_terminated := m_terminated m1, m_scoped := m_scoped m1\<rparr>) = (Inr (j, ev, row), m2)"
      and rest: "sbind (persist_new E row) (\<lambda>_. sbind (emit E ev) (\<lambda>_. sreturn j)) m2 = (Inr i, m')"
      by (auto simp: sbind_Inr_iff guarded_sect_def)
    have "j = i" using rest by (auto simp: sbind_Inr_iff sreturn_def)
    have "store_steps E m ((release E m1)\<lparr>m_terminated := m_terminated m1, m_scoped := m_scoped m1\<rparr>)"
      using release_steps [OF assms(1), of m] release_steps [OF assms(1), of m1] r
        frame_step [of "(release E m1)\<lparr>m_terminated := m_terminated m1, m_scoped := m_scoped m1\<rparr>" "release E m1" E]
      by (auto intro: rtranclp_trans)
    moreover have "valid (validate_path_safe t)" if "e_persister E"
      using c that by (auto simp: ensure_run_checks_def split: if_splits)
    ultimately show thesis using that b rest \<open>j = i\<close> by blast
  qed
  have wf: "store_wf (m_store m1)" using li.kept [OF m1] assms(2,3) by simp
  obtain r where r: "store_get (m_store m2) i = Some r" "rn_controller_agent r = caller" "rn_task_id r = t"
    using ensure_block_owner [OF wf b] by blast
  have "store_steps E m2 m'"
  proof -
    obtain m3 where m3: "persist_new E row m2 = (Inr (), m3)" "sbind (emit E ev) (\<lambda>_. sreturn i) m3 = (Inr i, m')"
      using rest by (auto simp: sbind_Inr_iff)
    have "store_steps E m2 m3"
      using persist_new_steps [OF assms(1), of row m2] ensure_block_task [of E t caller cfg True m1 i ev _ m2] b safe m3(1)
      by (metis snd_conv)
    also have "stepwise E (sbind (emit E ev) (\<lambda>_. sreturn i))" by (intro steps assms(1))
    then have "store_steps E m3 m'" by (rule stepwiseD) (rule m3(2))
    finally show ?thesis .
  qed
  from ev.kept [OF this, of i r] show ?thesis using assms(2) r by (auto simp: row_evolves_def same_identity_def)
qed

text \<open>C26: In every interleaving in which ids are fresh and no write of a state file fails, the run that \<open>ensure-run\<close> answers for is controlled by the caller and belongs to the task asked for, and an
  autonomous task is given to its own agent only.\<close>

theorem ensure_run_is_callers:
  assumes "interleaved E" "sound_env E" "manager_run E (run_manager_new dir) m"
    "wit_ensure_run E caller t cfg m = (Inr i, m')"
  shows "(\<exists>r. store_get (m_store m') i = Some r \<and> rn_controller_agent r = caller \<and> rn_task_id r = t)
    \<and> (is_auto_mode t \<longrightarrow> t = lit ''auto:'' @ caller)"
proof
  have wf: "store_wf (m_store m)" using li.reached [OF assms(1,3)] assms(2) by (simp add: run_manager_new_def)
  have "ensure_run_strict E t caller cfg m = (Inr i, m')"
    using assms(4) by (auto simp: wit_ensure_run_def sfail_def split: option.splits if_splits)
  then show "\<exists>r. store_get (m_store m') i = Some r \<and> rn_controller_agent r = caller \<and> rn_task_id r = t"
    by (rule strict_owner [OF assms(1,2) wf])
  show "is_auto_mode t \<longrightarrow> t = lit ''auto:'' @ caller"
    using assms(4)
    by (auto simp: wit_ensure_run_def sfail_def is_auto_mode_def strip_prefix_def prefix_def split: if_splits)
qed

lemma job_not_auto: "strip_prefix (lit ''auto:'') job = None"
  by (simp add: strip_prefix_def job_def lit_def)

theorem ensure_run_is_callers_witness:
  "\<exists>m' r. wit_ensure_run quiet_env worker job (plain_config None) job_state = (Inr job_id, m')
     \<and> store_get (m_store m') job_id = Some r \<and> rn_controller_agent r = worker"
proof -
  have "\<exists>m'. wit_ensure_run quiet_env worker job (plain_config None) job_state = (Inr job_id, m')"
    by (simp add: wit_ensure_run_def job_not_auto ensure_run_strict_def ensure_run_inner_def ensure_run_checks_def sbind_def slift_def
        sect_def guarded_sect_def release_alone [OF quiet_env_ok(1)] creation_blocked_def ensure_block_def find_live_by_task_def
        job_state_store store_get_def persist_new_def emit_def emit_block_def sreturn_def plain_config_def)
  then show ?thesis using ensure_run_is_callers [OF quiet_env_ok(2,3) job_state_run] by blast
qed

end
