(* ===== verification/RunDisk.thy ===== *)
theory RunDisk
  imports RunSafety
begin

text \<open>
  The files of the state directory across a restart. There is one file per task, so a write of a row that has ended
  hides every other run of the task from the next start.
\<close>

section \<open>What a restart reads\<close>

lemma split_extension_yaml:
  assumes "split_extension name = (stem, Some (lit ''yaml''))"
  shows "name = target_path stem"
proof -
  have "46 \<in> set name" using assms by (auto simp: split_extension_def Let_def split: if_splits)
  then obtain a b where n: "name = a @ 46 # b" "46 \<notin> set b" by (meson split_list_last)
  have "rev (takeWhile (\<lambda>c. c \<noteq> 46) (rev name)) = b" unfolding n(1) takeWhile_rev_append [OF n(2)] by simp
  then have "split_extension name = (if name = lit ''..'' \<or> a = [] then (name, None) else (a, Some b))"
    by (simp add: split_extension_def Let_def n(1))
  then have "a = stem" "b = lit ''yaml''" using assms by (auto split: if_splits)
  then show ?thesis using n by (simp add: target_path_def lit_def)
qed

lemma find_live_insert:
  assumes "store_wf st" "store_get st (rn_id r) = None"
  shows "find_live_by_task (store_insert r st) t =
     (if is_live_status (rn_status r) \<and> rn_task_id r = t then Some r else find_live_by_task st t)"
proof -
  have "map_of (rs_live_by_task st) t \<noteq> Some (rn_id r)" using store_wfD(3) [OF assms(1), of t "rn_id r"] assms(2) by simp
  then show ?thesis by (auto simp: find_live_by_task_def split: option.split)
qed

lemma insert_rows_live:
  assumes "find_live_by_task (snd (insert_rows rs rep st)) t = Some q" "store_wf st"
  shows "find_live_by_task st t = Some q \<or> q \<in> set rs \<and> is_live_status (rn_status q) \<and> rn_task_id q = t"
  using assms
proof (induction rs arbitrary: rep st)
  case (Cons r rs)
  show ?case
  proof (cases "runs_len st \<ge> MAX_RUNS_PER_STORE \<or> store_get st (rn_id r) \<noteq> None
      \<or> is_live_status (rn_status r) \<and> find_live_by_task st (rn_task_id r) \<noteq> None")
    case True
    then obtain rep' where "insert_rows (r # rs) rep st = insert_rows rs rep' st" by (metis insert_rows.simps(2))
    then show ?thesis using Cons.IH [of rep' st] Cons.prems by auto
  next
    case False
    then have none: "store_get st (rn_id r) = None" by simp
    have wf: "store_wf (store_insert r st)" using False by (intro store_wf_insert [OF Cons.prems(2) none]) auto
    have "find_live_by_task (snd (insert_rows rs (rep\<lparr>rp_disk_loaded := inc (rp_disk_loaded rep)\<rparr>) (store_insert r st))) t = Some q"
      using Cons.prems(1) False by auto
    from Cons.IH [OF this wf] show ?thesis
      by (auto simp: find_live_insert [OF Cons.prems(2) none] split: if_splits)
  qed
qed simp

text \<open>A run that a restart finds live comes from the file of its task.\<close>

lemma recovered_live_file:
  assumes "alone E" "find_live_by_task (m_store (snd (recover_from_disk E (run_manager_new dir)))) t = Some q"
    "distinct (map fst dir)"
  shows "\<exists>body. map_of dir (target_path t) = Some (RegularFile body) \<and> e_from_yaml E body = Some q \<and> is_live_status (rn_status q)"
proof -
  have new: "find_live_by_task run_store_new t = None" by (simp add: find_live_by_task_def run_store_new_def)
  obtain rows k where l: "load_loop (e_from_yaml E) dir 0 [] 0 = (rows, k)" by force
  have q: "find_live_by_task (snd (insert_rows rows (empty_report\<lparr>rp_disk_invalid := k\<rparr>) run_store_new)) t = Some q"
    using assms(2) new
    by (simp add: recover_from_disk_def sect_def load_block_def release_alone [OF assms(1)] run_manager_new_def sfail_def
        load_all_def l split: if_splits prod.splits)
  from insert_rows_live [OF q store_wf_new] new
  have r: "q \<in> set rows" "is_live_status (rn_status q)" "rn_task_id q = t" by auto
  then obtain name e stem where e: "(name, e) \<in> set dir" "split_extension name = (stem, Some (lit ''yaml''))"
    "load_entry (e_from_yaml E) stem e = Some q"
    using load_loop_sound [OF l r(1)] by auto
  then obtain body where "e = RegularFile body" "e_from_yaml E body = Some q" "stem = t"
    using r(3) by (cases e) (auto simp: load_entry_def row_acceptable_def split: option.splits if_splits)
  then show ?thesis using e(1) split_extension_yaml [OF e(2)] assms(3) r(2) by auto
qed

text \<open>A directory within the caps is read completely, and rows with ids and tasks of their own are all inserted.\<close>

definition entry_row :: "(rstr \<Rightarrow> run option) \<Rightarrow> rstr \<times> dir_entry \<Rightarrow> run option" where
  "entry_row fy = (\<lambda>(name, e). case split_extension name of (stem, ext) \<Rightarrow>
     if ext = Some (lit ''yaml'') then load_entry fy stem e else None)"

lemma load_loop_all:
  assumes "n + length es \<le> MAX_SCAN_ENTRIES" "length rs + length es \<le> MAX_LOAD_ROWS"
  shows "fst (load_loop fy es n rs k) = rs @ List.map_filter (entry_row fy) es"
  using assms
proof (induction es arbitrary: n rs k)
  case (Cons x es)
  obtain name e stem ext where x: "x = (name, e)" "split_extension name = (stem, ext)" by (metis surj_pair)
  show ?case
  proof (cases "entry_row fy x")
    case None
    then obtain k' where "load_loop fy (x # es) n rs k = load_loop fy es (n + 1) rs k'"
      using x Cons.prems by (auto simp: entry_row_def split: if_splits)
    then show ?thesis using Cons.IH [of "n + 1" rs k'] Cons.prems None by (simp add: map_filter_simps)
  next
    case (Some r)
    then have "load_loop fy (x # es) n rs k = load_loop fy es (n + 1) (rs @ [r]) k"
      using x Cons.prems by (auto simp: entry_row_def split: if_splits)
    then show ?thesis using Cons.IH [of "n + 1" "rs @ [r]" k] Cons.prems Some by (simp add: map_filter_simps)
  qed
qed (simp add: map_filter_simps)

lemma entry_row_iff:
  "entry_row fy (name, e) = Some r \<longleftrightarrow>
     (\<exists>body. name = target_path (rn_task_id r) \<and> e = RegularFile body \<and> str_len body \<le> MAX_YAML_BODY_BYTES
        \<and> fy body = Some r \<and> row_acceptable (rn_task_id r) r)" (is "_ \<longleftrightarrow> ?R")
proof
  assume "entry_row fy (name, e) = Some r"
  then obtain stem where "split_extension name = (stem, Some (lit ''yaml''))" "load_entry fy stem e = Some r"
    by (auto simp: entry_row_def split: prod.splits if_splits)
  moreover from this(2) have "stem = rn_task_id r" by (auto simp: load_entry_def row_acceptable_def split: option.splits if_splits)
  ultimately show ?R using split_extension_yaml [of name stem]
    by (cases e) (auto simp: load_entry_def split: option.splits if_splits)
next
  assume ?R
  moreover then have "rn_task_id r \<noteq> []" by (auto simp: row_acceptable_def validate_path_safe_def)
  ultimately show "entry_row fy (name, e) = Some r"
    by (auto simp: entry_row_def split_extension_target load_entry_def)
qed

lemma length_update_new: "map_of al k = None \<Longrightarrow> length (AList.update k v al) = Suc (length al)"
  by (induction al) (auto split: if_splits)

lemma insert_rows_all:
  assumes "runs_len st + length rs \<le> MAX_RUNS_PER_STORE" "distinct (map rn_id rs)" "distinct (map rn_task_id rs)" "store_wf st"
    "\<forall>r\<in>set rs. store_get st (rn_id r) = None \<and> find_live_by_task st (rn_task_id r) = None"
  shows "store_get (snd (insert_rows rs rep st)) i = Some q \<longleftrightarrow> store_get st i = Some q \<or> (q \<in> set rs \<and> rn_id q = i)"
  using assms
proof (induction rs arbitrary: rep st)
  case (Cons r rs)
  have none: "store_get st (rn_id r) = None" "find_live_by_task st (rn_task_id r) = None" using Cons.prems(5) by simp_all
  have "runs_len (store_insert r st) = Suc (runs_len st)"
    using none(1) by (simp add: runs_len_def store_insert_def store_get_def Let_def length_update_new)
  moreover have wf: "store_wf (store_insert r st)" by (rule store_wf_insert [OF Cons.prems(4) none(1)]) (rule none(2))
  moreover have "\<forall>p\<in>set rs. store_get (store_insert r st) (rn_id p) = None \<and> find_live_by_task (store_insert r st) (rn_task_id p) = None"
  proof
    fix p assume p: "p \<in> set rs"
    then have "rn_id p \<noteq> rn_id r" "rn_task_id p \<noteq> rn_task_id r" using Cons.prems(2,3) by (auto dest: sym)
    then show "store_get (store_insert r st) (rn_id p) = None \<and> find_live_by_task (store_insert r st) (rn_task_id p) = None"
      using Cons.prems(5) p by (simp add: find_live_insert [OF Cons.prems(4) none(1)])
  qed
  ultimately show ?case using Cons.IH [of "store_insert r st"] Cons.prems none by auto
qed simp

lemma entry_rows_mem:
  "r \<in> set (List.map_filter (entry_row fy) dir) \<longleftrightarrow> (\<exists>x\<in>set dir. entry_row fy x = Some r)"
  by (force simp: List.map_filter_def)

lemma entry_rows_tasks: "distinct (map fst dir) \<Longrightarrow> distinct (map rn_task_id (List.map_filter (entry_row fy) dir))"
proof (induction dir)
  case (Cons x dir)
  obtain name e where x: "x = (name, e)" by force
  have "rn_task_id q \<noteq> rn_task_id r" if "entry_row fy x = Some r" "q \<in> set (List.map_filter (entry_row fy) dir)" for q r
    using that Cons.prems by (force simp: x entry_rows_mem entry_row_iff)
  then show ?case using Cons by (auto simp: map_filter_simps split: option.splits) metis
qed (simp add: map_filter_simps)

text \<open>C23: A start on a state directory within the caps, whose rows have distinct ids, holds exactly the rows that its
  files hold: each from the file named after its task, if the row passes the checks.\<close>

theorem restart_reads_exactly:
  assumes "alone E" "e_persister E" "e_read_dir E 1" "distinct (map fst dir)" "length dir \<le> MAX_RUNS_PER_STORE"
    "inj_on rn_id {r. \<exists>t body. map_of dir (target_path t) = Some (RegularFile body) \<and> e_from_yaml E body = Some r}"
  shows "store_get (m_store (snd (recover_from_disk E (run_manager_new dir)))) i = Some r \<longleftrightarrow>
    rn_id r = i \<and> (\<exists>body. map_of dir (target_path (rn_task_id r)) = Some (RegularFile body) \<and> str_len body \<le> MAX_YAML_BODY_BYTES
      \<and> e_from_yaml E body = Some r \<and> row_acceptable (rn_task_id r) r)"
proof -
  let ?rs = "List.map_filter (entry_row (e_from_yaml E)) dir"
  have "fst (load_loop (e_from_yaml E) dir 0 [] 0) = ?rs"
    using load_loop_all [of 0 dir "[]"] assms(5) by (simp add: MAX_SCAN_ENTRIES_def MAX_LOAD_ROWS_def)
  then obtain k where rows: "load_loop (e_from_yaml E) dir 0 [] 0 = (?rs, k)" by (metis prod.collapse)
  have mem: "q \<in> set ?rs \<longleftrightarrow> (\<exists>body. map_of dir (target_path (rn_task_id q)) = Some (RegularFile body)
      \<and> str_len body \<le> MAX_YAML_BODY_BYTES \<and> e_from_yaml E body = Some q \<and> row_acceptable (rn_task_id q) q)" for q
    using assms(4) by (auto simp: entry_rows_mem entry_row_iff Bex_def)
  have tasks: "distinct (map rn_task_id ?rs)" by (rule entry_rows_tasks [OF assms(4)])
  have ids: "distinct (map rn_id ?rs)"
    using tasks by (auto simp: distinct_map mem intro!: inj_on_subset [OF assms(6)]) blast
  have len: "length ?rs \<le> length dir" by (simp add: List.map_filter_def)
  have "store_get (snd (insert_rows ?rs rep run_store_new)) i = Some r \<longleftrightarrow> r \<in> set ?rs \<and> rn_id r = i" for rep
    using insert_rows_all [OF _ ids tasks store_wf_new, of rep i r] len assms(5)
    by (simp add: runs_len_def run_store_new_def find_live_by_task_def store_get_def)
  moreover have "m_store (snd (recover_from_disk E (run_manager_new dir)))
      = snd (insert_rows ?rs (empty_report\<lparr>rp_disk_invalid := k\<rparr>) run_store_new)"
    using assms(2,3)
    by (simp add: recover_from_disk_def sect_def load_block_def release_alone [OF assms(1)] run_manager_new_def load_all_def rows
        split: prod.split)
  ultimately show ?thesis using mem [of r] by auto
qed

text \<open>Writing a row sets the file of its task, whatever others wrote there before.\<close>

lemma persist_best_effort_file:
  assumes "e_persister E" "\<forall>n. e_io E n = None" "validate_path_safe (rn_task_id r) = Inr ()" "e_to_yaml E r = Some body"
  shows "m_dir (snd (persist_best_effort E r m)) = AList.update (target_path (rn_task_id r)) (RegularFile body) (m_dir (release E m))"
  using assms by (simp add: persist_best_effort_def sect_def persist_block_def persist_def)

section \<open>A late write\<close>

text \<open>C40: The methods write the row of a run that has ended after they released the store. If others start the task again
  before that write, it replaces the file of the new run, and a restart does not find it.\<close>

theorem late_write_hides_successor:
  assumes "e_persister E" "\<forall>n. e_io E n = None" "validate_path_safe (rn_task_id r) = Inr ()" "e_to_yaml E r = Some body"
    "e_from_yaml E body = Some r" "\<not> is_live_status (rn_status r)" "distinct (map fst (m_dir (release E m)))"
    "find_live_by_task (m_store (release E m)) (rn_task_id r) = Some s"
    "alone F" "e_from_yaml F = e_from_yaml E"
  shows "find_live_by_task (m_store (snd (persist_best_effort E r m))) (rn_task_id r) = Some s
    \<and> find_live_by_task
         (m_store (snd (recover_from_disk F (run_manager_new (m_dir (snd (persist_best_effort E r m))))))) (rn_task_id r) = None"
proof
  show "find_live_by_task (m_store (snd (persist_best_effort E r m))) (rn_task_id r) = Some s"
    using assms(1,8) by (simp add: persist_best_effort_def sect_def persist_block_def split: prod.split)
  let ?dir = "m_dir (snd (persist_best_effort E r m))"
  have dir: "?dir = AList.update (target_path (rn_task_id r)) (RegularFile body) (m_dir (release E m))"
    by (rule persist_best_effort_file [OF assms(1-4)])
  then have "distinct (map fst ?dir)" using assms(7) by (simp add: distinct_update)
  then have False if "find_live_by_task (m_store (snd (recover_from_disk F (run_manager_new ?dir)))) (rn_task_id r) = Some q" for q
    using recovered_live_file [OF assms(9) that] assms(5,6,10) by (auto simp: dir)
  then show "find_live_by_task (m_store (snd (recover_from_disk F (run_manager_new ?dir)))) (rn_task_id r) = None"
    by (metis not_Some_eq)
qed

text \<open>The sample run has just completed; before its row is written the task is asked for again. A row is stored as its id
  and status.\<close>

definition row_text :: "run \<Rightarrow> rstr option" where
  "row_text r = Some (rn_id r @ 35 # task_run_status_label (rn_status r))"

definition done_row :: run where
  "done_row = ended_row Completed 1 job_row"

definition disk_env :: run_env where
  "disk_env = quiet_env\<lparr>e_persister := True, e_to_yaml := row_text,
     e_from_yaml := \<lambda>t. if row_text done_row = Some t then Some done_row else None\<rparr>"

definition late_env :: run_env where
  "late_env = disk_env\<lparr>e_others := \<lambda>n m. snd (ensure_run disk_env job worker (plain_config None) m)\<rparr>"

definition done_state :: run_manager where
  "done_state = job_state\<lparr>m_store := \<lparr>rs_runs = [(job_id, done_row)], rs_live_by_task = []\<rparr>\<rparr>"

lemma done_row_simps [simp]: "rn_status done_row = Completed" "rn_task_id done_row = job" "rn_id done_row = job_id"
  by (simp_all add: done_row_def ended_row_def)

definition next_row :: run where
  "next_row = new_run (lit ''run-00'') job worker (plain_config None) (m_tick job_state + 2)"

lemma late_release:
  "m_store (release late_env done_state) =
     \<lparr>rs_runs = [(job_id, done_row), (rn_id next_row, next_row)], rs_live_by_task = [(job, rn_id next_row)]\<rparr>"
  "m_dir (release late_env done_state) = AList.update (target_path job) (RegularFile (the (row_text next_row))) (m_dir job_state)"
  by (simp_all add: late_env_def disk_env_def quiet_env_def done_state_def eval_ensure persist_block_def persist_def row_text_def
      next_row_def Let_def job_id_def lit_def)

text \<open>The file that the late write left is what the restart reads.\<close>

lemma job_state_dir [simp]: "m_dir job_state = []"
  by (simp add: job_state_def quiet_env_def eval_ensure Let_def)

theorem late_write_hides_successor_witness:
  "find_live_by_task (m_store (snd (persist_best_effort late_env done_row done_state))) job = Some next_row
   \<and> find_live_by_task
        (m_store (snd (recover_from_disk disk_env (run_manager_new (m_dir (snd (persist_best_effort late_env done_row done_state)))))))
        job = None"
proof -
  have "find_live_by_task (m_store (release late_env done_state)) (rn_task_id done_row) = Some next_row"
    by (simp add: late_release find_live_by_task_def store_get_def next_row_def new_run_def job_id_def lit_def)
  moreover have "alone disk_env" "e_from_yaml disk_env = e_from_yaml late_env" "e_persister late_env" "\<forall>n. e_io late_env n = None"
    "e_to_yaml late_env done_row = row_text done_row" "e_from_yaml late_env (the (row_text done_row)) = Some done_row"
    by (simp_all add: alone_def disk_env_def late_env_def quiet_env_def row_text_def)
  moreover have "distinct (map fst (m_dir (release late_env done_state)))" by (simp add: late_release)
  ultimately show ?thesis
    using late_write_hides_successor [of late_env done_row "the (row_text done_row)" done_state next_row disk_env]
    by (simp add: row_text_def)
qed

lemma done_row_acceptable: "row_acceptable job done_row"
  by (simp add: row_acceptable_def row_invariant_ok_def done_row_def ended_row_def drain_def job_row_def new_run_def from_config_def
      plain_config_def bad_amount_def) (use ids_valid(3) in \<open>simp add: job_id_def lit_def\<close>)

theorem restart_reads_exactly_witness:
  "store_get (m_store (snd (recover_from_disk disk_env (run_manager_new [(target_path job, RegularFile (the (row_text done_row)))]))))
     job_id = Some done_row"
proof -
  let ?dir = "[(target_path job, RegularFile (the (row_text done_row)))]"
  have E: "alone disk_env" "e_persister disk_env" "e_read_dir disk_env 1"
    "e_from_yaml disk_env = (\<lambda>t. if row_text done_row = Some t then Some done_row else None)"
    by (simp_all add: alone_def disk_env_def quiet_env_def)
  have "inj_on rn_id {r. \<exists>t body. map_of ?dir (target_path t) = Some (RegularFile body) \<and> e_from_yaml disk_env body = Some r}"
    by (auto simp: inj_on_def E(4) split: if_splits)
  from restart_reads_exactly [OF E(1-3) _ _ this, of job_id done_row]
  show ?thesis
    by (simp add: MAX_RUNS_PER_STORE_def done_row_acceptable E(4)) (simp add: row_text_def job_id_def lit_def str_len_def utf8_len_def
        MAX_YAML_BODY_BYTES_def)
qed

end
