(* ===== verification/RunCascade.thy ===== *)
theory RunCascade
  imports RunSafety
begin

text \<open>
  The walk over the agent tree below an agent, and the cascade that cancels the runs of the agents it finds.
\<close>

section \<open>The walk\<close>

definition kids :: "tree_snapshot \<Rightarrow> rstr \<Rightarrow> rstr list" where
  "kids snap a = (case map_of (ts_children_of snap) a of None \<Rightarrow> [] | Some cs \<Rightarrow> cs)"

definition child :: "tree_snapshot \<Rightarrow> rstr \<Rightarrow> rstr \<Rightarrow> bool" where
  "child snap a b \<longleftrightarrow> b \<in> set (kids snap a)"

lemma visit_unfold:
  "visit snap top_id (Suc l) c s =
     (if c \<in> set (v_visited s) then Inr s
      else if c \<in> set (v_visiting s) then Inl cycle_error
      else rbind (visit_children snap top_id l (kids snap c) (s\<lparr>v_visiting := c # v_visiting s\<rparr>))
        (\<lambda>s'. Inr \<lparr>v_visiting = removeAll c (v_visiting s'), v_visited = c # v_visited s',
           v_out = (if c \<noteq> top_id then v_out s' @ [c] else v_out s')\<rparr>))"
  "visit snap top_id 0 c s = Inl cycle_error"
  by (simp_all add: visit.simps kids_def)

declare visit.simps [simp del]

text \<open>The agents done, latest first: every agent comes before all its children.\<close>

primrec topo :: "tree_snapshot \<Rightarrow> rstr list \<Rightarrow> bool" where
  "topo snap [] = True"
| "topo snap (a # as) = (set (kids snap a) \<subseteq> set as \<and> topo snap as)"

lemma topo_closed:
  assumes "(child snap)\<^sup>*\<^sup>* a b" "topo snap vs" "a \<in> set vs"
  shows "b \<in> set vs"
  using assms
proof (induction rule: rtranclp_induct)
  case (step b c)
  have "topo snap vs \<Longrightarrow> b \<in> set vs \<Longrightarrow> set (kids snap b) \<subseteq> set vs" by (induction vs) auto
  then show ?case using step by (auto simp: child_def)
qed

definition walk_ok :: "tree_snapshot \<Rightarrow> rstr \<Rightarrow> visit_state \<Rightarrow> bool" where
  "walk_ok snap top_id s \<longleftrightarrow> topo snap (v_visited s) \<and> distinct (v_visited s)
     \<and> v_out s = rev (filter (\<lambda>a. a \<noteq> top_id) (v_visited s)) \<and> set (v_visited s) \<inter> set (v_visiting s) = {}"

text \<open>What a visit adds: the agent and what is below it, nothing else.\<close>

definition grows :: "tree_snapshot \<Rightarrow> rstr set \<Rightarrow> visit_state \<Rightarrow> visit_state \<Rightarrow> bool" where
  "grows snap new s s' \<longleftrightarrow> v_visiting s' = v_visiting s \<and> (\<exists>added. v_visited s' = added @ v_visited s)
     \<and> new \<subseteq> set (v_visited s') \<and> (\<forall>b\<in>set (v_visited s'). b \<in> set (v_visited s) \<or> (\<exists>a\<in>new. (child snap)\<^sup>*\<^sup>* a b))"

lemma grows_trans:
  "grows snap A s s1 \<Longrightarrow> grows snap B s1 s' \<Longrightarrow> grows snap (A \<union> B) s s'"
  unfolding grows_def by (auto 4 3)

text \<open>The step after the children of \<open>c\<close> are done.\<close>

lemma finish_visit:
  assumes "c \<notin> set (v_visited s)" "c \<notin> set (v_visiting s)" "walk_ok snap top_id s1"
    "grows snap (set (kids snap c)) (s\<lparr>v_visiting := c # v_visiting s\<rparr>) s1"
    "s' = \<lparr>v_visiting = removeAll c (v_visiting s1), v_visited = c # v_visited s1,
       v_out = (if c \<noteq> top_id then v_out s1 @ [c] else v_out s1)\<rparr>"
  shows "walk_ok snap top_id s' \<and> grows snap {c} s s'"
proof -
  have visiting: "v_visiting s1 = c # v_visiting s" using assms(4) by (simp add: grows_def)
  have old: "removeAll c (v_visiting s) = v_visiting s" using assms(2) by simp
  have below: "\<exists>a\<in>set (kids snap c). (child snap)\<^sup>*\<^sup>* a b \<Longrightarrow> (child snap)\<^sup>*\<^sup>* c b" for b
    by (meson child_def converse_rtranclp_into_rtranclp)
  show ?thesis
    using assms(1-4) visiting old below unfolding assms(5) walk_ok_def grows_def by auto blast+
qed

lemma visit_sound:
  "visit snap top_id left c s = Inr s' \<Longrightarrow> walk_ok snap top_id s \<Longrightarrow> walk_ok snap top_id s' \<and> grows snap {c} s s'"
  "visit_children snap top_id left cs s = Inr s' \<Longrightarrow> walk_ok snap top_id s \<Longrightarrow> walk_ok snap top_id s' \<and> grows snap (set cs) s s'"
proof (induction snap top_id left c s and snap top_id left cs s arbitrary: s' and s' rule: visit_visit_children.induct)
  case (1 snap top_id left c s)
  then obtain l where l: "left = Suc l" by (cases left) (auto simp: visit_unfold)
  show ?case
  proof (cases "c \<in> set (v_visited s)")
    case True
    then show ?thesis using 1 l by (auto simp: visit_unfold grows_def)
  next
    case False
    with 1 l obtain s1 where c: "c \<notin> set (v_visiting s)"
      and s1: "visit_children snap top_id l (kids snap c) (s\<lparr>v_visiting := c # v_visiting s\<rparr>) = Inr s1"
      and s': "s' = \<lparr>v_visiting = removeAll c (v_visiting s1), v_visited = c # v_visited s1,
         v_out = (if c \<noteq> top_id then v_out s1 @ [c] else v_out s1)\<rparr>"
      by (auto simp: visit_unfold rbind_Inr_iff split: if_splits)
    have "walk_ok snap top_id (s\<lparr>v_visiting := c # v_visiting s\<rparr>)" using "1.prems"(2) False by (simp add: walk_ok_def)
    then show ?thesis using finish_visit [OF False c _ _ s'] "1.IH" [OF l False c, folded kids_def, OF s1] by blast
  qed
next
  case (2 snap top_id left s)
  then show ?case by (simp add: grows_def)
next
  case (3 snap top_id left c cs s)
  then obtain s1 where s1: "c \<noteq> top_id" "visit snap top_id left c s = Inr s1" "visit_children snap top_id left cs s1 = Inr s'"
    by (auto simp: rbind_Inr_iff split: if_splits)
  then show ?case using "3.IH" "3.prems"(2) grows_trans [of snap "{c}" s s1 "set cs" s'] by simp
qed

text \<open>A visit fails only on a cycle below the top: the agents in progress are a chain from the top to the current one.\<close>

definition chain_ok :: "tree_snapshot \<Rightarrow> rstr \<Rightarrow> nat \<Rightarrow> visit_state \<Rightarrow> bool" where
  "chain_ok snap top_id left s \<longleftrightarrow> distinct (v_visiting s) \<and> length (v_visiting s) + left = length (ts_nodes snap) + 2
     \<and> set (v_visiting s) \<subseteq> {a. (child snap)\<^sup>*\<^sup>* top_id a}"

definition cyclic_below :: "tree_snapshot \<Rightarrow> rstr \<Rightarrow> bool" where
  "cyclic_below snap top_id \<longleftrightarrow> (\<exists>a. (child snap)\<^sup>*\<^sup>* top_id a \<and> (child snap)\<^sup>+\<^sup>+ a a)"

lemma chain_short:
  assumes "{a. (child snap)\<^sup>+\<^sup>+ top_id a} \<subseteq> set (ts_nodes snap)" "chain_ok snap top_id left s"
  shows "left \<noteq> 0"
proof
  assume "left = 0"
  then have "length (v_visiting s) = length (ts_nodes snap) + 2" using assms(2) by (simp add: chain_ok_def)
  moreover have "set (v_visiting s) \<subseteq> set (top_id # ts_nodes snap)"
    using assms by (auto simp: chain_ok_def dest: rtranclpD)
  then have "length (v_visiting s) \<le> length (top_id # ts_nodes snap)"
    using assms(2) card_mono [of "set (top_id # ts_nodes snap)" "set (v_visiting s)"] card_length [of "top_id # ts_nodes snap"]
    by (simp add: chain_ok_def distinct_card)
  ultimately show False by simp
qed

lemma visit_fails:
  "visit snap top_id left c s = Inl e \<Longrightarrow> {a. (child snap)\<^sup>+\<^sup>+ top_id a} \<subseteq> set (ts_nodes snap) \<Longrightarrow> walk_ok snap top_id s
   \<Longrightarrow> chain_ok snap top_id left s \<Longrightarrow> (child snap)\<^sup>*\<^sup>* top_id c \<Longrightarrow> \<forall>a\<in>set (v_visiting s). (child snap)\<^sup>+\<^sup>+ a c
   \<Longrightarrow> e = cycle_error \<and> cyclic_below snap top_id"
  "visit_children snap top_id left cs s = Inl e \<Longrightarrow> {a. (child snap)\<^sup>+\<^sup>+ top_id a} \<subseteq> set (ts_nodes snap) \<Longrightarrow> walk_ok snap top_id s
   \<Longrightarrow> chain_ok snap top_id left s \<Longrightarrow> \<forall>c\<in>set cs. (child snap)\<^sup>+\<^sup>+ top_id c \<and> (\<forall>a\<in>set (v_visiting s). (child snap)\<^sup>+\<^sup>+ a c)
   \<Longrightarrow> e = cycle_error \<and> cyclic_below snap top_id"
proof (induction snap top_id left c s and snap top_id left cs s arbitrary: e and e rule: visit_visit_children.induct)
  case (1 snap top_id left c s)
  then obtain l where l: "left = Suc l" using chain_short by (cases left) blast+
  show ?case
  proof (cases "c \<in> set (v_visiting s)")
    case True
    then show ?thesis using "1.prems" l by (auto simp: visit_unfold cyclic_below_def split: if_splits)
  next
    case False
    let ?s = "s\<lparr>v_visiting := c # v_visiting s\<rparr>"
    have c: "c \<notin> set (v_visited s)" and e: "visit_children snap top_id l (kids snap c) ?s = Inl e"
      using "1.prems"(1) False by (auto simp: visit_unfold l rbind_Inl_iff split: if_splits)
    have "walk_ok snap top_id ?s" "chain_ok snap top_id l ?s" using "1.prems" c False l by (auto simp: walk_ok_def chain_ok_def)
    moreover have "\<forall>b\<in>set (kids snap c). (child snap)\<^sup>+\<^sup>+ top_id b \<and> (\<forall>a\<in>set (v_visiting ?s). (child snap)\<^sup>+\<^sup>+ a b)"
      using "1.prems"(5,6) by (auto simp flip: child_def intro: rtranclp_into_tranclp1 tranclp.trancl_into_trancl)
    ultimately show ?thesis by (rule "1.IH" [OF l c False, folded kids_def, OF e "1.prems"(2)])
  qed
next
  case (3 snap top_id left c cs s)
  show ?case
  proof (cases "c = top_id")
    case True
    then show ?thesis using "3.prems" by (auto simp: cyclic_below_def)
  next
    case False
    show ?thesis
    proof (cases "visit snap top_id left c s")
      case (Inl e')
      then show ?thesis using "3.IH"(1) [OF False Inl] "3.prems" False by (auto dest: tranclp_into_rtranclp)
    next
      case (Inr s1)
      have "walk_ok snap top_id s1" "grows snap {c} s s1" using visit_sound(1) [OF Inr "3.prems"(3)] by auto
      moreover have "chain_ok snap top_id left s1" using "3.prems"(4) \<open>grows snap {c} s s1\<close> by (simp add: chain_ok_def grows_def)
      ultimately show ?thesis using "3.IH"(2) [OF False, of s1] "3.prems" False Inr by (auto simp: grows_def)
    qed
  qed
qed simp

lemma topo_split: "topo snap (xs @ a # ys) \<Longrightarrow> set (kids snap a) \<subseteq> set ys \<and> topo snap ys"
  by (induction xs) auto

lemma topo_acyclic:
  assumes "topo snap vs" "distinct vs" "a \<in> set vs"
  shows "\<not> (child snap)\<^sup>+\<^sup>+ a a"
proof
  assume "(child snap)\<^sup>+\<^sup>+ a a"
  then obtain b where b: "child snap a b" "(child snap)\<^sup>*\<^sup>* b a" by (meson tranclpD)
  obtain xs ys where vs: "vs = xs @ a # ys" using assms(3) by (meson split_list)
  then have "set (kids snap a) \<subseteq> set ys" "topo snap ys" using topo_split assms(1) by blast+
  then have "a \<in> set ys" using topo_closed [OF b(2)] b(1) by (auto simp: child_def)
  then show False using assms(2) vs by simp
qed

text \<open>A walk that succeeds has visited the top last.\<close>

lemma walk_result:
  assumes "visit snap top_id left top_id \<lparr>v_visiting = [], v_visited = [], v_out = []\<rparr> = Inr s"
  obtains rest where "v_out s = rev rest" "distinct (top_id # rest)" "topo snap (top_id # rest)"
    "set (top_id # rest) = {a. (child snap)\<^sup>*\<^sup>* top_id a}"
proof -
  let ?s = "\<lparr>v_visiting = [], v_visited = [], v_out = []\<rparr>"
  have "walk_ok snap top_id ?s" by (simp add: walk_ok_def)
  from visit_sound(1) [OF assms this] have ok: "walk_ok snap top_id s" and gr: "grows snap {top_id} ?s s" by auto
  obtain rest where rest: "v_visited s = top_id # rest"
    using assms by (cases left) (auto simp: visit_unfold rbind_Inr_iff)
  have "set (top_id # rest) = {a. (child snap)\<^sup>*\<^sup>* top_id a}"
    using gr topo_closed [of snap top_id _ "top_id # rest"] ok by (auto simp: grows_def walk_ok_def rest)
  moreover have "filter (\<lambda>a. a \<noteq> top_id) rest = rest" using ok by (auto simp: walk_ok_def rest filter_id_conv)
  ultimately show thesis using that [of rest] ok by (simp add: walk_ok_def rest)
qed

lemma post_order_fails:
  assumes "{a. (child snap)\<^sup>+\<^sup>+ top_id a} \<subseteq> set (ts_nodes snap)" "post_order_descendant_agents snap top_id = Inl e"
  shows "e = cycle_error \<and> cyclic_below snap top_id"
  using visit_fails(1) [OF _ assms(1), of "length (ts_nodes snap) + 2" top_id "\<lparr>v_visiting = [], v_visited = [], v_out = []\<rparr>" e] assms(2)
  by (auto simp: post_order_descendant_agents_def walk_ok_def chain_ok_def rbind_Inl_iff)

lemma post_order_succeeds:
  assumes "post_order_descendant_agents snap top_id = Inr out"
  shows "\<not> cyclic_below snap top_id \<and> distinct out \<and> set out = {a. (child snap)\<^sup>+\<^sup>+ top_id a}
    \<and> (\<forall>xs a ys. out = xs @ a # ys \<longrightarrow> set (kids snap a) \<subseteq> set xs)"
proof -
  obtain s where s: "visit snap top_id (length (ts_nodes snap) + 2) top_id \<lparr>v_visiting = [], v_visited = [], v_out = []\<rparr> = Inr s"
    and out: "v_out s = out"
    using assms unfolding post_order_descendant_agents_def rbind_Inr_iff by blast
  obtain rest where r: "v_out s = rev rest" "distinct (top_id # rest)" "topo snap (top_id # rest)"
    "set (top_id # rest) = {a. (child snap)\<^sup>*\<^sup>* top_id a}" by (rule walk_result [OF s])
  have acyclic: "\<not> cyclic_below snap top_id"
    using topo_acyclic [OF r(3,2)] r(4) by (auto simp: cyclic_below_def)
  have "(child snap)\<^sup>+\<^sup>+ top_id a \<longleftrightarrow> (child snap)\<^sup>*\<^sup>* top_id a \<and> a \<noteq> top_id" for a
    using acyclic by (auto simp: cyclic_below_def dest: rtranclpD tranclp_into_rtranclp)
  then have "set (rev rest) = {a. (child snap)\<^sup>+\<^sup>+ top_id a}" using r(2,4) by auto
  moreover have "set (kids snap a) \<subseteq> set xs" if "rev rest = xs @ a # ys" for xs a ys
    using topo_split [of snap "top_id # rev ys" a "rev xs"] r(3) that by (simp add: rev_swap)
  ultimately show ?thesis using acyclic r(1,2) out by auto
qed

lemma post_order_total:
  assumes "{a. (child snap)\<^sup>+\<^sup>+ top_id a} \<subseteq> set (ts_nodes snap)"
  shows "cyclic_below snap top_id \<or> (\<exists>out. post_order_descendant_agents snap top_id = Inr out \<and> distinct out
    \<and> set out = {a. (child snap)\<^sup>+\<^sup>+ top_id a}) \<and> \<not> cyclic_below snap top_id"
  using post_order_fails [OF assms] post_order_succeeds by (cases "post_order_descendant_agents snap top_id") blast+

text \<open>C19: The walk that finds the agents below an agent ends on every snapshot of the tree. It succeeds exactly when no cycle can be
  reached from the agent, and then lists each agent strictly below it once, children before their parents.\<close>

theorem descendant_walk_exact:
  assumes "{a. (child snap)\<^sup>+\<^sup>+ top_id a} \<subseteq> set (ts_nodes snap)"
  shows "case post_order_descendant_agents snap top_id of
      Inr out \<Rightarrow> \<not> cyclic_below snap top_id \<and> distinct out \<and> set out = {a. (child snap)\<^sup>+\<^sup>+ top_id a}
        \<and> (\<forall>xs a ys. out = xs @ a # ys \<longrightarrow> set (kids snap a) \<subseteq> set xs)
    | Inl e \<Rightarrow> e = cycle_error \<and> cyclic_below snap top_id"
  using post_order_fails [OF assms] post_order_succeeds by (simp split: sum.split)

definition small_tree :: tree_snapshot where
  "small_tree = \<lparr>ts_nodes = [worker, lit ''a'', lit ''b''], ts_children_of = [(worker, [lit ''a'', lit ''b'']), (lit ''a'', [lit ''b''])]\<rparr>"

lemma small_tree_child:
  assumes "child small_tree x a"
  shows "a \<in> set (ts_nodes small_tree)"
proof -
  consider "x = worker" | "x = lit ''a''" | "x \<noteq> worker" "x \<noteq> lit ''a''" by blast
  moreover have "lit ''a'' \<noteq> worker" by (simp add: worker_def lit_def)
  ultimately show ?thesis using assms by cases (auto simp: child_def kids_def small_tree_def)
qed

lemma small_tree_nodes: "(child small_tree)\<^sup>+\<^sup>+ x a \<Longrightarrow> a \<in> set (ts_nodes small_tree)"
  by (erule tranclp.cases) (simp_all add: small_tree_child)

lemma small_tree_walk: "post_order_descendant_agents small_tree worker = Inr [lit ''b'', lit ''a'']"
  by (simp add: post_order_descendant_agents_def small_tree_def visit_unfold kids_def worker_def lit_def)

theorem descendant_walk_exact_witness:
  "set [lit ''b'', lit ''a''] = {a. (child small_tree)\<^sup>+\<^sup>+ worker a} \<and> \<not> cyclic_below small_tree worker"
  using descendant_walk_exact [of small_tree worker] small_tree_nodes by (auto simp: small_tree_walk)

section \<open>The cascade when nothing interferes\<close>

text \<open>What the bookkeeping calls leave as it is.\<close>

definition same_runs :: "run_manager \<Rightarrow> run_manager \<Rightarrow> bool" where
  "same_runs m m' \<longleftrightarrow> m_store m' = m_store m \<and> m_scoped m' = m_scoped m \<and> m_terminated m' = m_terminated m"

lemma same_runs_refl [simp]: "same_runs m m"
  by (simp add: same_runs_def)

lemma same_runs_trans [trans]: "same_runs m m1 \<Longrightarrow> same_runs m1 m' \<Longrightarrow> same_runs m m'"
  by (simp add: same_runs_def)

lemma same_runs_tick [simp]: "same_runs m (m'\<lparr>m_tick := n\<rparr>) = same_runs m m'" "same_runs (m\<lparr>m_tick := n\<rparr>) m' = same_runs m m'"
  by (simp_all add: same_runs_def)

lemma emit_alone: "alone E \<Longrightarrow> \<exists>m'. emit E ev m = (Inr (), m') \<and> same_runs m m'"
  by (simp add: emit_def sect_def emit_block_def release_alone same_runs_def)

lemma notify_alone: "alone E \<Longrightarrow> \<exists>m'. sect E (notify_block n) m = (Inr (), m') \<and> same_runs m m'"
  by (simp add: sect_def notify_block_def release_alone same_runs_def)

lemma persist_best_effort_alone: "alone E \<Longrightarrow> \<exists>m'. persist_best_effort E r m = (Inr (), m') \<and> same_runs m m'"
  by (simp add: persist_best_effort_def sect_def persist_block_def release_alone same_runs_def split: prod.split)

lemma persist_snapshot_alone:
  assumes "alone E"
  shows "\<exists>m'. persist_snapshot_best_effort E i m = (Inr (), m') \<and> same_runs m m'"
proof -
  have "\<exists>m'. persist_best_effort E r (m\<lparr>m_tick := Suc (m_tick m)\<rparr>) = (Inr (), m') \<and> same_runs m m'" for r
    using persist_best_effort_alone [OF assms, of r "m\<lparr>m_tick := Suc (m_tick m)\<rparr>"] by simp
  then show ?thesis
    by (simp add: persist_snapshot_best_effort_def sbind_def sect_def read_store_def release_alone [OF assms] sreturn_def split: option.split)
qed

text \<open>Sessions close, or are gone already.\<close>

definition closing :: "run_env \<Rightarrow> bool" where
  "closing E \<longleftrightarrow> (\<exists>ar. e_await E = Some ar \<and> (\<forall>n sid reason. close_answer (ar_close ar n sid reason) = Inr ()))"

lemma close_descendant_alone:
  assumes "alone E" "closing E"
  shows "\<exists>m'. close_descendant E ra reason m = (Inr (), m') \<and> same_runs m m'"
proof -
  obtain ar where "e_await E = Some ar" "\<forall>n sid reason. close_answer (ar_close ar n sid reason) = Inr ()"
    using assms(2) by (auto simp: closing_def)
  then show ?thesis
    by (cases ra) (auto simp: close_descendant_def sreturn_def sbind_def sect_def notify_block_def release_alone [OF assms(1)] same_runs_def)
qed

text \<open>The live runs among \<open>ids\<close> are cancelled, the other rows stay.\<close>

definition swept :: "rstr \<Rightarrow> rstr set \<Rightarrow> run_store \<Rightarrow> run_store \<Rightarrow> bool" where
  "swept reason ids st st' \<longleftrightarrow> (\<forall>i. case store_get st i of
       None \<Rightarrow> store_get st' i = None
     | Some r \<Rightarrow> if i \<in> ids \<and> is_live_status (rn_status r) then \<exists>t. store_get st' i = Some (cancelled_row reason t r)
                  else store_get st' i = Some r)"

lemma swept_empty [simp]: "swept reason {} st st"
  by (simp add: swept_def split: option.split)

lemma swept_trans:
  assumes "swept reason A st st1" "swept reason B st1 st2"
  shows "swept reason (A \<union> B) st st2"
  unfolding swept_def
proof
  fix i
  have 1: "case store_get st i of None \<Rightarrow> store_get st1 i = None
     | Some r \<Rightarrow> if i \<in> A \<and> is_live_status (rn_status r) then \<exists>t. store_get st1 i = Some (cancelled_row reason t r)
                  else store_get st1 i = Some r" using assms(1) unfolding swept_def by blast
  have 2: "case store_get st1 i of None \<Rightarrow> store_get st2 i = None
     | Some r \<Rightarrow> if i \<in> B \<and> is_live_status (rn_status r) then \<exists>t. store_get st2 i = Some (cancelled_row reason t r)
                  else store_get st2 i = Some r" using assms(2) unfolding swept_def by blast
  show "case store_get st i of None \<Rightarrow> store_get st2 i = None
     | Some r \<Rightarrow> if i \<in> A \<union> B \<and> is_live_status (rn_status r) then \<exists>t. store_get st2 i = Some (cancelled_row reason t r)
                  else store_get st2 i = Some r"
    using 1 2 by (auto split: option.splits if_splits)
qed

lemma cancel_descendant_alone:
  assumes "alone E" "closing E"
  shows "\<exists>m'. cancel_descendant_run E i reason m = (Inr (), m') \<and> swept reason {i} (m_store m) (m_store m')
    \<and> m_scoped m' = m_scoped m \<and> m_terminated m' = m_terminated m"
proof -
  let ?m = "m\<lparr>m_tick := Suc (m_tick m)\<rparr>"
  show ?thesis
  proof (cases "\<exists>r. store_get (m_store m) i = Some r \<and> is_live_status (rn_status r)")
    case False
    then show ?thesis
      by (auto simp: cancel_descendant_run_def sbind_def sect_def read_store_def descendant_snapshot_def release_alone [OF assms(1)]
          sreturn_def swept_def split: option.splits)
  next
    case True
    then obtain r where r: "store_get (m_store m) i = Some r" "is_live_status (rn_status r)" by blast
    obtain m1 where m1: "close_descendant E (rn_root_await r) reason ?m = (Inr (), m1)" "same_runs ?m m1"
      using close_descendant_alone [OF assms] by blast
    let ?m2 = "finish_run i (cancelled_row reason (now E (release E m1)) r) (release E m1)"
    obtain m3 where m3: "persist_snapshot_best_effort E i ?m2 = (Inr (), m3)" "same_runs ?m2 m3"
      using persist_snapshot_alone [OF assms(1)] by blast
    obtain m4 where m4: "emit E (cancelled_event_of r reason) m3 = (Inr (), m4)" "same_runs m3 m4"
      using emit_alone [OF assms(1)] by blast
    have "cancel_descendant_run E i reason m = (Inr (), m4)"
      using r m1 m3(1) m4(1)
      by (simp add: cancel_descendant_run_def sbind_def sect_def read_store_def descendant_snapshot_def release_alone [OF assms(1)]
          settle_descendant_block_def same_runs_def)
    moreover have "swept reason {i} (m_store m) (m_store m4)"
      using r m1(2) m3(2) m4(2) by (auto simp: swept_def same_runs_def finish_run_def release_alone [OF assms(1)] split: option.split)
    ultimately show ?thesis
      using m1(2) m3(2) m4(2) by (simp add: same_runs_def finish_run_def release_alone [OF assms(1)])
  qed
qed

lemma cancel_descendants_alone:
  assumes "alone E" "closing E"
  shows "\<exists>m'. cancel_descendants E reason ids err m = (err, m') \<and> swept reason (set ids) (m_store m) (m_store m')
    \<and> m_scoped m' = m_scoped m \<and> m_terminated m' = m_terminated m"
proof (induction ids arbitrary: m)
  case (Cons i ids)
  obtain m1 where m1: "cancel_descendant_run E i reason m = (Inr (), m1)" "swept reason {i} (m_store m) (m_store m1)"
    "m_scoped m1 = m_scoped m" "m_terminated m1 = m_terminated m"
    using cancel_descendant_alone [OF assms] by blast
  obtain m' where "cancel_descendants E reason ids err m1 = (err, m')" "swept reason (set ids) (m_store m1) (m_store m')"
    "m_scoped m' = m_scoped m1" "m_terminated m' = m_terminated m1"
    using Cons.IH [of m1] by blast
  then show ?case using m1 swept_trans [OF m1(2), of "set ids" "m_store m'"] by simp
qed simp

lemma iter_mem: "store_wf st \<Longrightarrow> r \<in> set (store_iter st) \<longleftrightarrow> (\<exists>i. store_get st i = Some r)"
  using store_wfD(1) [of st] by (force simp: store_iter_def store_get_def map_of_eq_Some_iff)

lemma live_ids_mem:
  assumes "store_wf st"
  shows "i \<in> set (live_run_ids_for_agents_in_store st agents) \<longleftrightarrow>
    (\<exists>r. store_get st i = Some r \<and> is_live_status (rn_status r) \<and> rn_controller_agent r \<in> set agents)"
  using store_wfD(2) [OF assms]
  by (auto simp: live_run_ids_for_agents_in_store_def live_run_ids_for_agent_in_store_def iter_mem [OF assms] image_iff)

lemma swept_none_live:
  assumes "store_wf st" "store_wf st'" "swept reason (set (live_run_ids_for_agents_in_store st agents)) st st'"
  shows "live_run_ids_for_agents_in_store st' agents = []"
proof -
  have "i \<notin> set (live_run_ids_for_agents_in_store st' agents)" for i
  proof
    assume "i \<in> set (live_run_ids_for_agents_in_store st' agents)"
    then obtain r' where r': "store_get st' i = Some r'" "is_live_status (rn_status r')" "rn_controller_agent r' \<in> set agents"
      using live_ids_mem [OF assms(2)] by blast
    have "case store_get st i of None \<Rightarrow> store_get st' i = None
      | Some r \<Rightarrow> if i \<in> set (live_run_ids_for_agents_in_store st agents) \<and> is_live_status (rn_status r)
          then \<exists>t. store_get st' i = Some (cancelled_row reason t r) else store_get st' i = Some r"
      using assms(3) unfolding swept_def by blast
    then show False using r' live_ids_mem [OF assms(1), of i agents] by (auto split: option.splits if_splits)
  qed
  then show ?thesis by (metis list.set_intros(1) neq_Nil_conv)
qed

text \<open>Blocks are counted per agent; releasing a block takes back what it added.\<close>

lemma add_agents_known: "set as \<subseteq> set bs \<Longrightarrow> add_agents_block as bs m = (bs, m)"
  by (induction as) auto

lemma add_agents_fresh:
  "distinct (bs @ as) \<Longrightarrow> fst (add_agents_block as bs m) = bs @ as
     \<and> unwrap_or (map_of (m_scoped (snd (add_agents_block as bs m))) a) 0 = unwrap_or (map_of (m_scoped m) a) 0 + (if a \<in> set as then 1 else 0)
     \<and> m_store (snd (add_agents_block as bs m)) = m_store m \<and> m_terminated (snd (add_agents_block as bs m)) = m_terminated m"
  by (induction as arbitrary: bs m) auto

lemma drop_agents_counts:
  "distinct as \<Longrightarrow> unwrap_or (map_of (m_scoped (drop_agents_block as m)) a) 0 = unwrap_or (map_of (m_scoped m) a) 0 - (if a \<in> set as then 1 else 0)
     \<and> m_store (drop_agents_block as m) = m_store m \<and> m_terminated (drop_agents_block as m) = m_terminated m"
  by (induction as arbitrary: m) (auto split: option.split)

lemma descendant_agents_alone:
  assumes "alone E" "e_tree E = Some (\<lambda>_. snap)" "store_get (m_store m) top_id = Some r"
  shows "\<exists>m'. descendant_agents_for_run E top_id m = (post_order_descendant_agents snap (rn_controller_agent r), m') \<and> same_runs m m'"
  using assms(2,3)
  by (simp add: descendant_agents_for_run_def sbind_def sect_def on_run_def sreturn_def release_alone [OF assms(1)] same_runs_def)

lemma live_run_ids_alone:
  "alone E \<Longrightarrow> \<exists>m'. live_run_ids_for_agents E agents m = (Inr (live_run_ids_for_agents_in_store (m_store m) agents), m') \<and> same_runs m m'"
  by (simp add: live_run_ids_for_agents_def sect_def read_store_def release_alone same_runs_def)

lemma add_agents_alone:
  "alone E \<Longrightarrow> set as \<subseteq> set bs \<Longrightarrow> \<exists>m'. add_agents E as bs m = (bs, m') \<and> same_runs m m'"
  by (simp add: add_agents_def sect_def add_agents_known release_alone same_runs_def)

text \<open>A scan that finds no live run ends the cascade.\<close>

lemma last_scan:
  assumes "alone E" "e_tree E = Some (\<lambda>_. snap)" "store_get (m_store m) top_id = Some r"
    "post_order_descendant_agents snap (rn_controller_agent r) = Inr agents" "set agents \<subseteq> set blocked"
    "live_run_ids_for_agents_in_store (m_store m) agents = []"
  shows "\<exists>m'. cascade_scan E top_id reason (Suc n) blocked err m = ((Inr (), blocked), m') \<and> same_runs m m'"
proof -
  obtain m1 where m1: "descendant_agents_for_run E top_id m = (Inr agents, m1)" "same_runs m m1"
    using descendant_agents_alone [OF assms(1-3)] assms(4) by auto
  obtain m2 where m2: "add_agents E agents blocked m1 = (blocked, m2)" "same_runs m1 m2"
    using add_agents_alone [OF assms(1,5)] by blast
  obtain m3 where m3: "live_run_ids_for_agents E agents m2 = (Inr (live_run_ids_for_agents_in_store (m_store m2) agents), m3)" "same_runs m2 m3"
    using live_run_ids_alone [OF assms(1)] by blast
  have "live_run_ids_for_agents_in_store (m_store m2) agents = []" using assms(6) m1(2) m2(2) by (simp add: same_runs_def)
  then show ?thesis using m1 m2 m3 by (auto simp: same_runs_def)
qed

lemma scan_alone:
  assumes "alone E" "closing E" "sound_env E" "store_wf (m_store m)" "e_tree E = Some (\<lambda>_. snap)"
    "store_get (m_store m) top_id = Some r" "post_order_descendant_agents snap (rn_controller_agent r) = Inr agents" "distinct agents"
  shows "\<exists>m'. cascade_scan E top_id reason (Suc (Suc n)) [] err m = ((Inr (), agents), m')
    \<and> swept reason (set (live_run_ids_for_agents_in_store (m_store m) agents)) (m_store m) (m_store m')
    \<and> (\<forall>a. unwrap_or (map_of (m_scoped m') a) 0 = unwrap_or (map_of (m_scoped m) a) 0 + (if a \<in> set agents then 1 else 0))
    \<and> m_terminated m' = m_terminated m"
proof -
  let ?ids = "live_run_ids_for_agents_in_store (m_store m) agents"
  obtain m1 where m1: "descendant_agents_for_run E top_id m = (Inr agents, m1)" "same_runs m m1"
    using descendant_agents_alone [OF assms(1,5,6)] assms(7) by auto
  obtain m2 where m2: "add_agents E agents [] m1 = (agents, m2)" "m_store m2 = m_store m" "m_terminated m2 = m_terminated m"
    "\<forall>a. unwrap_or (map_of (m_scoped m2) a) 0 = unwrap_or (map_of (m_scoped m) a) 0 + (if a \<in> set agents then 1 else 0)"
  proof
    show "add_agents E agents [] m1 = (agents, snd (add_agents E agents [] m1))"
      using add_agents_fresh [of "[]" agents "release E m1"] assms(8) by (simp add: add_agents_def sect_def prod_eq_iff)
  qed (use add_agents_fresh [of "[]" agents "release E m1"] assms(8) m1(2) in
      \<open>auto simp: add_agents_def sect_def release_alone [OF assms(1)] same_runs_def\<close>)
  obtain m3 where m3: "live_run_ids_for_agents E agents m2 = (Inr ?ids, m3)" "same_runs m2 m3"
    using live_run_ids_alone [OF assms(1), of agents m2] m2(2) by auto
  show ?thesis
  proof (cases "?ids = []")
    case True
    then show ?thesis using m1 m2 m3 by (auto simp: same_runs_def)
  next
    case False
    obtain m4 where m4: "cancel_descendants E reason ?ids None m3 = (None, m4)" "swept reason (set ?ids) (m_store m3) (m_store m4)"
      "m_scoped m4 = m_scoped m3" "m_terminated m4 = m_terminated m3"
      using cancel_descendants_alone [OF assms(1,2)] by blast
    have sw: "swept reason (set ?ids) (m_store m) (m_store m4)" using m4(2) m2(2) m3(2) by (simp add: same_runs_def)
    have "store_steps E m3 m4"
      using stepwiseD [OF stepwise_cancel_descendants [OF alone_interleaved [OF assms(1)]] m4(1)] .
    then have "store_wf (m_store m4)" using li.kept [of E m3 m4] assms(3,4) m2(2) m3(2) by (simp add: same_runs_def)
    then have none: "live_run_ids_for_agents_in_store (m_store m4) agents = []"
      by (rule swept_none_live [OF assms(4) _ sw])
    have "case store_get (m_store m) top_id of None \<Rightarrow> store_get (m_store m4) top_id = None
      | Some r \<Rightarrow> if top_id \<in> set ?ids \<and> is_live_status (rn_status r)
          then \<exists>t. store_get (m_store m4) top_id = Some (cancelled_row reason t r) else store_get (m_store m4) top_id = Some r"
      using sw unfolding swept_def by blast
    then obtain r' where r': "store_get (m_store m4) top_id = Some r'" "rn_controller_agent r' = rn_controller_agent r"
      using assms(6) by (auto simp: cancelled_row_def split: if_splits)
    obtain m5 where "cascade_scan E top_id reason (Suc n) agents None m4 = ((Inr (), agents), m5)" "same_runs m4 m5"
      using last_scan [OF assms(1,5) r'(1) _ order_refl none] assms(7) r'(2) by auto
    then show ?thesis using m1 m2 m3 m4 sw False by (auto simp: same_runs_def)
  qed
qed

lemma cascade_alone:
  assumes "alone E" "closing E" "sound_env E" "store_wf (m_store m)" "e_tree E = Some (\<lambda>_. snap)"
    "store_get (m_store m) top_id = Some r" "\<not> cyclic_below snap (rn_controller_agent r)"
    "{a. (child snap)\<^sup>+\<^sup>+ (rn_controller_agent r) a} \<subseteq> set (ts_nodes snap)"
  shows "\<exists>m'. cascade_descendants_for_run E top_id reason m = (Inr (), m')
    \<and> (\<forall>i q. store_get (m_store m) i = Some q \<longrightarrow>
         (if is_live_status (rn_status q) \<and> (child snap)\<^sup>+\<^sup>+ (rn_controller_agent r) (rn_controller_agent q)
          then \<exists>t. store_get (m_store m') i = Some (cancelled_row reason t q)
          else store_get (m_store m') i = Some q))
    \<and> (\<forall>i. store_get (m_store m) i = None \<longrightarrow> store_get (m_store m') i = None)
    \<and> (\<forall>a. creation_blocked m' a = creation_blocked m a)"
proof -
  obtain agents where a: "post_order_descendant_agents snap (rn_controller_agent r) = Inr agents" "distinct agents"
    "set agents = {a. (child snap)\<^sup>+\<^sup>+ (rn_controller_agent r) a}"
    using post_order_total [OF assms(8)] assms(7) by blast
  let ?ids = "live_run_ids_for_agents_in_store (m_store m) agents"
  have limit: "Suc DESCENDANT_CASCADE_SCAN_LIMIT = Suc (Suc 1)" by (simp add: DESCENDANT_CASCADE_SCAN_LIMIT_def)
  obtain m1 where m1: "cascade_scan E top_id reason (Suc DESCENDANT_CASCADE_SCAN_LIMIT) [] None m = ((Inr (), agents), m1)"
    "swept reason (set ?ids) (m_store m) (m_store m1)"
    "\<forall>a. unwrap_or (map_of (m_scoped m1) a) 0 = unwrap_or (map_of (m_scoped m) a) 0 + (if a \<in> set agents then 1 else 0)"
    "m_terminated m1 = m_terminated m"
    using scan_alone [OF assms(1-6) a(1,2), of reason 1 None] unfolding limit by blast
  let ?m' = "drop_creation_block E agents m1"
  have drop: "m_store ?m' = m_store m1" "m_terminated ?m' = m_terminated m1"
    "unwrap_or (map_of (m_scoped ?m') b) 0 = unwrap_or (map_of (m_scoped m) b) 0" for b
    using drop_agents_counts [OF a(2)] m1(3) by (auto simp: drop_creation_block_def sect_def release_alone [OF assms(1)])
  have row: "case store_get (m_store m) i of None \<Rightarrow> store_get (m_store m1) i = None
      | Some q \<Rightarrow> if i \<in> set ?ids \<and> is_live_status (rn_status q)
          then \<exists>t. store_get (m_store m1) i = Some (cancelled_row reason t q) else store_get (m_store m1) i = Some q" for i
    using m1(2) unfolding swept_def by blast
  have "if is_live_status (rn_status q) \<and> (child snap)\<^sup>+\<^sup>+ (rn_controller_agent r) (rn_controller_agent q)
      then \<exists>t. store_get (m_store ?m') i = Some (cancelled_row reason t q) else store_get (m_store ?m') i = Some q"
    if "store_get (m_store m) i = Some q" for i q
    using row [of i] that live_ids_mem [OF assms(4), of i agents] a(3) drop(1) by (auto split: if_splits)
  moreover have "store_get (m_store ?m') i = None" if "store_get (m_store m) i = None" for i
    using row [of i] that drop(1) by simp
  moreover have "creation_blocked ?m' b = creation_blocked m b" for b
    using drop(2,3) m1(4) by (simp add: creation_blocked_def)
  moreover have "cascade_descendants_for_run E top_id reason m = (Inr (), ?m')"
    unfolding cascade_descendants_for_run_def m1(1) by simp
  ultimately show ?thesis by blast
qed

text \<open>C18: When nothing interferes, the tree stays as it is and sessions close, the cascade of a run succeeds. It cancels every live run
  whose controller is strictly below the controller of the run, changes no other row, and afterwards blocks the creation
  of runs for the same agents as before.\<close>

theorem cascade_cancels_descendants:
  assumes "alone E" "closing E" "sound_env E" "store_wf (m_store m)" "e_tree E = Some (\<lambda>_. snap)"
    "store_get (m_store m) top_id = Some r" "\<not> cyclic_below snap (rn_controller_agent r)"
    "{a. (child snap)\<^sup>+\<^sup>+ (rn_controller_agent r) a} \<subseteq> set (ts_nodes snap)"
  shows "\<exists>m'. cascade_descendants_for_run E top_id reason m = (Inr (), m')
    \<and> (\<forall>i q. store_get (m_store m) i = Some q \<longrightarrow>
         (if is_live_status (rn_status q) \<and> (child snap)\<^sup>+\<^sup>+ (rn_controller_agent r) (rn_controller_agent q)
          then \<exists>t. store_get (m_store m') i = Some (cancelled_row reason t q)
          else store_get (m_store m') i = Some q))
    \<and> (\<forall>i. store_get (m_store m) i = None \<longrightarrow> store_get (m_store m') i = None)
    \<and> (\<forall>a. creation_blocked m' a = creation_blocked m a)"
  by (rule cascade_alone [OF assms])

text \<open>A run of the worker and one of an agent below it.\<close>

definition family_env :: run_env where
  "family_env = quiet_env\<lparr>e_tree := Some (\<lambda>_. small_tree),
     e_await := Some \<lparr>ar_exists = \<lambda>_ _. True, ar_walk_tree = \<lambda>_ _. None, ar_close = \<lambda>_ _ _. None\<rparr>\<rparr>"

definition child_row :: run where
  "child_row = new_run (lit ''1'') (lit ''sub'') (lit ''b'') (plain_config None) 3"

definition family_state :: run_manager where
  "family_state = job_state\<lparr>m_store := store_insert child_row (m_store job_state)\<rparr>"

lemma child_row_simps:
  "rn_id child_row = lit ''run-1''" "rn_task_id child_row = lit ''sub''" "rn_controller_agent child_row = lit ''b''"
  "is_live_status (rn_status child_row)" "rn_id child_row \<noteq> job_id" "rn_task_id child_row \<noteq> job"
  by (simp_all add: child_row_def new_run_def job_id_def job_def lit_def)

lemma family_wf: "store_wf (m_store family_state)"
proof -
  have "store_wf (m_store job_state)"
    using li.reached [OF quiet_env_ok(2) job_state_run] quiet_env_ok(3) by (simp add: run_manager_new_def)
  then show ?thesis using child_row_simps
    by (auto simp: family_state_def store_get_def find_live_by_task_def job_state_store intro!: store_wf_insert)
qed

lemma family_get:
  "store_get (m_store family_state) job_id = Some job_row" "store_get (m_store family_state) (rn_id child_row) = Some child_row"
  using child_row_simps(5) by (simp_all add: family_state_def job_state_get)

lemma family_below:
  "(child small_tree)\<^sup>+\<^sup>+ worker (rn_controller_agent child_row)" "\<not> (child small_tree)\<^sup>+\<^sup>+ worker worker" "\<not> cyclic_below small_tree worker"
  using post_order_succeeds [OF small_tree_walk] by (auto simp: cyclic_below_def child_row_simps)

lemma family_env_ok: "alone family_env" "closing family_env" "sound_env family_env" "e_tree family_env = Some (\<lambda>_. small_tree)"
  using quiet_env_ok(1,3) by (simp_all add: family_env_def alone_def closing_def sound_env_def writes_ok_def uuid_fresh_def)

theorem cascade_cancels_descendants_witness:
  "\<exists>m' t. cascade_descendants_for_run family_env job_id [] family_state = (Inr (), m')
     \<and> store_get (m_store m') (rn_id child_row) = Some (cancelled_row [] t child_row) \<and> store_get (m_store m') job_id = Some job_row"
proof -
  have "{a. (child small_tree)\<^sup>+\<^sup>+ (rn_controller_agent job_row) a} \<subseteq> set (ts_nodes small_tree)" using small_tree_nodes by blast
  from cascade_cancels_descendants [OF family_env_ok(1-3) family_wf family_env_ok(4) family_get(1) _ this, of "[]"] family_below(3)
  obtain m' where m': "cascade_descendants_for_run family_env job_id [] family_state = (Inr (), m')"
    and rows: "\<forall>i q. store_get (m_store family_state) i = Some q \<longrightarrow>
         (if is_live_status (rn_status q) \<and> (child small_tree)\<^sup>+\<^sup>+ worker (rn_controller_agent q)
          then \<exists>t. store_get (m_store m') i = Some (cancelled_row [] t q) else store_get (m_store m') i = Some q)"
    by auto
  then show ?thesis
    using rows [rule_format, OF family_get(1)] rows [rule_format, OF family_get(2)] family_below child_row_simps by auto
qed

end
