(* ===== verification/RunRounds.thy ===== *)
theory RunRounds
  imports RunCascade
begin

text \<open>
  Rounds: how completing one settles a pending cancellation or pause.
\<close>

definition settled_row :: "instant \<Rightarrow> run \<Rightarrow> run" where
  "settled_row t r =
     (case (rn_cancel_pending r, rn_pause_pending r) of
        (Some c, _) \<Rightarrow> settled_cancel (truncate_reason c) (advance_row t r)
      | (None, Some _) \<Rightarrow> settled_pause (advance_row t r)
      | (None, None) \<Rightarrow> advance_row t r)"

definition round_answer :: "run \<Rightarrow> round_decision" where
  "round_answer r =
     (if rn_cancel_pending r \<noteq> None then Blocked ''cancel-pending''
      else case b_rounds_limit (rn_budget r) of
        Some limit \<Rightarrow> if limit < sat_add (b_rounds_used (rn_budget r)) 1 then Blocked ''rounds-exceeded'' else ContinueAllowed
      | None \<Rightarrow> ContinueAllowed)"

definition pending_reason :: "run \<Rightarrow> rstr option" where
  "pending_reason r =
     (case rn_cancel_pending r of Some c \<Rightarrow> Some (truncate_reason c) | None \<Rightarrow> map_option truncate_reason (rn_pause_pending r))"

lemma advance_simps [simp]:
  "rn_id (advance_row t r) = rn_id r" "rn_task_id (advance_row t r) = rn_task_id r"
  "rn_controller_agent (advance_row t r) = rn_controller_agent r"
  by (simp_all add: advance_row_def Let_def)

lemma settled_simps [simp]:
  "rn_task_id (settled_row t r) = rn_task_id r" "rn_controller_agent (settled_row t r) = rn_controller_agent r"
  by (simp_all add: settled_row_def settled_cancel_def settled_pause_def split: option.split)

lemma round_mutation_eq:
  "\<exists>fx m'. round_mutation E i tr ps r m = (Inr fx, m') \<and> fx_outcome fx = round_answer r \<and> fx_cascade_reason fx = pending_reason r
     \<and> (\<forall>j. store_get (m_store m') j = (if j = i then Some (settled_row (now E m) r) else store_get (m_store m) j))"
  by (simp add: round_mutation_def Let_def settled_row_def pending_reason_def round_answer_def over_limit_decision_def rounds_blocked_def
      finish_run_def put_run_def split: option.split) (auto simp: advance_row_def Let_def)

text \<open>An environment that leaves the manager alone, with a tree that stays as it is and has no cycle below the agent.\<close>

definition steady :: "run_env \<Rightarrow> tree_snapshot \<Rightarrow> rstr \<Rightarrow> bool" where
  "steady E snap agent \<longleftrightarrow> alone E \<and> closing E \<and> sound_env E \<and> e_tree E = Some (\<lambda>_. snap) \<and> \<not> cyclic_below snap agent
     \<and> {a. (child snap)\<^sup>+\<^sup>+ agent a} \<subseteq> set (ts_nodes snap)"

lemma steady_walk: "steady E snap agent \<Longrightarrow> \<exists>out. post_order_descendant_agents snap agent = Inr out"
  using post_order_total [of snap agent] by (auto simp: steady_def)

lemma round_block_alone:
  assumes "steady E snap (rn_controller_agent r)" "store_get (m_store m) i = Some r" "rn_status r = Active"
  shows "\<exists>fx m' t. sect E (round_block E i tr ps) m = (Inr fx, m') \<and> fx_outcome fx = round_answer r \<and> fx_cascade_reason fx = pending_reason r
     \<and> (\<forall>j. store_get (m_store m') j = (if j = i then Some (settled_row t r) else store_get (m_store m) j))"
proof -
  have a: "alone E" "e_tree E = Some (\<lambda>_. snap)" using assms(1) by (simp_all add: steady_def)
  obtain out where out: "post_order_descendant_agents snap (rn_controller_agent r) = Inr out" using steady_walk [OF assms(1)] by blast
  have "sect E (round_block E i tr ps) m = round_mutation E i tr ps r (release E m)"
    using assms(2,3) a(2) out
    by (simp add: sect_def round_block_def on_run_def release_alone [OF a(1)] sbind_def preflight_for_agent_in_store_def sreturn_def)
  then show ?thesis using round_mutation_eq [of E i tr ps r "release E m"] by (auto simp: release_alone [OF a(1)])
qed

lemma preflight_alone:
  assumes "steady E snap (rn_controller_agent r)" "store_get (m_store m) i = Some r"
  shows "\<exists>m'. preflight_for_run E i m = (Inr (), m') \<and> same_runs m m'"
proof -
  have a: "alone E" "e_tree E = Some (\<lambda>_. snap)" using assms(1) by (simp_all add: steady_def)
  obtain out where "post_order_descendant_agents snap (rn_controller_agent r) = Inr out" using steady_walk [OF assms(1)] by blast
  then show ?thesis using descendant_agents_alone [OF a assms(2)] by (auto simp: preflight_for_run_def sbind_def sreturn_def)
qed

lemma emit_opt_alone: "alone E \<Longrightarrow> \<exists>m'. emit_opt E ev m = (Inr (), m') \<and> same_runs m m'"
  using emit_alone by (auto simp: emit_opt_def sreturn_def split: option.split)

text \<open>The rows after a round: the run's own, and those of the agents below when a request was pending.\<close>

definition round_rows :: "tree_snapshot \<Rightarrow> rstr \<Rightarrow> run \<Rightarrow> run_store \<Rightarrow> run_store \<Rightarrow> bool" where
  "round_rows snap i r st st' \<longleftrightarrow>
     (\<exists>t. store_get st' i = Some (settled_row t r))
     \<and> (\<forall>j q. j \<noteq> i \<longrightarrow> store_get st j = Some q \<longrightarrow>
          (case pending_reason r of
             Some reason \<Rightarrow>
               if is_live_status (rn_status q) \<and> (child snap)\<^sup>+\<^sup>+ (rn_controller_agent r) (rn_controller_agent q)
               then \<exists>t. store_get st' j = Some (cancelled_row reason t q) else store_get st' j = Some q
           | None \<Rightarrow> store_get st' j = Some q))"

lemma normal_round_alone:
  assumes "steady E snap (rn_controller_agent r)" "store_wf (m_store m)" "store_get (m_store m) i = Some r" "rn_status r = Active"
  shows "\<exists>m'. normal_round E i tr ps m = (Inr (round_answer r), m') \<and> round_rows snap i r (m_store m) (m_store m')"
proof -
  have a: "alone E" "closing E" "sound_env E" "e_tree E = Some (\<lambda>_. snap)" "\<not> cyclic_below snap (rn_controller_agent r)"
    "{a. (child snap)\<^sup>+\<^sup>+ (rn_controller_agent r) a} \<subseteq> set (ts_nodes snap)" using assms(1) by (simp_all add: steady_def)
  obtain fx m1 t where m1: "sect E (round_block E i tr ps) m = (Inr fx, m1)" "fx_outcome fx = round_answer r"
    "fx_cascade_reason fx = pending_reason r"
    and rows: "\<And>j. store_get (m_store m1) j = (if j = i then Some (settled_row t r) else store_get (m_store m) j)"
    using round_block_alone [OF assms(1,3,4)] by blast
  obtain m2 where m2: "persist_snapshot_best_effort E i m1 = (Inr (), m2)" "same_runs m1 m2" using persist_snapshot_alone [OF a(1)] by blast
  obtain m3 where m3: "emit E (fx_round_event fx) m2 = (Inr (), m3)" "same_runs m2 m3" using emit_alone [OF a(1)] by blast
  obtain m4 where m4: "emit_opt E (fx_settle_event fx) m3 = (Inr (), m4)" "same_runs m3 m4" using emit_opt_alone [OF a(1)] by blast
  have st: "m_store m4 = m_store m1" using m2(2) m3(2) m4(2) by (simp add: same_runs_def)
  have "store_steps E m m1"
    by (rule stepwiseD [OF stepwise_sect [OF alone_interleaved [OF a(1)] stepwise_round_block] m1(1)])
  then have wf: "store_wf (m_store m4)" using li.kept [of E m m1] a(3) assms(2) st by simp
  show ?thesis
  proof (cases "pending_reason r")
    case None
    then show ?thesis using m1 m2(1) m3(1) m4(1) rows st
      by (auto simp: normal_round_def sbind_def sreturn_def round_rows_def)
  next
    case (Some reason)
    have top: "store_get (m_store m4) i = Some (settled_row t r)" using rows st by simp
    obtain m5 where m5: "cascade_descendants_for_run E i reason m4 = (Inr (), m5)"
      and c: "\<forall>j q. store_get (m_store m4) j = Some q \<longrightarrow>
         (if is_live_status (rn_status q) \<and> (child snap)\<^sup>+\<^sup>+ (rn_controller_agent r) (rn_controller_agent q)
          then \<exists>t. store_get (m_store m5) j = Some (cancelled_row reason t q) else store_get (m_store m5) j = Some q)"
      using cascade_alone [OF a(1-3) wf a(4) top, of reason] a(5,6) by auto
    have "\<not> (child snap)\<^sup>+\<^sup>+ (rn_controller_agent r) (rn_controller_agent r)" using a(5) by (auto simp: cyclic_below_def)
    then have "store_get (m_store m5) i = Some (settled_row t r)" using c [rule_format, OF top] by (simp split: if_splits)
    moreover have "if is_live_status (rn_status q) \<and> (child snap)\<^sup>+\<^sup>+ (rn_controller_agent r) (rn_controller_agent q)
          then \<exists>t. store_get (m_store m5) j = Some (cancelled_row reason t q) else store_get (m_store m5) j = Some q"
      if "j \<noteq> i" "store_get (m_store m) j = Some q" for j q
      using c [rule_format, of j q] that rows st by simp
    ultimately have "round_rows snap i r (m_store m) (m_store m5)" using Some by (auto simp: round_rows_def)
    then show ?thesis using m1 m2(1) m3(1) m4(1) m5 Some by (auto simp: normal_round_def sbind_def sreturn_def)
  qed
qed

text \<open>C21: When nothing interferes, the await manager closes the sessions it is asked to close and the wired agent tree has no cycle
  (\<open>steady\<close>), completing a round of an active run of an ordinary task succeeds. It advances the round counter and
  settles what is pending: a cancellation ends the run, a pause pauses it, and either cancels the live runs of all agents below. The answer
  tells whether the run may go on. No other row changes. A round of an autonomous task is another matter: it leaves what is pending,
  as the lemma on such rounds below shows.\<close>

theorem round_settles_pending:
  assumes "steady E snap (rn_controller_agent r)" "store_wf (m_store m)" "store_get (m_store m) i = Some r" "rn_status r = Active"
    "\<not> is_auto_mode (rn_task_id r)"
  shows "\<exists>m'. complete_round E i res m = (Inr (round_answer r), m') \<and> round_rows snap i r (m_store m) (m_store m')"
proof -
  have a: "alone E" using assms(1) by (simp add: steady_def)
  let ?m = "release E m"
  have m: "m_store ?m = m_store m" by (simp add: release_alone [OF a])
  have "\<exists>m1. (if rn_pause_pending r \<noteq> None \<or> rn_cancel_pending r \<noteq> None then preflight_for_run E i else sreturn ()) ?m = (Inr (), m1)
      \<and> m_store m1 = m_store m"
    using preflight_alone [OF assms(1), of ?m i] assms(3) m by (simp add: sreturn_def same_runs_def) blast
  then obtain m1 where m1: "(if rn_pause_pending r \<noteq> None \<or> rn_cancel_pending r \<noteq> None then preflight_for_run E i else sreturn ()) ?m = (Inr (), m1)"
    "m_store m1 = m_store m" by blast
  obtain m' where "normal_round E i None None m1 = (Inr (round_answer r), m')" "round_rows snap i r (m_store m) (m_store m')"
    using normal_round_alone [OF assms(1), of m1 i None None] assms(2-4) m1(2) by auto
  then show ?thesis using assms(3-5) m m1(1)
    by (simp add: complete_round_def complete_round_with_trace_def sbind_def sect_def on_run_def sreturn_def)
qed

definition cancelling_state :: run_manager where
  "cancelling_state = family_state\<lparr>m_store := store_put job_id (job_row\<lparr>rn_cancel_pending := Some (lit ''stop'')\<rparr>) (m_store family_state)\<rparr>"

lemma family_steady: "steady family_env small_tree worker"
  using quiet_env_ok(1,3) post_order_succeeds [OF small_tree_walk] small_tree_nodes
  by (auto simp: steady_def family_env_def alone_def closing_def sound_env_def writes_ok_def uuid_fresh_def)

lemma family_facts:
  "store_wf (m_store family_state)" "store_get (m_store family_state) job_id = Some job_row"
  "store_get (m_store family_state) (rn_id child_row) = Some child_row" "rn_id child_row \<noteq> job_id"
  "is_live_status (rn_status child_row)" "(child small_tree)\<^sup>+\<^sup>+ worker (rn_controller_agent child_row)"
  using family_wf family_get family_below child_row_simps by auto

lemma cancelling_wf: "store_wf (m_store cancelling_state)"
proof -
  have "row_step job_row (job_row\<lparr>rn_pause_pending := None, rn_cancel_pending := Some (lit ''stop''), rn_updated_at := rn_updated_at job_row\<rparr>)"
    by (rule row_step.CancelArm) simp_all
  moreover have "job_row\<lparr>rn_pause_pending := None, rn_cancel_pending := Some (lit ''stop''), rn_updated_at := rn_updated_at job_row\<rparr>
      = job_row\<lparr>rn_cancel_pending := Some (lit ''stop'')\<rparr>" by (simp add: job_row_def new_run_def)
  ultimately show ?thesis using store_wf_put [OF family_facts(1,2), of "job_row\<lparr>rn_cancel_pending := Some (lit ''stop'')\<rparr>"]
    by (simp add: cancelling_state_def)
qed

theorem round_settles_pending_witness:
  "\<exists>m' t. complete_round family_env job_id \<lparr>rr_summary = None, rr_metrics = []\<rparr> cancelling_state = (Inr (Blocked ''cancel-pending''), m')
     \<and> map_option rn_status (store_get (m_store m') job_id) = Some (Cancelled (lit ''stop''))
     \<and> store_get (m_store m') (rn_id child_row) = Some (cancelled_row (lit ''stop'') t child_row)"
proof -
  let ?r = "job_row\<lparr>rn_cancel_pending := Some (lit ''stop'')\<rparr>"
  have stop: "truncate_reason (lit ''stop'') = lit ''stop''"
    by (simp add: truncate_reason_def lit_def is_control_def MAX_REASON_LEN_BYTES_def utf8_len_def)
  have "\<not> is_auto_mode job" by (simp add: is_auto_mode_def job_def lit_def)
  then obtain m' where m': "complete_round family_env job_id \<lparr>rr_summary = None, rr_metrics = []\<rparr> cancelling_state = (Inr (round_answer ?r), m')"
    and rows: "round_rows small_tree job_id ?r (m_store cancelling_state) (m_store m')"
    using round_settles_pending [of family_env small_tree ?r cancelling_state job_id] family_steady cancelling_wf
    by (auto simp: cancelling_state_def)
  have p: "pending_reason ?r = Some (lit ''stop'')" by (simp add: pending_reason_def stop)
  have "store_get (m_store cancelling_state) (rn_id child_row) = Some child_row"
    using family_facts(3,4) by (simp add: cancelling_state_def)
  then obtain t where t: "store_get (m_store m') (rn_id child_row) = Some (cancelled_row (lit ''stop'') t child_row)"
    using rows family_facts(4-6) p unfolding round_rows_def by fastforce
  obtain t' where "store_get (m_store m') job_id = Some (settled_row t' ?r)" using rows by (auto simp: round_rows_def)
  then show ?thesis using m' t by (auto simp: round_answer_def settled_row_def settled_cancel_def stop)
qed

text \<open>Completing a round of an autonomous task never settles a request: the rows stay as they are and the run is told to go on, also
  when its cancellation is pending.\<close>

theorem auto_round_keeps_pending:
  assumes "alone E" "e_advancer E = Some adv" "adv (m_tick m + 2) i res = Inr dec"
    "store_get (m_store m) i = Some r" "rn_status r = Active" "is_auto_mode (rn_task_id r)"
  shows "\<exists>m'. complete_round E i res m = (Inr ContinueAllowed, m') \<and> m_store m' = m_store m"
  using assms(2-)
  by (simp add: complete_round_def complete_round_with_trace_def auto_round_def sbind_def sect_def on_run_def sreturn_def release_alone [OF assms(1)])

text \<open>An autonomous run whose cancellation is pending.\<close>

definition auto_env :: run_env where
  "auto_env = quiet_env\<lparr>e_advancer := Some (\<lambda>_ _ _. Inr ContinueAllowed)\<rparr>"

definition auto_state :: run_manager where
  "auto_state = job_state\<lparr>m_store := store_put job_id
     (job_row\<lparr>rn_task_id := lit ''auto:worker'', rn_cancel_pending := Some (lit ''stop'')\<rparr>) (m_store job_state)\<rparr>"

theorem auto_round_keeps_pending_example:
  "\<exists>m'. complete_round auto_env job_id \<lparr>rr_summary = None, rr_metrics = []\<rparr> auto_state = (Inr ContinueAllowed, m')
     \<and> map_option rn_cancel_pending (store_get (m_store m') job_id) = Some (Some (lit ''stop''))"
proof -
  have a: "alone auto_env" "e_advancer auto_env = Some (\<lambda>_ _ _. Inr ContinueAllowed)" using quiet_env_ok(1) by (simp_all add: auto_env_def alone_def)
  have "is_auto_mode (lit ''auto:worker'')" by (simp add: is_auto_mode_def lit_def)
  then show ?thesis
    using auto_round_keeps_pending [OF a refl, where m = auto_state and i = job_id and res = "\<lparr>rr_summary = None, rr_metrics = []\<rparr>"
        and r = "job_row\<lparr>rn_task_id := lit ''auto:worker'', rn_cancel_pending := Some (lit ''stop'')\<rparr>"]
    by (auto simp: auto_state_def)
qed

end
