(* ===== verification/RunGrants.thy ===== *)
theory RunGrants
  imports RunSafety ResolverProps
begin

text \<open>
  The grant chain on top of the run manager: the budget that the production chain asks is \<open>InMemoryRunBudget\<close>, asked for
  no tokens and no cost on behalf of the run of the request.
\<close>

definition run_budget_of :: "run_env \<Rightarrow> run_manager \<Rightarrow> rstr \<Rightarrow> rstr option" where
  "run_budget_of E m run_id =
     (case fst (check_budget E run_id 0 (Fin 0) m) of Allow \<Rightarrow> None | budget_decision.Deny reason \<Rightarrow> Some (lit reason))"

lemma f64_add_zero: "f64_ok x \<Longrightarrow> is_finite x \<Longrightarrow> f64_add x (Fin 0) = x"
  by (cases x) (auto simp: f64_round_def Let_def representable_def round_nat_exact)

lemma reserve_nothing: "amounts_ok b \<Longrightarrow> reserve 0 (Fin 0) b = b"
  by (simp add: reserve_def amounts_ok_def f64_add_zero sat_add_def)

text \<open>Asking for nothing changes no row.\<close>

lemma probe_keeps_rows:
  assumes "\<forall>r. store_get (m_store (release E m)) i = Some r \<longrightarrow> amounts_ok (rn_budget r)"
  shows "store_get (m_store (snd (check_budget E i 0 (Fin 0) m))) j =
    store_get (m_store (if valid (validate_run_id i) then release E m else m)) j"
proof (cases "store_get (m_store (release E m)) i")
  case (Some r)
  then have "reserve 0 (Fin 0) (rn_budget r) = rn_budget r" using assms reserve_nothing by auto
  then show ?thesis using Some
    by (simp add: check_budget_def bad_amount_def sect_def check_block_def put_run_def Let_def)
qed (simp add: check_budget_def bad_amount_def sect_def check_block_def)

text \<open>A run that has no more rounds, has ended or does not exist.\<close>

definition exhausted :: "run_store \<Rightarrow> rstr \<Rightarrow> bool" where
  "exhausted st i \<longleftrightarrow>
     (case store_get st i of
        None \<Rightarrow> True
      | Some r \<Rightarrow> \<not> is_live_status (rn_status r)
          \<or> (case b_rounds_limit (rn_budget r) of None \<Rightarrow> False | Some limit \<Rightarrow> limit \<le> b_rounds_used (rn_budget r)))"

lemma exhausted_denied:
  assumes "exhausted (m_store (release E m)) i"
  shows "\<exists>reason. run_budget_of E m i = Some reason"
  using assms
  by (auto simp: run_budget_of_def check_budget_def bad_amount_def sect_def check_block_def exhausted_def
      exceeds_def Let_def split: option.splits)

text \<open>C17: The production grant chain asks the run manager for the budget of the request's run. In every interleaving, and for every
  run, live, exhausted or unknown, the question leaves every row as it finds it when it takes the lock, after what others did before (for a malformed id the lock is not taken and nothing
  changes). When
  at that moment the run has ended, is unknown or has used all its rounds, the chain denies every request that no held grant covers: the
  later resolvers are not asked and no grant is inserted.\<close>

theorem exhausted_run_denied:
  assumes "interleaved E" "files_typed E" "manager_run E (run_manager_new dir) m"
  shows "store_get (m_store (snd (check_budget E i 0 (Fin 0) m))) j =
      store_get (m_store (if valid (validate_run_id i) then release E m else m)) j
    \<and> (ctx_run_id ctx = Some i \<and> exhausted (m_store (release E m)) i \<and> subset_auto_approve validate req ctx = Abstain \<longrightarrow>
       (\<exists>reason rs'. evaluate_with_dynamic_insert_barrier ch sd env t new_id req ctx
          (build_grant_resolver_chain validate (run_budget_of E m) (port :: 'p approval_port option)) s p
        = (Returns (ChainDenied reason), rs',
           emit_all [invoked req (SubsetAutoApproveResolver validate :: 'p resolver) Abstain,
             invoked req (BudgetCheckResolver (Some (run_budget_of E m)) :: 'p resolver) (resolver_outcome.Deny reason)] s, p)))"
proof (intro conjI impI)
  have "store_steps E (run_manager_new dir) (release E m)"
    using manager_run_steps [OF assms(1,3)] release_steps [OF assms(1)] by (rule rtranclp_trans)
  from am.kept [OF this]
  have "\<forall>r. store_get (m_store (release E m)) i = Some r \<longrightarrow> amounts_ok (rn_budget r)"
    using assms(2) by (simp add: run_manager_new_def)
  then show "store_get (m_store (snd (check_budget E i 0 (Fin 0) m))) j =
      store_get (m_store (if valid (validate_run_id i) then release E m else m)) j"
    by (rule probe_keeps_rows)
  assume h: "ctx_run_id ctx = Some i \<and> exhausted (m_store (release E m)) i \<and> subset_auto_approve validate req ctx = Abstain"
  then obtain reason where "run_budget_of E m i = Some reason" using exhausted_denied by blast
  then show "\<exists>reason rs'. evaluate_with_dynamic_insert_barrier ch sd env t new_id req ctx
          (build_grant_resolver_chain validate (run_budget_of E m) (port :: 'p approval_port option)) s p
        = (Returns (ChainDenied reason), rs',
           emit_all [invoked req (SubsetAutoApproveResolver validate :: 'p resolver) Abstain,
             invoked req (BudgetCheckResolver (Some (run_budget_of E m)) :: 'p resolver) (resolver_outcome.Deny reason)] s, p)"
    using h
    by (simp add: evaluate_with_dynamic_insert_barrier_def build_grant_resolver_chain_def invoked_def emit_all_def GrantStore.emit_def)
qed

text \<open>The sample run has completed; the worker asks for a grant in its name.\<close>

definition finished_state :: run_manager where
  "finished_state = snd (complete_run quiet_env job_id [] job_state)"

lemma finished_run: "manager_run quiet_env (run_manager_new []) finished_state"
  unfolding finished_state_def using job_state_run complete_run_call by (rule rtranclp_trans)

lemma finished_exhausted: "exhausted (m_store finished_state) job_id"
  by (simp add: finished_state_def complete_run_def end_block_def on_run_def job_state_get release_alone [OF quiet_env_ok(1)] sbind_def sect_def
      finish_run_def ended_row_def persist_snapshot_best_effort_def RunManager.emit_def emit_block_def sreturn_def Let_def exhausted_def)
    (simp add: quiet_env_def job_state_get)

theorem exhausted_run_denied_witness:
  "store_get (m_store (snd (check_budget quiet_env job_id 0 (Fin 0) job_state))) job_id = Some job_row
   \<and> store_get (m_store (snd (check_budget filed_env job_id 0 (Fin 0) filed_state))) job_id = Some filed_row
   \<and> (\<exists>reason. fst (evaluate_with_dynamic_insert_barrier sample_chrono sample_serde (\<lambda>_. sample_env) 5 (lit ''n'') sample_request
      \<lparr>parent_grants = [], ctx_run_id = Some job_id\<rparr>
      (build_grant_resolver_chain validate (run_budget_of quiet_env finished_state) (None :: nat approval_port option)) sample_held 0)
    = Returns (ChainDenied reason))"
proof -
  let ?ctx = "\<lparr>parent_grants = [], ctx_run_id = Some job_id\<rparr>"
  have h: "ctx_run_id ?ctx = Some job_id \<and> exhausted (m_store (release quiet_env finished_state)) job_id
      \<and> subset_auto_approve validate sample_request ?ctx = Abstain"
    using finished_exhausted by (simp add: subset_auto_approve_def release_alone [OF quiet_env_ok(1)])
  have d: "\<exists>reason. fst (evaluate_with_dynamic_insert_barrier sample_chrono sample_serde (\<lambda>_. sample_env) 5 (lit ''n'') sample_request ?ctx
      (build_grant_resolver_chain validate (run_budget_of quiet_env finished_state) (None :: nat approval_port option)) sample_held 0)
    = Returns (ChainDenied reason)"
    using mp [OF conjunct2 [OF exhausted_run_denied [OF quiet_env_ok(2,4) finished_run]] h, of sample_chrono
      sample_serde "\<lambda>_. sample_env" 5 "lit ''n''" "None :: nat approval_port option" sample_held 0] by (metis fst_conv)
  have "alone filed_env" by (simp add: alone_def filed_env_def quiet_env_def)
  then have "store_get (m_store (snd (check_budget filed_env job_id 0 (Fin 0) filed_state))) job_id = Some filed_row"
    using conjunct1 [OF exhausted_run_denied [OF filed_env_ok filed_run], of job_id job_id] filed_get by (simp add: release_alone)
  moreover have "store_get (m_store (snd (check_budget quiet_env job_id 0 (Fin 0) job_state))) job_id = Some job_row"
    using conjunct1 [OF exhausted_run_denied [OF quiet_env_ok(2,4) job_state_run], of job_id job_id]
    by (simp add: release_alone [OF quiet_env_ok(1)] job_state_get)
  ultimately show ?thesis using d by blast
qed

end
