(* ===== verification/RepetitionGuard.thy ===== *)
theory RepetitionGuard
  imports RunManager
begin

text \<open>
  \<open>run-manager/src/repetition_guard.rs\<close>, with the data of \<open>shared-types/src/repetition.rs\<close> and the two builders of
  \<open>run.rs\<close>. A call runs under the lock of the table and its callbacks after it; the guard is a record that also
  holds the warnings injected and the events emitted so far. The sanitising helpers are functions of the
  guard. The resolver of an agent's run reads the store of the run manager when it is called: its answers at that
  time are the argument \<open>runs_of\<close>. Messages on standard error are left out.
\<close>

section \<open>Data\<close>

record tool_call_signature =
  sig_tool_id :: rstr
  sig_method :: rstr
  sig_params_hash :: "64 word"

datatype repetition_decision = Pass | Warn rstr | TerminateRun rstr

definition MAX_AGENTS_PER_GUARD :: nat where "MAX_AGENTS_PER_GUARD = 10000"
definition MAX_TOOL_FIELD_LEN_BYTES :: nat where "MAX_TOOL_FIELD_LEN_BYTES = 256"
definition MAX_WINDOW_SIZE :: nat where "MAX_WINDOW_SIZE = 1024"

text \<open>\<open>{:016x}\<close>: sixteen hexadecimal digits.\<close>

definition hex_digit :: "nat \<Rightarrow> rchar" where
  "hex_digit d = (if d < 10 then 48 + d else 87 + d)"

definition hex16 :: "64 word \<Rightarrow> rstr" where
  "hex16 w = map (\<lambda>i. hex_digit (unat w div 16 ^ i mod 16)) (rev [0..<16])"

definition signature_to_string :: "tool_call_signature \<Rightarrow> rstr" where
  "signature_to_string s =
     sig_tool_id s @ lit ''::'' @ sig_method s @ lit ''#'' @ hex16 (sig_params_hash s)"

text \<open>The output hash is an array of 32 bytes, a list here.\<close>

record agent_window =
  aw_tool_calls :: "tool_call_signature list"
  aw_outputs :: "nat list list"
  aw_warned :: bool
  aw_last_emit_action :: "string option"

definition empty_window :: agent_window where
  "empty_window = \<lparr>aw_tool_calls = [], aw_outputs = [], aw_warned = False, aw_last_emit_action = None\<rparr>"

text \<open>\<open>PromptInjectionHelpers\<close>: whether a text has a flag of critical severity, and its wrapped form.\<close>

record injection_helpers =
  ih_critical :: "rstr \<Rightarrow> bool"
  ih_wrap :: "rstr \<Rightarrow> rstr"

record repetition_guard =
  rg_window_size :: nat
  rg_repeat_threshold :: nat
  rg_action :: repetition_action
  rg_per_agent :: "(rstr, agent_window) hmap"
  rg_context_assembler :: bool
  rg_helpers :: "injection_helpers option"
  rg_event_bus :: bool
  rg_run_resolver :: bool
  rg_enabled :: bool
  rg_injected :: "(rstr \<times> rstr) list"
  rg_events :: "run_event list"

definition new_guard :: "nat \<Rightarrow> nat \<Rightarrow> repetition_action \<Rightarrow> repetition_guard" where
  "new_guard window threshold action =
     \<lparr>rg_window_size = (if window > MAX_WINDOW_SIZE then MAX_WINDOW_SIZE else window), rg_repeat_threshold = threshold,
      rg_action = action, rg_per_agent = [], rg_context_assembler = False, rg_helpers = None, rg_event_bus = False,
      rg_run_resolver = False, rg_enabled = True, rg_injected = [], rg_events = []\<rparr>"

definition with_enabled :: "bool \<Rightarrow> repetition_guard \<Rightarrow> repetition_guard" where
  "with_enabled b g = g\<lparr>rg_enabled := b\<rparr>"

text \<open>\<open>with_context_assembler\<close> and \<open>set_context_assembler\<close> set the cell once; the latter tells whether it did.\<close>

definition set_context_assembler :: "repetition_guard \<Rightarrow> bool \<times> repetition_guard" where
  "set_context_assembler g = (\<not> rg_context_assembler g, g\<lparr>rg_context_assembler := True\<rparr>)"

definition with_prompt_injection_helpers :: "injection_helpers \<Rightarrow> repetition_guard \<Rightarrow> repetition_guard" where
  "with_prompt_injection_helpers h g = g\<lparr>rg_helpers := Some h\<rparr>"

text \<open>The builders \<open>with_event_bus\<close> and \<open>with_run_resolver\<close>.\<close>

definition with_event_bus :: "repetition_guard \<Rightarrow> repetition_guard" where
  "with_event_bus g = g\<lparr>rg_event_bus := True\<rparr>"

definition with_run_resolver :: "repetition_guard \<Rightarrow> repetition_guard" where
  "with_run_resolver g = g\<lparr>rg_run_resolver := True\<rparr>"

type_synonym run_resolver = "rstr \<Rightarrow> rstr option \<times> rstr option"

section \<open>Decisions\<close>

definition warning_message :: "rstr \<Rightarrow> rstr" where
  "warning_message pattern =
     lit ''Repetition detected: '' @ pattern @ lit ''. Please vary approach or confirm intent.''"

text \<open>The text to inject with a first warning: none without both the sink and the sanitiser, and none when the
  sanitiser finds a critical pattern.\<close>

definition inject_directive :: "repetition_guard \<Rightarrow> rstr \<Rightarrow> rstr option" where
  "inject_directive g pattern =
     (case (rg_context_assembler g, rg_helpers g) of
        (True, Some h) \<Rightarrow>
          if ih_critical h (warning_message pattern) then None else Some (ih_wrap h (warning_message pattern))
      | _ \<Rightarrow> None)"

definition choose_decision ::
    "repetition_guard \<Rightarrow> agent_window \<Rightarrow> rstr \<Rightarrow> repetition_decision \<times> agent_window \<times> rstr option" where
  "choose_decision g w pattern =
     (case rg_action g of
        WarnOnly \<Rightarrow> (Warn pattern, w, None)
      | Terminate \<Rightarrow> (TerminateRun pattern, w, None)
      | WarnThenTerminate \<Rightarrow>
          if aw_warned w then (TerminateRun pattern, w\<lparr>aw_warned := False\<rparr>, None)
          else (Warn pattern, w\<lparr>aw_warned := True\<rparr>, inject_directive g pattern))"

fun action_taken :: "repetition_decision \<Rightarrow> string" where
  "action_taken (Warn _) = ''warn''"
| "action_taken (TerminateRun _) = ''terminate''"
| "action_taken Pass = ''''"

definition decide_locked ::
    "run_resolver \<Rightarrow> repetition_guard \<Rightarrow> agent_window \<Rightarrow> rstr \<Rightarrow> rstr \<Rightarrow> string \<Rightarrow> 32 word \<Rightarrow>
     repetition_decision \<times> agent_window \<times> rstr option \<times> run_event option" where
  "decide_locked runs_of g w0 agent pattern detection_type repeat_count =
     (case choose_decision g w0 pattern of
        (decision, w, inject) \<Rightarrow>
          (let new_action = action_taken decision in
           if rg_event_bus g \<and> aw_last_emit_action w \<noteq> Some new_action
           then (case (if rg_run_resolver g then runs_of agent else (None, None)) of
              (run_id, task_id) \<Rightarrow>
                (decision, w\<lparr>aw_last_emit_action := Some new_action\<rparr>, inject,
                 Some (run_repetition_detected_event run_id task_id agent detection_type pattern repeat_count new_action)))
           else (decision, w, inject, None)))"

definition is_terminate_decision :: "repetition_decision \<Rightarrow> bool" where
  "is_terminate_decision d = (case d of TerminateRun _ \<Rightarrow> True | _ \<Rightarrow> False)"

definition is_retryable_repetition_decision :: "repetition_decision \<Rightarrow> bool" where
  "is_retryable_repetition_decision d \<longleftrightarrow> \<not> is_terminate_decision d"

section \<open>Observations\<close>

text \<open>The callbacks that follow the release of the lock.\<close>

definition deliver ::
    "rstr \<Rightarrow> repetition_guard \<Rightarrow> repetition_decision \<times> agent_window \<times> rstr option \<times> run_event option \<Rightarrow>
     repetition_decision \<times> repetition_guard" where
  "deliver agent g out =
     (case out of (decision, w, inject, ev) \<Rightarrow>
       (decision,
        g\<lparr>rg_per_agent := AList.update agent w (rg_per_agent g),
          rg_injected := rg_injected g @ (case inject of None \<Rightarrow> [] | Some text \<Rightarrow> [(agent, text)]),
          rg_events := rg_events g @ (case ev of None \<Rightarrow> [] | Some e \<Rightarrow> [e])\<rparr>))"

text \<open>The table is full for an agent it does not know.\<close>

definition table_full :: "repetition_guard \<Rightarrow> rstr \<Rightarrow> bool" where
  "table_full g agent \<longleftrightarrow> map_of (rg_per_agent g) agent = None \<and> length (rg_per_agent g) \<ge> MAX_AGENTS_PER_GUARD"

definition window_of :: "repetition_guard \<Rightarrow> rstr \<Rightarrow> agent_window" where
  "window_of g agent = unwrap_or (map_of (rg_per_agent g) agent) empty_window"

text \<open>\<open>push_back\<close>, then \<open>pop_front\<close> when the window is longer than allowed.\<close>

definition push_window :: "nat \<Rightarrow> 'a \<Rightarrow> 'a list \<Rightarrow> 'a list" where
  "push_window n x xs = (let ys = xs @ [x] in if length ys > n then tl ys else ys)"

definition passed :: "agent_window \<Rightarrow> repetition_decision \<times> agent_window \<times> rstr option \<times> run_event option" where
  "passed w = (Pass, w\<lparr>aw_last_emit_action := None\<rparr>, None, None)"

definition record_tool_call :: "run_resolver \<Rightarrow> rstr \<Rightarrow> tool_call_signature \<Rightarrow> repetition_guard \<Rightarrow> repetition_decision \<times> repetition_guard" where
  "record_tool_call runs_of agent sig g =
     (if \<not> rg_enabled g \<or> \<not> valid (validate_agent_id agent)
         \<or> str_len (sig_tool_id sig) > MAX_TOOL_FIELD_LEN_BYTES \<or> str_len (sig_method sig) > MAX_TOOL_FIELD_LEN_BYTES
         \<or> table_full g agent
      then (Pass, g)
      else (let w0 = window_of g agent;
                w = w0\<lparr>aw_tool_calls := push_window (rg_window_size g) sig (aw_tool_calls w0)\<rparr>;
                count = length (filter (\<lambda>c. c = sig) (aw_tool_calls w))
            in deliver agent g
                 (if count \<ge> rg_repeat_threshold g
                  then decide_locked runs_of g w agent (signature_to_string sig) ''tool_call'' (of_nat count)
                  else passed w)))"

definition record_output :: "run_resolver \<Rightarrow> rstr \<Rightarrow> nat list \<Rightarrow> repetition_guard \<Rightarrow> repetition_decision \<times> repetition_guard" where
  "record_output runs_of agent hash g =
     (if \<not> rg_enabled g \<or> \<not> valid (validate_agent_id agent) \<or> table_full g agent then (Pass, g)
      else (let w0 = window_of g agent
            in deliver agent g
                 (if aw_outputs w0 \<noteq> [] \<and> last (aw_outputs w0) = hash
                  then (let w = w0\<lparr>aw_outputs := push_window (rg_window_size g) hash (aw_outputs w0)\<rparr>;
                            run_len = length (takeWhile (\<lambda>h. h = hash) (rev (aw_outputs w)))
                        in if run_len \<ge> rg_repeat_threshold g
                           then decide_locked runs_of g w agent (lit ''output-repeat'') ''output_repeat'' (of_nat run_len)
                           else passed w)
                  else passed (w0\<lparr>aw_outputs := [hash]\<rparr>))))"

section \<open>Builders of the run manager (run.rs)\<close>

definition build_repetition_guard :: "nat \<Rightarrow> nat \<Rightarrow> repetition_action \<Rightarrow> repetition_guard" where
  "build_repetition_guard window threshold action =
     with_run_resolver (with_event_bus (new_guard window threshold action))"

definition build_repetition_guard_from_config :: "repetition_guard_config \<Rightarrow> repetition_guard" where
  "build_repetition_guard_from_config cfg =
     (let d = apply_guard_defaults cfg;
          action = unwrap_or (action_to_repetition_action (gd_action d)) WarnThenTerminate
      in with_run_resolver (with_event_bus
           (with_enabled (gd_enabled d) (new_guard (unat (gd_window_size d)) (unat (gd_repeat_threshold d)) action))))"

end
