(* ===== verification/RepetitionProps.thy ===== *)
theory RepetitionProps
  imports RepetitionGuard
begin

text \<open>
  The repetition guard over histories of observations of any agents: when it detects a repetition, what it then decides, and the
  bounds of its table.
\<close>

section \<open>Histories\<close>

datatype observation = ToolCall rstr tool_call_signature | Output rstr "nat list"

fun obs_agent :: "observation \<Rightarrow> rstr" where
  "obs_agent (ToolCall a _) = a"
| "obs_agent (Output a _) = a"

fun observe :: "run_resolver \<Rightarrow> observation \<Rightarrow> repetition_guard \<Rightarrow> repetition_decision \<times> repetition_guard" where
  "observe runs_of (ToolCall a sig) g = record_tool_call runs_of a sig g"
| "observe runs_of (Output a h) g = record_output runs_of a h g"

text \<open>The decisions for a history and the guard after it; the resolver may answer differently at each observation.\<close>

type_synonym history = "(run_resolver \<times> observation) list"

definition feed_step ::
    "(rstr \<times> repetition_decision) list \<times> repetition_guard \<Rightarrow> run_resolver \<times> observation \<Rightarrow>
     (rstr \<times> repetition_decision) list \<times> repetition_guard" where
  "feed_step s x =
     (case observe (fst x) (snd x) (snd s) of (d, g) \<Rightarrow> (fst s @ [(obs_agent (snd x), d)], g))"

definition feed :: "repetition_guard \<Rightarrow> history \<Rightarrow> (rstr \<times> repetition_decision) list \<times> repetition_guard" where
  "feed g hs = foldl feed_step ([], g) hs"

text \<open>What the guard looks at: the tool calls of an agent whose fields are within bounds, and its outputs.\<close>

definition short_fields :: "tool_call_signature \<Rightarrow> bool" where
  "short_fields sig \<longleftrightarrow> str_len (sig_tool_id sig) \<le> MAX_TOOL_FIELD_LEN_BYTES \<and> str_len (sig_method sig) \<le> MAX_TOOL_FIELD_LEN_BYTES"

definition calls :: "history \<Rightarrow> rstr \<Rightarrow> tool_call_signature list" where
  "calls hs a = List.map_filter (\<lambda>x. case snd x of ToolCall b sig \<Rightarrow> if b = a \<and> short_fields sig then Some sig else None | _ \<Rightarrow> None) hs"

definition outs :: "history \<Rightarrow> rstr \<Rightarrow> nat list list" where
  "outs hs a = List.map_filter (\<lambda>x. case snd x of Output b h \<Rightarrow> if b = a then Some h else None | _ \<Rightarrow> None) hs"

definition last_n :: "nat \<Rightarrow> 'a list \<Rightarrow> 'a list" where
  "last_n n xs = drop (length xs - n) xs"

definition trail :: "'a list \<Rightarrow> 'a list" where
  "trail xs = takeWhile (\<lambda>x. x = last xs) (rev xs)"

definition strikes :: "(rstr \<times> repetition_decision) list \<Rightarrow> rstr \<Rightarrow> nat" where
  "strikes ds a = length (filter (\<lambda>(b, d). b = a \<and> d \<noteq> Pass) ds)"

lemma map_filter_snoc: "List.map_filter f (xs @ [x]) = List.map_filter f xs @ (case f x of None \<Rightarrow> [] | Some y \<Rightarrow> [y])"
  by (simp add: List.map_filter_def split: option.split)

lemma calls_snoc:
  "calls (hs @ [(ro, ToolCall b sig)]) a = calls hs a @ (if b = a \<and> short_fields sig then [sig] else [])"
  "calls (hs @ [(ro, Output b h)]) a = calls hs a"
  by (simp_all add: calls_def map_filter_snoc)

lemma outs_snoc:
  "outs (hs @ [(ro, ToolCall b sig)]) a = outs hs a"
  "outs (hs @ [(ro, Output b h)]) a = outs hs a @ (if b = a then [h] else [])"
  by (simp_all add: outs_def map_filter_snoc)

lemma push_last_n: "push_window n x (last_n n xs) = last_n n (xs @ [x])"
proof (cases "n = 0 \<or> length xs < n")
  case True
  then show ?thesis by (auto simp: push_window_def last_n_def Let_def)
next
  case False
  then have "drop (length xs - n) xs \<noteq> []" by (cases xs) auto
  then have "tl (drop (length xs - n) xs @ [x]) = drop (Suc (length xs - n)) xs @ [x]" by (simp add: drop_Suc tl_drop)
  moreover have "Suc (length xs) - n = Suc (length xs - n)" using False by (auto simp: Suc_diff_le)
  ultimately show ?thesis using False by (simp add: push_window_def last_n_def Let_def)
qed

lemma trail_snoc: "trail (xs @ [x]) = x # (if xs \<noteq> [] \<and> last xs = x then trail xs else [])"
  by (cases "rev xs") (auto simp: trail_def dest: arg_cong [of "rev _" _ rev])

lemma trail_all: "trail xs = replicate (length (trail xs)) (last xs)"
  by (rule sym, rule replicate_length_same) (auto simp: trail_def dest: set_takeWhileD)

lemma trail_empty [simp]: "trail xs = [] \<longleftrightarrow> xs = []"
  by (cases xs rule: rev_cases) (simp_all add: trail_snoc, simp add: trail_def)

lemma push_replicate:
  "0 < n \<Longrightarrow> push_window n x (replicate (min n k) x) = replicate (min n (Suc k)) x"
  by (auto simp: push_window_def Let_def min_def replicate_append_same simp flip: replicate_Suc)

section \<open>One observation\<close>

lemma window_deliver:
  "window_of (snd (deliver a g (d, w, i, ev))) b = (if b = a then w else window_of g b)"
  by (simp add: deliver_def window_of_def)

lemma static_deliver [simp]:
  "rg_enabled (snd (deliver a g out)) = rg_enabled g" "rg_window_size (snd (deliver a g out)) = rg_window_size g"
  "rg_repeat_threshold (snd (deliver a g out)) = rg_repeat_threshold g" "rg_action (snd (deliver a g out)) = rg_action g"
  "map fst (rg_per_agent (snd (deliver a g out))) =
     (if a \<in> set (map fst (rg_per_agent g)) then map fst (rg_per_agent g) else map fst (rg_per_agent g) @ [a])"
  by (simp_all add: deliver_def update_keys split: prod.split)

text \<open>A decision on a repetition and one to pass: the windows stay, and only a warn-then-terminate decision turns the flag.\<close>

lemma decide_effect:
  assumes "decide_locked ro g w a p dt c = (d, w', i, ev)"
  shows "d \<noteq> Pass" "aw_tool_calls w' = aw_tool_calls w" "aw_outputs w' = aw_outputs w"
    "aw_warned w' = (if rg_action g = WarnThenTerminate then \<not> aw_warned w else aw_warned w)"
    "d = (case rg_action g of WarnOnly \<Rightarrow> Warn p | Terminate \<Rightarrow> TerminateRun p
       | WarnThenTerminate \<Rightarrow> if aw_warned w then TerminateRun p else Warn p)"
  using assms
  by (auto simp: decide_locked_def choose_decision_def Let_def split: repetition_action.splits if_splits prod.splits)

text \<open>The effect of one observation on the window of its agent.\<close>

definition observed :: "repetition_guard \<Rightarrow> rstr \<Rightarrow> agent_window \<Rightarrow> bool \<Rightarrow> repetition_decision \<times> repetition_guard \<Rightarrow> bool" where
  "observed g a w repeated res \<longleftrightarrow>
     (case res of (d, g') \<Rightarrow>
        (\<exists>w'. (\<forall>b. window_of g' b = (if b = a then w' else window_of g b))
           \<and> aw_tool_calls w' = aw_tool_calls w \<and> aw_outputs w' = aw_outputs w
           \<and> aw_warned w' = (if repeated \<and> rg_action g = WarnThenTerminate then \<not> aw_warned w else aw_warned w))
        \<and> (d \<noteq> Pass \<longleftrightarrow> repeated)
        \<and> (repeated \<longrightarrow> is_terminate_decision d = (case rg_action g of WarnOnly \<Rightarrow> False | Terminate \<Rightarrow> True | WarnThenTerminate \<Rightarrow> aw_warned w)))"

lemma observed_decide: "observed g a w True (deliver a g (decide_locked ro g w a p dt c))"
proof -
  obtain d w' i ev where r: "decide_locked ro g w a p dt c = (d, w', i, ev)" by (metis surj_pair)
  have "fst (deliver a g (d, w', i, ev)) = d" by (simp add: deliver_def)
  then show ?thesis using decide_effect [OF r] window_deliver [of a g d w' i ev]
    by (cases "deliver a g (d, w', i, ev)")
      (auto simp: r observed_def is_terminate_decision_def split: repetition_action.splits)
qed

lemma observed_passed: "observed g a w False (deliver a g (passed w))"
proof -
  have "fst (deliver a g (passed w)) = Pass" by (simp add: deliver_def passed_def)
  then show ?thesis using window_deliver [of a g Pass "w\<lparr>aw_last_emit_action := None\<rparr>" None None]
    by (cases "deliver a g (passed w)") (auto simp: observed_def passed_def)
qed

lemma observed_tool_call:
  assumes "rg_enabled g" "valid (validate_agent_id a)" "short_fields sig" "\<not> table_full g a"
  defines "xs \<equiv> push_window (rg_window_size g) sig (aw_tool_calls (window_of g a))"
  shows "observed g a ((window_of g a)\<lparr>aw_tool_calls := xs\<rparr>) (rg_repeat_threshold g \<le> length (filter (\<lambda>c. c = sig) xs))
    (record_tool_call ro a sig g)"
  using assms(1-4) observed_decide observed_passed
  by (simp add: record_tool_call_def short_fields_def not_less Let_def xs_def)

lemma observed_output:
  fixes h :: "nat list"
  assumes "rg_enabled g" "valid (validate_agent_id a)" "\<not> table_full g a"
    "aw_outputs (window_of g a) = replicate (min n k) x" "n = rg_window_size g" "0 < n"
  defines "again \<equiv> 0 < k \<and> h = x"
  shows "observed g a ((window_of g a)\<lparr>aw_outputs := replicate (min n (if again then Suc k else 1)) h\<rparr>)
    (again \<and> rg_repeat_threshold g \<le> min n (Suc k)) (record_output ro a h g)"
proof -
  have again: "aw_outputs (window_of g a) \<noteq> [] \<and> last (aw_outputs (window_of g a)) = h \<longleftrightarrow> again"
    using assms(4,6) by (auto simp: again_def last_replicate)
  show ?thesis
  proof (cases again)
    case True
    then have w: "push_window (rg_window_size g) h (aw_outputs (window_of g a)) = replicate (min n (Suc k)) h"
      using push_replicate [OF assms(6), of h k] assms(4,5) by (simp add: again_def)
    have len: "length (takeWhile (\<lambda>c. c = h) (rev (replicate j h))) = j" for j
      by (simp add: takeWhile_eq_all_conv [THEN iffD2])
    show ?thesis using assms(1-3) again True observed_decide observed_passed
      by (cases "rg_repeat_threshold g \<le> min n (Suc k)")
        (simp_all add: record_output_def Let_def w len del: takeWhile_replicate rev_replicate min_less_iff_conj min.bounded_iff)
  next
    case False
    then have "record_output ro a h g = deliver a g (passed ((window_of g a)\<lparr>aw_outputs := [h]\<rparr>))"
      using assms(1-3) again by (auto simp: record_output_def Let_def)
    moreover have "min n 1 = 1" using assms(6) by simp
    ultimately show ?thesis using False observed_passed by simp
  qed
qed

section \<open>Along a history\<close>

text \<open>The guard after a history: its settings, its table, and for each agent the windows and the flag.\<close>

definition guard_inv :: "repetition_guard \<Rightarrow> history \<Rightarrow> (rstr \<times> repetition_decision) list \<Rightarrow> repetition_guard \<Rightarrow> bool" where
  "guard_inv g0 hs ds g \<longleftrightarrow>
     rg_enabled g = rg_enabled g0 \<and> rg_window_size g = rg_window_size g0 \<and> rg_repeat_threshold g = rg_repeat_threshold g0
     \<and> rg_action g = rg_action g0
     \<and> distinct (map fst (rg_per_agent g)) \<and> set (map fst (rg_per_agent g)) \<subseteq> set (map (obs_agent \<circ> snd) hs)
     \<and> (\<forall>a. valid (validate_agent_id a) \<longrightarrow>
          aw_tool_calls (window_of g a) = last_n (rg_window_size g0) (calls hs a)
          \<and> aw_outputs (window_of g a) = replicate (min (rg_window_size g0) (length (trail (outs hs a)))) (last (outs hs a))
          \<and> (rg_action g0 = WarnThenTerminate \<longrightarrow> aw_warned (window_of g a) = odd (strikes ds a)))"

lemma room:
  assumes "guard_inv g0 hs ds g" "card (set (map (obs_agent \<circ> snd) (hs @ [(ro, x)]))) \<le> MAX_AGENTS_PER_GUARD"
  shows "\<not> table_full g (obs_agent x)"
proof
  let ?keys = "set (map fst (rg_per_agent g))"
  assume full: "table_full g (obs_agent x)"
  then have "obs_agent x \<notin> ?keys" by (auto simp: table_full_def map_of_eq_None_iff)
  then have "Suc (card ?keys) = card (insert (obs_agent x) ?keys)" by simp
  also have "\<dots> \<le> card (set (map (obs_agent \<circ> snd) (hs @ [(ro, x)])))"
    using assms(1) by (intro card_mono) (auto simp: guard_inv_def)
  finally have "card ?keys < MAX_AGENTS_PER_GUARD" using assms(2) by simp
  moreover have "card ?keys = length (rg_per_agent g)"
    using assms(1) distinct_card [of "map fst (rg_per_agent g)"] by (simp add: guard_inv_def)
  ultimately show False using full by (simp add: table_full_def)
qed

lemma strikes_snoc: "strikes (ds @ [(b, d)]) a = strikes ds a + (if b = a \<and> d \<noteq> Pass then 1 else 0)"
  by (simp add: strikes_def)

lemma trail_length_snoc:
  "length (trail (xs @ [x])) = (if 0 < length (trail xs) \<and> x = last xs then Suc (length (trail xs)) else 1)"
  by (auto simp: trail_snoc)

text \<open>An observation that counts: the windows and the flag afterwards, and whether it is a repetition.\<close>

definition repeats :: "repetition_guard \<Rightarrow> history \<Rightarrow> observation \<Rightarrow> bool" where
  "repeats g hs x = (case x of
      ToolCall a sig \<Rightarrow> rg_repeat_threshold g \<le> length (filter (\<lambda>c. c = sig) (last_n (rg_window_size g) (calls hs a @ [sig])))
    | Output a h \<Rightarrow> outs hs a \<noteq> [] \<and> last (outs hs a) = h
        \<and> rg_repeat_threshold g \<le> min (rg_window_size g) (length (trail (outs hs a @ [h]))))"

definition accepted :: "observation \<Rightarrow> bool" where
  "accepted x = (valid (validate_agent_id (obs_agent x)) \<and> (case x of ToolCall _ sig \<Rightarrow> short_fields sig | Output _ _ \<Rightarrow> True))"

lemma observe_accepted:
  assumes inv: "guard_inv g0 hs ds g" and g0: "rg_enabled g0" "0 < rg_window_size g0" and x: "accepted x" "\<not> table_full g (obs_agent x)"
  shows "\<exists>w. observed g (obs_agent x) w (repeats g0 hs x) (observe ro x g)
    \<and> aw_tool_calls w = last_n (rg_window_size g0) (calls (hs @ [(ro, x)]) (obs_agent x))
    \<and> aw_outputs w = replicate (min (rg_window_size g0) (length (trail (outs (hs @ [(ro, x)]) (obs_agent x))))) (last (outs (hs @ [(ro, x)]) (obs_agent x)))
    \<and> aw_warned w = aw_warned (window_of g (obs_agent x))"
proof (cases x)
  case (ToolCall a sig)
  then have "valid (validate_agent_id a)" "short_fields sig" using x(1) by (simp_all add: accepted_def)
  with observed_tool_call [of g a sig ro] show ?thesis using inv g0 x(2) ToolCall
    by (auto simp: guard_inv_def push_last_n calls_snoc outs_snoc repeats_def)
next
  case (Output a h)
  let ?k = "length (trail (outs hs a))"
  have v: "valid (validate_agent_id a)" using x(1) Output by (simp add: accepted_def)
  have e: "aw_outputs (window_of g a) = replicate (min (rg_window_size g0) ?k) (last (outs hs a))"
    "rg_enabled g" "rg_window_size g0 = rg_window_size g" "rg_repeat_threshold g0 = rg_repeat_threshold g"
    "aw_tool_calls (window_of g a) = last_n (rg_window_size g0) (calls hs a)"
    using inv v g0(1) by (simp_all add: guard_inv_def)
  have rep: "repeats g0 hs x \<longleftrightarrow> (0 < ?k \<and> h = last (outs hs a)) \<and> rg_repeat_threshold g \<le> min (rg_window_size g0) (Suc ?k)"
    by (auto simp: Output repeats_def e(4) trail_length_snoc)
  have "\<not> table_full g a" using x(2) Output by simp
  note o = observed_output [OF e(2) v this e(1) e(3) g0(2), of h ro]
  show ?thesis
    unfolding rep by (rule exI, rule conjI, use o in \<open>simp add: Output\<close>)
      (simp add: Output e(5) calls_snoc outs_snoc trail_length_snoc)
qed

lemma if_shape: "(if c then (Pass, g) else deliver a g out) = (Pass, g) \<or> (\<exists>out'. (if c then (Pass, g) else deliver a g out) = deliver a g out')"
  by (cases c) (simp, rule disjI2, rule exI [of _ out], simp)

lemma observe_shape: "observe ro x g = (Pass, g) \<or> (\<exists>out. observe ro x g = deliver (obs_agent x) g out)"
  by (cases x) (simp_all only: observe.simps obs_agent.simps record_tool_call_def record_output_def Let_def if_shape)

lemma observe_static:
  assumes "observe ro x g = (d, g')"
  shows "rg_enabled g' = rg_enabled g" "rg_window_size g' = rg_window_size g" "rg_repeat_threshold g' = rg_repeat_threshold g"
    "rg_action g' = rg_action g" "distinct (map fst (rg_per_agent g)) \<Longrightarrow> distinct (map fst (rg_per_agent g'))"
    "set (map fst (rg_per_agent g')) \<subseteq> insert (obs_agent x) (set (map fst (rg_per_agent g)))"
proof -
  have "g' = g \<or> (\<exists>out. g' = snd (deliver (obs_agent x) g out))" using observe_shape [of ro x g] assms by (metis prod.inject snd_conv)
  then show "rg_enabled g' = rg_enabled g" "rg_window_size g' = rg_window_size g" "rg_repeat_threshold g' = rg_repeat_threshold g"
    "rg_action g' = rg_action g" "distinct (map fst (rg_per_agent g)) \<Longrightarrow> distinct (map fst (rg_per_agent g'))"
    "set (map fst (rg_per_agent g')) \<subseteq> insert (obs_agent x) (set (map fst (rg_per_agent g)))"
    using static_deliver [of "obs_agent x" g] by (auto simp del: set_map split: if_splits)
qed

lemma observe_rejected: "\<not> accepted x \<Longrightarrow> observe ro x g = (Pass, g)"
  by (cases x) (auto simp: accepted_def record_tool_call_def record_output_def short_fields_def)

lemma guard_inv_step:
  assumes inv: "guard_inv g0 hs ds g" and g0: "rg_enabled g0" "0 < rg_window_size g0"
    and few: "card (set (map (obs_agent \<circ> snd) (hs @ [(ro, x)]))) \<le> MAX_AGENTS_PER_GUARD"
    and step: "observe ro x g = (d, g')"
  shows "guard_inv g0 (hs @ [(ro, x)]) (ds @ [(obs_agent x, d)]) g'"
proof (cases "accepted x")
  case False
  then have "d = Pass" "g' = g" using observe_rejected step by (metis prod.inject)+
  moreover have "calls (hs @ [(ro, x)]) a = calls hs a" "outs (hs @ [(ro, x)]) a = outs hs a" if "valid (validate_agent_id a)" for a
    using False that by (cases x; auto simp: accepted_def calls_snoc outs_snoc)+
  ultimately show ?thesis using inv by (auto simp: guard_inv_def strikes_snoc)
next
  case True
  let ?a = "obs_agent x"
  obtain w where o: "observed g ?a w (repeats g0 hs x) (d, g')"
    and w: "aw_tool_calls w = last_n (rg_window_size g0) (calls (hs @ [(ro, x)]) ?a)"
      "aw_outputs w = replicate (min (rg_window_size g0) (length (trail (outs (hs @ [(ro, x)]) ?a)))) (last (outs (hs @ [(ro, x)]) ?a))"
      "aw_warned w = aw_warned (window_of g ?a)"
    using observe_accepted [OF inv g0 True room [OF inv few], of ro] unfolding step by blast
  have other: "calls (hs @ [(ro, x)]) b = calls hs b" "outs (hs @ [(ro, x)]) b = outs hs b" if "b \<noteq> ?a" for b
    using that by (cases x; auto simp: calls_snoc outs_snoc)+
  have static: "rg_enabled g' = rg_enabled g0" "rg_window_size g' = rg_window_size g0" "rg_repeat_threshold g' = rg_repeat_threshold g0"
    "rg_action g' = rg_action g0" "distinct (map fst (rg_per_agent g'))"
    "set (map fst (rg_per_agent g')) \<subseteq> set (map (obs_agent \<circ> snd) (hs @ [(ro, x)]))"
    using observe_static [OF step] inv by (auto simp: guard_inv_def)
  obtain w' where w': "\<And>b. window_of g' b = (if b = ?a then w' else window_of g b)" "aw_tool_calls w' = aw_tool_calls w"
    "aw_outputs w' = aw_outputs w" "aw_warned w' = (if repeats g0 hs x \<and> rg_action g = WarnThenTerminate then \<not> aw_warned w else aw_warned w)"
    "d \<noteq> Pass \<longleftrightarrow> repeats g0 hs x"
    using o unfolding observed_def by auto
  have g: "rg_action g = rg_action g0" using inv by (simp add: guard_inv_def)
  have old: "aw_tool_calls (window_of g b) = last_n (rg_window_size g0) (calls hs b)"
    "aw_outputs (window_of g b) = replicate (min (rg_window_size g0) (length (trail (outs hs b)))) (last (outs hs b))"
    "rg_action g0 = WarnThenTerminate \<Longrightarrow> aw_warned (window_of g b) = odd (strikes ds b)" if "valid (validate_agent_id b)" for b
    using inv that unfolding guard_inv_def by blast+
  have "aw_tool_calls (window_of g' b) = last_n (rg_window_size g0) (calls (hs @ [(ro, x)]) b)
      \<and> aw_outputs (window_of g' b) = replicate (min (rg_window_size g0) (length (trail (outs (hs @ [(ro, x)]) b)))) (last (outs (hs @ [(ro, x)]) b))
      \<and> (rg_action g0 = WarnThenTerminate \<longrightarrow> aw_warned (window_of g' b) = odd (strikes (ds @ [(?a, d)]) b))"
    if "valid (validate_agent_id b)" for b
  proof (cases "b = ?a")
    case True
    then show ?thesis using w w' g old(3) [OF that] by (simp add: strikes_snoc)
  next
    case False
    then show ?thesis using w'(1) old [OF that] other [OF False] by (simp add: strikes_snoc)
  qed
  then show ?thesis unfolding guard_inv_def using static by blast
qed

lemma feed_snoc:
  "feed g (hs @ [x]) = (case observe (fst x) (snd x) (snd (feed g hs)) of (d, g') \<Rightarrow> (fst (feed g hs) @ [(obs_agent (snd x), d)], g'))"
  by (simp add: feed_def feed_step_def)

text \<open>A guard that has seen nothing.\<close>

definition fresh_guard :: "repetition_guard \<Rightarrow> bool" where
  "fresh_guard g \<longleftrightarrow> rg_enabled g \<and> 0 < rg_window_size g \<and> rg_per_agent g = []"

lemma feed_inv:
  assumes "fresh_guard g0" "card (set (map (obs_agent \<circ> snd) hs)) \<le> MAX_AGENTS_PER_GUARD"
  shows "guard_inv g0 hs (fst (feed g0 hs)) (snd (feed g0 hs))"
  using assms(2)
proof (induction hs rule: rev_induct)
  case Nil
  then show ?case
    using assms(1) by (simp add: guard_inv_def feed_def fresh_guard_def window_of_def empty_window_def calls_def outs_def last_n_def
        strikes_def map_filter_simps trail_def)
next
  case (snoc x hs)
  obtain ro y where x: "x = (ro, y)" by force
  obtain d g' where d: "observe ro y (snd (feed g0 hs)) = (d, g')" by force
  have "card (set (map (obs_agent \<circ> snd) hs)) \<le> card (set (map (obs_agent \<circ> snd) (hs @ [x])))" by (intro card_mono) auto
  then have "guard_inv g0 hs (fst (feed g0 hs)) (snd (feed g0 hs))" using snoc by linarith
  from guard_inv_step [OF this _ _ snoc.prems [unfolded x] d] assms(1) show ?case
    by (simp add: x feed_snoc d fresh_guard_def)
qed

lemma detected_iff:
  assumes "fresh_guard g0" "card (set (map (obs_agent \<circ> snd) (hs @ [(ro, x)]))) \<le> MAX_AGENTS_PER_GUARD" "accepted x"
  shows "fst (observe ro x (snd (feed g0 hs))) \<noteq> Pass \<longleftrightarrow> repeats g0 hs x"
proof -
  have "card (set (map (obs_agent \<circ> snd) hs)) \<le> card (set (map (obs_agent \<circ> snd) (hs @ [(ro, x)])))" by (intro card_mono) auto
  then have inv: "guard_inv g0 hs (fst (feed g0 hs)) (snd (feed g0 hs))" using feed_inv [OF assms(1), of hs] assms(2) by linarith
  obtain w where "observed (snd (feed g0 hs)) (obs_agent x) w (repeats g0 hs x) (observe ro x (snd (feed g0 hs)))"
    using observe_accepted [OF inv _ _ assms(3) room [OF inv assms(2)], of ro] assms(1) by (auto simp: fresh_guard_def)
  then show ?thesis unfolding observed_def by (auto split: prod.splits)
qed

text \<open>C31: Whatever a fresh guard that is enabled and has a positive window has observed of at most as many agents as its table holds, for an observation that passes the checks
  on its agent and text it detects a repetition exactly when the
  call occurs at least the threshold number of times in the agent's last calls, or the output ends a run of at least that many
  equal outputs (two or more, counted up to the window).\<close>

theorem repetition_detected_iff:
  assumes "fresh_guard g0" "card (set (map (obs_agent \<circ> snd) (hs @ [(ro, x)]))) \<le> MAX_AGENTS_PER_GUARD" "accepted x"
  shows "fst (observe ro x (snd (feed g0 hs))) \<noteq> Pass \<longleftrightarrow>
    (case x of
       ToolCall a sig \<Rightarrow> rg_repeat_threshold g0 \<le> length (filter (\<lambda>c. c = sig) (last_n (rg_window_size g0) (calls hs a @ [sig])))
     | Output a h \<Rightarrow> outs hs a \<noteq> [] \<and> last (outs hs a) = h
         \<and> rg_repeat_threshold g0 \<le> min (rg_window_size g0) (length (trail (outs hs a @ [h]))))"
  using detected_iff [OF assms] by (simp add: repeats_def)

text \<open>An agent that gives the same output again and again.\<close>

definition looper :: rstr where "looper = lit ''loop''"

definition same_outputs :: "nat \<Rightarrow> history" where
  "same_outputs n = replicate n (\<lambda>_. (None, None), Output looper [1])"

definition strict_guard :: repetition_guard where
  "strict_guard = build_repetition_guard 8 3 WarnThenTerminate"

lemma strict_guard_fresh: "fresh_guard strict_guard" "rg_action strict_guard = WarnThenTerminate"
  "rg_window_size strict_guard = 8" "rg_repeat_threshold strict_guard = 3"
  by (simp_all add: fresh_guard_def strict_guard_def build_repetition_guard_def with_run_resolver_def with_event_bus_def
      new_guard_def MAX_WINDOW_SIZE_def)

lemma looper_valid: "validate_agent_id looper = Inr ()"
  by (simp add: looper_def validate_agent_id_def validate_task_id_def lit_def is_ascii_alphanumeric_def is_ascii_digit_def utf8_len_def)

lemma looper_outs: "outs (same_outputs n) looper = replicate n [1]"
  by (simp add: same_outputs_def outs_def List.map_filter_def)

lemma same_outputs_few: "card (set (map (obs_agent \<circ> snd) (same_outputs n @ [(ro, Output looper h)]))) \<le> MAX_AGENTS_PER_GUARD"
  by (simp add: same_outputs_def MAX_AGENTS_PER_GUARD_def set_replicate_conv_if)

lemma looper_accepted: "accepted (Output looper h)"
  by (simp add: accepted_def looper_valid)

lemma same_outputs_trail: "length (trail (replicate n x @ [x])) = Suc n"
  by (simp add: trail_def takeWhile_eq_all_conv [THEN iffD2])

theorem repetition_detected_iff_witness:
  "fst (observe (\<lambda>_. (None, None)) (Output looper [1]) (snd (feed strict_guard (same_outputs 2)))) \<noteq> Pass
   \<and> fst (observe (\<lambda>_. (None, None)) (Output looper [1]) (snd (feed strict_guard (same_outputs 1)))) = Pass"
proof -
  have r: "fst (observe ro (Output looper [1]) (snd (feed strict_guard (same_outputs n)))) \<noteq> Pass \<longleftrightarrow> 0 < n \<and> 3 \<le> min 8 (Suc n)" for n ro
    using repetition_detected_iff [OF strict_guard_fresh(1) same_outputs_few [of n ro "[1]"] looper_accepted]
    by (cases n) (simp_all add: looper_outs strict_guard_fresh same_outputs_trail last_replicate del: replicate_Suc)
  show ?thesis using r [of "\<lambda>_. (None, None)" 2] r [of "\<lambda>_. (None, None)" 1] by simp
qed

text \<open>Under the policy to warn and then to terminate, the decisions on the repetitions of one agent alternate between the two, whatever it and
  others do in between.\<close>

theorem warnings_alternate:
  assumes "fresh_guard g0" "rg_action g0 = WarnThenTerminate"
    "card (set (map (obs_agent \<circ> snd) (hs @ [(ro, x)]))) \<le> MAX_AGENTS_PER_GUARD"
    "observe ro x (snd (feed g0 hs)) = (d, g')" "d \<noteq> Pass"
  shows "is_terminate_decision d \<longleftrightarrow> odd (strikes (fst (feed g0 hs)) (obs_agent x))"
proof -
  have "card (set (map (obs_agent \<circ> snd) hs)) \<le> card (set (map (obs_agent \<circ> snd) (hs @ [(ro, x)])))" by (intro card_mono) auto
  then have inv: "guard_inv g0 hs (fst (feed g0 hs)) (snd (feed g0 hs))" using feed_inv [OF assms(1), of hs] assms(3) by linarith
  have acc: "accepted x" using observe_rejected assms(4,5) by (metis prod.inject)
  then have v: "valid (validate_agent_id (obs_agent x))" by (simp add: accepted_def)
  obtain w where "observed (snd (feed g0 hs)) (obs_agent x) w (repeats g0 hs x) (d, g')"
    "aw_warned w = aw_warned (window_of (snd (feed g0 hs)) (obs_agent x))"
    using observe_accepted [OF inv _ _ acc room [OF inv assms(3)], of ro] assms(1,4) by (auto simp: fresh_guard_def)
  moreover have "aw_warned (window_of (snd (feed g0 hs)) (obs_agent x)) = odd (strikes (fst (feed g0 hs)) (obs_agent x))"
    "rg_action (snd (feed g0 hs)) = WarnThenTerminate"
    using inv v assms(2) by (simp_all add: guard_inv_def)
  ultimately show ?thesis using assms(5) by (auto simp: observed_def)
qed

theorem warnings_alternate_example:
  "is_terminate_decision (fst (observe (\<lambda>_. (None, None)) (Output looper [1]) (snd (feed strict_guard (same_outputs 3)))))
   \<longleftrightarrow> odd (strikes (fst (feed strict_guard (same_outputs 3))) looper)"
proof -
  let ?r = "observe (\<lambda>_. (None, None)) (Output looper [1]) (snd (feed strict_guard (same_outputs 3)))"
  have few: "card (set (map (obs_agent \<circ> snd) (same_outputs 3 @ [(\<lambda>_. (None, None), Output looper [1])]))) \<le> MAX_AGENTS_PER_GUARD"
    by (rule same_outputs_few)
  have "fst ?r \<noteq> Pass"
    using detected_iff [OF strict_guard_fresh(1) few looper_accepted]
    by (simp add: repeats_def looper_outs strict_guard_fresh same_outputs_trail)
  then show ?thesis
    using warnings_alternate [OF strict_guard_fresh(1,2) few, of "fst ?r" "snd ?r"] by simp
qed

end
