(* ===== verification/AwaitData.thy ===== *)
theory AwaitData
  imports RunManager
begin

text \<open>
  The data of the await orchestration: \<open>shared-types/src/await_session.rs\<close> and the parts of \<open>mailbox.rs\<close> it
  uses, \<open>messaging/src/id_validation.rs\<close> and \<open>hierarchy.rs\<close> (identifiers and routing),
  \<open>messaging/reply-tracker/src/session.rs\<close> and \<open>detach.rs\<close> (one session), \<open>error.rs\<close> (error texts),
  \<open>deadlock.rs\<close> (the ancestry walk), \<open>session_context.rs\<close> (nesting depth) and \<open>events.rs\<close>.

  A slot number is a 32 bit word, a payload a list of bytes. A wall-clock time is an \<open>instant\<close>; a monotonic
  \<open>Instant\<close> is a number of nanoseconds.
\<close>

section \<open>Messages and identifiers (mailbox.rs, id_validation.rs, hierarchy.rs)\<close>

datatype msg_error =
    MsgInvalidTarget rstr
  | MsgMailboxFull
  | MsgCircuitBreakerOpen rstr
  | MsgCapabilityDenied rstr
  | MsgInvalidPayload rstr

record message_context =
  mc_task_id :: "rstr option"
  mc_run_id :: "rstr option"
  mc_execution_id :: "rstr option"
  mc_trace_id :: "rstr option"
  mc_in_reply_to :: "rstr option"
  mc_correlation_id :: "rstr option"

text \<open>A message of kind \<open>Agent\<close>; its timestamp is fresh and its origin is empty.\<close>

record message =
  mg_id :: rstr
  mg_from :: rstr
  mg_to :: rstr
  mg_payload :: "8 word list"
  mg_context :: "message_context option"

definition MAX_ID_BYTES :: nat where "MAX_ID_BYTES = 256"

definition id_body_char :: "rchar \<Rightarrow> bool" where
  "id_body_char c \<longleftrightarrow> is_ascii_alphanumeric c \<or> c = 95 \<or> c = 45"

definition is_safe_id :: "rstr \<Rightarrow> bool" where
  "is_safe_id s \<longleftrightarrow>
     s \<noteq> [] \<and> str_len s \<le> MAX_ID_BYTES \<and>
     (s = lit ''system'' \<or>
      (case strip_prefix (lit ''agent:'') s of
         Some body \<Rightarrow> body \<noteq> [] \<and> list_all id_body_char body
       | None \<Rightarrow>
          (case strip_prefix (lit ''user:'') s of
             Some body \<Rightarrow> body \<noteq> [] \<and> list_all id_body_char body
           | None \<Rightarrow> False)))"

text \<open>\<open>validate_routing\<close> over the two queries of \<open>AgentTreeReader\<close>.\<close>

definition validate_routing :: "(rstr \<Rightarrow> bool) \<Rightarrow> (rstr \<Rightarrow> rstr option) \<Rightarrow> rstr \<Rightarrow> rstr \<Rightarrow> msg_error + unit" where
  "validate_routing agent_exists parent_of from to =
     (if \<not> is_safe_id from \<or> \<not> is_safe_id to then Inl (MsgInvalidTarget (lit ''invalid_id''))
      else if from = to then Inl (MsgInvalidTarget (lit ''self_send_forbidden''))
      else if \<not> agent_exists to then Inl (MsgInvalidTarget (lit ''unknown_target''))
      else if prefix (lit ''user:'') from then Inr ()
      else if parent_of from = Some to then Inr ()
      else if parent_of to = Some from then Inr ()
      else if parent_of from \<noteq> None \<and> parent_of from = parent_of to then Inr ()
      else Inl (MsgInvalidTarget (lit ''no_adjacency'')))"

section \<open>Requests and results (await_session.rs)\<close>

datatype await_mode = AllOf | AnyOf

datatype timeout_policy = ReturnPartial | FailOnTimeout

record await_options =
  ao_mode :: await_mode
  ao_idle_timeout_secs :: "32 word option"
  ao_on_idle_timeout :: timeout_policy
  ao_keep_losers :: bool

record agent_await_request =
  aq_target :: rstr
  aq_payload :: "8 word list"
  aq_correlation_id :: rstr
  aq_context :: "message_context option"

record component_await_request =
  cq_component_id :: rstr
  cq_correlation_id :: rstr

datatype await_request = AgentRequest agent_await_request | ComponentFinished component_await_request

datatype await_session_status = AwCompleted | AwPartialTimeout | AwFailedTimeout | AwCancelled | AwFailedDispatch

datatype reply_status = RpCompleted | RpTimedOut | RpCancelled | RpFailed rstr

record reply_result =
  rp_slot :: "32 word"
  rp_source :: rstr
  rp_payload :: "8 word list"
  rp_status :: reply_status
  rp_received_at :: instant
  rp_task_id :: "rstr option"

record await_result =
  aw_session_id :: rstr
  aw_mode :: await_mode
  aw_replies :: "reply_result list"
  aw_status :: await_session_status
  aw_ended_at :: instant

section \<open>One session (session.rs, detach.rs)\<close>

datatype session_status = SsOpen | SsCompleted | SsTimedOut | SsCancelled

datatype record_reply_error = OutOfBounds | AlreadyRecorded

record await_session =
  as_id :: rstr
  as_parent_session :: "rstr option"
  as_agent_id :: rstr
  as_caller_run_id :: "rstr option"
  as_options :: await_options
  as_expected :: "await_request list"
  as_received :: "reply_result option list"
  as_status :: session_status
  as_created_at :: nat
  as_last_activity :: nat

definition new_session :: "rstr \<Rightarrow> rstr \<Rightarrow> await_options \<Rightarrow> await_request list \<Rightarrow> nat \<Rightarrow> await_session" where
  "new_session sid agent options expected time =
     \<lparr>as_id = sid, as_parent_session = None, as_agent_id = agent, as_caller_run_id = None, as_options = options,
      as_expected = expected, as_received = replicate (length expected) None, as_status = SsOpen,
      as_created_at = time, as_last_activity = time\<rparr>"

definition cancel_session :: "await_session \<Rightarrow> await_session" where
  "cancel_session s = s\<lparr>as_status := SsCancelled\<rparr>"

definition record_reply :: "32 word \<Rightarrow> reply_result \<Rightarrow> await_session \<Rightarrow> record_reply_error + await_session" where
  "record_reply slot reply s =
     (let idx = unat slot in
      if idx \<ge> length (as_received s) then Inl OutOfBounds
      else if as_received s ! idx \<noteq> None then Inl AlreadyRecorded
      else Inr (s\<lparr>as_received := (as_received s)[idx := Some reply]\<rparr>))"

definition won :: "reply_result option \<Rightarrow> bool" where
  "won r \<longleftrightarrow> (case r of Some rr \<Rightarrow> rp_status rr = RpCompleted | None \<Rightarrow> False)"

definition is_complete :: "await_session \<Rightarrow> bool" where
  "is_complete s =
     (case ao_mode (as_options s) of
        AllOf \<Rightarrow> list_all (\<lambda>r. r \<noteq> None) (as_received s)
      | AnyOf \<Rightarrow> list_ex won (as_received s))"

text \<open>The target of a slot as the replies name it.\<close>

fun expected_source :: "await_request \<Rightarrow> rstr" where
  "expected_source (AgentRequest q) = aq_target q"
| "expected_source (ComponentFinished q) = lit ''component:'' @ cq_component_id q"

fun await_request_task_id :: "await_request \<Rightarrow> rstr option" where
  "await_request_task_id (AgentRequest q) = Option.bind (aq_context q) mc_task_id"
| "await_request_task_id (ComponentFinished q) = None"

definition nth_opt :: "'a list \<Rightarrow> nat \<Rightarrow> 'a option" where
  "nth_opt xs i = (if i < length xs then Some (xs ! i) else None)"

definition materialize_detached_loser :: "await_request option \<Rightarrow> 32 word \<Rightarrow> instant \<Rightarrow> reply_result" where
  "materialize_detached_loser req slot time =
     \<lparr>rp_slot = slot, rp_source = (case req of Some q \<Rightarrow> expected_source q | None \<Rightarrow> []), rp_payload = [],
      rp_status = RpCancelled, rp_received_at = time, rp_task_id = Option.bind req await_request_task_id\<rparr>"

definition snapshot_replies_all :: "await_session \<Rightarrow> reply_result list" where
  "snapshot_replies_all s = List.map_filter id (as_received s)"

definition snapshot_replies :: "instant \<Rightarrow> await_session \<Rightarrow> reply_result list" where
  "snapshot_replies time s =
     (case (ao_mode (as_options s), ao_keep_losers (as_options s)) of
        (AnyOf, False) \<Rightarrow> filter (\<lambda>rr. rp_status rr = RpCompleted) (List.map_filter id (as_received s))
      | (AnyOf, True) \<Rightarrow>
          map (\<lambda>(idx, slot). case slot of
                 Some rr \<Rightarrow> rr
               | None \<Rightarrow> materialize_detached_loser (nth_opt (as_expected s) idx) (of_nat idx) time)
            (enumerate 0 (as_received s))
      | (AllOf, _) \<Rightarrow> List.map_filter id (as_received s))"

definition timed_out_reply :: "await_session \<Rightarrow> instant \<Rightarrow> nat \<Rightarrow> reply_result" where
  "timed_out_reply s time idx =
     \<lparr>rp_slot = of_nat idx,
      rp_source = (case nth_opt (as_expected s) idx of Some q \<Rightarrow> expected_source q | None \<Rightarrow> []),
      rp_payload = [], rp_status = RpTimedOut, rp_received_at = time, rp_task_id = None\<rparr>"

definition fill_unresolved_as_timed_out :: "instant \<Rightarrow> await_session \<Rightarrow> await_session" where
  "fill_unresolved_as_timed_out time s =
     s\<lparr>as_received := map (\<lambda>(idx, slot). case slot of None \<Rightarrow> Some (timed_out_reply s time idx) | Some rr \<Rightarrow> Some rr)
                        (enumerate 0 (as_received s)),
       as_status := SsTimedOut\<rparr>"

fun status_projection :: "session_status \<Rightarrow> await_session_status" where
  "status_projection SsOpen = AwCompleted"
| "status_projection SsCompleted = AwCompleted"
| "status_projection SsTimedOut = AwPartialTimeout"
| "status_projection SsCancelled = AwCancelled"

definition projected_status :: "await_session \<Rightarrow> await_session_status" where
  "projected_status s = status_projection (as_status s)"

section \<open>Errors (error.rs)\<close>

datatype admission_error =
    AdCapabilityDenied rstr
  | AdSessionLimitExceeded rstr
  | AdDeadlockAll rstr
  | AdInvalidRequest rstr

datatype dispatch_slot_error =
    DsInvalidTarget rstr
  | DsMailboxFull rstr
  | DsCircuitBreakerOpen rstr
  | DsCapabilityDenied rstr
  | DsInvalidPayload rstr
  | DsDeadlock rstr

fun classify_admission :: "admission_error \<Rightarrow> orchestration_error" where
  "classify_admission (AdCapabilityDenied s) = CapabilityDenied s"
| "classify_admission (AdSessionLimitExceeded s) = SessionLimitExceeded s"
| "classify_admission (AdDeadlockAll s) = DeadlockDetected s"
| "classify_admission (AdInvalidRequest s) = InvalidRequest s"

fun classify_dispatch :: "rstr \<Rightarrow> msg_error \<Rightarrow> dispatch_slot_error" where
  "classify_dispatch target (MsgInvalidTarget s) = DsInvalidTarget s"
| "classify_dispatch target MsgMailboxFull = DsMailboxFull target"
| "classify_dispatch target (MsgCircuitBreakerOpen s) = DsCircuitBreakerOpen s"
| "classify_dispatch target (MsgCapabilityDenied s) = DsCapabilityDenied s"
| "classify_dispatch target (MsgInvalidPayload s) = DsInvalidPayload s"

definition MAX_REASON_LEN :: nat where "MAX_REASON_LEN = 256"

definition is_ascii_control :: "rchar \<Rightarrow> bool" where
  "is_ascii_control c \<longleftrightarrow> c \<le> 0x1F \<or> c = 0x7F"

fun slot_error_parts :: "dispatch_slot_error \<Rightarrow> rstr \<times> rstr" where
  "slot_error_parts (DsInvalidTarget t) = (lit ''invalid-target'', t)"
| "slot_error_parts (DsMailboxFull t) = (lit ''mailbox-full'', t)"
| "slot_error_parts (DsCircuitBreakerOpen t) = (lit ''circuit-breaker-open'', t)"
| "slot_error_parts (DsCapabilityDenied t) = (lit ''capability-denied'', t)"
| "slot_error_parts (DsInvalidPayload t) = (lit ''invalid-payload'', t)"
| "slot_error_parts (DsDeadlock t) = (lit ''deadlock'', t)"

definition format_per_slot_reason :: "dispatch_slot_error \<Rightarrow> rstr" where
  "format_per_slot_reason err =
     (let (kind, t) = slot_error_parts err
      in kind @ [colon] @ take (MAX_REASON_LEN - (str_len kind + 1)) (filter (\<lambda>c. \<not> is_ascii_control c) t))"

definition sanitize_for_error :: "rstr \<Rightarrow> rstr" where
  "sanitize_for_error s = take MAX_REASON_LEN (filter (\<lambda>c. \<not> is_ascii_control c) s)"

section \<open>The ancestry walk (deadlock.rs)\<close>

record ancestry = tree_snapshot +
  ts_parent_of :: "(rstr, rstr option) hmap"

definition max_hops :: "ancestry \<Rightarrow> nat" where
  "max_hops snapshot = max (length (ts_nodes snapshot)) (length (ts_parent_of snapshot))"

fun cycle_walk :: "nat \<Rightarrow> ancestry \<Rightarrow> rstr \<Rightarrow> rstr \<Rightarrow> bool" where
  "cycle_walk 0 snapshot current target = False"
| "cycle_walk (Suc n) snapshot current target =
     (case map_of (ts_parent_of snapshot) current of
        None \<Rightarrow> False
      | Some None \<Rightarrow> False
      | Some (Some parent) \<Rightarrow> if parent = target then True else cycle_walk n snapshot parent target)"

definition forms_cycle :: "ancestry \<Rightarrow> rstr \<Rightarrow> rstr \<Rightarrow> bool" where
  "forms_cycle snapshot caller target =
     (if target = caller then True else cycle_walk (max_hops snapshot) snapshot caller target)"

fun path_walk :: "nat \<Rightarrow> ancestry \<Rightarrow> rstr \<Rightarrow> rstr \<Rightarrow> rstr list \<Rightarrow> rstr list" where
  "path_walk 0 snapshot current target path = path"
| "path_walk (Suc n) snapshot current target path =
     (case map_of (ts_parent_of snapshot) current of
        None \<Rightarrow> path
      | Some None \<Rightarrow> path
      | Some (Some parent) \<Rightarrow>
          if parent = target then path @ [parent] else path_walk n snapshot parent target (path @ [parent]))"

definition cycle_path :: "ancestry \<Rightarrow> rstr \<Rightarrow> rstr \<Rightarrow> rstr list" where
  "cycle_path snapshot caller target =
     (if target = caller then [caller] else path_walk (max_hops snapshot) snapshot caller target [caller])"

section \<open>Events (events.rs)\<close>

text \<open>The events of the manager carry an empty trace.\<close>

definition await_event :: "string \<Rightarrow> rstr \<Rightarrow> rstr option \<Rightarrow> json \<Rightarrow> run_event" where
  "await_event ty agent run_id payload = (base_event ty run_id None agent payload)\<lparr>re_trace_id := Some []\<rparr>"

definition json_opt_str :: "rstr option \<Rightarrow> json" where
  "json_opt_str x = (case x of Some s \<Rightarrow> JString s | None \<Rightarrow> JNull)"

text \<open>The progress event takes its envelope from the calling context.\<close>

definition build_await_progress_event :: "rstr \<Rightarrow> rstr option \<Rightarrow> rstr \<Rightarrow> rstr \<Rightarrow> rstr \<Rightarrow> rstr option \<Rightarrow> run_event" where
  "build_await_progress_event agent run_id trace_id sid target progress =
     (base_event ''orchestration.await_progress'' run_id None agent
        (JObject [(lit ''session_id'', JString sid), (lit ''target'', JString target),
                  (lit ''progress'', json_opt_str progress)]))\<lparr>re_trace_id := Some trace_id\<rparr>"

definition build_deadlock_rejected_event :: "rstr \<Rightarrow> rstr option \<Rightarrow> rstr list \<Rightarrow> rstr list \<Rightarrow> run_event" where
  "build_deadlock_rejected_event requester run_id targets cycle =
     await_event ''orchestration.deadlock_rejected'' requester run_id
       (JObject [(lit ''requester'', JString requester), (lit ''targets'', JArray (map JString targets)),
                 (lit ''cycle'', JArray (map JString cycle))])"

definition build_idle_timeout_event :: "rstr \<Rightarrow> rstr option \<Rightarrow> rstr \<Rightarrow> rstr \<Rightarrow> 32 word \<Rightarrow> run_event" where
  "build_idle_timeout_event agent run_id sid target idle_seconds =
     await_event ''orchestration.await_idle_timeout'' agent run_id
       (JObject [(lit ''session_id'', JString sid), (lit ''target'', JString target),
                 (lit ''idle_seconds'', JNumber (PosInt (unat idle_seconds)))])"

definition build_await_started_event :: "rstr \<Rightarrow> rstr option \<Rightarrow> rstr \<Rightarrow> rstr \<Rightarrow> nat \<Rightarrow> run_event" where
  "build_await_started_event agent run_id sid mode target_count =
     await_event ''orchestration.await_started'' agent run_id
       (JObject [(lit ''session_id'', JString sid), (lit ''mode'', JString mode),
                 (lit ''targets'', JNumber (PosInt target_count))])"

definition build_await_satisfied_event :: "rstr \<Rightarrow> rstr option \<Rightarrow> rstr \<Rightarrow> rstr \<Rightarrow> nat \<Rightarrow> run_event" where
  "build_await_satisfied_event agent run_id sid mode reply_count =
     await_event ''orchestration.await_satisfied'' agent run_id
       (JObject [(lit ''session_id'', JString sid), (lit ''mode'', JString mode),
                 (lit ''replies'', JNumber (PosInt reply_count))])"

definition build_await_session_closed_event :: "rstr \<Rightarrow> rstr option \<Rightarrow> rstr \<Rightarrow> rstr \<Rightarrow> run_event" where
  "build_await_session_closed_event agent run_id sid reason =
     await_event ''orchestration.await_session_closed'' agent run_id
       (JObject [(lit ''session_id'', JString sid), (lit ''reason'', JString reason)])"

definition build_reply_late_event :: "rstr \<Rightarrow> rstr option \<Rightarrow> rstr \<Rightarrow> 32 word \<Rightarrow> run_event" where
  "build_reply_late_event source run_id sid slot =
     await_event ''orchestration.reply_late'' source run_id
       (JObject [(lit ''session_id'', JString sid), (lit ''source'', JString source),
                 (lit ''slot'', JNumber (PosInt (unat slot)))])"

end
