(* ===== verification/AwaitManager.thy ===== *)
theory AwaitManager
  imports AwaitData "HOL-Library.Multiset"
begin

text \<open>
  \<open>messaging/reply-tracker/src/manager.rs\<close>, \<open>dispatch.rs\<close>, \<open>idle.rs\<close> and \<open>component_resolution.rs\<close>: the await-session
  manager.

  The manager keeps three maps under three locks (sessions, open sessions per caller, idle clocks), and each call
  takes them one after the other. A call is a task: its program counter (\<open>pc\<close>) names the next critical section with
  the values the call carries there, and \<open>exec\<close> runs that section. A configuration is the manager with the tasks
  started so far, and \<open>await_step\<close> lets any task run its next section, so every interleaving of the sections of any
  number of calls is a sequence of steps. The one-shot channel of a call is named by the index of its task; what was
  sent on it is recorded in \<open>am_sent\<close>.
\<close>

section \<open>Limits and options\<close>

definition MAX_INFLIGHT :: nat where "MAX_INFLIGHT = 3"
definition MAX_IDLE_TIMEOUT_DEFAULT_SEC :: "32 word" where "MAX_IDLE_TIMEOUT_DEFAULT_SEC = 600"
definition MAX_FANOUT :: nat where "MAX_FANOUT = 32"
definition MAX_IDLE_TIMEOUT_SECS_CAP :: "32 word" where "MAX_IDLE_TIMEOUT_SECS_CAP = 3600"
definition MAX_SESSIONS_GLOBAL :: nat where "MAX_SESSIONS_GLOBAL = 1024"
definition MAX_PAYLOAD_BYTES :: nat where "MAX_PAYLOAD_BYTES = 64 * 1024"
definition MAX_OPAQUE_ID_BYTES :: nat where "MAX_OPAQUE_ID_BYTES = 256"

record capability_config =
  cc_targets :: "rstr list option"
  cc_max_fanout :: "nat option"
  cc_max_inflight :: "nat option"
  cc_max_idle_timeout_secs :: "32 word option"
  cc_max_depth :: "32 word option"

text \<open>The optional collaborators are flags here; what they answer is read from the environment.\<close>

record manager_options =
  mo_max_inflight :: nat
  mo_idle_timeout_default_sec :: "32 word"
  mo_cap_check :: "rstr \<Rightarrow> bool"
  mo_agent_tree :: bool
  mo_capability :: capability_config
  mo_session_context :: bool
  mo_event_emitter :: bool
  mo_id_bridge :: "rstr \<Rightarrow> rstr option"

definition default_options :: manager_options where
  "default_options =
     \<lparr>mo_max_inflight = MAX_INFLIGHT, mo_idle_timeout_default_sec = MAX_IDLE_TIMEOUT_DEFAULT_SEC,
      mo_cap_check = (\<lambda>_. True), mo_agent_tree = False,
      mo_capability = \<lparr>cc_targets = None, cc_max_fanout = None, cc_max_inflight = None,
                        cc_max_idle_timeout_secs = None, cc_max_depth = None\<rparr>,
      mo_session_context = False, mo_event_emitter = False, mo_id_bridge = (\<lambda>_. None)\<rparr>"

section \<open>State and environment\<close>

record liveness_rec =
  lv_last_activity :: nat
  lv_idle_timeout_secs :: "32 word"

type_synonym session_entry = "await_session \<times> nat"
type_synonym session_map = "(rstr, session_entry) hmap"
type_synonym await_outcome = "orchestration_error + await_result"

text \<open>\<open>am_delivered\<close> is the sequence of messages handed to the mailbox dispatcher.\<close>

record await_manager =
  am_sessions :: session_map
  am_counts :: "(rstr, nat) hmap"
  am_liveness :: "(rstr, liveness_rec) hmap"
  am_bus :: "run_event list"
  am_sent :: "(nat \<times> await_outcome) list"
  am_delivered :: "message list"

definition await_manager_new :: await_manager where
  "await_manager_new =
     \<lparr>am_sessions = [], am_counts = [], am_liveness = [], am_bus = [], am_sent = [], am_delivered = []\<rparr>"

record readings =
  rd_utc :: instant
  rd_instant :: nat
  rd_uuid :: rstr
  rd_deliver :: "rstr \<Rightarrow> message \<Rightarrow> msg_error option"
  rd_snapshot :: ancestry
  rd_current_session :: "rstr \<Rightarrow> rstr option"
  rd_order :: "session_map \<Rightarrow> session_map"

text \<open>The order in which the session map is iterated is the hasher's: any arrangement of its entries.\<close>

definition iteration :: "readings \<Rightarrow> session_map \<Rightarrow> session_map" where
  "iteration E ss = (if mset (rd_order E ss) = mset ss then rd_order E ss else ss)"

lemma set_iteration [simp]: "set (iteration E ss) = set ss"
  by (auto simp: iteration_def dest: mset_eq_setD)

text \<open>A call of \<open>start_with_run_inner\<close>. The session id is the one minted for the call, by its caller or by the
  factory.\<close>

record start_call =
  sc_caller :: rstr
  sc_run_id :: "rstr option"
  sc_requests :: "await_request list"
  sc_options :: await_options
  sc_id :: rstr

section \<open>Helpers\<close>

definition is_safe_opaque_id :: "rstr \<Rightarrow> bool" where
  "is_safe_opaque_id s \<longleftrightarrow>
     s \<noteq> [] \<and> str_len s \<le> MAX_OPAQUE_ID_BYTES \<and>
     list_all (\<lambda>c. is_ascii_alphanumeric c \<or> c = 95 \<or> c = 45 \<or> c = 46) s"

definition bare_agent_name :: "rstr \<Rightarrow> rstr" where
  "bare_agent_name s = (case strip_prefix (lit ''agent:'') s of Some b \<Rightarrow> b | None \<Rightarrow> s)"

fun await_mode_kebab :: "await_mode \<Rightarrow> rstr" where
  "await_mode_kebab AllOf = lit ''all-of''"
| "await_mode_kebab AnyOf = lit ''any-of''"

definition agent_target :: "rstr \<Rightarrow> bool" where
  "agent_target t \<longleftrightarrow> is_safe_id t \<and> prefix (lit ''agent:'') t"

definition count_of :: "(rstr, nat) hmap \<Rightarrow> rstr \<Rightarrow> nat" where
  "count_of counts caller = unwrap_or (map_of counts caller) 0"

definition decrement_caller_count :: "rstr \<Rightarrow> (rstr, nat) hmap \<Rightarrow> (rstr, nat) hmap" where
  "decrement_caller_count caller counts =
     (case map_of counts caller of
        Some n \<Rightarrow> if n \<le> 1 then AList.delete caller counts else AList.update caller (n - 1) counts
      | None \<Rightarrow> counts)"

definition evict_liveness :: "rstr \<Rightarrow> await_manager \<Rightarrow> await_manager" where
  "evict_liveness sid m = m\<lparr>am_liveness := AList.delete sid (am_liveness m)\<rparr>"

definition reset_liveness :: "nat \<Rightarrow> rstr \<Rightarrow> await_manager \<Rightarrow> await_manager" where
  "reset_liveness time sid m =
     m\<lparr>am_liveness := AList.map_entry sid (\<lambda>r. r\<lparr>lv_last_activity := time\<rparr>) (am_liveness m)\<rparr>"

definition emit_all :: "manager_options \<Rightarrow> run_event list \<Rightarrow> await_manager \<Rightarrow> await_manager" where
  "emit_all cfg evs m = (if mo_event_emitter cfg then m\<lparr>am_bus := am_bus m @ evs\<rparr> else m)"

definition canonical_sender :: "manager_options \<Rightarrow> rstr \<Rightarrow> rstr" where
  "canonical_sender cfg source =
     (case mo_id_bridge cfg source of
        Some mailbox \<Rightarrow> mailbox
      | None \<Rightarrow> if prefix (lit ''agent:'') source \<or> source = lit ''system'' then source else lit ''agent:'' @ source)"

text \<open>The walk of \<open>compute_depth_in_map\<close>.\<close>

fun depth_walk :: "nat \<Rightarrow> session_map \<Rightarrow> rstr \<Rightarrow> 32 word \<Rightarrow> 32 word" where
  "depth_walk 0 ss current depth = depth"
| "depth_walk (Suc n) ss current depth =
     (case map_of ss current of
        Some (s, _) \<Rightarrow>
          (case as_parent_session s of Some p \<Rightarrow> depth_walk n ss p (sat_add depth 1) | None \<Rightarrow> depth)
      | None \<Rightarrow> depth)"

definition compute_depth_in_map :: "session_map \<Rightarrow> rstr \<Rightarrow> 32 word" where
  "compute_depth_in_map ss sid = depth_walk (length ss + 1) ss sid 1"

section \<open>Admission (start_with_run_inner, before any lock)\<close>

definition invalid :: "string \<Rightarrow> admission_error" where
  "invalid s = AdInvalidRequest (lit s)"

definition slot_invalid :: "nat \<Rightarrow> string \<Rightarrow> admission_error" where
  "slot_invalid idx s = AdInvalidRequest (lit ''slot '' @ u64_to_string idx @ lit s)"

fun request_error :: "nat \<times> await_request \<Rightarrow> admission_error option" where
  "request_error (idx, AgentRequest q) =
     (if length (aq_payload q) > MAX_PAYLOAD_BYTES
      then Some (slot_invalid idx '' payload.len() > MAX_PAYLOAD_BYTES (65536)'')
      else if \<not> is_safe_opaque_id (aq_correlation_id q)
      then Some (slot_invalid idx '' correlation_id is not a safe opaque id'')
      else None)"
| "request_error (idx, ComponentFinished q) =
     (if \<not> is_safe_opaque_id (cq_component_id q)
      then Some (slot_invalid idx '' component_id is not a safe opaque id'')
      else if \<not> is_safe_opaque_id (cq_correlation_id q)
      then Some (slot_invalid idx '' correlation_id is not a safe opaque id'')
      else None)"

text \<open>Slots whose target is an agent, with their index: the population of the reply routing.\<close>

definition agent_slots :: "await_request list \<Rightarrow> (nat \<times> rstr) list" where
  "agent_slots requests =
     List.map_filter (\<lambda>(idx, q). case q of
         AgentRequest a \<Rightarrow> if agent_target (aq_target a) then Some (idx, aq_target a) else None
       | ComponentFinished _ \<Rightarrow> None) (enumerate 0 requests)"

fun duplicate_target :: "rstr list \<Rightarrow> rstr list \<Rightarrow> rstr option" where
  "duplicate_target seen [] = None"
| "duplicate_target seen (t # ts) =
     (let bare = bare_agent_name t
      in if bare \<in> set seen then Some bare else duplicate_target (bare # seen) ts)"

definition check_duplicates :: "await_request list \<Rightarrow> admission_error + unit" where
  "check_duplicates requests =
     (case duplicate_target [] (map snd (agent_slots requests)) of
        Some bare \<Rightarrow> Inl (AdInvalidRequest (lit ''single-pending-target constraint: duplicate await target '' @
                      [39] @ lit ''agent:'' @ bare @ [39] @ lit '' - a send reply has no correlation-id to '' @
                      lit ''disambiguate two pending slots for the same agent''))
      | None \<Rightarrow> Inr ())"

definition check_basic :: "rstr \<Rightarrow> await_request list \<Rightarrow> admission_error + unit" where
  "check_basic caller requests =
     (if \<not> is_safe_id (lit ''agent:'' @ caller) then Inl (invalid ''caller is not a safe agent id body'')
      else if requests = [] then Inl (invalid ''empty requests'')
      else if length requests > MAX_FANOUT then Inl (invalid ''requests.len() > MAX_FANOUT (32)'')
      else Inr ())"

definition check_timeout :: "await_options \<Rightarrow> admission_error + unit" where
  "check_timeout options =
     (case ao_idle_timeout_secs options of
        Some secs \<Rightarrow> if secs > MAX_IDLE_TIMEOUT_SECS_CAP
                     then Inl (invalid ''idle_timeout_secs > MAX_IDLE_TIMEOUT_SECS_CAP (3600)'') else Inr ()
      | None \<Rightarrow> Inr ())"

definition target_denied :: "rstr list \<Rightarrow> await_request \<Rightarrow> admission_error option" where
  "target_denied allow q =
     (case q of
        AgentRequest a \<Rightarrow>
          if is_safe_id (aq_target a) \<and> bare_agent_name (aq_target a) \<notin> set allow
          then Some (AdCapabilityDenied (lit ''target '' @ aq_target a @ lit '' not in capability allowlist''))
          else None
      | ComponentFinished _ \<Rightarrow> None)"

definition check_targets :: "manager_options \<Rightarrow> await_request list \<Rightarrow> admission_error + unit" where
  "check_targets cfg requests =
     (case cc_targets (mo_capability cfg) of
        Some allow \<Rightarrow> check_each (target_denied allow) requests
      | None \<Rightarrow> Inr ())"

definition check_fanout :: "manager_options \<Rightarrow> await_request list \<Rightarrow> admission_error + unit" where
  "check_fanout cfg requests =
     (case cc_max_fanout (mo_capability cfg) of
        Some n \<Rightarrow> if length requests > n
                  then Inl (AdInvalidRequest (lit ''requests.len() ('' @ u64_to_string (length requests) @
                            lit '') > capability max_fanout ('' @ u64_to_string n @ lit '')''))
                  else Inr ()
      | None \<Rightarrow> Inr ())"

definition check_idle_cap :: "manager_options \<Rightarrow> await_options \<Rightarrow> admission_error + unit" where
  "check_idle_cap cfg options =
     (case (cc_max_idle_timeout_secs (mo_capability cfg), ao_idle_timeout_secs options) of
        (Some max_idle, Some req_idle) \<Rightarrow>
          if req_idle > max_idle then Inl (invalid ''capability:max-idle-timeout-exceeded'') else Inr ()
      | _ \<Rightarrow> Inr ())"

text \<open>The deadlock gate: the indices of the cyclic slots, and the targets with their paths for the event.\<close>

record deadlock_gate =
  dg_slots :: "nat list"
  dg_emit :: "(rstr \<times> rstr list) list"

definition deadlock_check :: "manager_options \<Rightarrow> ancestry \<Rightarrow> rstr \<Rightarrow> await_request list \<Rightarrow> admission_error + deadlock_gate" where
  "deadlock_check cfg snapshot caller requests =
     (if mo_agent_tree cfg then
        (let slots = agent_slots requests;
             cyclic = filter (\<lambda>(idx, t). forms_cycle snapshot caller (bare_agent_name t)) slots
         in if slots \<noteq> [] \<and> length cyclic = length slots
            then Inl (AdDeadlockAll (lit ''all targets would create an AwaitSession cycle''))
            else Inr \<lparr>dg_slots = map fst cyclic,
                      dg_emit = map (\<lambda>(idx, t). (t, cycle_path snapshot caller (bare_agent_name t))) cyclic\<rparr>)
      else Inr \<lparr>dg_slots = [], dg_emit = []\<rparr>)"

definition admission :: "manager_options \<Rightarrow> ancestry \<Rightarrow> start_call \<Rightarrow> admission_error + deadlock_gate" where
  "admission cfg snapshot c =
     rbind (check_basic (sc_caller c) (sc_requests c)) (\<lambda>_.
     rbind (check_each request_error (enumerate 0 (sc_requests c))) (\<lambda>_.
     rbind (check_duplicates (sc_requests c)) (\<lambda>_.
     rbind (check_timeout (sc_options c)) (\<lambda>_.
     rbind (if mo_cap_check cfg (sc_caller c) then Inr () else Inl (AdCapabilityDenied (sc_caller c))) (\<lambda>_.
     rbind (check_targets cfg (sc_requests c)) (\<lambda>_.
     rbind (check_fanout cfg (sc_requests c)) (\<lambda>_.
     rbind (check_idle_cap cfg (sc_options c)) (\<lambda>_.
       deadlock_check cfg snapshot (sc_caller c) (sc_requests c)))))))))"

section \<open>The sections of start\<close>

definition global_cap_block :: "await_manager \<Rightarrow> admission_error + unit" where
  "global_cap_block m =
     (if length (am_sessions m) \<ge> MAX_SESSIONS_GLOBAL
      then Inl (AdSessionLimitExceeded (lit ''global cap 1024 reached'')) else Inr ())"

definition owned_by :: "session_map \<Rightarrow> rstr \<Rightarrow> rstr \<Rightarrow> bool" where
  "owned_by ss caller sid \<longleftrightarrow> (case map_of ss sid of Some (s, _) \<Rightarrow> as_agent_id s = caller | None \<Rightarrow> False)"

text \<open>The parent is kept only if it is present and belongs to the caller; then the depth limit applies.\<close>

definition parent_block :: "manager_options \<Rightarrow> readings \<Rightarrow> start_call \<Rightarrow> await_manager \<Rightarrow> admission_error + rstr option" where
  "parent_block cfg E c m =
     (if (case sc_run_id c of Some r \<Rightarrow> \<not> is_safe_opaque_id r | None \<Rightarrow> False)
      then Inl (invalid ''caller_run_id is not a safe opaque id'')
      else
        (let raw = (if mo_session_context cfg then Option.bind (sc_run_id c) (rd_current_session E) else None);
             (parent, depth) =
               (case raw of
                  Some p \<Rightarrow> if owned_by (am_sessions m) (sc_caller c) p
                            then (Some p, sat_add (compute_depth_in_map (am_sessions m) p) 1) else (None, 1)
                | None \<Rightarrow> (None, 1))
         in case cc_max_depth (mo_capability cfg) of
              Some max_d \<Rightarrow> if depth > max_d then Inl (AdCapabilityDenied (lit ''capability:max-depth-exceeded''))
                            else Inr parent
            | None \<Rightarrow> Inr parent))"

definition session_of_call :: "start_call \<Rightarrow> rstr option \<Rightarrow> nat \<Rightarrow> await_session" where
  "session_of_call c parent time =
     (new_session (sc_id c) (sc_caller c) (sc_options c) (sc_requests c) time)
       \<lparr>as_parent_session := parent, as_caller_run_id := sc_run_id c\<rparr>"

definition effective_max_inflight :: "manager_options \<Rightarrow> nat" where
  "effective_max_inflight cfg = unwrap_or (cc_max_inflight (mo_capability cfg)) (mo_max_inflight cfg)"

text \<open>The session id is checked and the session built before the count is taken.\<close>

definition count_block :: "manager_options \<Rightarrow> start_call \<Rightarrow> await_manager \<Rightarrow> (admission_error + unit) \<times> await_manager" where
  "count_block cfg c m =
     (if \<not> is_safe_id (lit ''agent:'' @ sc_id c) then (Inl (invalid ''session_id_factory produced a non-safe id''), m)
      else if count_of (am_counts m) (sc_caller c) \<ge> effective_max_inflight cfg
      then (Inl (AdSessionLimitExceeded (sc_caller c)), m)
      else (Inr (), m\<lparr>am_counts := AList.update (sc_caller c) (Suc (count_of (am_counts m) (sc_caller c))) (am_counts m)\<rparr>))"

definition effective_idle_timeout :: "manager_options \<Rightarrow> start_call \<Rightarrow> 32 word" where
  "effective_idle_timeout cfg c =
     (let secs = unwrap_or (ao_idle_timeout_secs (sc_options c)) (mo_idle_timeout_default_sec cfg)
      in case cc_max_idle_timeout_secs (mo_capability cfg) of Some cap \<Rightarrow> min secs cap | None \<Rightarrow> secs)"

definition insert_block :: "start_call \<Rightarrow> nat \<Rightarrow> await_session \<Rightarrow> await_manager \<Rightarrow> await_manager" where
  "insert_block c tok s m =
     (let keep = (case as_parent_session s of
                    Some p \<Rightarrow> if owned_by (am_sessions m) (sc_caller c) p then Some p else None
                  | None \<Rightarrow> None)
      in m\<lparr>am_sessions := AList.update (sc_id c) (s\<lparr>as_parent_session := keep\<rparr>, tok) (am_sessions m)\<rparr>)"

definition start_events :: "start_call \<Rightarrow> deadlock_gate \<Rightarrow> run_event list" where
  "start_events c g =
     (if dg_emit g \<noteq> []
      then [build_deadlock_rejected_event (sc_caller c) (sc_run_id c) (map fst (dg_emit g)) (snd (hd (dg_emit g)))] else []) @
     [build_await_started_event (sc_caller c) (sc_run_id c) (sc_id c) (await_mode_kebab (ao_mode (sc_options c)))
        (length (sc_requests c))]"

definition register_block :: "manager_options \<Rightarrow> nat \<Rightarrow> start_call \<Rightarrow> deadlock_gate \<Rightarrow> await_manager \<Rightarrow> await_manager" where
  "register_block cfg time c g m =
     emit_all cfg (start_events c g)
       (m\<lparr>am_liveness := AList.update (sc_id c)
            \<lparr>lv_last_activity = time, lv_idle_timeout_secs = effective_idle_timeout cfg c\<rparr> (am_liveness m)\<rparr>)"

text \<open>Dispatch: one message per agent slot that is neither cyclic nor malformed.\<close>

definition slot_tag :: "rstr \<Rightarrow> nat \<Rightarrow> rstr" where
  "slot_tag sid idx = lit ''session:'' @ sid @ lit '':slot:'' @ u64_to_string idx"

definition slot_message :: "rstr \<Rightarrow> rstr \<Rightarrow> nat \<Rightarrow> agent_await_request \<Rightarrow> message" where
  "slot_message caller sid idx q =
     \<lparr>mg_id = slot_tag sid idx, mg_from = lit ''agent:'' @ caller, mg_to = aq_target q, mg_payload = aq_payload q,
      mg_context = Some
        \<lparr>mc_task_id = Option.bind (aq_context q) mc_task_id, mc_run_id = Option.bind (aq_context q) mc_run_id,
         mc_execution_id = Option.bind (aq_context q) mc_execution_id, mc_trace_id = Option.bind (aq_context q) mc_trace_id,
         mc_in_reply_to = Some (slot_tag sid idx), mc_correlation_id = Some (aq_correlation_id q)\<rparr>\<rparr>"

definition dispatch_slot ::
    "(rstr \<Rightarrow> message \<Rightarrow> msg_error option) \<Rightarrow> rstr \<Rightarrow> rstr \<Rightarrow> nat list \<Rightarrow> nat \<times> await_request \<Rightarrow> message list \<times> dispatch_slot_error option" where
  "dispatch_slot deliver caller sid deadlock_slots p =
     (case p of
        (idx, AgentRequest q) \<Rightarrow>
          if idx \<in> set deadlock_slots then ([], Some (DsDeadlock (aq_target q)))
          else if \<not> is_safe_id (aq_target q) then ([], Some (DsInvalidTarget (aq_target q)))
          else let msg = slot_message caller sid idx q
               in ([msg], map_option (classify_dispatch (aq_target q)) (deliver (aq_target q) msg))
      | (idx, ComponentFinished _) \<Rightarrow> ([], None))"

definition dispatch_slots ::
    "(rstr \<Rightarrow> message \<Rightarrow> msg_error option) \<Rightarrow> rstr \<Rightarrow> await_request list \<Rightarrow> rstr \<Rightarrow> nat list \<Rightarrow> message list \<times> dispatch_slot_error option list" where
  "dispatch_slots deliver caller requests sid deadlock_slots =
     (let rs = map (dispatch_slot deliver caller sid deadlock_slots) (enumerate 0 requests)
      in (concat (map fst rs), map snd rs))"

definition failed_reply :: "start_call \<Rightarrow> instant \<Rightarrow> nat \<Rightarrow> dispatch_slot_error \<Rightarrow> reply_result" where
  "failed_reply c time idx err =
     \<lparr>rp_slot = of_nat idx, rp_source = expected_source (sc_requests c ! idx), rp_payload = [],
      rp_status = RpFailed (format_per_slot_reason err), rp_received_at = time, rp_task_id = None\<rparr>"

fun record_errors :: "start_call \<Rightarrow> instant \<Rightarrow> nat \<Rightarrow> dispatch_slot_error option list \<Rightarrow> await_session \<Rightarrow> await_session" where
  "record_errors c time idx [] s = s"
| "record_errors c time idx (None # rs) s = record_errors c time (Suc idx) rs s"
| "record_errors c time idx (Some err # rs) s =
     record_errors c time (Suc idx) rs
       (case record_reply (of_nat idx) (failed_reply c time idx err) s of Inr s' \<Rightarrow> s' | Inl _ \<Rightarrow> s)"

definition completed_result :: "rstr \<Rightarrow> instant \<Rightarrow> await_session \<Rightarrow> await_result" where
  "completed_result sid time s =
     \<lparr>aw_session_id = sid, aw_mode = ao_mode (as_options s), aw_replies = snapshot_replies time s,
      aw_status = AwCompleted, aw_ended_at = time\<rparr>"

definition satisfied_event :: "rstr \<Rightarrow> rstr option \<Rightarrow> rstr \<Rightarrow> await_result \<Rightarrow> run_event" where
  "satisfied_event caller run_id sid res =
     build_await_satisfied_event caller run_id sid (await_mode_kebab (aw_mode res)) (length (aw_replies res))"

section \<open>Resolving a session\<close>

text \<open>A task that took an entry out of the session map holds its channel. It still has to give back the caller's
  slot, emit its events and send the outcome.\<close>

record resolution =
  rs_token :: nat
  rs_caller :: rstr
  rs_events :: "run_event list"
  rs_outcome :: await_outcome

definition resolve_block :: "manager_options \<Rightarrow> resolution \<Rightarrow> await_manager \<Rightarrow> await_manager" where
  "resolve_block cfg r m =
     (let m' = emit_all cfg (rs_events r) m in m'\<lparr>am_sent := am_sent m' @ [(rs_token r, rs_outcome r)]\<rparr>)"

definition remove_session :: "rstr \<Rightarrow> await_manager \<Rightarrow> await_manager" where
  "remove_session sid m = m\<lparr>am_sessions := AList.delete sid (am_sessions m)\<rparr>"

subsection \<open>on_reply\<close>

text \<open>The checks before the slot is written, in their order.\<close>

definition reply_check :: "32 word \<Rightarrow> reply_result \<Rightarrow> await_session \<Rightarrow> orchestration_error + unit" where
  "reply_check slot reply s =
     (if rp_slot reply \<noteq> slot
      then Inl (InvalidRequest (lit ''reply.slot ('' @ u64_to_string (unat (rp_slot reply)) @
                lit '') does not match function slot parameter ('' @ u64_to_string (unat slot) @ lit '')''))
      else case nth_opt (as_expected s) (unat slot) of
             Some q \<Rightarrow>
               if rp_source reply \<noteq> expected_source q
               then Inl (InvalidRequest (lit ''reply.source '' @ [39] @ sanitize_for_error (rp_source reply) @ [39] @
                         lit '' does not match expected '' @ [39] @ sanitize_for_error (expected_source q) @ [39] @
                         lit '' for slot '' @ u64_to_string (unat slot)))
               else (case q of
                       ComponentFinished _ \<Rightarrow>
                         if rp_payload reply \<noteq> []
                         then Inl (InvalidRequest (lit ''ComponentFinished slot '' @ u64_to_string (unat slot) @
                                   lit '' must be status-only (empty payload); got '' @
                                   u64_to_string (length (rp_payload reply)) @ lit '' bytes''))
                         else Inr ()
                     | AgentRequest _ \<Rightarrow> Inr ())
           | None \<Rightarrow> Inr ())"

fun record_error_text :: "rstr \<Rightarrow> 32 word \<Rightarrow> record_reply_error \<Rightarrow> rstr" where
  "record_error_text sid slot OutOfBounds =
     lit ''slot '' @ u64_to_string (unat slot) @ lit '' out of bounds for session '' @ sid"
| "record_error_text sid slot AlreadyRecorded =
     lit ''slot '' @ u64_to_string (unat slot) @ lit '' already has a recorded reply for session '' @ sid @
     lit '' (overwrite forbidden)''"

text \<open>The section under the session lock: \<open>Inl\<close> an error, \<open>Inr None\<close> when the session stays open, \<open>Inr (Some r)\<close> when
  the reply completed it.\<close>

definition on_reply_block ::
    "manager_options \<Rightarrow> readings \<Rightarrow> rstr \<Rightarrow> 32 word \<Rightarrow> reply_result \<Rightarrow> await_manager \<Rightarrow> (orchestration_error + resolution option) \<times> await_manager" where
  "on_reply_block cfg E sid slot reply m =
     (case map_of (am_sessions m) sid of
        None \<Rightarrow> (Inl (SessionNotFound sid),
                 emit_all cfg [build_reply_late_event (sanitize_for_error (rp_source reply)) None sid slot] m)
      | Some (s, tok) \<Rightarrow>
          (case reply_check slot reply s of
             Inl e \<Rightarrow> (Inl e, m)
           | Inr _ \<Rightarrow>
              (case record_reply slot
                      (reply\<lparr>rp_task_id := Option.bind (nth_opt (as_expected s) (unat slot)) await_request_task_id\<rparr>) s of
                 Inl e \<Rightarrow> (Inl (InvalidRequest (record_error_text sid slot e)), m)
               | Inr s1 \<Rightarrow>
                  (let s2 = s1\<lparr>as_last_activity := rd_instant E\<rparr> in
                   if is_complete s2
                   then (let res = completed_result (as_id s2) (rd_utc E) s2
                         in (Inr (Some \<lparr>rs_token = tok, rs_caller = as_agent_id s2,
                                        rs_events = [satisfied_event (as_agent_id s2) (as_caller_run_id s2) sid res],
                                        rs_outcome = Inr res\<rparr>),
                             evict_liveness sid (remove_session sid m)))
                   else (Inr None,
                         reset_liveness (rd_instant E) sid
                           (m\<lparr>am_sessions := AList.update sid (s2, tok) (am_sessions m)\<rparr>))))))"

subsection \<open>close, the idle monitor and the dispatch failures\<close>

definition close_block :: "rstr \<Rightarrow> rstr \<Rightarrow> await_manager \<Rightarrow> (orchestration_error + resolution) \<times> await_manager" where
  "close_block sid reason m =
     (case map_of (am_sessions m) sid of
        None \<Rightarrow> (Inl (SessionNotFound sid), m)
      | Some (s, tok) \<Rightarrow>
          (Inr \<lparr>rs_token = tok, rs_caller = as_agent_id s,
                rs_events = [build_await_session_closed_event (as_agent_id s) (as_caller_run_id s) sid reason],
                rs_outcome = Inl (SessionClosed reason)\<rparr>,
           remove_session sid m))"

definition partial_result :: "instant \<Rightarrow> await_session \<Rightarrow> await_result" where
  "partial_result time s =
     \<lparr>aw_session_id = as_id s, aw_mode = ao_mode (as_options s),
      aw_replies = snapshot_replies_all (fill_unresolved_as_timed_out time s), aw_status = AwPartialTimeout,
      aw_ended_at = time\<rparr>"

definition idle_target :: "await_session \<Rightarrow> reply_result list \<Rightarrow> rstr" where
  "idle_target s replies =
     (case find (\<lambda>r. rp_status r = RpTimedOut) replies of Some r \<Rightarrow> rp_source r | None \<Rightarrow> as_agent_id s)"

text \<open>\<open>resolve_idle\<close>: when the session is gone its clock is removed in the same section.\<close>

definition idle_block :: "instant \<Rightarrow> rstr \<Rightarrow> 32 word \<Rightarrow> await_manager \<Rightarrow> resolution option \<times> await_manager" where
  "idle_block time sid idle_secs m =
     (case map_of (am_sessions m) sid of
        None \<Rightarrow> (None, evict_liveness sid m)
      | Some (s, tok) \<Rightarrow>
          (Some (case ao_on_idle_timeout (as_options s) of
                   FailOnTimeout \<Rightarrow>
                     \<lparr>rs_token = tok, rs_caller = as_agent_id s, rs_events = [],
                      rs_outcome = Inl (IdleTimeoutExceeded (lit ''idle-timeout''))\<rparr>
                 | ReturnPartial \<Rightarrow>
                     (let res = partial_result time s
                      in \<lparr>rs_token = tok, rs_caller = as_agent_id s,
                          rs_events = [build_idle_timeout_event (as_agent_id s) (as_caller_run_id s) (as_id s)
                                         (idle_target s (aw_replies res)) idle_secs],
                          rs_outcome = Inr res\<rparr>)),
           remove_session sid m))"

text \<open>A tick of \<open>idle_monitor_task\<close>: \<open>None\<close> the clock is gone, \<open>Some False\<close> not idle yet, \<open>Some True\<close> claimed.\<close>

definition monitor_block :: "nat \<Rightarrow> rstr \<Rightarrow> await_manager \<Rightarrow> bool option \<times> await_manager" where
  "monitor_block time sid m =
     (case map_of (am_liveness m) sid of
        None \<Rightarrow> (None, m)
      | Some r \<Rightarrow>
          if time - lv_last_activity r < unat (lv_idle_timeout_secs r) * 1000000000 then (Some False, m)
          else (Some True, evict_liveness sid m))"

text \<open>What the section that records the dispatch errors leaves to do.\<close>

datatype after_record = FallThrough | EarlyResolved await_result | AllSlotsFailed

definition record_block ::
    "start_call \<Rightarrow> instant \<Rightarrow> dispatch_slot_error option list \<Rightarrow> await_manager \<Rightarrow> after_record \<times> await_manager" where
  "record_block c time results m =
     (case map_of (am_sessions m) (sc_id c) of
        None \<Rightarrow> (FallThrough, m)
      | Some (s, tok) \<Rightarrow>
          (let s' = record_errors c time 0 results s;
               all_failed = list_all (\<lambda>r. r \<noteq> None) results
           in (if \<not> all_failed \<and> is_complete s' then EarlyResolved (completed_result (sc_id c) time s')
               else if all_failed then AllSlotsFailed else FallThrough,
               m\<lparr>am_sessions := AList.update (sc_id c) (s', tok) (am_sessions m)\<rparr>)))"

definition early_block :: "start_call \<Rightarrow> await_result \<Rightarrow> await_manager \<Rightarrow> resolution option \<times> await_manager" where
  "early_block c res m =
     (case map_of (am_sessions m) (sc_id c) of
        None \<Rightarrow> (None, m)
      | Some (s, tok) \<Rightarrow>
          (Some \<lparr>rs_token = tok, rs_caller = sc_caller c,
                 rs_events = [satisfied_event (sc_caller c) (sc_run_id c) (sc_id c) res], rs_outcome = Inr res\<rparr>,
           remove_session (sc_id c) m))"

definition all_failed_block :: "start_call \<Rightarrow> instant \<Rightarrow> await_manager \<Rightarrow> resolution option \<times> await_manager" where
  "all_failed_block c time m =
     (case map_of (am_sessions m) (sc_id c) of
        None \<Rightarrow> (None, m)
      | Some (s, tok) \<Rightarrow>
          (Some \<lparr>rs_token = tok, rs_caller = sc_caller c, rs_events = [],
                 rs_outcome = Inr \<lparr>aw_session_id = sc_id c, aw_mode = ao_mode (sc_options c),
                                   aw_replies = snapshot_replies_all s, aw_status = AwFailedDispatch,
                                   aw_ended_at = time\<rparr>\<rparr>,
           remove_session (sc_id c) m))"

section \<open>Routing of sends, component completions and heartbeats\<close>

definition pending_slots :: "await_session \<Rightarrow> rstr \<Rightarrow> (nat \<times> rstr) list" where
  "pending_slots s source_bare =
     List.map_filter (\<lambda>(i, q). case q of
         AgentRequest a \<Rightarrow>
           if prefix (lit ''agent:'') (aq_target a) \<and> bare_agent_name (aq_target a) = source_bare
              \<and> nth_opt (as_received s) i = Some None then Some (i, aq_target a) else None
       | ComponentFinished _ \<Rightarrow> None) (enumerate 0 (as_expected s))"

text \<open>The slots the routing looks at, as (creation time, slot, session, target), in the order of the map.\<close>

definition reply_candidates :: "session_map \<Rightarrow> rstr \<Rightarrow> rstr \<Rightarrow> (nat \<times> nat \<times> rstr \<times> rstr) list" where
  "reply_candidates ss owner source_bare =
     concat (map (\<lambda>(sid, s, _).
        if as_status s = SsOpen \<and> as_agent_id s = owner
        then map (\<lambda>(i, t). (as_created_at s, i, sid, t)) (pending_slots s source_bare) else []) ss)"

definition earlier :: "nat \<times> nat \<times> rstr \<times> rstr \<Rightarrow> nat \<times> nat \<times> rstr \<times> rstr \<Rightarrow> bool" where
  "earlier x y \<longleftrightarrow> fst x < fst y \<or> fst x = fst y \<and> fst (snd x) < fst (snd y)"

fun best_candidate :: "(nat \<times> nat \<times> rstr \<times> rstr) option \<Rightarrow> (nat \<times> nat \<times> rstr \<times> rstr) list \<Rightarrow> (nat \<times> nat \<times> rstr \<times> rstr) option" where
  "best_candidate best [] = best"
| "best_candidate best (x # xs) =
     best_candidate (case best of None \<Rightarrow> Some x | Some b \<Rightarrow> if earlier x b then Some x else best) xs"

definition find_reply_slot :: "session_map \<Rightarrow> rstr \<Rightarrow> rstr \<Rightarrow> (rstr \<times> 32 word \<times> rstr) option" where
  "find_reply_slot ss owner source =
     map_option (\<lambda>(_, i, sid, t). (sid, of_nat i, t))
       (best_candidate None (reply_candidates ss owner (bare_agent_name source)))"

definition routed_reply :: "32 word \<Rightarrow> rstr \<Rightarrow> 8 word list \<Rightarrow> instant \<Rightarrow> reply_result" where
  "routed_reply slot source payload time =
     \<lparr>rp_slot = slot, rp_source = source, rp_payload = payload, rp_status = RpCompleted, rp_received_at = time,
      rp_task_id = None\<rparr>"

definition send_message :: "manager_options \<Rightarrow> readings \<Rightarrow> rstr \<Rightarrow> rstr \<Rightarrow> 8 word list \<Rightarrow> message_context option \<Rightarrow> message" where
  "send_message cfg E source target payload context =
     \<lparr>mg_id = lit ''send:'' @ rd_uuid E, mg_from = canonical_sender cfg source, mg_to = target,
      mg_payload = payload, mg_context = context\<rparr>"

text \<open>The first unresolved slot of an open session that awaits the component.\<close>

definition component_slots :: "rstr \<Rightarrow> await_session \<Rightarrow> nat list" where
  "component_slots component_id s =
     List.map_filter (\<lambda>(i, q). case q of
         ComponentFinished cq \<Rightarrow>
           if cq_component_id cq = component_id \<and> \<not> (\<exists>r\<in>set_option (nth_opt (as_received s) i). r \<noteq> None)
           then Some i else None
       | AgentRequest _ \<Rightarrow> None) (enumerate 0 (as_expected s))"

definition find_component_slot :: "session_map \<Rightarrow> rstr \<Rightarrow> (rstr \<times> 32 word) option" where
  "find_component_slot ss component_id =
     (case concat (map (\<lambda>(sid, s, _). if as_status s = SsOpen then map (\<lambda>i. (sid, of_nat i)) (component_slots component_id s) else []) ss) of
        [] \<Rightarrow> None
      | p # _ \<Rightarrow> Some p)"

definition heartbeat_needle :: "rstr \<Rightarrow> rstr" where
  "heartbeat_needle agent = (if prefix (lit ''agent:'') agent then agent else lit ''agent:'' @ agent)"

definition heartbeat_sessions :: "session_map \<Rightarrow> rstr \<Rightarrow> rstr list" where
  "heartbeat_sessions ss needle =
     map fst (filter (\<lambda>(sid, s, _). as_status s = SsOpen \<and>
        list_ex (\<lambda>q. case q of AgentRequest a \<Rightarrow> aq_target a = needle | ComponentFinished _ \<Rightarrow> False) (as_expected s)) ss)"

section \<open>Queries (await_session_ref.rs)\<close>

text \<open>\<open>try_read\<close> fails while a writer holds the lock.\<close>

definition exists_best_effort :: "bool \<Rightarrow> await_manager \<Rightarrow> rstr \<Rightarrow> bool" where
  "exists_best_effort contended m sid \<longleftrightarrow> \<not> contended \<and> map_of (am_sessions m) sid \<noteq> None"

fun session_status_text :: "session_status \<Rightarrow> rstr" where
  "session_status_text SsOpen = lit ''open''"
| "session_status_text SsCompleted = lit ''completed''"
| "session_status_text SsTimedOut = lit ''timed-out''"
| "session_status_text SsCancelled = lit ''cancelled''"

definition walk_tree_best_effort :: "bool \<Rightarrow> await_manager \<Rightarrow> rstr \<Rightarrow> await_tree_summary option" where
  "walk_tree_best_effort contended m sid =
     (if contended then None
      else case map_of (am_sessions m) sid of
             None \<Rightarrow> None
           | Some (s, _) \<Rightarrow>
               (let received = of_nat (length (filter (\<lambda>r. r \<noteq> None) (as_received s)));
                    expected = of_nat (length (as_expected s))
                in Some \<lparr>at_depth = 1, at_total_sessions = 1,
                         at_pending_replies = (if received \<le> expected then expected - received else 0),
                         at_sessions = [\<lparr>ss_session_id = as_id s, ss_parent_session_id = as_parent_session s,
                            ss_agent_id = as_agent_id s, ss_mode = await_mode_kebab (ao_mode (as_options s)),
                            ss_expected = expected, ss_received = received,
                            ss_status = session_status_text (as_status s)\<rparr>]\<rparr>))"

section \<open>Calls and their sections\<close>

datatype call =
    StartCall start_call
  | ReplyCall rstr "32 word" reply_result
  | CloseCall rstr rstr
  | SendCall rstr rstr "8 word list" "message_context option"
  | ComponentCall rstr
  | HeartbeatCall rstr
  | MonitorTask rstr "32 word"

datatype answer =
    StartAnswer await_outcome
  | UnitAnswer "orchestration_error option"
  | SendAnswer "msg_error option"
  | ComponentAnswer "rstr option"
  | HeartbeatAnswer "rstr list"
  | TaskEnd

text \<open>Who called \<open>on_reply\<close> decides what becomes of its result.\<close>

datatype reply_origin = HostReply | SendReply | ComponentReply rstr

fun reply_answer :: "reply_origin \<Rightarrow> orchestration_error option \<Rightarrow> answer" where
  "reply_answer HostReply r = UnitAnswer r"
| "reply_answer SendReply r = SendAnswer None"
| "reply_answer (ComponentReply sid) r = ComponentAnswer (if r = None then Some sid else None)"

datatype pc =
    Begin
  | GlobalCap start_call deadlock_gate
  | FindParent start_call deadlock_gate
  | TakeSlot start_call deadlock_gate "rstr option"
  | InsertSession start_call deadlock_gate await_session
  | Register start_call deadlock_gate
  | Dispatch start_call deadlock_gate
  | Record start_call "dispatch_slot_error option list"
  | EarlyResolve start_call await_result
  | FailedDispatch start_call instant
  | Park start_call
  | Sleep rstr "32 word"
  | Claimed rstr "32 word"
  | OnReply reply_origin rstr "32 word" reply_result
  | Beat "rstr list" "rstr list"
  | Evict rstr resolution answer
  | Decrement resolution answer
  | Resolve resolution answer
  | Return answer

definition reject :: "admission_error \<Rightarrow> pc" where
  "reject e = Return (StartAnswer (Inl (classify_admission e)))"

text \<open>The first section of a call.\<close>

fun first_section :: "manager_options \<Rightarrow> readings \<Rightarrow> call \<Rightarrow> await_manager \<Rightarrow> pc \<times> await_manager" where
  "first_section cfg E (StartCall c) m =
     (case admission cfg (rd_snapshot E) c of Inl e \<Rightarrow> (reject e, m) | Inr g \<Rightarrow> (GlobalCap c g, m))"
| "first_section cfg E (ReplyCall sid slot reply) m = (OnReply HostReply sid slot reply, m)"
| "first_section cfg E (CloseCall sid reason) m =
     (case close_block sid reason m of
        (Inl e, m') \<Rightarrow> (Return (UnitAnswer (Some e)), m')
      | (Inr r, m') \<Rightarrow> (Evict sid r (UnitAnswer None), m'))"
| "first_section cfg E (SendCall source target payload context) m =
     (if \<not> is_safe_id target
      then (Return (SendAnswer (Some (MsgInvalidTarget (lit ''target is not a safe agent id'')))), m)
      else case find_reply_slot (iteration E (am_sessions m)) (bare_agent_name target) source of
             Some (sid, slot, t) \<Rightarrow> (OnReply SendReply sid slot (routed_reply slot t payload (rd_utc E)), m)
           | None \<Rightarrow>
               (let msg = send_message cfg E source target payload context
                in (Return (SendAnswer (rd_deliver E target msg)), m\<lparr>am_delivered := am_delivered m @ [msg]\<rparr>)))"
| "first_section cfg E (ComponentCall component_id) m =
     (case find_component_slot (iteration E (am_sessions m)) component_id of
        Some (sid, slot) \<Rightarrow>
          (OnReply (ComponentReply sid) sid slot
             (routed_reply slot (lit ''component:'' @ component_id) [] (rd_utc E)), m)
      | None \<Rightarrow> (Return (ComponentAnswer None), m))"
| "first_section cfg E (HeartbeatCall agent) m =
     (let ids = heartbeat_sessions (iteration E (am_sessions m)) (heartbeat_needle agent) in (Beat ids ids, m))"
| "first_section cfg E (MonitorTask sid secs) m = (Sleep sid secs, m)"

text \<open>A resolution, or the park point when another task has taken the session.\<close>

definition resolve_or_park :: "start_call \<Rightarrow> resolution option \<times> await_manager \<Rightarrow> pc \<times> await_manager" where
  "resolve_or_park c p =
     (case p of (Some r, m) \<Rightarrow> (Evict (sc_id c) r (StartAnswer (rs_outcome r)), m) | (None, m) \<Rightarrow> (Park c, m))"

text \<open>\<open>exec\<close> runs one section of the task with index \<open>tok\<close>; \<open>None\<close> when it has to wait or has ended. The third
  component lists the tasks it spawns; \<open>held\<close> says whether the sender of its channel still exists.\<close>

fun exec :: "manager_options \<Rightarrow> readings \<Rightarrow> bool \<Rightarrow> nat \<Rightarrow> call \<Rightarrow> pc \<Rightarrow> await_manager \<Rightarrow> (pc \<times> await_manager \<times> call list) option" where
  "exec cfg E held tok k Begin m = (case first_section cfg E k m of (p, m') \<Rightarrow> Some (p, m', []))"
| "exec cfg E held tok k (GlobalCap c g) m =
     Some (case global_cap_block m of Inl e \<Rightarrow> reject e | Inr _ \<Rightarrow> FindParent c g, m, [])"
| "exec cfg E held tok k (FindParent c g) m =
     Some (case parent_block cfg E c m of Inl e \<Rightarrow> reject e | Inr parent \<Rightarrow> TakeSlot c g parent, m, [])"
| "exec cfg E held tok k (TakeSlot c g parent) m =
     (case count_block cfg c m of
        (Inl e, m') \<Rightarrow> Some (reject e, m', [])
      | (Inr _, m') \<Rightarrow> Some (InsertSession c g (session_of_call c parent (rd_instant E)), m', []))"
| "exec cfg E held tok k (InsertSession c g s) m = Some (Register c g, insert_block c tok s m, [])"
| "exec cfg E held tok k (Register c g) m =
     Some (Dispatch c g, register_block cfg (rd_instant E) c g m, [MonitorTask (sc_id c) (effective_idle_timeout cfg c)])"
| "exec cfg E held tok k (Dispatch c g) m =
     (case dispatch_slots (rd_deliver E) (sc_caller c) (sc_requests c) (sc_id c) (dg_slots g) of
        (msgs, results) \<Rightarrow> Some (Record c results, m\<lparr>am_delivered := am_delivered m @ msgs\<rparr>, []))"
| "exec cfg E held tok k (Record c results) m =
     (case record_block c (rd_utc E) results m of
        (EarlyResolved res, m') \<Rightarrow> Some (EarlyResolve c res, m', [])
      | (AllSlotsFailed, m') \<Rightarrow> Some (FailedDispatch c (rd_utc E), m', [])
      | (FallThrough, m') \<Rightarrow> Some (Park c, m', []))"
| "exec cfg E held tok k (EarlyResolve c res) m =
     (case resolve_or_park c (early_block c res m) of (p, m') \<Rightarrow> Some (p, m', []))"
| "exec cfg E held tok k (FailedDispatch c time) m =
     (case resolve_or_park c (all_failed_block c time m) of (p, m') \<Rightarrow> Some (p, m', []))"
| "exec cfg E held tok k (Park c) m =
     (case map_of (am_sent m) tok of
        Some outcome \<Rightarrow> Some (Return (StartAnswer outcome), m, [])
      | None \<Rightarrow> if held then None
                else Some (Return (StartAnswer (Inl (SessionClosed (lit ''oneshot dropped'')))), m, []))"
| "exec cfg E held tok k (Sleep sid secs) m =
     (case monitor_block (rd_instant E) sid m of
        (None, m') \<Rightarrow> Some (Return TaskEnd, m', [])
      | (Some False, m') \<Rightarrow> Some (Sleep sid secs, m', [])
      | (Some True, m') \<Rightarrow> Some (Claimed sid secs, m', []))"
| "exec cfg E held tok k (Claimed sid secs) m =
     (case idle_block (rd_utc E) sid secs m of
        (None, m') \<Rightarrow> Some (Return TaskEnd, m', [])
      | (Some r, m') \<Rightarrow> Some (Evict sid r TaskEnd, m', []))"
| "exec cfg E held tok k (OnReply origin sid slot reply) m =
     (case on_reply_block cfg E sid slot reply m of
        (Inl e, m') \<Rightarrow> Some (Return (reply_answer origin (Some e)), m', [])
      | (Inr None, m') \<Rightarrow> Some (Return (reply_answer origin None), m', [])
      | (Inr (Some r), m') \<Rightarrow> Some (Decrement r (reply_answer origin None), m', []))"
| "exec cfg E held tok k (Beat all []) m = Some (Return (HeartbeatAnswer all), m, [])"
| "exec cfg E held tok k (Beat all (sid # ids)) m = Some (Beat all ids, reset_liveness (rd_instant E) sid m, [])"
| "exec cfg E held tok k (Evict sid r ans) m = Some (Decrement r ans, evict_liveness sid m, [])"
| "exec cfg E held tok k (Decrement r ans) m =
     Some (Resolve r ans, m\<lparr>am_counts := decrement_caller_count (rs_caller r) (am_counts m)\<rparr>, [])"
| "exec cfg E held tok k (Resolve r ans) m = Some (Return ans, resolve_block cfg r m, [])"
| "exec cfg E held tok k (Return ans) m = None"

text \<open>\<open>ComponentResolutionSink::on_run_completed\<close>: the call it spawns, joined by the task id of the run.\<close>

definition on_run_completed :: "rstr \<Rightarrow> call option" where
  "on_run_completed task_id = (if colon \<in> set task_id then None else Some (ComponentCall task_id))"

section \<open>Interleavings\<close>

type_synonym task = "call \<times> pc"
type_synonym await_config = "await_manager \<times> task list"

fun is_monitor :: "call \<Rightarrow> bool" where
  "is_monitor (MonitorTask _ _) = True"
| "is_monitor _ = False"

text \<open>The sender of a channel is in the entry of the session or with the task that took the entry.\<close>

fun resolving :: "pc \<Rightarrow> resolution option" where
  "resolving (Evict sid r ans) = Some r"
| "resolving (Decrement r ans) = Some r"
| "resolving (Resolve r ans) = Some r"
| "resolving _ = None"

definition sender_held :: "await_manager \<Rightarrow> task list \<Rightarrow> nat \<Rightarrow> bool" where
  "sender_held m ts tok \<longleftrightarrow>
     list_ex (\<lambda>(sid, s, tok'). tok' = tok) (am_sessions m) \<or>
     list_ex (\<lambda>(k, p). case resolving p of Some r \<Rightarrow> rs_token r = tok | None \<Rightarrow> False) ts"

inductive await_step :: "manager_options \<Rightarrow> await_config \<Rightarrow> await_config \<Rightarrow> bool" for cfg where
  arrive: "\<not> is_monitor k \<Longrightarrow> await_step cfg (m, ts) (m, ts @ [(k, Begin)])"
| run_section: "i < length ts \<Longrightarrow> ts ! i = (k, p) \<Longrightarrow> exec cfg E (sender_held m ts i) i k p m = Some (p', m', new) \<Longrightarrow>
    await_step cfg (m, ts) (m', ts[i := (k, p')] @ map (\<lambda>k. (k, Begin)) new)"

inductive await_reachable :: "manager_options \<Rightarrow> await_config \<Rightarrow> bool" for cfg where
  initial: "await_reachable cfg (await_manager_new, [])"
| step: "await_reachable cfg s \<Longrightarrow> await_step cfg s s' \<Longrightarrow> await_reachable cfg s'"

inductive_cases await_stepE: "await_step cfg (m, ts) s'"

text \<open>The session ids minted so far. That they are distinct is what the UUIDs promise.\<close>

fun minted :: "call \<Rightarrow> rstr list" where
  "minted (StartCall c) = [sc_id c]"
| "minted _ = []"

definition ids_distinct :: "task list \<Rightarrow> bool" where
  "ids_distinct ts \<longleftrightarrow> distinct (concat (map (\<lambda>t. minted (fst t)) ts))"

end
