(* ===== verification/AwaitSteps.thy ===== *)
theory AwaitSteps
  imports AwaitManager
begin

text \<open>
  The steps of the await-session manager, prepared for the invariants: tasks and their calls, the induction principle
  over the interleavings (locale \<open>await_invariant\<close>), the values a task carries from section to section, and the
  effect of a section on the three maps (\<open>effect\<close>, the only case analysis over the program counters).
\<close>

section \<open>Tasks\<close>

definition advance :: "task list \<Rightarrow> nat \<Rightarrow> pc \<Rightarrow> call list \<Rightarrow> task list" where
  "advance ts i p new = ts[i := (fst (ts ! i), p)] @ map (\<lambda>k. (k, Begin)) new"

definition call_at :: "task list \<Rightarrow> nat \<Rightarrow> call \<Rightarrow> bool" where
  "call_at ts i k \<longleftrightarrow> i < length ts \<and> fst (ts ! i) = k"

lemma length_advance [simp]: "length (advance ts i p new) = length ts + length new"
  by (simp add: advance_def)

lemma nth_advance:
  "j < length ts \<Longrightarrow> advance ts i p new ! j = (if j = i then (fst (ts ! i), p) else ts ! j)"
  by (simp add: advance_def nth_append)

lemma nth_advance_new:
  "length ts \<le> j \<Longrightarrow> j < length ts + length new \<Longrightarrow> advance ts i p new ! j = (new ! (j - length ts), Begin)"
  by (simp add: advance_def nth_append)

lemma call_at_advance: "call_at ts j k \<Longrightarrow> call_at (advance ts i p new) j k"
  by (auto simp: call_at_def nth_advance)

lemma call_at_arrive: "call_at ts j k \<Longrightarrow> call_at (ts @ [(k', Begin)]) j k"
  by (auto simp: call_at_def nth_append)

lemma call_at_unique: "call_at ts i k \<Longrightarrow> call_at ts i k' \<Longrightarrow> k = k'"
  by (simp add: call_at_def)

lemma ids_distinct_append: "ids_distinct (ts @ us) \<Longrightarrow> ids_distinct ts"
  by (simp add: ids_distinct_def)

lemma ids_distinct_advance: "ids_distinct (advance ts i p new) \<Longrightarrow> ids_distinct ts"
proof -
  have "map (\<lambda>t. minted (fst t)) (ts[i := (fst (ts ! i), p)]) = map (\<lambda>t. minted (fst t)) ts"
    by (cases "i < length ts") (auto simp: nth_list_update list_update_beyond intro!: nth_equalityI)
  then show "ids_distinct (advance ts i p new) \<Longrightarrow> ids_distinct ts"
    by (simp add: ids_distinct_def advance_def)
qed

lemma distinct_concat_nth:
  "distinct (concat xss) \<Longrightarrow> i < length xss \<Longrightarrow> j < length xss \<Longrightarrow> x \<in> set (xss ! i) \<Longrightarrow> x \<in> set (xss ! j) \<Longrightarrow> i = j"
proof (induction xss arbitrary: i j)
  case (Cons xs xss)
  have "y \<notin> set xs" if "n < length xss" "y \<in> set (xss ! n)" for n y
    using Cons.prems(1) that by (auto dest: nth_mem)
  with Cons show ?case by (cases i; cases j) auto
qed simp

lemma ids_distinct_call:
  assumes "ids_distinct ts" "call_at ts i (StartCall c)" "call_at ts j (StartCall c')" "sc_id c = sc_id c'"
  shows "i = j"
  using assms distinct_concat_nth [of "map (\<lambda>t. minted (fst t)) ts" i j "sc_id c"]
  by (simp add: ids_distinct_def call_at_def)

section \<open>Induction over the interleavings\<close>

locale await_invariant =
  fixes cfg :: manager_options and P :: "await_manager \<Rightarrow> task list \<Rightarrow> bool"
  assumes new: "P await_manager_new []"
    and arrive: "P m ts \<Longrightarrow> \<not> is_monitor k \<Longrightarrow> P m (ts @ [(k, Begin)])"
    and sect: "await_reachable cfg (m, ts) \<Longrightarrow> ids_distinct (advance ts i p' spawned) \<Longrightarrow> P m ts \<Longrightarrow> i < length ts \<Longrightarrow> ts ! i = (k, p) \<Longrightarrow>
      exec cfg E (sender_held m ts i) i k p m = Some (p', m', spawned) \<Longrightarrow> P m' (advance ts i p' spawned)"
begin

lemma always:
  assumes "await_reachable cfg s" and "ids_distinct (snd s)"
  shows "P (fst s) (snd s)"
  using assms
proof (induction rule: await_reachable.induct)
  case initial
  then show ?case by (simp add: new)
next
  case (step s s')
  obtain m ts where s: "s = (m, ts)" by (cases s)
  from step.hyps(2) [unfolded s] show ?case
  proof (cases rule: await_step.cases)
    case (arrive k)
    with step s have "P m ts" by (auto dest: ids_distinct_append)
    with arrive show ?thesis by (simp add: await_invariant.arrive [OF await_invariant_axioms])
  next
    case (run_section i k p E p' m' spawned)
    then have s': "s' = (m', advance ts i p' spawned)" by (simp add: advance_def)
    with step s have "P m ts" by (auto dest: ids_distinct_advance)
    with step s s' run_section show ?thesis by (auto intro: sect)
  qed
qed

end

section \<open>The values a task carries\<close>

definition session_ok :: "start_call \<Rightarrow> await_session \<Rightarrow> bool" where
  "session_ok c s \<longleftrightarrow>
     as_id s = sc_id c \<and> as_agent_id s = sc_caller c \<and> as_caller_run_id s = sc_run_id c \<and>
     as_options s = sc_options c \<and> as_expected s = sc_requests c \<and> as_status s = SsOpen \<and>
     length (as_received s) = length (sc_requests c) \<and> length (sc_requests c) \<le> MAX_FANOUT \<and>
     (\<forall>i < length (sc_requests c). \<forall>r. as_received s ! i = Some r \<longrightarrow>
        rp_slot r = of_nat i \<and> rp_source r = expected_source (sc_requests c ! i))"

definition start_pc :: "call \<Rightarrow> start_call \<Rightarrow> bool" where
  "start_pc k c \<longleftrightarrow> k = StartCall c \<and> sc_requests c \<noteq> [] \<and> length (sc_requests c) \<le> MAX_FANOUT"

fun is_start :: "call \<Rightarrow> bool" where
  "is_start (StartCall _) = True"
| "is_start _ = False"

definition answer_ok :: "call \<Rightarrow> answer \<Rightarrow> bool" where
  "answer_ok k ans \<longleftrightarrow> (is_start k \<longleftrightarrow> (\<exists>out. ans = StartAnswer out))"

definition tail_ok :: "call \<Rightarrow> resolution \<Rightarrow> answer \<Rightarrow> bool" where
  "tail_ok k r ans \<longleftrightarrow> (if is_start k then ans = StartAnswer (rs_outcome r) else \<forall>out. ans \<noteq> StartAnswer out)"

fun pc_ok :: "call \<Rightarrow> pc \<Rightarrow> bool" where
  "pc_ok k Begin \<longleftrightarrow> True"
| "pc_ok k (GlobalCap c g) \<longleftrightarrow> start_pc k c"
| "pc_ok k (FindParent c g) \<longleftrightarrow> start_pc k c"
| "pc_ok k (TakeSlot c g parent) \<longleftrightarrow> start_pc k c"
| "pc_ok k (InsertSession c g s) \<longleftrightarrow> start_pc k c \<and> session_ok c s \<and> (\<forall>r\<in>set (as_received s). r = None)"
| "pc_ok k (Register c g) \<longleftrightarrow> start_pc k c"
| "pc_ok k (Dispatch c g) \<longleftrightarrow> start_pc k c"
| "pc_ok k (Record c results) \<longleftrightarrow> start_pc k c \<and> length results = length (sc_requests c)"
| "pc_ok k (EarlyResolve c res) \<longleftrightarrow> start_pc k c"
| "pc_ok k (FailedDispatch c time) \<longleftrightarrow> start_pc k c"
| "pc_ok k (Park c) \<longleftrightarrow> start_pc k c"
| "pc_ok k (Sleep sid secs) \<longleftrightarrow> k = MonitorTask sid secs"
| "pc_ok k (Claimed sid secs) \<longleftrightarrow> k = MonitorTask sid secs"
| "pc_ok k (OnReply origin sid slot reply) \<longleftrightarrow>
     (case origin of
        HostReply \<Rightarrow> k = ReplyCall sid slot reply
      | SendReply \<Rightarrow> (\<exists>source target context. k = SendCall source target (rp_payload reply) context)
      | ComponentReply _ \<Rightarrow> (\<exists>cid. k = ComponentCall cid \<and> rp_source reply = lit ''component:'' @ cid))"
| "pc_ok k (Beat all ids) \<longleftrightarrow> (\<exists>agent. k = HeartbeatCall agent)"
| "pc_ok k (Evict sid r ans) \<longleftrightarrow> tail_ok k r ans \<and> (\<forall>c. k = StartCall c \<longrightarrow> sid = sc_id c)"
| "pc_ok k (Decrement r ans) \<longleftrightarrow> tail_ok k r ans"
| "pc_ok k (Resolve r ans) \<longleftrightarrow> tail_ok k r ans"
| "pc_ok k (Return ans) \<longleftrightarrow> answer_ok k ans"

lemma admission_fanout:
  "admission cfg snapshot c = Inr g \<Longrightarrow> start_pc (StartCall c) c"
  by (auto simp: admission_def rbind_Inr_iff check_basic_def start_pc_def split: if_splits)

lemma session_of_call_ok:
  "start_pc k c \<Longrightarrow> session_ok c (session_of_call c parent time)"
  by (simp add: session_ok_def session_of_call_def new_session_def start_pc_def)

lemma received_of_call: "r \<in> set (as_received (session_of_call c parent time)) \<Longrightarrow> r = None"
  by (simp add: session_of_call_def new_session_def)

lemma first_section_ok: "first_section cfg E k m = (p, m') \<Longrightarrow> pc_ok k p"
  by (cases k)
    (auto simp: admission_fanout reject_def answer_ok_def tail_ok_def routed_reply_def close_block_def Let_def
      split: sum.splits prod.splits option.splits if_splits)

lemma resolve_or_park_ok: "start_pc k c \<Longrightarrow> pc_ok k (fst (resolve_or_park c q))"
  by (auto simp: resolve_or_park_def tail_ok_def start_pc_def split: prod.splits option.splits)

lemma reply_answer_plain [simp]: "reply_answer origin x \<noteq> StartAnswer out"
  by (cases origin) auto

lemma start_pcD: "start_pc k c \<Longrightarrow> k = StartCall c \<and> is_start k"
  by (auto simp: start_pc_def)

lemma exec_pc_ok:
  assumes "exec cfg E held i k p m = Some (p', m', new)" and "pc_ok k p"
  shows "pc_ok k p'"
  using assms
proof (cases p)
  case Begin
  with assms show ?thesis by (auto intro: first_section_ok split: prod.splits)
next
  case (EarlyResolve c res)
  with assms show ?thesis by (auto split: prod.splits dest: resolve_or_park_ok [of k c "early_block c res m"])
next
  case (FailedDispatch c time)
  with assms show ?thesis by (auto split: prod.splits dest: resolve_or_park_ok [of k c "all_failed_block c time m"])
next
  case (TakeSlot c g parent)
  with assms show ?thesis
    by (auto simp: reject_def answer_ok_def session_of_call_ok received_of_call dest: start_pcD split: prod.splits sum.splits)
next
  case (Dispatch c g)
  with assms show ?thesis by (auto simp: dispatch_slots_def Let_def)
next
  case (OnReply origin sid slot reply)
  with assms show ?thesis
    by (auto simp: answer_ok_def tail_ok_def split: prod.splits sum.splits option.splits reply_origin.splits)
next
  case (Beat all ids)
  with assms show ?thesis by (cases ids) (auto simp: answer_ok_def)
next
  case (Return ans)
  with assms show ?thesis by simp
qed (auto simp: reject_def answer_ok_def tail_ok_def dest: start_pcD split: prod.splits sum.splits option.splits after_record.splits if_splits bool.splits)

definition tasks_all :: "(call \<Rightarrow> pc \<Rightarrow> bool) \<Rightarrow> task list \<Rightarrow> bool" where
  "tasks_all Q ts \<longleftrightarrow> (\<forall>(k, p)\<in>set ts. Q k p)"

lemma tasks_allD: "tasks_all Q ts \<Longrightarrow> i < length ts \<Longrightarrow> ts ! i = (k, p) \<Longrightarrow> Q k p"
  unfolding tasks_all_def by (metis case_prodD nth_mem)

lemma tasks_all_advance:
  assumes "tasks_all Q ts" "i < length ts" "ts ! i = (k, p)" "Q k p'" "\<And>k. k \<in> set new \<Longrightarrow> Q k Begin"
  shows "tasks_all Q (advance ts i p' new)"
  using assms set_update_subset_insert [of ts i "(k, p')"]
  by (auto simp: tasks_all_def advance_def)

interpretation pcs: await_invariant cfg "\<lambda>m. tasks_all pc_ok" for cfg
proof
  show "tasks_all pc_ok []" by (simp add: tasks_all_def)
  show "tasks_all pc_ok ts \<Longrightarrow> tasks_all pc_ok (ts @ [(k, Begin)])" for ts k by (auto simp: tasks_all_def)
next
  fix m ts i p' spawned k p E m'
  assume *: "tasks_all pc_ok ts" "i < length ts" "ts ! i = (k, p)"
    "exec cfg E (sender_held m ts i) i k p m = Some (p', m', spawned)"
  then have "pc_ok k p'" by (blast intro: exec_pc_ok dest: tasks_allD)
  with * show "tasks_all pc_ok (advance ts i p' spawned)" by (auto intro: tasks_all_advance)
qed

section \<open>What a section does\<close>

definition held_caller :: "pc \<Rightarrow> rstr multiset" where
  "held_caller p = (case p of InsertSession c g s \<Rightarrow> {#sc_caller c#} | Evict sid r ans \<Rightarrow> {#rs_caller r#}
     | Decrement r ans \<Rightarrow> {#rs_caller r#} | _ \<Rightarrow> {#})"

definition frame :: "await_manager \<Rightarrow> await_manager \<Rightarrow> bool" where
  "frame m m' \<longleftrightarrow> am_sessions m' = am_sessions m \<and> am_counts m' = am_counts m \<and> am_sent m' = am_sent m"

lemma frame_refl [simp]: "frame m m" by (simp add: frame_def)

lemma frame_emit [simp]: "frame m (emit_all cfg evs m)" by (simp add: frame_def emit_all_def)

lemma frame_evict [simp]: "frame m (evict_liveness sid m)" by (simp add: frame_def evict_liveness_def)

lemma frame_reset [simp]: "frame m (reset_liveness time sid m)" by (simp add: frame_def reset_liveness_def)

lemma frame_delivered [simp]: "frame m (m\<lparr>am_delivered := xs\<rparr>)" by (simp add: frame_def)

lemma frame_register [simp]: "frame m (register_block cfg time c g m)"
  by (simp add: frame_def register_block_def emit_all_def)

text \<open>A reply that passes the checks, written into its slot.\<close>

definition accepted :: "32 word \<Rightarrow> reply_result \<Rightarrow> await_session \<Rightarrow> await_session \<Rightarrow> bool" where
  "accepted slot reply s s1 \<longleftrightarrow>
     reply_check slot reply s = Inr () \<and>
     record_reply slot (reply\<lparr>rp_task_id := Option.bind (nth_opt (as_expected s) (unat slot)) await_request_task_id\<rparr>) s = Inr s1"

fun own_call :: "call \<Rightarrow> rstr \<Rightarrow> resolution \<Rightarrow> bool" where
  "own_call (StartCall c) sid r \<longleftrightarrow> sid = sc_id c \<and> rs_caller r = sc_caller c"
| "own_call _ sid r \<longleftrightarrow> False"

text \<open>The effect of one section: it leaves the maps alone, takes a slot, inserts, writes replies into, or removes one
  session, gives a slot back, or sends an outcome.\<close>

inductive effect :: "manager_options \<Rightarrow> readings \<Rightarrow> nat \<Rightarrow> call \<Rightarrow> pc \<Rightarrow> await_manager \<Rightarrow> pc \<Rightarrow> await_manager \<Rightarrow> bool"
  for cfg E i k where
  quiet: "frame m m' \<Longrightarrow> resolving p = resolving p' \<Longrightarrow> held_caller p = held_caller p' \<Longrightarrow> \<nexists>c g s. p = InsertSession c g s \<Longrightarrow>
    effect cfg E i k p m p' m'"
| take: "p = TakeSlot c g parent \<Longrightarrow> p' = InsertSession c g (session_of_call c parent time) \<Longrightarrow>
    count_of (am_counts m) (sc_caller c) < effective_max_inflight cfg \<Longrightarrow>
    m' = m\<lparr>am_counts := AList.update (sc_caller c) (Suc (count_of (am_counts m) (sc_caller c))) (am_counts m)\<rparr> \<Longrightarrow>
    effect cfg E i k p m p' m'"
| insert: "p = InsertSession c g s \<Longrightarrow> p' = Register c g \<Longrightarrow>
    m' = m\<lparr>am_sessions := AList.update (sc_id c) (s\<lparr>as_parent_session := keep\<rparr>, i) (am_sessions m)\<rparr> \<Longrightarrow>
    effect cfg E i k p m p' m'"
| errors: "p = Record c results \<Longrightarrow> map_of (am_sessions m) (sc_id c) = Some (s, tok) \<Longrightarrow>
    resolving p' = None \<Longrightarrow> held_caller p' = {#} \<Longrightarrow>
    m' = m\<lparr>am_sessions := AList.update (sc_id c) (record_errors c (rd_utc E) 0 results s, tok) (am_sessions m)\<rparr> \<Longrightarrow>
    effect cfg E i k p m p' m'"
| reply: "p = OnReply origin sid slot r \<Longrightarrow> map_of (am_sessions m) sid = Some (s, tok) \<Longrightarrow> accepted slot r s s1 \<Longrightarrow>
    s2 = s1\<lparr>as_last_activity := rd_instant E\<rparr> \<Longrightarrow> \<not> is_complete s2 \<Longrightarrow> resolving p' = None \<Longrightarrow> held_caller p' = {#} \<Longrightarrow>
    frame (m\<lparr>am_sessions := AList.update sid (s2, tok) (am_sessions m)\<rparr>) m' \<Longrightarrow>
    effect cfg E i k p m p' m'"
| remove: "map_of (am_sessions m) sid = Some (s, tok) \<Longrightarrow> frame (remove_session sid m) m' \<Longrightarrow>
    resolving p = None \<Longrightarrow> held_caller p = {#} \<Longrightarrow> \<nexists>c g s. p = InsertSession c g s \<Longrightarrow>
    rs_token r = tok \<Longrightarrow> rs_caller r = as_agent_id s \<or> own_call k sid r \<Longrightarrow>
    p' = Evict sid r ans \<or> p' = Decrement r ans \<and> (\<exists>origin slot reply. p = OnReply origin sid slot reply) \<Longrightarrow>
    effect cfg E i k p m p' m'"
| evict: "p = Evict sid r ans \<Longrightarrow> p' = Decrement r ans \<Longrightarrow> frame m m' \<Longrightarrow> effect cfg E i k p m p' m'"
| decrement: "p = Decrement r ans \<Longrightarrow> p' = Resolve r ans \<Longrightarrow>
    m' = m\<lparr>am_counts := decrement_caller_count (rs_caller r) (am_counts m)\<rparr> \<Longrightarrow> effect cfg E i k p m p' m'"
| resolve: "p = Resolve r ans \<Longrightarrow> p' = Return ans \<Longrightarrow> am_sessions m' = am_sessions m \<Longrightarrow> am_counts m' = am_counts m \<Longrightarrow>
    am_sent m' = am_sent m @ [(rs_token r, rs_outcome r)] \<Longrightarrow> effect cfg E i k p m p' m'"

lemma removeI:
  "map_of (am_sessions m) sid \<noteq> None \<Longrightarrow> resolving p = None \<Longrightarrow> held_caller p = {#} \<Longrightarrow>
   \<nexists>c g s. p = InsertSession c g s \<Longrightarrow> rs_token r = snd (the (map_of (am_sessions m) sid)) \<Longrightarrow>
   rs_caller r = as_agent_id (fst (the (map_of (am_sessions m) sid))) \<or>
     own_call k sid r \<Longrightarrow>
   effect cfg E i k p m (Evict sid r ans) (remove_session sid m)"
  by (rule remove) auto

lemma first_section_effect:
  assumes "first_section cfg E k m = (p', m')"
  shows "effect cfg E i k Begin m p' m'"
proof (cases k)
  case (CloseCall sid reason)
  with assms show ?thesis
    by (cases "map_of (am_sessions m) sid")
      (auto simp: close_block_def held_caller_def quiet intro!: removeI)
qed (use assms in \<open>auto simp: held_caller_def reject_def Let_def intro!: quiet split: sum.splits option.splits if_splits\<close>)

lemma on_reply_effect:
  assumes "exec cfg E held i k (OnReply origin sid slot r) m = Some (p', m', new)"
  shows "effect cfg E i k (OnReply origin sid slot r) m p' m'"
proof (cases "map_of (am_sessions m) sid")
  case None
  with assms show ?thesis by (auto simp: on_reply_block_def held_caller_def intro!: quiet)
next
  case (Some e)
  obtain s tok where e: "e = (s, tok)" by (cases e)
  show ?thesis
  proof (cases "\<exists>s1. accepted slot r s s1")
    case False
    with Some e assms show ?thesis
      by (auto simp: on_reply_block_def accepted_def held_caller_def intro!: quiet split: sum.splits)
  next
    case True
    then obtain s1 where s1: "accepted slot r s s1" ..
    let ?s2 = "s1\<lparr>as_last_activity := rd_instant E\<rparr>"
    have agent: "as_agent_id s1 = as_agent_id s"
      using s1 by (auto simp: accepted_def record_reply_def Let_def split: if_splits)
    show ?thesis
    proof (cases "is_complete ?s2")
      case True
      with Some e s1 assms agent show ?thesis
        by (auto simp: on_reply_block_def accepted_def held_caller_def Let_def frame_def evict_liveness_def
            intro!: remove [of m sid s tok])
    next
      case False
      with Some e s1 assms show ?thesis
        by (auto simp: on_reply_block_def accepted_def held_caller_def Let_def
            intro!: reply [of _ origin sid slot r m s tok s1 ?s2])
    qed
  qed
qed

lemma exec_effect:
  assumes "exec cfg E held i k p m = Some (p', m', new)" and "pc_ok k p"
  shows "effect cfg E i k p m p' m'"
proof (cases p)
  case Begin
  with assms show ?thesis by (auto intro: first_section_effect split: prod.splits)
next
  case (OnReply origin sid slot r)
  with assms show ?thesis by (auto intro: on_reply_effect)
next
  case (TakeSlot c g parent)
  with assms show ?thesis
    by (auto simp: count_block_def reject_def held_caller_def quiet take not_le split: if_splits)
next
  case (InsertSession c g s)
  with assms show ?thesis by (auto simp: insert_block_def Let_def intro: insert)
next
  case (Record c results)
  with assms show ?thesis
    by (cases "map_of (am_sessions m) (sc_id c)")
      (auto simp: record_block_def Let_def held_caller_def quiet errors split: if_splits)
next
  case (EarlyResolve c res)
  with assms show ?thesis
    by (cases "map_of (am_sessions m) (sc_id c)")
      (auto simp: resolve_or_park_def early_block_def held_caller_def quiet start_pc_def intro!: removeI)
next
  case (FailedDispatch c time)
  with assms show ?thesis
    by (cases "map_of (am_sessions m) (sc_id c)")
      (auto simp: resolve_or_park_def all_failed_block_def held_caller_def quiet start_pc_def intro!: removeI)
next
  case (Claimed sid secs)
  with assms show ?thesis
    by (cases "map_of (am_sessions m) sid")
      (auto simp: idle_block_def held_caller_def Let_def quiet intro!: removeI split: timeout_policy.splits)
next
  case (Evict sid r ans)
  with assms show ?thesis by (auto intro: evict)
next
  case (Decrement r ans)
  with assms show ?thesis by (auto intro: decrement)
next
  case (Resolve r ans)
  with assms show ?thesis by (auto simp: resolve_block_def Let_def emit_all_def intro: resolve)
next
  case (Beat all ids)
  with assms show ?thesis by (cases ids) (auto simp: held_caller_def intro!: quiet)
qed (use assms in \<open>auto simp: held_caller_def reject_def monitor_block_def dispatch_slots_def Let_def
       split: sum.splits option.splits if_splits intro!: quiet\<close>)

end
