(* ===== verification/AwaitInv.thy ===== *)
theory AwaitInv
  imports AwaitSteps
begin

text \<open>
  What holds in every interleaving of the await-session manager: every entry belongs to a call that has started,
  every channel has exactly one sender until its outcome is sent, and the count of a caller is the number of
  sessions that use one of its slots.
\<close>

section \<open>Entries belong to calls\<close>

definition entries_ok :: "await_manager \<Rightarrow> task list \<Rightarrow> bool" where
  "entries_ok m ts \<longleftrightarrow> distinct (map fst (am_sessions m)) \<and>
     (\<forall>sid s tok. map_of (am_sessions m) sid = Some (s, tok) \<longrightarrow>
        (\<exists>c. call_at ts tok (StartCall c) \<and> sc_id c = sid \<and> session_ok c s))"

lemma entryE:
  assumes "entries_ok m ts" and "map_of (am_sessions m) sid = Some (s, tok)"
  obtains c where "call_at ts tok (StartCall c)" "sc_id c = sid" "session_ok c s"
  using assms unfolding entries_ok_def by blast

lemma of_nat_slot: "i < n \<Longrightarrow> n \<le> MAX_FANOUT \<Longrightarrow> unat (of_nat i :: 32 word) = i"
  by (simp add: MAX_FANOUT_def unat_of_nat take_bit_nat_eq_self_iff)

lemma record_reply_ok:
  assumes "session_ok c s" "record_reply slot r s = Inr s'" "rp_slot r = slot"
    "unat slot < length (sc_requests c) \<Longrightarrow> rp_source r = expected_source (sc_requests c ! unat slot)"
  shows "session_ok c s'"
  using assms by (auto simp: session_ok_def record_reply_def Let_def nth_list_update split: if_splits)

lemma record_errors_ok:
  "session_ok c s \<Longrightarrow> idx + length results \<le> length (sc_requests c) \<Longrightarrow> session_ok c (record_errors c time idx results s)"
proof (induction c time idx results s rule: record_errors.induct)
  case (3 c time idx err rs s)
  have idx: "unat (of_nat idx :: 32 word) = idx"
    using "3.prems" of_nat_slot [of idx "length (sc_requests c)"] by (simp add: session_ok_def)
  have "session_ok c s'" if "record_reply (of_nat idx) (failed_reply c time idx err) s = Inr s'" for s'
    by (rule record_reply_ok [OF "3.prems"(1) that]) (simp_all add: failed_reply_def idx)
  then have "session_ok c (case record_reply (of_nat idx) (failed_reply c time idx err) s of Inr s' \<Rightarrow> s' | Inl _ \<Rightarrow> s)"
    using "3.prems"(1) by (simp split: sum.split)
  then show ?case using "3.IH" "3.prems"(2) by simp
qed auto

lemma session_ok_activity [simp]: "session_ok c (s\<lparr>as_last_activity := t\<rparr>) = session_ok c s"
  by (simp add: session_ok_def)

lemma session_ok_parent [simp]: "session_ok c (s\<lparr>as_parent_session := q\<rparr>) = session_ok c s"
  by (simp add: session_ok_def)

lemma reply_check_Inr_iff:
  "reply_check slot r s = Inr u \<longleftrightarrow> rp_slot r = slot \<and>
     (\<forall>q. nth_opt (as_expected s) (unat slot) = Some q \<longrightarrow>
        rp_source r = expected_source q \<and> (\<forall>cq. q = ComponentFinished cq \<longrightarrow> rp_payload r = []))"
  unfolding reply_check_def by (simp split: option.split await_request.split)

lemma record_reply_Inr_iff:
  "record_reply slot r s = Inr s' \<longleftrightarrow>
     unat slot < length (as_received s) \<and> as_received s ! unat slot = None \<and>
     s' = s\<lparr>as_received := (as_received s)[unat slot := Some r]\<rparr>"
  by (auto simp: record_reply_def Let_def)

lemma accepted_source:
  assumes "accepted slot r s s1" "session_ok c s"
  shows "unat slot < length (sc_requests c)" "rp_slot r = slot" "rp_source r = expected_source (sc_requests c ! unat slot)"
  using assms
  by (simp_all add: accepted_def session_ok_def reply_check_Inr_iff record_reply_Inr_iff nth_opt_def)

lemma accepted_ok:
  assumes "accepted slot r s s1" "session_ok c s"
  shows "session_ok c s1"
proof -
  let ?r = "r\<lparr>rp_task_id := Option.bind (nth_opt (as_expected s) (unat slot)) await_request_task_id\<rparr>"
  have "record_reply slot ?r s = Inr s1" using assms(1) by (simp add: accepted_def)
  then show ?thesis
    by (rule record_reply_ok [OF assms(2)]) (simp_all add: accepted_source [OF assms])
qed

lemma call_at_nth: "i < length ts \<Longrightarrow> ts ! i = (k, p) \<Longrightarrow> call_at ts i k"
  by (simp add: call_at_def)

lemma entries_section:
  assumes inv: "entries_ok m ts" and i: "i < length ts" "ts ! i = (k, p)" and pc: "pc_ok k p"
    and ex: "effect cfg E i k p m p' m'" and d: "ids_distinct ts"
  shows "entries_ok m' ts"
  using ex
proof cases
  case (insert c g s keep)
  with inv i pc show ?thesis
    by (auto simp: entries_ok_def start_pc_def distinct_update call_at_def)
next
  case (errors c results s tok)
  have k: "call_at ts i (StartCall c)" "length results = length (sc_requests c)"
    using errors pc i by (auto simp: start_pc_def call_at_def)
  obtain c' where c': "call_at ts tok (StartCall c')" "sc_id c' = sc_id c" "session_ok c' s"
    using inv errors by (auto elim: entryE)
  then have "c' = c" using d k by (metis call_at_unique call.inject(1) ids_distinct_call)
  with c' k errors inv show ?thesis
    by (auto simp: entries_ok_def distinct_update record_errors_ok)
next
  case (reply origin sid slot r s tok s1 s2)
  obtain c where "call_at ts tok (StartCall c)" "sc_id c = sid" "session_ok c s"
    using inv reply by (auto elim: entryE)
  with reply inv show ?thesis
    by (auto simp: entries_ok_def distinct_update frame_def accepted_ok)
next
  case (remove sid s tok r ans)
  with inv show ?thesis by (auto simp: entries_ok_def frame_def remove_session_def distinct_delete)
qed (use inv in \<open>auto simp: entries_ok_def frame_def\<close>)

lemma entries_mono: "entries_ok m ts \<Longrightarrow> (\<And>j k. call_at ts j k \<Longrightarrow> call_at us j k) \<Longrightarrow> entries_ok m us"
  by (fastforce simp: entries_ok_def)

lemma reachable_pc_ok:
  "await_reachable cfg (m, ts) \<Longrightarrow> ids_distinct ts \<Longrightarrow> i < length ts \<Longrightarrow> ts ! i = (k, p) \<Longrightarrow> pc_ok k p"
  using pcs.always [of cfg "(m, ts)"] by (auto dest: tasks_allD)

interpretation entries: await_invariant cfg entries_ok for cfg
proof
  show "entries_ok await_manager_new []" by (simp add: entries_ok_def await_manager_new_def)
  show "entries_ok m (ts @ [(k, Begin)])" if "entries_ok m ts" for m ts k
    using that by (rule entries_mono) (rule call_at_arrive)
next
  fix m ts i p' spawned k p E m'
  assume *: "await_reachable cfg (m, ts)" "ids_distinct (advance ts i p' spawned)" "entries_ok m ts" "i < length ts"
    "ts ! i = (k, p)" "exec cfg E (sender_held m ts i) i k p m = Some (p', m', spawned)"
  then have d: "ids_distinct ts" by (blast dest: ids_distinct_advance)
  with * have pc: "pc_ok k p" by (blast intro: reachable_pc_ok)
  have "entries_ok m' ts"
    using * d pc by (blast intro: entries_section exec_effect)
  then show "entries_ok m' (advance ts i p' spawned)" by (rule entries_mono) (rule call_at_advance)
qed

section \<open>Sums over entries and tasks\<close>

lemma map_update_same:
  "distinct (map fst xs) \<Longrightarrow> map_of xs k = Some v \<Longrightarrow> f v' = f v \<Longrightarrow>
   map (\<lambda>e. f (snd e)) (AList.update k v' xs) = map (\<lambda>e. f (snd e)) xs"
  by (induction xs) (auto split: if_splits)

lemma update_fresh: "map_of xs k = None \<Longrightarrow> AList.update k v xs = xs @ [(k, v)]"
  by (induction xs) (auto split: if_splits)

lemma mset_map_delete:
  "distinct (map fst xs) \<Longrightarrow> map_of xs k = Some v \<Longrightarrow>
   mset (map (\<lambda>e. f (snd e)) xs) = add_mset (f v) (mset (map (\<lambda>e. f (snd e)) (AList.delete k xs)))"
proof (induction xs)
  case (Cons x xs)
  show ?case
  proof (cases "fst x = k")
    case True
    with Cons.prems(1) have "AList.delete k xs = xs"
      by (intro AList.delete_id) auto
    with True Cons.prems show ?thesis by (cases x) (simp add: AList.delete_eq)
  next
    case False
    with Cons show ?thesis by (cases x) (auto simp: AList.delete_eq)
  qed
qed simp

definition task_sum :: "(pc \<Rightarrow> 'a multiset) \<Rightarrow> task list \<Rightarrow> 'a multiset" where
  "task_sum g ts = sum_list (map (\<lambda>t. g (snd t)) ts)"

lemma sum_list_swap:
  fixes g :: "'b \<Rightarrow> 'a multiset"
  shows "i < length xs \<Longrightarrow> sum_list (map g (xs[i := y])) + g (xs ! i) = sum_list (map g xs) + g y"
proof (induction xs arbitrary: i)
  case (Cons x xs)
  show ?case
  proof (cases i)
    case (Suc j)
    with Cons have "sum_list (map g (xs[j := y])) + g (xs ! j) = sum_list (map g xs) + g y" by simp
    with Suc show ?thesis by (simp add: add.assoc)
  qed (simp add: ac_simps)
qed simp

lemma task_sum_advance:
  assumes "i < length ts" "ts ! i = (k, p)" "g Begin = {#}"
  shows "task_sum g (advance ts i p' new) + g p = task_sum g ts + g p'"
proof -
  have "sum_list (map (\<lambda>t. g (snd t)) (map (\<lambda>k. (k, Begin)) new)) = {#}"
    by (induction new) (simp_all add: assms(3))
  then show ?thesis
    using sum_list_swap [OF assms(1), of "\<lambda>t. g (snd t)" "(k, p')"] assms(2)
    by (simp add: task_sum_def advance_def)
qed

lemma task_sum_arrive: "g Begin = {#} \<Longrightarrow> task_sum g (ts @ [(k, Begin)]) = task_sum g ts"
  by (simp add: task_sum_def)

lemma task_sum_mem: "i < length ts \<Longrightarrow> ts ! i = (k, p) \<Longrightarrow> x \<in># g p \<Longrightarrow> x \<in># task_sum g ts"
proof (induction ts arbitrary: i)
  case (Cons t ts)
  then show ?case by (cases i) (auto simp: task_sum_def)
qed simp

lemma task_sum_ex: "x \<in># task_sum g ts \<Longrightarrow> \<exists>(k, p)\<in>set ts. x \<in># g p"
  by (induction ts) (auto simp: task_sum_def)

section \<open>Channels\<close>

definition channel_of :: "pc \<Rightarrow> nat multiset" where
  "channel_of p = (case resolving p of Some r \<Rightarrow> {#rs_token r#} | None \<Rightarrow> {#})"

text \<open>The channels that still have a sender, and those on which an outcome was sent.\<close>

definition channels :: "await_manager \<Rightarrow> task list \<Rightarrow> nat multiset" where
  "channels m ts = mset (map (\<lambda>e. snd (snd e)) (am_sessions m)) + task_sum channel_of ts + mset (map fst (am_sent m))"

fun inserting :: "pc \<Rightarrow> bool" where
  "inserting (InsertSession c g s) = True"
| "inserting _ = False"

lemma channel_of_Begin [simp]: "channel_of Begin = {#}"
  by (simp add: channel_of_def)

lemma channels_step:
  assumes i: "i < length ts" "ts ! i = (k, p)" and ex: "effect cfg E i k p m p' m'"
    and d: "distinct (map fst (am_sessions m))"
    and fresh: "\<And>c g s. p = InsertSession c g s \<Longrightarrow> map_of (am_sessions m) (sc_id c) = None"
  shows "channels m' (advance ts i p' new) = channels m ts + (if inserting p then {#i#} else {#})"
proof -
  note sum = task_sum_advance [OF i, of channel_of p' new, OF channel_of_Begin]
  from ex show ?thesis
  proof cases
    case quiet
    moreover have "\<not> inserting p" using quiet by (cases p) auto
    ultimately show ?thesis using sum by (simp add: channels_def frame_def channel_of_def)
  next
    case (insert c g s keep)
    with sum fresh show ?thesis by (simp add: channels_def channel_of_def update_fresh)
  next
    case (errors c results s tok)
    with sum d show ?thesis
      by (simp add: channels_def channel_of_def map_update_same [where f = snd])
  next
    case (reply origin sid slot r s tok s1 s2)
    with sum d show ?thesis
      by (simp add: channels_def channel_of_def frame_def map_update_same [where f = snd])
  next
    case (remove sid s tok r ans)
    have "\<not> inserting p" using remove by (cases p) auto
    with remove sum mset_map_delete [OF d, of sid "(s, tok)" snd] show ?thesis
      by (auto simp: channels_def channel_of_def frame_def remove_session_def)
  qed (use sum in \<open>auto simp: channels_def channel_of_def frame_def ac_simps\<close>)
qed

text \<open>Before the insertion a call has no channel; while it waits it has one.\<close>

fun early :: "pc \<Rightarrow> bool" where
  "early Begin = True"
| "early (GlobalCap c g) = True"
| "early (FindParent c g) = True"
| "early (TakeSlot c g parent) = True"
| "early (InsertSession c g s) = True"
| "early _ = False"

fun waiting :: "pc \<Rightarrow> bool" where
  "waiting (Register c g) = True"
| "waiting (Dispatch c g) = True"
| "waiting (Record c results) = True"
| "waiting (EarlyResolve c res) = True"
| "waiting (FailedDispatch c time) = True"
| "waiting (Park c) = True"
| "waiting _ = False"

lemma first_section_phase: "first_section cfg E k m = (p', m') \<Longrightarrow> \<not> waiting p' \<and> (early p' \<longrightarrow> p' \<noteq> Begin)"
  by (cases k) (auto simp: reject_def Let_def split: sum.splits option.splits prod.splits if_splits)

lemma exec_phase:
  assumes "exec cfg E held i k p m = Some (p', m', new)"
  shows "(early p' \<longrightarrow> early p \<and> \<not> inserting p) \<and> (waiting p' \<longrightarrow> waiting p \<or> inserting p)"
proof (cases p)
  case Begin
  with assms show ?thesis by (auto dest: first_section_phase split: prod.splits)
next
  case (Beat all ids)
  with assms show ?thesis by (cases ids) auto
qed (use assms in \<open>auto simp: reject_def resolve_or_park_def split: prod.splits sum.splits option.splits after_record.splits
       bool.splits if_splits\<close>)

definition chan_ok :: "await_manager \<Rightarrow> task list \<Rightarrow> bool" where
  "chan_ok m ts \<longleftrightarrow>
     (\<forall>tok. count (channels m ts) tok \<le> 1) \<and>
     (\<forall>tok \<ge> length ts. count (channels m ts) tok = 0) \<and>
     (\<forall>tok < length ts. (\<not> is_start (fst (ts ! tok)) \<or> early (snd (ts ! tok)) \<longrightarrow> count (channels m ts) tok = 0) \<and>
        (waiting (snd (ts ! tok)) \<longrightarrow> count (channels m ts) tok = 1))"

lemma chan_ok_step:
  assumes inv: "chan_ok m ts" and i: "i < length ts" "ts ! i = (k, p)"
    and ch: "channels m' (advance ts i p' new) = channels m ts + (if inserting p then {#i#} else {#})"
    and ph: "(early p' \<longrightarrow> early p \<and> \<not> inserting p) \<and> (waiting p' \<longrightarrow> waiting p \<or> inserting p)"
    and st: "inserting p \<longrightarrow> is_start k"
  shows "chan_ok m' (advance ts i p' new)"
proof -
  have c: "count (channels m' (advance ts i p' new)) tok = count (channels m ts) tok + (if inserting p \<and> tok = i then 1 else 0)" for tok
    by (simp add: ch)
  have at_i: "inserting p \<Longrightarrow> count (channels m ts) i = 0"
    using inv i by (auto simp: chan_ok_def elim: inserting.elims)
  have "count (channels m' (advance ts i p' new)) tok \<le> 1" for tok
    using inv at_i by (auto simp: c chan_ok_def)
  moreover have "count (channels m' (advance ts i p' new)) tok = 0" if "tok \<ge> length (advance ts i p' new)" for tok
    using inv i that by (auto simp: c chan_ok_def)
  moreover have "(\<not> is_start (fst t) \<or> early (snd t) \<longrightarrow> count (channels m' (advance ts i p' new)) tok = 0) \<and>
      (waiting (snd t) \<longrightarrow> count (channels m' (advance ts i p' new)) tok = 1)"
    if tok: "tok < length (advance ts i p' new)" and t: "t = advance ts i p' new ! tok" for tok t
  proof (cases "tok < length ts")
    case True
    then have t': "t = (if tok = i then (k, p') else ts ! tok)" using t i by (simp add: nth_advance)
    show ?thesis
    proof (cases "tok = i")
      case True
      with t' inv i ph st at_i show ?thesis by (auto simp: c chan_ok_def)
    next
      case False
      with True t' inv show ?thesis by (auto simp: c chan_ok_def)
    qed
  next
    case False
    with tok t inv i show ?thesis by (auto simp: c chan_ok_def nth_advance_new)
  qed
  ultimately show ?thesis by (simp add: chan_ok_def)
qed

lemma chan_ok_arrive:
  assumes "chan_ok m ts"
  shows "chan_ok m (ts @ [(k, Begin)])"
  using assms by (auto simp: chan_ok_def channels_def task_sum_arrive nth_append)

lemma entry_channel: "map_of (am_sessions m) sid = Some (s, tok) \<Longrightarrow> tok \<in># channels m ts"
  by (force simp: channels_def dest: map_of_SomeD)

lemma session_id_fresh:
  assumes inv: "entries_ok m ts" "chan_ok m ts" and i: "i < length ts" "ts ! i = (k, InsertSession c g s)"
    and pc: "pc_ok k (InsertSession c g s)" and d: "ids_distinct ts"
  shows "map_of (am_sessions m) (sc_id c) = None"
proof (rule ccontr)
  assume "map_of (am_sessions m) (sc_id c) \<noteq> None"
  then obtain s' tok where e: "map_of (am_sessions m) (sc_id c) = Some (s', tok)" by auto
  then obtain c' where c': "call_at ts tok (StartCall c')" "sc_id c' = sc_id c" by (rule entryE [OF inv(1)])
  have "call_at ts i (StartCall c)" using i pc by (auto simp: call_at_def start_pc_def)
  then have "tok = i" using c' d by (metis ids_distinct_call)
  moreover have "count (channels m ts) i = 0" using inv(2) i by (auto simp: chan_ok_def)
  ultimately show False using entry_channel [OF e, of ts] by (simp add: count_eq_zero_iff)
qed

lemma reachable_entries: "await_reachable cfg (m, ts) \<Longrightarrow> ids_distinct ts \<Longrightarrow> entries_ok m ts"
  using entries.always [of cfg "(m, ts)"] by simp

interpretation chans: await_invariant cfg chan_ok for cfg
proof
  show "chan_ok await_manager_new []" by (simp add: chan_ok_def channels_def await_manager_new_def task_sum_def)
  show "chan_ok m (ts @ [(k, Begin)])" if "chan_ok m ts" for m ts k using that by (rule chan_ok_arrive)
next
  fix m ts i p' spawned k p E m'
  assume *: "await_reachable cfg (m, ts)" "ids_distinct (advance ts i p' spawned)" "chan_ok m ts" "i < length ts"
    "ts ! i = (k, p)" "exec cfg E (sender_held m ts i) i k p m = Some (p', m', spawned)"
  then have d: "ids_distinct ts" by (blast dest: ids_distinct_advance)
  have e: "entries_ok m ts" using *(1) d by (rule reachable_entries)
  have pc: "pc_ok k p" using * d by (blast intro: reachable_pc_ok)
  have fresh: "map_of (am_sessions m) (sc_id c) = None" if "p = InsertSession c g s" for c g s
    using session_id_fresh [OF e *(3,4)] *(5) pc d that by blast
  have "distinct (map fst (am_sessions m))" using e by (simp add: entries_ok_def)
  from channels_step [OF *(4,5) exec_effect [OF *(6) pc] this fresh]
  have "channels m' (advance ts i p' spawned) = channels m ts + (if inserting p then {#i#} else {#})" .
  with *(3,4,5) exec_phase [OF *(6)] pc show "chan_ok m' (advance ts i p' spawned)"
    by (intro chan_ok_step) (auto simp: start_pc_def elim: inserting.elims)
qed

section \<open>Slots of the callers\<close>

definition callers :: "await_manager \<Rightarrow> task list \<Rightarrow> rstr multiset" where
  "callers m ts = mset (map (\<lambda>e. as_agent_id (fst (snd e))) (am_sessions m)) + task_sum held_caller ts"

definition counts_ok :: "manager_options \<Rightarrow> await_manager \<Rightarrow> task list \<Rightarrow> bool" where
  "counts_ok cfg m ts \<longleftrightarrow> (\<forall>caller. count_of (am_counts m) caller = count (callers m ts) caller) \<and>
     (\<forall>caller. count_of (am_counts m) caller \<le> effective_max_inflight cfg)"

lemma held_caller_Begin [simp]: "held_caller Begin = {#}"
  by (simp add: held_caller_def)

lemma count_of_update: "count_of (AList.update caller n counts) c = (if c = caller then n else count_of counts c)"
  by (simp add: count_of_def)

lemma count_of_decrement:
  "count_of (decrement_caller_count caller counts) c = count_of counts c - (if c = caller then 1 else 0)"
  by (cases "map_of counts caller") (auto simp: count_of_def decrement_caller_count_def)

lemma counts_step:
  assumes inv: "counts_ok cfg m ts" and ent: "entries_ok m ts" and i: "i < length ts" "ts ! i = (k, p)"
    and pc: "pc_ok k p" and ex: "effect cfg E i k p m p' m'" and d: "ids_distinct ts"
    and fresh: "\<And>c g s. p = InsertSession c g s \<Longrightarrow> map_of (am_sessions m) (sc_id c) = None"
  shows "counts_ok cfg m' (advance ts i p' new)"
proof -
  note sum = task_sum_advance [OF i, of held_caller p' new, OF held_caller_Begin]
  have keys: "distinct (map fst (am_sessions m))" using ent by (simp add: entries_ok_def)
  let ?agent = "\<lambda>e :: session_entry. as_agent_id (fst e)"
  from ex show ?thesis
  proof cases
    case quiet
    with sum have "callers m' (advance ts i p' new) = callers m ts" by (simp add: callers_def frame_def)
    with inv quiet show ?thesis by (auto simp: counts_ok_def frame_def)
  next
    case (take c g parent time)
    with sum have "callers m' (advance ts i p' new) = add_mset (sc_caller c) (callers m ts)"
      by (simp add: callers_def held_caller_def)
    with inv take show ?thesis by (auto simp: counts_ok_def count_of_update)
  next
    case (insert c g s keep)
    with pc have "as_agent_id s = sc_caller c" by (simp add: session_ok_def)
    with insert sum fresh have "callers m' (advance ts i p' new) = callers m ts"
      by (simp add: callers_def held_caller_def update_fresh)
    with inv insert show ?thesis by (auto simp: counts_ok_def)
  next
    case (errors c results s tok)
    have same: "as_agent_id (record_errors c time idx rs s) = as_agent_id s" for time idx rs s
      by (induction c time idx rs s rule: record_errors.induct) (auto simp: record_reply_def Let_def split: sum.splits if_splits)
    from errors sum keys have "callers m' (advance ts i p' new) = callers m ts"
      by (simp add: callers_def held_caller_def map_update_same [where f = ?agent] same)
    with inv errors show ?thesis by (auto simp: counts_ok_def)
  next
    case (reply origin sid slot r s tok s1 s2)
    then have "as_agent_id s2 = as_agent_id s" by (simp add: accepted_def record_reply_Inr_iff)
    with reply sum keys have "callers m' (advance ts i p' new) = callers m ts"
      by (simp add: callers_def held_caller_def frame_def map_update_same [where f = ?agent])
    with inv reply show ?thesis by (auto simp: counts_ok_def frame_def)
  next
    case (remove sid s tok r ans)
    obtain c where c: "call_at ts tok (StartCall c)" "sc_id c = sid" "session_ok c s"
      using ent remove by (auto elim: entryE)
    have "rs_caller r = as_agent_id s"
    proof (cases "own_call k sid r")
      case True
      then obtain c' where c': "k = StartCall c'" "sid = sc_id c'" "rs_caller r = sc_caller c'" by (cases k) auto
      then have "call_at ts i (StartCall c')" using i by (simp add: call_at_def)
      then have "c' = c" using c c' d by (metis call_at_unique call.inject(1) ids_distinct_call)
      with c c' show ?thesis by (simp add: session_ok_def)
    qed (use remove in auto)
    moreover from remove have "held_caller p' = {#rs_caller r#}" by (auto simp: held_caller_def)
    ultimately have "callers m' (advance ts i p' new) = callers m ts"
      using remove sum mset_map_delete [OF keys, of sid "(s, tok)" ?agent]
      by (simp add: callers_def frame_def remove_session_def)
    with inv remove show ?thesis by (auto simp: counts_ok_def frame_def remove_session_def)
  next
    case (evict sid r ans)
    with sum have "callers m' (advance ts i p' new) = callers m ts"
      by (simp add: callers_def held_caller_def frame_def)
    with inv evict show ?thesis by (auto simp: counts_ok_def frame_def)
  next
    case (decrement r ans)
    let ?M = "callers m' (advance ts i p' new)"
    from decrement sum have "add_mset (rs_caller r) ?M = callers m ts"
      by (simp add: callers_def held_caller_def)
    then have "count (callers m ts) c = count (add_mset (rs_caller r) ?M) c" for c by simp
    then have M: "count ?M c = count (callers m ts) c - (if c = rs_caller r then 1 else 0)" for c by simp
    have m': "count_of (am_counts m') c = count_of (am_counts m) c - (if c = rs_caller r then 1 else 0)" for c
      using decrement by (simp add: count_of_decrement)
    have "count_of (am_counts m) c = count (callers m ts) c" "count_of (am_counts m) c \<le> effective_max_inflight cfg" for c
      using inv unfolding counts_ok_def by blast+
    then show ?thesis unfolding counts_ok_def M m' by (simp add: le_diff_conv trans_le_add1)
  next
    case (resolve r ans)
    with sum have "callers m' (advance ts i p' new) = callers m ts" by (simp add: callers_def held_caller_def)
    with inv resolve show ?thesis by (auto simp: counts_ok_def)
  qed
qed

lemma reachable_chans: "await_reachable cfg (m, ts) \<Longrightarrow> ids_distinct ts \<Longrightarrow> chan_ok m ts"
  using chans.always [of cfg "(m, ts)"] by simp

interpretation counts: await_invariant cfg "counts_ok cfg" for cfg
proof
  show "counts_ok cfg await_manager_new []"
    by (simp add: counts_ok_def callers_def await_manager_new_def task_sum_def count_of_def)
  show "counts_ok cfg m (ts @ [(k, Begin)])" if "counts_ok cfg m ts" for m ts k
    using that by (auto simp: counts_ok_def callers_def task_sum_arrive)
next
  fix m ts i p' spawned k p E m'
  assume *: "await_reachable cfg (m, ts)" "ids_distinct (advance ts i p' spawned)" "counts_ok cfg m ts" "i < length ts"
    "ts ! i = (k, p)" "exec cfg E (sender_held m ts i) i k p m = Some (p', m', spawned)"
  then have d: "ids_distinct ts" by (blast dest: ids_distinct_advance)
  note facts = reachable_entries [OF *(1) d] reachable_chans [OF *(1) d]
  have pc: "pc_ok k p" using * d by (blast intro: reachable_pc_ok)
  have "map_of (am_sessions m) (sc_id c) = None" if "p = InsertSession c g s" for c g s
    using session_id_fresh [OF facts *(4)] *(5) pc d that by blast
  then show "counts_ok cfg m' (advance ts i p' spawned)"
    by (rule counts_step [OF *(3) facts(1) *(4,5) pc exec_effect [OF *(6) pc] d])
qed

end
