(* ===== verification/AwaitResults.thy ===== *)
theory AwaitResults
  imports AwaitInv
begin

text \<open>
  What the outcome of an await says: which slots it reports, and that a completed reply was sent by the agent that
  was awaited, or by the completion of the component that was awaited.
\<close>

section \<open>Genuine replies and well-formed outcomes\<close>

text \<open>A completed reply of slot \<open>i\<close> of a call comes from a send of the awaited agent to the caller with this payload, from
  the completion of the awaited component, or from a direct call of \<open>on_reply\<close> by the host for this slot.\<close>

definition genuine :: "task list \<Rightarrow> start_call \<Rightarrow> nat \<Rightarrow> reply_result \<Rightarrow> bool" where
  "genuine ts c i r \<longleftrightarrow> rp_status r = RpCompleted \<longrightarrow>
     (\<exists>j q source target ctx. sc_requests c ! i = AgentRequest q \<and> bare_agent_name source = bare_agent_name (aq_target q) \<and>
        bare_agent_name target = sc_caller c \<and> call_at ts j (SendCall source target (rp_payload r) ctx)) \<or>
     (\<exists>j q. sc_requests c ! i = ComponentFinished q \<and> call_at ts j (ComponentCall (cq_component_id q))) \<or>
     (\<exists>j reply. call_at ts j (ReplyCall (sc_id c) (of_nat i) reply) \<and> rp_payload reply = rp_payload r)"

definition received_ok :: "task list \<Rightarrow> start_call \<Rightarrow> await_session \<Rightarrow> bool" where
  "received_ok ts c s \<longleftrightarrow> (\<forall>i < length (sc_requests c). \<forall>r. as_received s ! i = Some r \<longrightarrow> genuine ts c i r)"

definition slot_reply :: "task list \<Rightarrow> start_call \<Rightarrow> reply_result \<Rightarrow> bool" where
  "slot_reply ts c r \<longleftrightarrow> (\<exists>i < length (sc_requests c). rp_slot r = of_nat i \<and>
     rp_source r = expected_source (sc_requests c ! i) \<and> genuine ts c i r)"

definition all_slots :: "start_call \<Rightarrow> reply_result list \<Rightarrow> bool" where
  "all_slots c replies \<longleftrightarrow> map rp_slot replies = map of_nat [0..<length (sc_requests c)]"

definition shape_ok :: "start_call \<Rightarrow> await_result \<Rightarrow> bool" where
  "shape_ok c res \<longleftrightarrow>
     (case aw_status res of
        AwCompleted \<Rightarrow>
          (case ao_mode (sc_options c) of
             AllOf \<Rightarrow> all_slots c (aw_replies res)
           | AnyOf \<Rightarrow> (\<exists>r\<in>set (aw_replies res). rp_status r = RpCompleted) \<and>
               (if ao_keep_losers (sc_options c) then all_slots c (aw_replies res)
                else \<forall>r\<in>set (aw_replies res). rp_status r = RpCompleted))
      | AwPartialTimeout \<Rightarrow> all_slots c (aw_replies res)
      | AwFailedDispatch \<Rightarrow> all_slots c (aw_replies res)
      | _ \<Rightarrow> False)"

definition outcome_ok :: "task list \<Rightarrow> start_call \<Rightarrow> await_outcome \<Rightarrow> bool" where
  "outcome_ok ts c out \<longleftrightarrow>
     (case out of
        Inl e \<Rightarrow> True
      | Inr res \<Rightarrow> aw_session_id res = sc_id c \<and> aw_mode res = ao_mode (sc_options c) \<and>
          (\<forall>r\<in>set (aw_replies res). slot_reply ts c r) \<and> shape_ok c res)"

lemma genuine_mono: "genuine ts c i r \<Longrightarrow> (\<And>j k. call_at ts j k \<Longrightarrow> call_at us j k) \<Longrightarrow> genuine us c i r"
  unfolding genuine_def by metis

lemma outcome_mono: "outcome_ok ts c out \<Longrightarrow> (\<And>j k. call_at ts j k \<Longrightarrow> call_at us j k) \<Longrightarrow> outcome_ok us c out"
  unfolding outcome_ok_def slot_reply_def by (cases out) (auto, metis genuine_mono)

lemma received_mono: "received_ok ts c s \<Longrightarrow> (\<And>j k. call_at ts j k \<Longrightarrow> call_at us j k) \<Longrightarrow> received_ok us c s"
  unfolding received_ok_def by (metis genuine_mono)

lemma genuine_loser [simp]: "rp_status r \<noteq> RpCompleted \<Longrightarrow> genuine ts c i r"
  by (simp add: genuine_def)

lemma received_slot:
  assumes "session_ok c s" "received_ok ts c s" "i < length (sc_requests c)" "as_received s ! i = Some r"
  shows "slot_reply ts c r"
  unfolding slot_reply_def using assms by (intro exI [of _ i]) (simp add: session_ok_def received_ok_def)

lemma slot_of_received:
  "session_ok c s \<Longrightarrow> i < length (sc_requests c) \<Longrightarrow> as_received s ! i = Some r \<Longrightarrow> rp_slot r = of_nat i"
  by (auto simp: session_ok_def)

lemma received_set:
  assumes "session_ok c s" "received_ok ts c s" "Some r \<in> set (as_received s)"
  shows "slot_reply ts c r"
proof -
  obtain i where "i < length (as_received s)" "as_received s ! i = Some r"
    using assms(3) by (auto simp: in_set_conv_nth)
  with assms(1,2) show ?thesis by (intro received_slot) (simp_all add: session_ok_def)
qed

lemma set_map_filter_id: "r \<in> set (List.map_filter id xs) \<longleftrightarrow> Some r \<in> set xs"
  by (induction xs) (auto simp: List.map_filter_simps split: option.splits)

lemma map_filter_all: "\<forall>x\<in>set xs. x \<noteq> None \<Longrightarrow> List.map_filter id xs = map the xs"
  by (induction xs) (auto simp: List.map_filter_simps)

lemma all_slots_full:
  assumes "session_ok c s" "\<forall>x\<in>set (as_received s). x \<noteq> None"
  shows "all_slots c (List.map_filter id (as_received s))"
proof -
  have len: "length (as_received s) = length (sc_requests c)" using assms(1) by (simp add: session_ok_def)
  have slot: "rp_slot (the (as_received s ! i)) = of_nat i" if i: "i < length (sc_requests c)" for i
  proof -
    have "as_received s ! i \<noteq> None" using assms(2) i len by simp
    then obtain r where r: "as_received s ! i = Some r" by auto
    show ?thesis using slot_of_received [OF assms(1) i r] r by simp
  qed
  have "map rp_slot (map the (as_received s)) = map of_nat [0..<length (sc_requests c)]"
    by (rule nth_equalityI) (simp_all add: len slot)
  then show ?thesis by (simp add: all_slots_def map_filter_all [OF assms(2)])
qed

lemma partial_outcome:
  assumes "session_ok c s" "received_ok ts c s"
  shows "outcome_ok ts c (Inr (partial_result time s))"
proof -
  let ?t = "fill_unresolved_as_timed_out time s"
  have len: "length (as_received ?t) = length (sc_requests c)"
    using assms(1) by (simp add: fill_unresolved_as_timed_out_def session_ok_def)
  have nth: "as_received ?t ! i = (case as_received s ! i of None \<Rightarrow> Some (timed_out_reply s time i) | Some r \<Rightarrow> Some r)"
    if "i < length (sc_requests c)" for i
    using that assms(1) by (simp add: fill_unresolved_as_timed_out_def session_ok_def nth_enumerate_eq)
  let ?u = "?t\<lparr>as_status := SsOpen\<rparr>"
  have ok: "session_ok c ?u"
    using assms(1) nth len
    by (auto simp: session_ok_def fill_unresolved_as_timed_out_def timed_out_reply_def nth_opt_def nth_enumerate_eq split: option.splits)
  have gen: "received_ok ts c ?u"
    using assms(2) nth by (auto simp: received_ok_def timed_out_reply_def split: option.splits)
  have "x \<noteq> None" if "x \<in> set (as_received ?t)" for x
    using that nth len by (auto simp: in_set_conv_nth split: option.splits)
  then have full: "\<forall>x\<in>set (as_received ?u). x \<noteq> None" by simp
  have "all_slots c (snapshot_replies_all ?t)"
    using all_slots_full [OF ok full] by (simp add: snapshot_replies_all_def)
  moreover have "slot_reply ts c r" if "r \<in> set (snapshot_replies_all ?t)" for r
    using received_set [OF ok gen] that by (simp add: snapshot_replies_all_def set_map_filter_id)
  ultimately show ?thesis
    using assms(1) by (simp add: outcome_ok_def partial_result_def shape_ok_def session_ok_def)
qed

lemma failed_outcome:
  assumes "session_ok c s" "received_ok ts c s" "\<forall>x\<in>set (as_received s). x \<noteq> None"
  shows "outcome_ok ts c (Inr \<lparr>aw_session_id = sc_id c, aw_mode = ao_mode (sc_options c),
    aw_replies = snapshot_replies_all s, aw_status = AwFailedDispatch, aw_ended_at = time\<rparr>)"
  using all_slots_full [OF assms(1,3)] received_set [OF assms(1,2)]
  by (simp add: outcome_ok_def shape_ok_def snapshot_replies_all_def set_map_filter_id)

text \<open>With the losers kept, every pending slot is reported as cancelled.\<close>

lemma kept_losers:
  assumes "session_ok c s" "received_ok ts c s" "ao_mode (sc_options c) = AnyOf" "ao_keep_losers (sc_options c)"
  shows "all_slots c (snapshot_replies time s)" "\<forall>r\<in>set (snapshot_replies time s). slot_reply ts c r"
    "\<forall>r. Some r \<in> set (as_received s) \<longrightarrow> r \<in> set (snapshot_replies time s)"
proof -
  let ?n = "length (sc_requests c)"
  let ?f = "\<lambda>i. case as_received s ! i of Some rr \<Rightarrow> rr
              | None \<Rightarrow> materialize_detached_loser (nth_opt (as_expected s) i) (of_nat i) time"
  have len: "length (as_received s) = ?n" and req: "as_expected s = sc_requests c" and opt: "as_options s = sc_options c"
    using assms(1) by (simp_all add: session_ok_def)
  have snap: "snapshot_replies time s = map ?f [0..<?n]"
    by (rule nth_equalityI) (simp_all add: snapshot_replies_def opt assms(3,4) len nth_enumerate_eq split: option.split)
  have f: "rp_slot (?f i) = of_nat i \<and> slot_reply ts c (?f i)" if i: "i < ?n" for i
  proof (cases "as_received s ! i")
    case None
    have "slot_reply ts c (materialize_detached_loser (Some (sc_requests c ! i)) (of_nat i) time)"
      unfolding slot_reply_def using i by (intro exI [of _ i]) (simp add: materialize_detached_loser_def)
    with None i show ?thesis by (simp add: req nth_opt_def materialize_detached_loser_def)
  next
    case (Some r)
    with i show ?thesis using slot_of_received [OF assms(1) i Some] received_slot [OF assms(1,2) i Some] by simp
  qed
  show "all_slots c (snapshot_replies time s)" by (simp add: all_slots_def snap f comp_def cong: map_cong)
  show "\<forall>r\<in>set (snapshot_replies time s). slot_reply ts c r" using f by (auto simp: snap)
  show "\<forall>r. Some r \<in> set (as_received s) \<longrightarrow> r \<in> set (snapshot_replies time s)"
    by (force simp: snap len in_set_conv_nth)
qed

lemma completed_outcome:
  assumes ok: "session_ok c s" "received_ok ts c s" and complete: "is_complete s"
  shows "outcome_ok ts c (Inr (completed_result (sc_id c) time s))"
proof -
  have opt: "as_options s = sc_options c" using ok by (simp add: session_ok_def)
  have "shape_ok c (completed_result (sc_id c) time s) \<and> (\<forall>r\<in>set (snapshot_replies time s). slot_reply ts c r)"
  proof (cases "ao_mode (sc_options c)")
    case AllOf
    with complete have "\<forall>x\<in>set (as_received s). x \<noteq> None" by (simp add: is_complete_def opt list_all_iff)
    from all_slots_full [OF ok(1) this] AllOf received_set [OF ok] show ?thesis
      by (simp add: shape_ok_def completed_result_def snapshot_replies_def opt set_map_filter_id split: bool.split)
  next
    case AnyOf
    with complete obtain r where r: "Some r \<in> set (as_received s)" "rp_status r = RpCompleted"
      by (auto simp: is_complete_def opt list_ex_iff won_def split: option.splits)
    show ?thesis
    proof (cases "ao_keep_losers (sc_options c)")
      case True
      from kept_losers [OF ok AnyOf True] r AnyOf True show ?thesis
        by (auto simp: shape_ok_def completed_result_def)
    next
      case False
      with AnyOf r received_set [OF ok] show ?thesis
        by (auto simp: shape_ok_def completed_result_def snapshot_replies_def opt set_map_filter_id)
    qed
  qed
  then show ?thesis by (simp add: outcome_ok_def completed_result_def opt)
qed

section \<open>Where replies come from\<close>

text \<open>A task that is about to deliver a reply found its slot in the session of the call.\<close>

definition route_ok :: "task list \<Rightarrow> call \<Rightarrow> pc \<Rightarrow> bool" where
  "route_ok ts k p \<longleftrightarrow>
     (\<forall>origin sid slot reply. p = OnReply origin sid slot reply \<longrightarrow>
       (case k of
          SendCall source target payload ctx \<Rightarrow>
            (\<exists>tok c q. call_at ts tok (StartCall c) \<and> sc_id c = sid \<and> bare_agent_name target = sc_caller c \<and>
               sc_requests c ! unat slot = AgentRequest q \<and> bare_agent_name source = bare_agent_name (aq_target q))
        | ComponentCall cid \<Rightarrow>
            (\<exists>tok c q. call_at ts tok (StartCall c) \<and> sc_id c = sid \<and>
               sc_requests c ! unat slot = ComponentFinished q \<and> cq_component_id q = cid)
        | _ \<Rightarrow> True))"

lemma best_candidate_mem: "best_candidate b xs = Some x \<Longrightarrow> b = Some x \<or> x \<in> set xs"
  by (induction xs arbitrary: b) (auto split: option.splits if_splits)

lemma set_map_filter: "y \<in> set (List.map_filter f xs) \<longleftrightarrow> (\<exists>x\<in>set xs. f x = Some y)"
  by (induction xs) (auto simp: List.map_filter_simps split: option.splits)

lemma find_reply_slot_sound:
  assumes "find_reply_slot (iteration E (am_sessions m)) owner source = Some (sid, slot, t)" and "entries_ok m ts"
  shows "\<exists>tok c q. call_at ts tok (StartCall c) \<and> sc_id c = sid \<and> owner = sc_caller c \<and>
    sc_requests c ! unat slot = AgentRequest q \<and> bare_agent_name source = bare_agent_name (aq_target q)"
proof -
  from assms(1) obtain time i where best: "best_candidate None (reply_candidates (iteration E (am_sessions m)) owner (bare_agent_name source)) = Some (time, i, sid, t)"
      and slot: "slot = of_nat i"
    by (auto simp: find_reply_slot_def)
  from best_candidate_mem [OF best] obtain s tok where e: "(sid, s, tok) \<in> set (am_sessions m)" "as_agent_id s = owner"
      and i: "(i, t) \<in> set (pending_slots s (bare_agent_name source))"
    by (auto simp: reply_candidates_def split: if_splits)
  have "map_of (am_sessions m) sid = Some (s, tok)" using assms(2) e by (simp add: entries_ok_def)
  then obtain c where c: "call_at ts tok (StartCall c)" "sc_id c = sid" "session_ok c s" by (rule entryE [OF assms(2)])
  from i obtain q where q: "i < length (as_expected s)" "as_expected s ! i = AgentRequest q"
      "bare_agent_name (aq_target q) = bare_agent_name source"
    by (auto simp: pending_slots_def set_map_filter in_set_enumerate_eq split: await_request.splits if_splits)
  have "unat slot = i" using c q slot of_nat_slot [of i "length (sc_requests c)"] by (simp add: session_ok_def)
  with c q e show ?thesis
    by (intro exI [of _ tok] exI [of _ c] exI [of _ q]) (auto simp: session_ok_def)
qed

lemma find_component_slot_sound:
  assumes "find_component_slot (iteration E (am_sessions m)) cid = Some (sid, slot)" and "entries_ok m ts"
  shows "\<exists>tok c q. call_at ts tok (StartCall c) \<and> sc_id c = sid \<and>
    sc_requests c ! unat slot = ComponentFinished q \<and> cq_component_id q = cid"
proof -
  let ?found = "concat (map (\<lambda>(sid, s, _). if as_status s = SsOpen
    then map (\<lambda>i. (sid, of_nat i)) (component_slots cid s) else []) (iteration E (am_sessions m)))"
  obtain rest where "?found = (sid, slot) # rest"
    using assms(1) unfolding find_component_slot_def by (auto split: list.splits)
  then have "(sid, slot) \<in> set ?found" by (metis list.set_intros(1))
  then obtain s tok i where e: "(sid, s, tok) \<in> set (am_sessions m)" and i: "i \<in> set (component_slots cid s)"
      and slot: "slot = of_nat i"
    by (auto split: if_splits)
  have "map_of (am_sessions m) sid = Some (s, tok)" using assms(2) e by (simp add: entries_ok_def)
  then obtain c where c: "call_at ts tok (StartCall c)" "sc_id c = sid" "session_ok c s" by (rule entryE [OF assms(2)])
  from i obtain q where q: "i < length (as_expected s)" "as_expected s ! i = ComponentFinished q" "cq_component_id q = cid"
    by (auto simp: component_slots_def set_map_filter in_set_enumerate_eq split: await_request.splits if_splits)
  have "unat slot = i" using c q slot of_nat_slot [of i "length (sc_requests c)"] by (simp add: session_ok_def)
  with c q show ?thesis
    by (intro exI [of _ tok] exI [of _ c] exI [of _ q]) (auto simp: session_ok_def)
qed

lemma route_mono: "route_ok ts k p \<Longrightarrow> (\<And>j k. call_at ts j k \<Longrightarrow> call_at us j k) \<Longrightarrow> route_ok us k p"
  unfolding route_ok_def by (cases k; simp; metis)

lemma first_section_route:
  assumes "first_section cfg E k m = (p', m')" and "entries_ok m ts"
  shows "route_ok ts k p'"
proof (cases k)
  case (SendCall source target payload ctx)
  show ?thesis
  proof (cases "find_reply_slot (iteration E (am_sessions m)) (bare_agent_name target) source")
    case (Some x)
    obtain sid slot t where x: "x = (sid, slot, t)" by (cases x)
    from find_reply_slot_sound [OF Some [unfolded x] assms(2)] assms(1) SendCall Some x show ?thesis
      by (auto simp: route_ok_def split: if_splits)
  qed (use assms(1) SendCall in \<open>auto simp: route_ok_def Let_def split: if_splits\<close>)
next
  case (ComponentCall cid)
  show ?thesis
  proof (cases "find_component_slot (iteration E (am_sessions m)) cid")
    case (Some x)
    obtain sid slot where x: "x = (sid, slot)" by (cases x)
    from find_component_slot_sound [OF Some [unfolded x] assms(2)] assms(1) ComponentCall Some x show ?thesis
      by (auto simp: route_ok_def)
  qed (use assms(1) ComponentCall in \<open>auto simp: route_ok_def\<close>)
qed (simp_all add: route_ok_def)

lemma route_other: "(\<nexists>origin sid slot reply. p = OnReply origin sid slot reply) \<Longrightarrow> route_ok ts k p"
  by (simp add: route_ok_def)

lemma exec_route:
  assumes "exec cfg E held i k p m = Some (p', m', new)" and "entries_ok m ts"
  shows "route_ok ts k p'"
proof (cases p)
  case Begin
  with assms show ?thesis by (auto intro: first_section_route split: prod.splits)
next
  case (Beat all ids)
  with assms(1) show ?thesis by (cases ids) (auto intro: route_other)
qed (use assms(1) in \<open>auto simp: reject_def resolve_or_park_def intro!: route_other
       split: prod.splits sum.splits option.splits after_record.splits bool.splits if_splits\<close>)

lemma record_reply_received:
  assumes "record_reply slot r s = Inr s'" "received_ok ts c s" "genuine ts c (unat slot) r"
  shows "received_ok ts c s'"
  using assms by (auto simp: received_ok_def record_reply_Inr_iff nth_list_update)

lemma record_errors_received:
  "received_ok ts c s \<Longrightarrow> received_ok ts c (record_errors c time idx results s)"
proof (induction c time idx results s rule: record_errors.induct)
  case (3 c time idx err rs s)
  have "received_ok ts c s'" if "record_reply (of_nat idx) (failed_reply c time idx err) s = Inr s'" for s'
    by (rule record_reply_received [OF that "3.prems"]) (simp add: failed_reply_def)
  then have "received_ok ts c (case record_reply (of_nat idx) (failed_reply c time idx err) s of Inr s' \<Rightarrow> s' | Inl _ \<Rightarrow> s)"
    using "3.prems" by (simp split: sum.split)
  then show ?case using "3.IH" by simp
qed simp_all

lemma accepted_genuine:
  assumes acc: "accepted slot r s s1" and c: "call_at ts tok (StartCall c)" "sc_id c = sid" "session_ok c s"
    and k: "call_at ts i k" and pc: "pc_ok k (OnReply origin sid slot r)" and rt: "route_ok ts k (OnReply origin sid slot r)"
    and d: "ids_distinct ts"
  shows "genuine ts c (unat slot) (r\<lparr>rp_task_id := x\<rparr>)"
proof -
  have same: "c' = c" if "call_at ts tok' (StartCall c')" "sc_id c' = sid" for tok' c'
    using that c(1,2) d by (metis call_at_unique call.inject(1) ids_distinct_call)
  show ?thesis
  proof (cases origin)
    case HostReply
    with pc k c show ?thesis unfolding genuine_def by auto
  next
    case SendReply
    with pc obtain source target ctx where k': "k = SendCall source target (rp_payload r) ctx" by auto
    with rt same obtain q where "bare_agent_name target = sc_caller c" "sc_requests c ! unat slot = AgentRequest q"
        "bare_agent_name source = bare_agent_name (aq_target q)"
      by (fastforce simp: route_ok_def)
    with k k' show ?thesis unfolding genuine_def by auto
  next
    case (ComponentReply sid')
    with pc obtain cid where k': "k = ComponentCall cid" by auto
    with rt same obtain q where "sc_requests c ! unat slot = ComponentFinished q" "cq_component_id q = cid"
      by (fastforce simp: route_ok_def)
    with k k' show ?thesis unfolding genuine_def by auto
  qed
qed

lemma accepted_received:
  assumes "accepted slot r s s1" "call_at ts tok (StartCall c)" "sc_id c = sid" "session_ok c s"
    "call_at ts i k" "pc_ok k (OnReply origin sid slot r)" "route_ok ts k (OnReply origin sid slot r)" "ids_distinct ts"
    "received_ok ts c s"
  shows "received_ok ts c (s1\<lparr>as_last_activity := time\<rparr>)"
proof -
  let ?x = "Option.bind (nth_opt (as_expected s) (unat slot)) await_request_task_id"
  have "record_reply slot (r\<lparr>rp_task_id := ?x\<rparr>) s = Inr s1" using assms(1) by (simp add: accepted_def)
  from record_reply_received [OF this assms(9) accepted_genuine [OF assms(1-8), of ?x]] show ?thesis
    by (simp add: received_ok_def)
qed

definition gen_ok :: "await_manager \<Rightarrow> task list \<Rightarrow> bool" where
  "gen_ok m ts \<longleftrightarrow>
     (\<forall>sid s tok c. map_of (am_sessions m) sid = Some (s, tok) \<longrightarrow> call_at ts tok (StartCall c) \<longrightarrow> received_ok ts c s) \<and>
     tasks_all (route_ok ts) ts"

lemma gen_section:
  assumes inv: "gen_ok m ts" and ent: "entries_ok m ts" and i: "i < length ts" "ts ! i = (k, p)" and pc: "pc_ok k p"
    and ex: "effect cfg E i k p m p' m'" and d: "ids_distinct ts"
    and e: "map_of (am_sessions m') sid = Some (s', tok)" and c: "call_at ts tok (StartCall c)"
  shows "received_ok ts c s'"
proof -
  have old: "received_ok ts c s" if "map_of (am_sessions m) sid' = Some (s, tok)" for s sid'
    using inv c that by (auto simp: gen_ok_def)
  from ex show ?thesis
  proof cases
    case (insert c' g s keep)
    show ?thesis
    proof (cases "sid = sc_id c'")
      case True
      with insert e pc c i have "c = c'" "s' = s\<lparr>as_parent_session := keep\<rparr>" by (auto simp: start_pc_def call_at_def)
      with insert pc show ?thesis 
        by (simp add: received_ok_def session_ok_def) (metis nth_mem option.distinct(1))
    qed (use insert e old in auto)
  next
    case (errors c' results s tok')
    show ?thesis
    proof (cases "sid = sc_id c'")
      case True
      with errors e have "s' = record_errors c' (rd_utc E) 0 results s" "tok' = tok" by auto
      moreover from this errors ent c have "sc_id c = sc_id c'" by (metis call_at_unique call.inject(1) entryE)
      then have "c = c'" using errors pc i c d by (metis call_at_nth call_at_unique call.inject(1) ids_distinct_call start_pc_def pc_ok.simps(8))
      ultimately show ?thesis using errors old by (simp add: record_errors_received)
    qed (use errors e old in auto)
  next
    case (reply origin sid' slot r s tok' s1 s2)
    show ?thesis
    proof (cases "sid = sid'")
      case True
      with reply e have s': "s' = s1\<lparr>as_last_activity := rd_instant E\<rparr>" "tok' = tok" by (auto simp: frame_def)
      with reply ent c True have "sc_id c = sid'" "session_ok c s" by (metis call_at_unique call.inject(1) entryE)+
      moreover have "route_ok ts k p" using inv i by (auto simp: gen_ok_def dest: tasks_allD)
      ultimately show ?thesis
        unfolding s' using accepted_received [OF reply(3) c _ _ call_at_nth [OF i]] reply pc d old s' by blast
    qed (use reply e old in \<open>auto simp: frame_def\<close>)
  next
    case (remove sid' s tok' r ans)
    with e old show ?thesis by (auto simp: frame_def remove_session_def split: if_splits)
  qed (use e old in \<open>auto simp: frame_def\<close>)
qed

lemma gen_mono:
  assumes "gen_ok m ts" "\<And>j k. call_at ts j k \<Longrightarrow> call_at us j k" "tasks_all (route_ok us) us" "entries_ok m ts"
  shows "gen_ok m us"
proof -
  have "received_ok us c s" if e: "map_of (am_sessions m) sid = Some (s, tok)" and c: "call_at us tok (StartCall c)" for sid s tok c
  proof -
    from e obtain c' where c': "call_at ts tok (StartCall c')" by (rule entryE [OF assms(4)])
    with assms(2) c have "c' = c" by (metis call_at_unique call.inject(1))
    with assms(1) e c' have "received_ok ts c s" by (auto simp: gen_ok_def)
    then show ?thesis by (rule received_mono) (rule assms(2))
  qed
  with assms(3) show ?thesis by (simp add: gen_ok_def)
qed

lemma tasks_all_mono: "tasks_all Q ts \<Longrightarrow> (\<And>k p. Q k p \<Longrightarrow> R k p) \<Longrightarrow> tasks_all R ts"
  by (auto simp: tasks_all_def)

interpretation gens: await_invariant cfg "\<lambda>m ts. entries_ok m ts \<and> gen_ok m ts" for cfg
proof
  show "entries_ok await_manager_new [] \<and> gen_ok await_manager_new []"
    by (simp add: gen_ok_def entries_ok_def await_manager_new_def tasks_all_def)
  show "entries_ok m (ts @ [(k, Begin)]) \<and> gen_ok m (ts @ [(k, Begin)])" if inv: "entries_ok m ts \<and> gen_ok m ts" for m ts k
  proof
    show "entries_ok m (ts @ [(k, Begin)])" 
      using inv entries_mono [OF _ call_at_arrive] by blast
    have "tasks_all (route_ok ts) ts" using inv by (simp add: gen_ok_def)
    then have "tasks_all (route_ok (ts @ [(k, Begin)])) ts"
      by (rule tasks_all_mono) (erule route_mono, rule call_at_arrive)
    then have "tasks_all (route_ok (ts @ [(k, Begin)])) (ts @ [(k, Begin)])"
      by (auto simp: tasks_all_def intro: route_other)
    then show "gen_ok m (ts @ [(k, Begin)])" using inv gen_mono [OF _ call_at_arrive] by blast
  qed
next
  fix m ts i p' spawned k p E m'
  let ?us = "advance ts i p' spawned"
  assume *: "await_reachable cfg (m, ts)" "ids_distinct ?us" "entries_ok m ts \<and> gen_ok m ts" "i < length ts"
    "ts ! i = (k, p)" "exec cfg E (sender_held m ts i) i k p m = Some (p', m', spawned)"
  then have d: "ids_distinct ts" by (blast dest: ids_distinct_advance)
  have pc: "pc_ok k p" using * d by (blast intro: reachable_pc_ok)
  note eff = exec_effect [OF *(6) pc]
  have ent: "entries_ok m' ts" using *(3) entries_section [OF _ *(4,5) pc eff d] by blast
  have "gen_ok m' ts" unfolding gen_ok_def
  proof (intro conjI allI impI)
    show "tasks_all (route_ok ts) ts" using *(3) by (simp add: gen_ok_def)
    show "received_ok ts c s" if "map_of (am_sessions m') sid = Some (s, tok)" "call_at ts tok (StartCall c)" for sid s tok c
      using gen_section [OF _ _ *(4,5) pc eff d that] *(3) by blast
  qed
  moreover have "tasks_all (route_ok ?us) ?us"
  proof (rule tasks_all_advance [OF _ *(4,5)])
    have "tasks_all (route_ok ts) ts" using *(3) by (simp add: gen_ok_def)
    then show "tasks_all (route_ok ?us) ts"
      by (rule tasks_all_mono) (erule route_mono, rule call_at_advance)
    show "route_ok ?us k p'"
      using route_mono [OF exec_route [OF *(6)] call_at_advance] *(3) by blast
  qed (simp add: route_other)
  ultimately have "gen_ok m' ?us" using ent gen_mono [OF _ call_at_advance] by blast
  moreover have "entries_ok m' ?us" using ent by (rule entries_mono) (rule call_at_advance)
  ultimately show "entries_ok m' ?us \<and> gen_ok m' ?us" by simp
qed

lemma reachable_gen: "await_reachable cfg (m, ts) \<Longrightarrow> ids_distinct ts \<Longrightarrow> gen_ok m ts"
  using gens.always [of cfg "(m, ts)"] by simp

end
