(* ===== verification/AwaitProps.thy ===== *)
theory AwaitProps
  imports AwaitResults
begin

text \<open>
  What each task knows about the outcome it carries (\<open>task_res\<close>), as an invariant of the interleavings: outcomes that were
  sent, and those on their way, say what was recorded for the call they go to.
\<close>

section \<open>Outcomes\<close>

lemma record_errors_grow:
  "as_received s ! j = Some r \<Longrightarrow> as_received (record_errors c time idx results s) ! j = Some r"
proof (induction c time idx results s rule: record_errors.induct)
  case (3 c time idx err rs s)
  have "as_received s' ! j = Some r" if "record_reply (of_nat idx) (failed_reply c time idx err) s = Inr s'" for s'
    using that "3.prems" by (cases "unat (of_nat idx :: 32 word) = j") (auto simp: record_reply_Inr_iff)
  then show ?case using 3 by (auto split: sum.split)
qed simp_all

lemma length_record_errors [simp]:
  "length (as_received (record_errors c time idx results s)) = length (as_received s)"
  by (induction c time idx results s rule: record_errors.induct) (auto simp: record_reply_Inr_iff split: sum.split)

text \<open>When every slot failed, every slot is recorded.\<close>

lemma record_errors_full:
  assumes "session_ok c s" "idx + length results \<le> length (sc_requests c)" "\<forall>r\<in>set results. r \<noteq> None"
    "idx \<le> j" "j < idx + length results"
  shows "as_received (record_errors c time idx results s) ! j \<noteq> None"
  using assms
proof (induction c time idx results s rule: record_errors.induct)
  case (3 c time idx err rs s)
  let ?s = "case record_reply (of_nat idx) (failed_reply c time idx err) s of Inr s' \<Rightarrow> s' | Inl _ \<Rightarrow> s"
  have idx: "unat (of_nat idx :: 32 word) = idx" and len: "idx < length (as_received s)"
    using 3 of_nat_slot [of idx "length (sc_requests c)"] by (auto simp: session_ok_def)
  have ok: "session_ok c ?s" using record_errors_ok [OF "3.prems"(1), of idx "[Some err]" time] "3.prems" by simp
  have here: "as_received ?s ! idx \<noteq> None"
    using len idx by (auto simp: record_reply_def Let_def failed_reply_def)
  show ?case
  proof (cases "j = idx")
    case True
    then obtain r where "as_received ?s ! j = Some r" using here by auto
    then show ?thesis using record_errors_grow [of ?s j r] by simp
  next
    case False
    with 3 ok show ?thesis by simp
  qed
qed simp_all

definition tail_res :: "task list \<Rightarrow> nat \<Rightarrow> call \<Rightarrow> pc \<Rightarrow> bool" where
  "tail_res ts j k p \<longleftrightarrow> (\<forall>r. resolving p = Some r \<longrightarrow>
     (\<exists>c. call_at ts (rs_token r) (StartCall c) \<and> outcome_ok ts c (rs_outcome r) \<and>
        (\<forall>sid ans. p = Evict sid r ans \<longrightarrow> sid = sc_id c) \<and> (is_start k \<longrightarrow> rs_token r = j)))"

definition early_res :: "task list \<Rightarrow> pc \<Rightarrow> bool" where
  "early_res ts p \<longleftrightarrow> (\<forall>c res. p = EarlyResolve c res \<longrightarrow> outcome_ok ts c (Inr res))"

definition full_res :: "await_manager \<Rightarrow> pc \<Rightarrow> bool" where
  "full_res m p \<longleftrightarrow> (\<forall>c time s tok. p = FailedDispatch c time \<longrightarrow> map_of (am_sessions m) (sc_id c) = Some (s, tok) \<longrightarrow>
     (\<forall>x\<in>set (as_received s). x \<noteq> None))"

definition answer_res :: "await_manager \<Rightarrow> nat \<Rightarrow> pc \<Rightarrow> bool" where
  "answer_res m j p \<longleftrightarrow> (\<forall>out. p = Return (StartAnswer out) \<longrightarrow>
     (j, out) \<in> set (am_sent m) \<or> (\<exists>e. out = Inl (classify_admission e)))"

definition task_res :: "await_manager \<Rightarrow> task list \<Rightarrow> nat \<Rightarrow> call \<Rightarrow> pc \<Rightarrow> bool" where
  "task_res m ts j k p \<longleftrightarrow> tail_res ts j k p \<and> early_res ts p \<and> full_res m p \<and> answer_res m j p"

lemmas task_res_defs = task_res_def tail_res_def early_res_def full_res_def answer_res_def

definition res_ok :: "await_manager \<Rightarrow> task list \<Rightarrow> bool" where
  "res_ok m ts \<longleftrightarrow>
     (\<forall>j < length ts. task_res m ts j (fst (ts ! j)) (snd (ts ! j))) \<and>
     (\<forall>tok out. (tok, out) \<in> set (am_sent m) \<longrightarrow> (\<exists>c. call_at ts tok (StartCall c) \<and> outcome_ok ts c out))"

text \<open>Where a new resolution gets its outcome from.\<close>

inductive outcome_from :: "readings \<Rightarrow> call \<Rightarrow> pc \<Rightarrow> await_manager \<Rightarrow> rstr \<Rightarrow> resolution \<Rightarrow> bool" for E k where
  error: "map_of (am_sessions m) sid = Some (s, rs_token r) \<Longrightarrow> rs_outcome r = Inl e \<Longrightarrow> \<not> is_start k \<Longrightarrow>
    outcome_from E k p m sid r"
| reply: "p = OnReply origin sid slot x \<Longrightarrow> map_of (am_sessions m) sid = Some (s, rs_token r) \<Longrightarrow> accepted slot x s s1 \<Longrightarrow>
    s2 = s1\<lparr>as_last_activity := rd_instant E\<rparr> \<Longrightarrow> is_complete s2 \<Longrightarrow>
    rs_outcome r = Inr (completed_result (as_id s2) (rd_utc E) s2) \<Longrightarrow> outcome_from E k p m sid r"
| early: "p = EarlyResolve c res \<Longrightarrow> sid = sc_id c \<Longrightarrow> map_of (am_sessions m) sid = Some (s, rs_token r) \<Longrightarrow>
    rs_outcome r = Inr res \<Longrightarrow> outcome_from E k p m sid r"
| failed: "p = FailedDispatch c time \<Longrightarrow> sid = sc_id c \<Longrightarrow> map_of (am_sessions m) sid = Some (s, rs_token r) \<Longrightarrow>
    rs_outcome r = Inr \<lparr>aw_session_id = sc_id c, aw_mode = ao_mode (sc_options c), aw_replies = snapshot_replies_all s,
      aw_status = AwFailedDispatch, aw_ended_at = time\<rparr> \<Longrightarrow> outcome_from E k p m sid r"
| idle: "p = Claimed sid secs \<Longrightarrow> map_of (am_sessions m) sid = Some (s, rs_token r) \<Longrightarrow>
    rs_outcome r = Inr (partial_result (rd_utc E) s) \<Longrightarrow> outcome_from E k p m sid r"

lemma on_reply_outcome:
  assumes "exec cfg E held i k (OnReply origin sid slot x) m = Some (p', m', new)" and "resolving p' = Some r"
  shows "outcome_from E k (OnReply origin sid slot x) m sid r \<and> (\<exists>ans. p' = Decrement r ans)"
proof (cases "map_of (am_sessions m) sid")
  case None
  with assms show ?thesis by (auto simp: on_reply_block_def)
next
  case (Some e)
  obtain s tok where e: "e = (s, tok)" by (cases e)
  show ?thesis
  proof (cases "\<exists>s1. accepted slot x s s1")
    case False
    with Some e assms show ?thesis by (auto simp: on_reply_block_def accepted_def split: sum.splits)
  next
    case True
    then obtain s1 where s1: "accepted slot x s s1" ..
    let ?s2 = "s1\<lparr>as_last_activity := rd_instant E\<rparr>"
    have complete: "is_complete ?s2" and r: "rs_token r = tok" "rs_outcome r = Inr (completed_result (as_id ?s2) (rd_utc E) ?s2)"
        and p': "\<exists>ans. p' = Decrement r ans"
      using Some e s1 assms by (auto simp: on_reply_block_def accepted_def Let_def split: if_splits)
    have "outcome_from E k (OnReply origin sid slot x) m sid r"
      by (rule outcome_from.reply [OF refl _ s1 refl complete r(2)]) (simp add: Some e r)
    with p' show ?thesis by blast
  qed
qed

lemma exec_outcome:
  assumes "exec cfg E held i k p m = Some (p', m', new)" and "pc_ok k p" and "resolving p = None" and "resolving p' = Some r"
  shows "\<exists>sid. outcome_from E k p m sid r \<and> (\<forall>sid' ans. p' = Evict sid' r ans \<longrightarrow> sid' = sid)"
proof (cases p)
  case Begin
  show ?thesis
  proof (cases k)
    case (CloseCall sid reason)
    with Begin assms show ?thesis
      by (cases "map_of (am_sessions m) sid") (auto simp: close_block_def outcome_from.simps)
  qed (use Begin assms in \<open>auto simp: reject_def Let_def split: prod.splits sum.splits option.splits if_splits\<close>)
next
  case (OnReply origin sid slot x)
  with assms on_reply_outcome [of cfg E held i k origin sid slot x m p' m' new r] show ?thesis by blast
next
  case (EarlyResolve c res)
  with assms show ?thesis
    by (cases "map_of (am_sessions m) (sc_id c)")
      (auto simp: resolve_or_park_def early_block_def outcome_from.simps)
next
  case (FailedDispatch c time)
  with assms show ?thesis
    by (cases "map_of (am_sessions m) (sc_id c)")
      (auto simp: resolve_or_park_def all_failed_block_def outcome_from.simps)
next
  case (Claimed sid secs)
  with assms show ?thesis
    by (cases "map_of (am_sessions m) sid")
      (auto simp: idle_block_def Let_def outcome_from.simps split: timeout_policy.splits)
next
  case (Beat all ids)
  with assms show ?thesis by (cases ids) auto
qed (use assms in \<open>auto simp: reject_def split: prod.splits sum.splits option.splits after_record.splits bool.splits if_splits\<close>)

lemma outcome_new:
  assumes out: "outcome_from E k p m sid r" and ent: "entries_ok m ts" and gen: "gen_ok m ts" and res: "task_res m ts i k p"
    and i: "i < length ts" "ts ! i = (k, p)" and pc: "pc_ok k p" and d: "ids_distinct ts"
  shows "\<exists>c. call_at ts (rs_token r) (StartCall c) \<and> outcome_ok ts c (rs_outcome r) \<and> sc_id c = sid \<and> (is_start k \<longrightarrow> rs_token r = i)"
proof -
  have k: "call_at ts i k" using i by (simp add: call_at_def)
  have rec: "received_ok ts c s" if "map_of (am_sessions m) sid = Some (s, tok)" "call_at ts tok (StartCall c)" for s tok c
    using gen that by (auto simp: gen_ok_def)
  have own: "c' = c \<and> tok = i" if "start_pc k c" "call_at ts tok (StartCall c')" "sc_id c' = sc_id c" for c c' tok
    using that k d by (metis call_at_unique call.inject(1) ids_distinct_call start_pc_def)
  from out show ?thesis
  proof cases
    case (error s e)
    then obtain c where "call_at ts (rs_token r) (StartCall c)" "sc_id c = sid" by (auto elim: entryE [OF ent])
    with error show ?thesis by (auto simp: outcome_ok_def)
  next
    case (reply origin slot x s s1 s2)
    from reply(2) obtain c where c: "call_at ts (rs_token r) (StartCall c)" "sc_id c = sid" "session_ok c s" by (rule entryE [OF ent])
    have rt: "route_ok ts k (OnReply origin sid slot x)" using gen i reply(1) tasks_allD unfolding gen_ok_def by blast
    have "pc_ok k (OnReply origin sid slot x)" using pc unfolding reply(1) .
    then have "received_ok ts c s2"
      using accepted_received [OF reply(3) c k _ rt d rec [OF reply(2) c(1)]] reply(4) by blast
    moreover have "session_ok c s2" using accepted_ok [OF reply(3) c(3)] reply by simp
    moreover have "as_id s2 = sc_id c" using \<open>session_ok c s2\<close> by (simp add: session_ok_def)
    ultimately have "outcome_ok ts c (rs_outcome r)" using reply completed_outcome [of c s2 ts "rd_utc E"] by simp
    moreover have "\<not> is_start k" using reply pc by (auto split: reply_origin.splits)
    ultimately show ?thesis using c by auto
  next
    case (early c res s)
    from early(3) obtain c' where c': "call_at ts (rs_token r) (StartCall c')" "sc_id c' = sid" by (rule entryE [OF ent])
    have "start_pc k c" using early(1) pc by simp
    from own [OF this c'(1)] c'(2) early(2) have c: "c' = c" "rs_token r = i" by simp_all
    have "outcome_ok ts c (Inr res)" using res early(1) unfolding task_res_def early_res_def by blast
    with c c' early(4) show ?thesis by auto
  next
    case (failed c time s)
    from failed(3) obtain c' where c': "call_at ts (rs_token r) (StartCall c')" "sc_id c' = sid" "session_ok c' s" by (rule entryE [OF ent])
    have "start_pc k c" using failed(1) pc by simp
    from own [OF this c'(1)] c'(2) failed(2) have c: "c' = c" "rs_token r = i" by simp_all
    have full: "\<forall>x\<in>set (as_received s). x \<noteq> None" using res failed(1-3) unfolding task_res_def full_res_def by blast
    have "session_ok c s" "received_ok ts c s" using c c' rec [OF failed(3) c'(1)] by simp_all
    from failed_outcome [OF this full] have "outcome_ok ts c (rs_outcome r)" unfolding failed(4) .
    with c c' show ?thesis by auto
  next
    case (idle secs s)
    from idle(2) obtain c where c: "call_at ts (rs_token r) (StartCall c)" "sc_id c = sid" "session_ok c s" by (rule entryE [OF ent])
    have "outcome_ok ts c (rs_outcome r)" using idle partial_outcome [OF c(3) rec [OF idle(2) c(1)]] by simp
    moreover have "\<not> is_start k" using idle pc by simp
    ultimately show ?thesis using c by auto
  qed
qed

lemma exec_tail:
  assumes "exec cfg E held i k p m = Some (p', m', new)" and "resolving p = Some r"
  shows "(resolving p' = Some r \<and> (\<nexists>sid r ans. p' = Evict sid r ans)) \<or> (\<exists>ans. p = Resolve r ans \<and> p' = Return ans)"
  using assms by (cases p) auto

lemma record_result:
  assumes x: "exec cfg E held i k (Record c results) m = Some (p', m', new)" and pc: "pc_ok k (Record c results)"
    and ent: "entries_ok m ts" and gen: "gen_ok m ts" and k: "call_at ts i k" and d: "ids_distinct ts"
  shows "task_res m' ts i k p'"
proof (cases "map_of (am_sessions m) (sc_id c)")
  case None
  with x show ?thesis by (auto simp: record_block_def task_res_defs)
next
  case (Some e)
  obtain s tok where e: "e = (s, tok)" by (cases e)
  let ?s = "record_errors c (rd_utc E) 0 results s"
  from Some e obtain c' where c': "call_at ts tok (StartCall c')" "sc_id c' = sc_id c" "session_ok c' s" by (auto elim: entryE [OF ent])
  then have c: "c' = c" using pc k d by (metis call_at_unique call.inject(1) ids_distinct_call pc_ok.simps(8) start_pc_def)
  have len: "length results = length (sc_requests c)" using pc by simp
  have "received_ok ts c s" using gen Some e c' c by (auto simp: gen_ok_def)
  then have rec: "received_ok ts c ?s" by (rule record_errors_received)
  have ok: "session_ok c ?s" using c' c len by (simp add: record_errors_ok)
  have "outcome_ok ts c (Inr (completed_result (sc_id c) (rd_utc E) ?s))" if "is_complete ?s"
    using completed_outcome [OF ok rec that] .
  moreover have "\<forall>x\<in>set (as_received ?s). x \<noteq> None" if "list_all (\<lambda>r. r \<noteq> None) results"
  proof
    fix x assume "x \<in> set (as_received ?s)"
    then obtain j where j: "j < length (as_received ?s)" "x = as_received ?s ! j" by (auto simp: in_set_conv_nth)
    moreover have "length (as_received s) = length (sc_requests c)" using c' c by (simp add: session_ok_def)
    ultimately show "x \<noteq> None"
      using record_errors_full [of c s 0 results j "rd_utc E"] c' c len that by (simp add: list_all_iff)
  qed
  ultimately show ?thesis using x Some e by (auto simp: record_block_def task_res_defs Let_def split: if_splits)
qed

lemma effect_sent: "effect cfg E i k p m p' m' \<Longrightarrow> set (am_sent m) \<subseteq> set (am_sent m')"
  by (induction rule: effect.induct) (auto simp: frame_def remove_session_def)

text \<open>The parts of \<open>task_res\<close> for a task whose program counter does not change.\<close>

lemma task_res_keep:
  assumes "task_res m ts j k p" and "set (am_sent m) \<subseteq> set (am_sent m')"
    and "\<And>c time s tok. p = FailedDispatch c time \<Longrightarrow> map_of (am_sessions m') (sc_id c) = Some (s, tok) \<Longrightarrow> \<forall>x\<in>set (as_received s). x \<noteq> None"
  shows "task_res m' ts j k p"
proof -
  have "full_res m' p" using assms(3) unfolding full_res_def by blast
  moreover have "answer_res m' j p" using assms(1,2) unfolding task_res_def answer_res_def by blast
  ultimately show ?thesis using assms(1) by (simp add: task_res_def)
qed

lemma task_res_mono:
  assumes "task_res m ts j k p" and "\<And>j k. call_at ts j k \<Longrightarrow> call_at us j k"
  shows "task_res m us j k p"
proof -
  have mono: "outcome_ok us c out" if "outcome_ok ts c out" for c out
    using that assms(2) by (rule outcome_mono)
  have "tail_res us j k p" using assms mono unfolding task_res_def tail_res_def by meson
  moreover have "early_res us p" using assms(1) mono unfolding task_res_def early_res_def by blast
  ultimately show ?thesis using assms(1) by (simp add: task_res_def)
qed

lemma full_stays:
  assumes old: "\<And>s tok. map_of (am_sessions m) (sc_id c) = Some (s, tok) \<Longrightarrow> \<forall>x\<in>set (as_received s). x \<noteq> None"
    and j: "call_at ts j (StartCall c)" and i: "call_at ts i k" "i \<noteq> j" and pc: "pc_ok k p" and d: "ids_distinct ts"
    and ex: "effect cfg E i k p m p' m'" and e: "map_of (am_sessions m') (sc_id c) = Some (s', tok)"
  shows "\<forall>x\<in>set (as_received s'). x \<noteq> None"
proof -
  have other: "sc_id c' \<noteq> sc_id c" if "start_pc k c'" for c'
    using ids_distinct_call [OF d _ j] i that by (auto simp: start_pc_def)
  from ex show ?thesis
  proof cases
    case (insert c' g s keep)
    with other [of c'] pc e old show ?thesis by auto
  next
    case (errors c' results s tok')
    with other [of c'] pc e old show ?thesis by auto
  next
    case (reply origin sid slot r s tok' s1 s2)
    show ?thesis
    proof (cases "sc_id c = sid")
      case True
      have "None \<in> set (as_received s)" using reply(3) by (metis accepted_def nth_mem record_reply_Inr_iff)
      moreover have "\<forall>x\<in>set (as_received s). x \<noteq> None" using old reply True by auto
      ultimately show ?thesis by blast
    qed (use reply e old in \<open>auto simp: frame_def\<close>)
  next
    case (remove sid s tok' r ans)
    with e old show ?thesis by (auto simp: frame_def remove_session_def split: if_splits)
  qed (use e old in \<open>auto simp: frame_def\<close>)
qed

lemma return_answer:
  assumes x: "exec cfg E (sender_held m ts i) i k p m = Some (Return (StartAnswer out), m', new)" and pc: "pc_ok k p"
    and i: "i < length ts" "ts ! i = (k, p)" and ch: "chan_ok m ts" and res: "task_res m ts i k p"
  shows "(i, out) \<in> set (am_sent m') \<or> (\<exists>e. out = Inl (classify_admission e))"
proof (cases p)
  case Begin
  with x show ?thesis
    by (cases k) (auto simp: reject_def Let_def split: prod.splits sum.splits option.splits if_splits)
next
  case (Park c)
  have "count (channels m ts) i = 1" using ch i Park by (auto simp: chan_ok_def)
  then have "i \<in># channels m ts" by (metis count_inI one_neq_zero)
  then have "sender_held m ts i \<or> i \<in> fst ` set (am_sent m)"
    by (auto simp: channels_def sender_held_def list_ex_iff channel_of_def dest!: task_sum_ex split: option.splits) force+
  with x Park show ?thesis
    by (auto split: option.splits if_splits simp: map_of_eq_None_iff dest: map_of_SomeD)
next
  case (Resolve r ans)
  have "is_start k" using pc x Resolve by (auto simp: tail_ok_def split: if_splits)
  then have "out = rs_outcome r" "rs_token r = i" using pc x Resolve res by (auto simp: tail_ok_def task_res_def tail_res_def)
  with x Resolve show ?thesis by (auto simp: resolve_block_def Let_def)
next
  case (OnReply origin sid slot reply)
  with x show ?thesis by (auto split: prod.splits sum.splits option.splits)
next
  case (Beat all ids)
  with x show ?thesis by (cases ids) auto
qed (use x in \<open>auto simp: reject_def resolve_or_park_def split: prod.splits sum.splits option.splits after_record.splits bool.splits if_splits\<close>)

lemma task_res_section:
  assumes x: "exec cfg E (sender_held m ts i) i k p m = Some (p', m', new)" and pc: "pc_ok k p"
    and i: "i < length ts" "ts ! i = (k, p)" and ch: "chan_ok m ts" and res: "task_res m ts i k p"
    and ent: "entries_ok m ts" and gen: "gen_ok m ts" and d: "ids_distinct ts"
  shows "task_res m' ts i k p'"
proof (cases "\<exists>c results. p = Record c results")
  case True
  then show ?thesis using x pc ent gen d call_at_nth [OF i] by (auto simp del: exec.simps pc_ok.simps intro: record_result)
next
  case False
  have "tail_res ts i k p'"
  proof (cases "resolving p")
    case None
    show ?thesis unfolding tail_res_def
    proof (intro allI impI)
      fix r assume r: "resolving p' = Some r"
      from exec_outcome [OF x pc None r] obtain sid where sid: "outcome_from E k p m sid r"
        "\<forall>sid' ans. p' = Evict sid' r ans \<longrightarrow> sid' = sid" by blast
      from outcome_new [OF sid(1) ent gen res i pc d] sid(2)
      show "\<exists>c. call_at ts (rs_token r) (StartCall c) \<and> outcome_ok ts c (rs_outcome r) \<and>
          (\<forall>sid ans. p' = Evict sid r ans \<longrightarrow> sid = sc_id c) \<and> (is_start k \<longrightarrow> rs_token r = i)" by blast
    qed
  next
    case (Some r)
    from exec_tail [OF x Some] show ?thesis
    proof
      assume "resolving p' = Some r \<and> (\<nexists>sid r ans. p' = Evict sid r ans)"
      moreover from res Some obtain c where "call_at ts (rs_token r) (StartCall c)" "outcome_ok ts c (rs_outcome r)" "is_start k \<longrightarrow> rs_token r = i"
        unfolding task_res_def tail_res_def by blast
      ultimately show ?thesis unfolding tail_res_def by auto
    qed (auto simp: tail_res_def)
  qed
  moreover have "answer_res m' i p'"
    unfolding answer_res_def using return_answer [OF _ pc i ch res] x by blast
  moreover have "(\<nexists>c res. p' = EarlyResolve c res) \<and> (\<nexists>c time. p' = FailedDispatch c time)"
  proof (cases p)
    case Begin
    with x show ?thesis
      by (cases k) (auto simp: reject_def Let_def split: prod.splits sum.splits option.splits if_splits)
  next
    case (Beat all ids)
    with x show ?thesis by (cases ids) auto
  qed (use x False in \<open>auto simp: reject_def resolve_or_park_def split: prod.splits sum.splits option.splits after_record.splits bool.splits if_splits\<close>)
  ultimately show ?thesis by (simp add: task_res_def early_res_def full_res_def)
qed

lemma sent_section:
  assumes "effect cfg E i k p m p' m'" "task_res m ts i k p" "(tok, out) \<in> set (am_sent m')"
    "\<And>tok out. (tok, out) \<in> set (am_sent m) \<Longrightarrow> \<exists>c. call_at ts tok (StartCall c) \<and> outcome_ok ts c out"
  shows "\<exists>c. call_at ts tok (StartCall c) \<and> outcome_ok ts c out"
  using assms(1)
proof cases
  case (resolve r ans)
  have "\<exists>c. call_at ts (rs_token r) (StartCall c) \<and> outcome_ok ts c (rs_outcome r)"
    using assms(2) resolve(1) unfolding task_res_def tail_res_def by auto
  with assms(3,4) resolve show ?thesis by auto
qed (use assms(3,4) in \<open>auto simp: frame_def remove_session_def\<close>)

interpretation results: await_invariant cfg res_ok for cfg
proof
  show "res_ok await_manager_new []" by (simp add: res_ok_def await_manager_new_def)
  show "res_ok m (ts @ [(k, Begin)])" if inv: "res_ok m ts" for m ts k
  proof -
    have "task_res m (ts @ [(k, Begin)]) j (fst ((ts @ [(k, Begin)]) ! j)) (snd ((ts @ [(k, Begin)]) ! j))"
      if "j < length (ts @ [(k, Begin)])" for j
    proof (cases "j < length ts")
      case True
      with inv have "task_res m ts j (fst (ts ! j)) (snd (ts ! j))" by (simp add: res_ok_def)
      then have "task_res m (ts @ [(k, Begin)]) j (fst (ts ! j)) (snd (ts ! j))"
        by (rule task_res_mono) (rule call_at_arrive)
      with True show ?thesis by (simp add: nth_append)
    qed (use that in \<open>simp add: nth_append task_res_defs\<close>)
    moreover have "\<exists>c. call_at (ts @ [(k, Begin)]) tok (StartCall c) \<and> outcome_ok (ts @ [(k, Begin)]) c out"
      if out: "(tok, out) \<in> set (am_sent m)" for tok out
    proof -
      from inv out obtain c where c: "call_at ts tok (StartCall c)" "outcome_ok ts c out" unfolding res_ok_def by blast
      from c(2) have "outcome_ok (ts @ [(k, Begin)]) c out" by (rule outcome_mono) (rule call_at_arrive)
      with call_at_arrive [OF c(1)] show ?thesis by blast
    qed
    ultimately show ?thesis by (simp add: res_ok_def)
  qed
next
  fix m ts i p' spawned k p E m'
  let ?us = "advance ts i p' spawned"
  assume *: "await_reachable cfg (m, ts)" "ids_distinct ?us" "res_ok m ts" "i < length ts"
    "ts ! i = (k, p)" "exec cfg E (sender_held m ts i) i k p m = Some (p', m', spawned)"
  then have d: "ids_distinct ts" by (blast dest: ids_distinct_advance)
  note facts = reachable_chans [OF *(1) d] reachable_entries [OF *(1) d] reachable_gen [OF *(1) d]
  have pc: "pc_ok k p" using *(1,4,5) d by (blast intro: reachable_pc_ok)
  note eff = exec_effect [OF *(6) pc]
  have res: "task_res m ts i k p" using *(3-5) by (auto simp: res_ok_def)
  have own: "task_res m' ts i k p'"
    by (rule task_res_section [OF *(6) pc *(4,5) facts(1) res facts(2,3) d])
  have others: "task_res m' ts j (fst (ts ! j)) (snd (ts ! j))" if j: "j < length ts" "j \<noteq> i" for j
  proof (rule task_res_keep)
    show old: "task_res m ts j (fst (ts ! j)) (snd (ts ! j))" using *(3) j by (simp add: res_ok_def)
    show "set (am_sent m) \<subseteq> set (am_sent m')" by (rule effect_sent [OF eff])
    fix c time s tok
    assume f: "snd (ts ! j) = FailedDispatch c time" and e: "map_of (am_sessions m') (sc_id c) = Some (s, tok)"
    have "pc_ok (fst (ts ! j)) (snd (ts ! j))" by (rule reachable_pc_ok [OF *(1) d j(1)]) simp
    then have "call_at ts j (StartCall c)" using f j by (auto simp: start_pc_def call_at_def)
    then show "\<forall>x\<in>set (as_received s). x \<noteq> None"
      using full_stays [OF _ _ call_at_nth [OF *(4,5)] _ pc d eff e, of j] old f j unfolding task_res_def full_res_def by blast
  qed
  show "res_ok m' ?us" unfolding res_ok_def
  proof (intro conjI allI impI)
    fix j assume j: "j < length ?us"
    show "task_res m' ?us j (fst (?us ! j)) (snd (?us ! j))"
    proof (cases "j < length ts")
      case True
      have "task_res m' ts j (fst (?us ! j)) (snd (?us ! j))"
        
      proof (cases "j = i")
        case same: True
        have "?us ! j = (k, p')" using nth_advance [OF True, of i p' spawned] same *(5) by simp
        then show ?thesis using own same by simp
      next
        case False
        then have "?us ! j = ts ! j" using nth_advance [OF True, of i p' spawned] by simp
        then show ?thesis using others [OF True False] by simp
      qed
      then show ?thesis by (rule task_res_mono) (rule call_at_advance)
    next
      case False
      then have "?us ! j = (spawned ! (j - length ts), Begin)" using j by (intro nth_advance_new) simp_all
      then show ?thesis by (simp add: task_res_defs)
    qed
  next
    fix tok out assume "(tok, out) \<in> set (am_sent m')"
    then have "\<exists>c. call_at ts tok (StartCall c) \<and> outcome_ok ts c out"
      by (rule sent_section [OF eff res]) (use *(3) in \<open>simp add: res_ok_def\<close>)
    then obtain c where c: "call_at ts tok (StartCall c)" "outcome_ok ts c out" by blast
    from c(2) have "outcome_ok ?us c out" by (rule outcome_mono) (rule call_at_advance)
    with call_at_advance [OF c(1)] show "\<exists>c. call_at ?us tok (StartCall c) \<and> outcome_ok ?us c out" by blast
  qed
qed

lemma reachable_res: "await_reachable cfg (m, ts) \<Longrightarrow> ids_distinct ts \<Longrightarrow> res_ok m ts"
  using results.always [of cfg "(m, ts)"] by simp

end
