(* ===== verification/AwaitSafety.thy ===== *)
theory AwaitSafety
  imports AwaitProps
begin

text \<open>
  Properties of the await-session manager over all interleavings: outcomes are sent once, callers stay within their
  limit, results are genuine, a parked call can always return, and the deadlock gate is exact for the agent tree.
\<close>

section \<open>Monitors\<close>

definition monitored :: "await_manager \<Rightarrow> task list \<Rightarrow> rstr \<Rightarrow> bool" where
  "monitored m ts sid \<longleftrightarrow> (\<exists>j secs. call_at ts j (MonitorTask sid secs) \<and>
     ((snd (ts ! j) = Begin \<or> snd (ts ! j) = Sleep sid secs) \<and> map_of (am_liveness m) sid \<noteq> None \<or>
      snd (ts ! j) = Claimed sid secs))"

definition mon_ok :: "await_manager \<Rightarrow> task list \<Rightarrow> bool" where
  "mon_ok m ts \<longleftrightarrow> (\<forall>sid s tok. map_of (am_sessions m) sid = Some (s, tok) \<longrightarrow>
     tok < length ts \<and> ((\<exists>c g. snd (ts ! tok) = Register c g) \<or> monitored m ts sid))"

text \<open>When a clock disappears, its session is gone or the monitor has claimed it.\<close>

lemma exec_liveness:
  assumes "exec cfg E held i k p m = Some (p', m', new)" and "map_of (am_liveness m) sid \<noteq> None" and "map_of (am_liveness m') sid = None"
  shows "(\<exists>r ans. p = Evict sid r ans) \<or> (\<exists>secs. p = Sleep sid secs \<and> p' = Claimed sid secs) \<or> map_of (am_sessions m') sid = None"
proof (cases p)
  case Begin
  with assms show ?thesis
    by (cases k) (auto simp: close_block_def remove_session_def Let_def split: prod.splits sum.splits option.splits if_splits)
next
  case (OnReply origin sid' slot reply)
  with assms show ?thesis
    by (auto simp: on_reply_block_def evict_liveness_def remove_session_def reset_liveness_def emit_all_def Let_def map_of_map_entry
        split: prod.splits sum.splits option.splits if_splits)
next
  case (Beat all ids)
  with assms show ?thesis by (cases ids) (auto simp: reset_liveness_def map_of_map_entry split: if_splits)
next
  case (EarlyResolve c res)
  with assms show ?thesis by (auto simp: resolve_or_park_def early_block_def remove_session_def split: option.splits)
next
  case (FailedDispatch c time)
  with assms show ?thesis by (auto simp: resolve_or_park_def all_failed_block_def remove_session_def split: option.splits)
qed (use assms in \<open>auto simp: count_block_def insert_block_def register_block_def dispatch_slots_def record_block_def monitor_block_def
       idle_block_def evict_liveness_def remove_session_def resolve_block_def emit_all_def Let_def
       split: prod.splits sum.splits option.splits if_splits\<close>)

lemma evicted_gone:
  assumes "chan_ok m ts" "entries_ok m ts" "res_ok m ts" "ids_distinct ts" "i < length ts" "ts ! i = (k, Evict sid r ans)"
  shows "map_of (am_sessions m) sid = None"
proof (rule ccontr)
  assume "map_of (am_sessions m) sid \<noteq> None"
  then obtain s tok where e: "map_of (am_sessions m) sid = Some (s, tok)" by auto
  then obtain c where c: "call_at ts tok (StartCall c)" "sc_id c = sid" by (rule entryE [OF assms(2)])
  have "task_res m ts i k (Evict sid r ans)" using assms(3,5,6) by (auto simp: res_ok_def)
  then obtain c' where c': "call_at ts (rs_token r) (StartCall c')" "sid = sc_id c'" by (auto simp: task_res_def tail_res_def)
  have tok: "tok = rs_token r" using ids_distinct_call [OF assms(4) c(1) c'(1)] c c' by simp
  have "rs_token r \<in># task_sum channel_of ts"
    using task_sum_mem [OF assms(5,6), of "rs_token r" channel_of] by (simp add: channel_of_def)
  then have "1 \<le> count (task_sum channel_of ts) tok" using tok by (simp add: Suc_le_eq)
  moreover have "1 \<le> count (mset (map (\<lambda>e. snd (snd e)) (am_sessions m))) tok"
    using e by (force simp: Suc_le_eq dest: map_of_SomeD)
  ultimately have "2 \<le> count (channels m ts) tok" unfolding channels_def count_union by linarith
  moreover have "count (channels m ts) tok \<le> 1" using assms(1) by (simp add: chan_ok_def)
  ultimately show False by simp
qed

lemma exec_monitor:
  assumes "exec cfg E held i (MonitorTask sid secs) p m = Some (p', m', new)" and "pc_ok (MonitorTask sid secs) p"
    and "p = Begin \<or> p = Sleep sid secs \<and> map_of (am_liveness m) sid \<noteq> None"
  shows "p' = Sleep sid secs \<and> am_liveness m' = am_liveness m \<or> p' = Claimed sid secs"
  using assms by (auto simp: monitor_block_def evict_liveness_def split: option.splits if_splits)

lemma exec_claimed:
  assumes "exec cfg E held i k (Claimed sid secs) m = Some (p', m', new)"
  shows "map_of (am_sessions m') sid = None"
  using assms by (auto simp: idle_block_def evict_liveness_def remove_session_def split: option.splits)

lemma effect_entry:
  assumes "effect cfg E i k p m p' m'" and "map_of (am_sessions m') sid = Some (s, tok)"
  shows "(\<exists>s0. map_of (am_sessions m) sid = Some (s0, tok)) \<or> tok = i \<and> (\<exists>c g. p' = Register c g)"
  using assms(1)
  by cases (use assms(2) in \<open>auto simp: frame_def remove_session_def split: if_splits\<close>)

lemma monitored_new:
  assumes "i < length ts" "ts ! i = (StartCall c, Register c g)" "exec cfg E held i (StartCall c) (Register c g) m = Some (p', m', new)"
  shows "monitored m' (advance ts i p' new) (sc_id c)"
proof -
  let ?k = "MonitorTask (sc_id c) (effective_idle_timeout cfg c)"
  have x: "p' = Dispatch c g" "new = [?k]" "map_of (am_liveness m') (sc_id c) \<noteq> None"
    using assms(3) by (auto simp: register_block_def emit_all_def)
  have "advance ts i p' new ! length ts = (?k, Begin)" using x by (simp add: advance_def nth_append)
  with x show ?thesis unfolding monitored_def call_at_def
    by (intro exI [of _ "length ts"] exI [of _ "effective_idle_timeout cfg c"]) simp
qed

lemma monitored_keep:
  assumes mon: "monitored m ts sid" and gone: "map_of (am_sessions m') sid \<noteq> None" and ent: "map_of (am_sessions m) sid \<noteq> None"
    and i: "i < length ts" "ts ! i = (k, p)" and x: "exec cfg E held i k p m = Some (p', m', new)" and pc: "pc_ok k p"
    and evict: "\<And>r ans. p = Evict sid r ans \<Longrightarrow> map_of (am_sessions m) sid = None"
  shows "monitored m' (advance ts i p' new) sid"
proof -
  have here: "monitored m' (advance ts i p' new) sid"
    if "k = MonitorTask sid secs" "p' = Sleep sid secs \<and> map_of (am_liveness m') sid \<noteq> None \<or> p' = Claimed sid secs" for secs
    unfolding monitored_def call_at_def using that i by (intro exI [of _ i] exI [of _ secs]) (auto simp: nth_advance)
  from mon obtain j secs where j: "call_at ts j (MonitorTask sid secs)"
    and pj: "(snd (ts ! j) = Begin \<or> snd (ts ! j) = Sleep sid secs) \<and> map_of (am_liveness m) sid \<noteq> None \<or> snd (ts ! j) = Claimed sid secs"
    unfolding monitored_def by blast
  show ?thesis
  proof (cases "j = i")
    case True
    then have k: "k = MonitorTask sid secs" using j i by (simp add: call_at_def)
    show ?thesis
    proof (cases "p = Claimed sid secs")
      case True
      from exec_claimed [OF x [unfolded True]] gone show ?thesis by simp
    next
      case False
      with pj True i have live: "p = Begin \<or> p = Sleep sid secs" "map_of (am_liveness m) sid \<noteq> None" by auto
      with exec_monitor [OF x [unfolded k] pc [unfolded k]] k here show ?thesis by auto
    qed
  next
    case False
    then have us: "advance ts i p' new ! j = ts ! j" using j by (simp add: call_at_def nth_advance)
    have keep: ?thesis if "snd (ts ! j) = Claimed sid secs \<or> map_of (am_liveness m') sid \<noteq> None"
      unfolding monitored_def using that pj call_at_advance [OF j] us by (intro exI [of _ j] exI [of _ secs]) auto
    show ?thesis
    proof (cases "snd (ts ! j) = Claimed sid secs \<or> map_of (am_liveness m') sid \<noteq> None")
      case lost: False
      have "map_of (am_liveness m) sid \<noteq> None" "map_of (am_liveness m') sid = None" using lost pj by auto
      from exec_liveness [OF x this] evict ent gone obtain secs' where "p = Sleep sid secs'" "p' = Claimed sid secs'" by auto
      with pc here show ?thesis by auto
    qed (rule keep)
  qed
qed

interpretation monitors: await_invariant cfg mon_ok for cfg
proof
  show "mon_ok await_manager_new []" by (simp add: mon_ok_def await_manager_new_def)
next
  fix m ts and k :: call assume inv: "mon_ok m ts" and "\<not> is_monitor k"
  have "monitored m (ts @ [(k, Begin)]) sid" if "monitored m ts sid" for sid
    using that unfolding monitored_def call_at_def by (metis length_append_singleton less_SucI nth_append)
  then show "mon_ok m (ts @ [(k, Begin)])"
    using inv unfolding mon_ok_def by (metis length_append_singleton less_SucI nth_append)
next
  fix m ts i p' spawned k p E m'
  let ?us = "advance ts i p' spawned"
  assume *: "await_reachable cfg (m, ts)" "ids_distinct ?us" "mon_ok m ts" "i < length ts"
    "ts ! i = (k, p)" "exec cfg E (sender_held m ts i) i k p m = Some (p', m', spawned)"
  then have d: "ids_distinct ts" by (blast dest: ids_distinct_advance)
  have pc: "pc_ok k p" using *(1,4,5) d by (blast intro: reachable_pc_ok)
  note facts = reachable_chans [OF *(1) d] reachable_entries [OF *(1) d] reachable_res [OF *(1) d]
  show "mon_ok m' ?us" unfolding mon_ok_def
  proof (intro allI impI)
    fix sid s tok assume e: "map_of (am_sessions m') sid = Some (s, tok)"
    from effect_entry [OF exec_effect [OF *(6) pc] e]
    show "tok < length ?us \<and> ((\<exists>c g. snd (?us ! tok) = Register c g) \<or> monitored m' ?us sid)"
    proof
      assume "tok = i \<and> (\<exists>c g. p' = Register c g)"
      with *(4) show ?thesis by (auto simp: nth_advance)
    next
      assume "\<exists>s0. map_of (am_sessions m) sid = Some (s0, tok)"
      then obtain s0 where e0: "map_of (am_sessions m) sid = Some (s0, tok)" ..
      with *(3) have tok: "tok < length ts" and reg: "(\<exists>c g. snd (ts ! tok) = Register c g) \<or> monitored m ts sid"
        unfolding mon_ok_def by blast+
      have "(\<exists>c g. snd (?us ! tok) = Register c g) \<or> monitored m' ?us sid"
      proof (cases "monitored m ts sid")
        case True
        have "map_of (am_sessions m) sid = None" if "p = Evict sid r ans" for r ans
          using evicted_gone [OF facts d *(4)] *(5) that by blast
        from monitored_keep [OF True _ _ *(4,5,6) pc this] e e0 show ?thesis by simp
      next
        case False
        then obtain c g where cg: "snd (ts ! tok) = Register c g" using reg by blast
        show ?thesis
        proof (cases "tok = i")
          case True
          then have p: "p = Register c g" and k: "k = StartCall c" using cg *(5) pc by (auto simp: start_pc_def)
          obtain c' where "call_at ts tok (StartCall c')" "sc_id c' = sid" using e0 by (rule entryE [OF facts(2)])
          then have "sid = sc_id c" using True k *(5) by (simp add: call_at_def)
          with monitored_new [of i ts c g cfg E "sender_held m ts i" m p' m' spawned] *(4,5,6) p k show ?thesis by simp
        qed (use cg tok in \<open>simp add: nth_advance\<close>)
      qed
      with tok show ?thesis by simp
    qed
  qed
qed

lemma reachable_mon: "await_reachable cfg (m, ts) \<Longrightarrow> ids_distinct ts \<Longrightarrow> mon_ok m ts"
  using monitors.always [of cfg "(m, ts)"] by simp

section \<open>Running one task\<close>

lemma one_step:
  assumes "i < length ts" "ts ! i = (k, p)" "exec cfg E (sender_held m ts i) i k p m = Some (p', m', [])"
  shows "rtranclp (await_step cfg) (m, ts) (m', ts[i := (k, p')])"
  using await_step.run_section [OF assms] by (simp add: r_into_rtranclp)

lemma run_tail:
  assumes "j < length ts" "ts ! j = (k, p)" "resolving p = Some r"
  shows "\<exists>m' q. rtranclp (await_step cfg) (m, ts) (m', ts[j := (k, q)]) \<and> (rs_token r, rs_outcome r) \<in> set (am_sent m')"
proof -
  have last: "\<exists>m' q. rtranclp (await_step cfg) (m, us) (m', us[j := (k, q)]) \<and> (rs_token r, rs_outcome r) \<in> set (am_sent m')"
    if "j < length us" "us ! j = (k, Resolve r ans)" for m us ans
  proof -
    have "exec cfg undefined (sender_held m us j) j k (Resolve r ans) m = Some (Return ans, resolve_block cfg r m, [])" by simp
    from one_step [OF that this] show ?thesis by (auto simp: resolve_block_def Let_def)
  qed
  have mid: "\<exists>m' q. rtranclp (await_step cfg) (m, us) (m', us[j := (k, q)]) \<and> (rs_token r, rs_outcome r) \<in> set (am_sent m')"
    if "j < length us" "us ! j = (k, Decrement r ans)" for m us ans
  proof -
    let ?m = "m\<lparr>am_counts := decrement_caller_count (rs_caller r) (am_counts m)\<rparr>"
    have "exec cfg undefined (sender_held m us j) j k (Decrement r ans) m = Some (Resolve r ans, ?m, [])" by simp
    from one_step [OF that this] last [of "us[j := (k, Resolve r ans)]" ans ?m] that(1) show ?thesis
      by (auto intro: rtranclp_trans)
  qed
  show ?thesis
  proof (cases p)
    case (Evict sid r' ans)
    with assms(3) have p: "p = Evict sid r ans" by simp
    have "exec cfg undefined (sender_held m ts j) j k p m = Some (Decrement r ans, evict_liveness sid m, [])" by (simp add: p)
    from one_step [OF assms(1,2) this] mid [of "ts[j := (k, Decrement r ans)]" ans "evict_liveness sid m"] assms(1) show ?thesis
      by (auto intro: rtranclp_trans)
  qed (use assms last mid in auto)
qed

lemma run_monitor:
  assumes j: "j < length ts" "ts ! j = (MonitorTask sid secs, p)"
    and p: "(p = Begin \<or> p = Sleep sid secs) \<and> map_of (am_liveness m) sid \<noteq> None \<or> p = Claimed sid secs"
    and e: "map_of (am_sessions m) sid = Some (s, tok)"
  shows "\<exists>m' r. rtranclp (await_step cfg) (m, ts) (m', ts[j := (MonitorTask sid secs, Evict sid r TaskEnd)]) \<and> rs_token r = tok"
proof -
  have claimed: "\<exists>m' r. rtranclp (await_step cfg) (m, us) (m', us[j := (MonitorTask sid secs, Evict sid r TaskEnd)]) \<and> rs_token r = tok"
    if us: "j < length us" "us ! j = (MonitorTask sid secs, Claimed sid secs)" and here: "map_of (am_sessions m) sid = Some (s, tok)" for m us
  proof -
    obtain r where r: "idle_block (rd_utc (undefined :: readings)) sid secs m = (Some r, remove_session sid m)" "rs_token r = tok"
      using here by (auto simp: idle_block_def Let_def split: timeout_policy.split)
    then have "exec cfg undefined (sender_held m us j) j (MonitorTask sid secs) (Claimed sid secs) m =
        Some (Evict sid r TaskEnd, remove_session sid m, [])" by simp
    from one_step [OF us this] r show ?thesis by blast
  qed
  have sleep: "\<exists>m' r. rtranclp (await_step cfg) (m, us) (m', us[j := (MonitorTask sid secs, Evict sid r TaskEnd)]) \<and> rs_token r = tok"
    if us: "j < length us" "us ! j = (MonitorTask sid secs, Sleep sid secs)" and live: "map_of (am_liveness m) sid = Some l" for us l
  proof -
    let ?E = "(undefined :: readings)\<lparr>rd_instant := lv_last_activity l + unat (lv_idle_timeout_secs l) * 1000000000\<rparr>"
    have "exec cfg ?E (sender_held m us j) j (MonitorTask sid secs) (Sleep sid secs) m = Some (Claimed sid secs, evict_liveness sid m, [])"
      using live by (simp add: monitor_block_def)
    from one_step [OF us this] claimed [of "us[j := (MonitorTask sid secs, Claimed sid secs)]" "evict_liveness sid m"] us(1) e
    show ?thesis by (auto simp: evict_liveness_def intro: rtranclp_trans)
  qed
  from p consider l where "p = Begin" "map_of (am_liveness m) sid = Some l"
    | l where "p = Sleep sid secs" "map_of (am_liveness m) sid = Some l" | "p = Claimed sid secs" by auto
  then show ?thesis
  proof cases
    case (1 l)
    have "exec cfg undefined (sender_held m ts j) j (MonitorTask sid secs) p m = Some (Sleep sid secs, m, [])" using 1 by simp
    from one_step [OF j this] sleep [of "ts[j := (MonitorTask sid secs, Sleep sid secs)]" l] 1 j(1) show ?thesis
      by (auto intro: rtranclp_trans)
  next
    case (2 l)
    with sleep [of ts l] j show ?thesis by simp
  next
    case 3
    with claimed [of ts m] j e show ?thesis by simp
  qed
qed

lemma run_park:
  assumes "i < length ts" "ts ! i = (StartCall c, Park c)" "i \<in> fst ` set (am_sent m)"
  shows "\<exists>out. rtranclp (await_step cfg) (m, ts) (m, ts[i := (StartCall c, Return (StartAnswer out))])"
proof -
  obtain out where "map_of (am_sent m) i = Some out"
    using assms(3) by (metis map_of_eq_None_iff option.exhaust)
  then have "exec cfg undefined (sender_held m ts i) i (StartCall c) (Park c) m = Some (Return (StartAnswer out), m, [])" by simp
  from one_step [OF assms(1,2) this] show ?thesis by blast
qed

section \<open>Schedules\<close>

text \<open>A schedule is a list of arrivals and of sections to run; it computes a reachable configuration.\<close>

datatype scheduled = Arrive call | Run nat readings

fun play :: "manager_options \<Rightarrow> scheduled list \<Rightarrow> await_config \<Rightarrow> await_config option" where
  "play cfg [] s = Some s"
| "play cfg (Arrive k # xs) (m, ts) = (if is_monitor k then None else play cfg xs (m, ts @ [(k, Begin)]))"
| "play cfg (Run i E # xs) (m, ts) =
     (if i < length ts then
        (case exec cfg E (sender_held m ts i) i (fst (ts ! i)) (snd (ts ! i)) m of
           Some (p', m', new) \<Rightarrow> play cfg xs (m', ts[i := (fst (ts ! i), p')] @ map (\<lambda>k. (k, Begin)) new)
         | None \<Rightarrow> None)
      else None)"

lemma play_reachable: "await_reachable cfg s \<Longrightarrow> play cfg xs s = Some s' \<Longrightarrow> await_reachable cfg s'"
proof (induction cfg xs s rule: play.induct)
  case (2 cfg k xs m ts)
  then show ?case by (auto intro: await_reachable.step await_step.arrive split: if_splits)
next
  case (3 cfg i E xs m ts)
  then obtain p' m' new where x: "i < length ts" "exec cfg E (sender_held m ts i) i (fst (ts ! i)) (snd (ts ! i)) m = Some (p', m', new)"
    by (auto split: if_splits option.splits)
  have "await_step cfg (m, ts) (m', ts[i := (fst (ts ! i), p')] @ map (\<lambda>k. (k, Begin)) new)"
    using x by (intro await_step.run_section) auto
  with "3.prems"(1) have r: "await_reachable cfg (m', ts[i := (fst (ts ! i), p')] @ map (\<lambda>k. (k, Begin)) new)"
    by (rule await_reachable.step)
  have "play cfg xs (m', ts[i := (fst (ts ! i), p')] @ map (\<lambda>k. (k, Begin)) new) = Some s'" using "3.prems"(2) x by simp
  with "3.IH" [OF x refl refl r] show ?case by simp
qed simp

definition sample_tree :: ancestry where
  "sample_tree = \<lparr>ts_nodes = [lit ''r'', lit ''a'', lit ''b''], ts_children_of = [(lit ''r'', [lit ''a'', lit ''b''])],
     ts_parent_of = [(lit ''r'', None), (lit ''a'', Some (lit ''r'')), (lit ''b'', Some (lit ''r''))]\<rparr>"

text \<open>The dispatcher accepts what the routing rules allow between the two children of one agent.\<close>

definition sample_readings :: readings where
  "sample_readings = \<lparr>rd_utc = 0, rd_instant = 0, rd_uuid = lit ''u'',
     rd_deliver = (\<lambda>to msg. case validate_routing (\<lambda>_. True) (\<lambda>x. if x = lit ''agent:a'' \<or> x = lit ''agent:b'' then Some (lit ''agent:r'') else None)
        (mg_from msg) to of Inl e \<Rightarrow> Some e | Inr _ \<Rightarrow> None),
     rd_snapshot = sample_tree, rd_current_session = (\<lambda>_. None), rd_order = (\<lambda>ss. ss)\<rparr>"

definition sample_options :: manager_options where
  "sample_options = default_options\<lparr>mo_agent_tree := True, mo_event_emitter := True\<rparr>"

definition question :: "string \<Rightarrow> agent_await_request" where
  "question target = \<lparr>aq_target = lit (''agent:'' @ target), aq_payload = [], aq_correlation_id = lit ''c'', aq_context = None\<rparr>"

definition ask :: "string \<Rightarrow> string \<Rightarrow> string \<Rightarrow> start_call" where
  "ask caller target sid = \<lparr>sc_caller = lit caller, sc_run_id = None,
     sc_requests = [AgentRequest (question target)],
     sc_options = \<lparr>ao_mode = AllOf, ao_idle_timeout_secs = None, ao_on_idle_timeout = ReturnPartial, ao_keep_losers = False\<rparr>,
     sc_id = lit sid\<rparr>"

definition go :: "nat \<Rightarrow> nat \<Rightarrow> scheduled list" where
  "go i n = replicate n (Run i sample_readings)"

definition parked_schedule :: "scheduled list" where
  "parked_schedule = Arrive (StartCall (ask ''a'' ''b'' ''s'')) # go 0 8"

lemma ids_safe [simp]:
  "is_safe_id (lit ''agent:a'')" "is_safe_id (lit ''agent:b'')" "is_safe_id (lit ''agent:s'')" "is_safe_id (lit ''agent:t'')"
  "is_safe_opaque_id (lit ''c'')"
  by (simp_all add: is_safe_id_def is_safe_opaque_id_def strip_prefix_def lit_def MAX_ID_BYTES_def MAX_OPAQUE_ID_BYTES_def
      utf8_len_def id_body_char_def is_ascii_alphanumeric_def is_ascii_digit_def)

lemma lit_append: "lit a @ lit b = lit (a @ b)"
  by (simp add: lit_def)

lemma bare_lit [simp]: "bare_agent_name (lit ''agent:a'') = lit ''a''" "bare_agent_name (lit ''agent:b'') = lit ''b''"
  "bare_agent_name (lit ''a'') = lit ''a''" "bare_agent_name (lit ''b'') = lit ''b''"
  by (simp_all add: bare_agent_name_def strip_prefix_def lit_def)

lemma prefix_lit [simp]: "prefix (lit ''agent:'') (lit ''agent:a'')" "prefix (lit ''agent:'') (lit ''agent:b'')"
  by (simp_all add: lit_def)

lemmas admission_eval = admission_def check_basic_def check_duplicates_def check_timeout_def check_targets_def check_fanout_def
  check_idle_cap_def deadlock_check_def agent_slots_def agent_target_def MAX_FANOUT_def MAX_PAYLOAD_BYTES_def
  List.map_filter_simps Let_def sample_options_def default_options_def ask_def question_def lit_append

lemma admit_ab: "admission sample_options sample_tree (ask ''a'' ''b'' sid) = Inr \<lparr>dg_slots = [], dg_emit = []\<rparr>"
  by (simp add: admission_eval sample_tree_def forms_cycle_def max_hops_def)

lemma admit_ba: "admission sample_options sample_tree (ask ''b'' ''a'' sid) = Inr \<lparr>dg_slots = [], dg_emit = []\<rparr>"
  by (simp add: admission_eval sample_tree_def forms_cycle_def max_hops_def)

lemma routes [simp]:
  "rd_deliver sample_readings (lit ''agent:b'') (slot_message (lit ''a'') sid i q) = None"
  "rd_deliver sample_readings (lit ''agent:a'') (slot_message (lit ''b'') sid i q) = None"
  by (simp_all add: sample_readings_def validate_routing_def slot_message_def lit_append)

lemma sample_snapshot [simp]: "rd_snapshot sample_readings = sample_tree" "iteration sample_readings ss = ss"
  by (simp_all add: sample_readings_def iteration_def)

lemma ask_simps [simp]:
  "sc_caller (ask a b sid) = lit a" "sc_id (ask a b sid) = lit sid" "sc_run_id (ask a b sid) = None"
  "sc_requests (ask a b sid) = [AgentRequest (question b)]" "ao_mode (sc_options (ask a b sid)) = AllOf"
  by (simp_all add: ask_def)

lemma question_simps [simp]:
  "aq_target (question ''a'') = lit ''agent:a''" "aq_target (question ''b'') = lit ''agent:b''" "aq_context (question t) = None"
  by (simp_all add: question_def)

lemma dispatch_ask [simp]:
  "dispatch_slots (rd_deliver sample_readings) (lit ''a'') [AgentRequest (question ''b'')] sid [] =
     ([slot_message (lit ''a'') sid 0 (question ''b'')], [None])"
  "dispatch_slots (rd_deliver sample_readings) (lit ''b'') [AgentRequest (question ''a'')] sid [] =
     ([slot_message (lit ''b'') sid 0 (question ''a'')], [None])"
  by (simp_all add: dispatch_slots_def dispatch_slot_def Let_def)

lemma sample_option_simps [simp]:
  "mo_event_emitter sample_options" "\<not> mo_session_context sample_options" "effective_max_inflight sample_options = 3"
  "cc_max_depth (mo_capability sample_options) = None" "effective_idle_timeout sample_options (ask a b sid) = 600"
  by (simp_all add: sample_options_def default_options_def effective_max_inflight_def MAX_INFLIGHT_def
      effective_idle_timeout_def ask_def MAX_IDLE_TIMEOUT_DEFAULT_SEC_def)

lemmas start_eval = admit_ab admit_ba global_cap_block_def MAX_SESSIONS_GLOBAL_def parent_block_def count_block_def count_of_def
  insert_block_def register_block_def record_block_def session_of_call_def new_session_def emit_all_def
  Let_def lit_append

lemmas play_eval = go_def eval_nat_numeral start_eval await_manager_new_def is_complete_def

definition parked :: await_config where
  "parked = the (play sample_options parked_schedule (await_manager_new, []))"

lemma parked_tasks:
  "snd parked = [(StartCall (ask ''a'' ''b'' ''s''), Park (ask ''a'' ''b'' ''s'')), (MonitorTask (lit ''s'') 600, Begin)]"
  by (simp add: parked_def parked_schedule_def play_eval)

lemma parked_reachable: "await_reachable sample_options (fst parked, snd parked)"
proof -
  have "play sample_options parked_schedule (await_manager_new, []) \<noteq> None"
    by (simp add: parked_schedule_def play_eval)
  then show ?thesis
    using play_reachable [OF await_reachable.initial, of sample_options parked_schedule] by (auto simp: parked_def)
qed

lemma parked_distinct: "ids_distinct (snd parked)"
  by (simp add: parked_tasks ids_distinct_def)

definition answered :: await_config where
  "answered = the (play sample_options (parked_schedule @ Arrive (SendCall (lit ''b'') (lit ''agent:a'') [7] None) # go 2 4 @ go 0 1)
     (await_manager_new, []))"

lemmas reply_eval = find_reply_slot_def reply_candidates_def pending_slots_def List.map_filter_simps nth_opt_def routed_reply_def
  on_reply_block_def reply_check_def record_reply_def completed_result_def snapshot_replies_def evict_liveness_def remove_session_def
  decrement_caller_count_def resolve_block_def

definition yes :: await_result where
  "yes = \<lparr>aw_session_id = lit ''s'', aw_mode = AllOf,
     aw_replies = [\<lparr>rp_slot = 0, rp_source = lit ''agent:b'', rp_payload = [7], rp_status = RpCompleted,
        rp_received_at = rd_utc sample_readings, rp_task_id = None\<rparr>],
     aw_status = AwCompleted, aw_ended_at = rd_utc sample_readings\<rparr>"

lemma answered_tasks:
  "snd answered = [(StartCall (ask ''a'' ''b'' ''s''), Return (StartAnswer (Inr yes))), (MonitorTask (lit ''s'') 600, Begin),
     (SendCall (lit ''b'') (lit ''agent:a'') [7] None, Return (SendAnswer None))]"
  by (simp add: answered_def parked_schedule_def play_eval reply_eval yes_def)

lemma answered_reachable: "await_reachable sample_options (fst answered, snd answered)"
proof -
  have "play sample_options (parked_schedule @ Arrive (SendCall (lit ''b'') (lit ''agent:a'') [7] None) # go 2 4 @ go 0 1)
      (await_manager_new, []) \<noteq> None"
    by (simp add: parked_schedule_def play_eval reply_eval)
  then show ?thesis
    using play_reachable [OF await_reachable.initial, of sample_options] by (auto simp: answered_def)
qed

lemma answered_distinct: "ids_distinct (snd answered)"
  by (simp add: answered_tasks ids_distinct_def)

section \<open>Properties\<close>

lemma distinct_if_count: "(\<And>x. count (mset xs) x \<le> 1) \<Longrightarrow> distinct xs"
proof (induction xs)
  case (Cons y xs)
  have "count (mset xs) x \<le> 1" for x by (rule le_trans [OF _ Cons.prems [of x]]) simp
  moreover have "count (mset xs) y = 0" using Cons.prems [of y] by simp
  then have "y \<notin> set xs" by (simp add: count_eq_zero_iff)
  ultimately show ?case using Cons.IH by simp
qed simp

lemma sent_distinct:
  assumes "chan_ok m ts"
  shows "distinct (map fst (am_sent m))"
proof (rule distinct_if_count)
  fix tok
  have "count (channels m ts) tok \<le> 1" using assms by (simp add: chan_ok_def)
  then show "count (mset (map fst (am_sent m))) tok \<le> 1" unfolding channels_def count_union by linarith
qed

lemma channel_cases:
  assumes "i \<in># channels m ts"
  shows "i \<in> fst ` set (am_sent m) \<or> sender_held m ts i"
  using assms
  by (auto simp: channels_def sender_held_def list_ex_iff channel_of_def dest!: task_sum_ex split: option.splits) force+

text \<open>C3. Along every interleaving in which the minted session ids are distinct, at most one outcome is sent to each
  call; a call that is parked has its outcome, or its session is open or with a task that is about to send; and what
  a call returns is the outcome that was sent to it, unless it was refused at admission.\<close>

theorem outcomes_sent_once:
  assumes "await_reachable cfg (m, ts)" and "ids_distinct ts" and "i < length ts"
  shows "distinct (map fst (am_sent m)) \<and>
    (ts ! i = (StartCall c, Park c) \<longrightarrow> i \<in> fst ` set (am_sent m) \<or> sender_held m ts i) \<and>
    (ts ! i = (StartCall c, Return (StartAnswer out)) \<longrightarrow>
       map_of (am_sent m) i = Some out \<or> (\<exists>e. out = Inl (classify_admission e)))"
proof (intro conjI impI)
  have ch: "chan_ok m ts" using assms(1,2) by (rule reachable_chans)
  then show d: "distinct (map fst (am_sent m))" by (rule sent_distinct)
  show "i \<in> fst ` set (am_sent m) \<or> sender_held m ts i" if "ts ! i = (StartCall c, Park c)"
  proof (rule channel_cases)
    have "count (channels m ts) i = 1" using ch assms(3) that by (auto simp: chan_ok_def)
    then show "i \<in># channels m ts" by (metis count_inI one_neq_zero)
  qed
  assume r: "ts ! i = (StartCall c, Return (StartAnswer out))"
  have "task_res m ts i (fst (ts ! i)) (snd (ts ! i))" using reachable_res [OF assms(1,2)] assms(3) by (simp add: res_ok_def)
  with r d show "map_of (am_sent m) i = Some out \<or> (\<exists>e. out = Inl (classify_admission e))"
    by (auto simp: task_res_def answer_res_def)
qed

theorem outcomes_sent_once_witness:
  "distinct (map fst (am_sent (fst answered))) \<and>
   (map_of (am_sent (fst answered)) 0 = Some (Inr yes) \<or> (\<exists>e. Inr yes = Inl (classify_admission e)))"
  using outcomes_sent_once [OF answered_reachable answered_distinct, of 0 "ask ''a'' ''b'' ''s''" "Inr yes"]
  by (simp add: answered_tasks)

lemma count_map_filter: "count (mset (map f xs)) c = length (filter (\<lambda>x. f x = c) xs)"
  by (induction xs) auto

lemma count_held: "count (task_sum held_caller ts) c = length (filter (\<lambda>t. c \<in># held_caller (snd t)) ts)"
proof (induction ts)
  case (Cons t ts)
  have "count (held_caller (snd t)) c = (if c \<in># held_caller (snd t) then 1 else 0)"
    by (cases "snd t") (auto simp: held_caller_def)
  with Cons show ?case by (simp add: task_sum_def)
qed (simp add: task_sum_def)

text \<open>C11. Along every interleaving the counter of a caller is the number of its open sessions plus the number of tasks that
  are between taking the slot and inserting the session, or between removing the session and giving the slot back;
  it never exceeds the limit, so no caller has more open sessions than it may, and no slot is lost.\<close>

theorem caller_limit_kept:
  assumes "await_reachable cfg (m, ts)" and "ids_distinct ts"
  shows "count_of (am_counts m) caller =
      length (filter (\<lambda>e. as_agent_id (fst (snd e)) = caller) (am_sessions m)) +
      length (filter (\<lambda>t. caller \<in># held_caller (snd t)) ts) \<and>
    count_of (am_counts m) caller \<le> effective_max_inflight cfg"
proof -
  have "counts_ok cfg m ts" using counts.always [of cfg "(m, ts)"] assms by simp
  then have "count_of (am_counts m) caller = count (callers m ts) caller" "count_of (am_counts m) caller \<le> effective_max_inflight cfg"
    unfolding counts_ok_def by blast+
  moreover have "count (callers m ts) caller = length (filter (\<lambda>e. as_agent_id (fst (snd e)) = caller) (am_sessions m)) +
      length (filter (\<lambda>t. caller \<in># held_caller (snd t)) ts)"
    unfolding callers_def count_union count_map_filter count_held ..
  ultimately show ?thesis by simp
qed

theorem caller_limit_kept_witness:
  "count_of (am_counts (fst parked)) (lit ''a'') =
      length (filter (\<lambda>e. as_agent_id (fst (snd e)) = lit ''a'') (am_sessions (fst parked))) \<and>
   count_of (am_counts (fst parked)) (lit ''a'') \<le> 3"
  using caller_limit_kept [OF parked_reachable parked_distinct, of "lit ''a''"]
  by (simp add: parked_tasks held_caller_def)

text \<open>C6. When an await returns a result, the result is for this call and in its mode, each reply names a slot and the target
  awaited there, and a completed reply carries a payload that the awaited agent sent to the caller (or the completion
  of the awaited component, or a reply the host delivered for that slot). An all-of result has every slot in order;
  an any-of result has a completed reply, and only such replies unless losers are kept; a timeout or failed dispatch
  reports every slot.\<close>

theorem await_results_genuine:
  assumes "await_reachable cfg (m, ts)" and "ids_distinct ts" and "i < length ts"
    and "ts ! i = (StartCall c, Return (StartAnswer (Inr res)))"
  shows "aw_session_id res = sc_id c \<and> aw_mode res = ao_mode (sc_options c) \<and>
    (\<forall>r\<in>set (aw_replies res). slot_reply ts c r) \<and> shape_ok c res"
proof -
  have res: "res_ok m ts" using assms(1,2) by (rule reachable_res)
  then have "task_res m ts i (fst (ts ! i)) (snd (ts ! i))" using assms(3) by (simp add: res_ok_def)
  moreover have "Inr res \<noteq> Inl (classify_admission e)" for e by simp
  ultimately have "(i, Inr res) \<in> set (am_sent m)" using assms(4) unfolding task_res_def answer_res_def by auto
  with res obtain c' where c': "call_at ts i (StartCall c')" "outcome_ok ts c' (Inr res)" unfolding res_ok_def by blast
  then have "c' = c" using assms(4) by (simp add: call_at_def)
  with c' show ?thesis by (simp add: outcome_ok_def)
qed

theorem await_results_genuine_witness:
  "aw_session_id yes = lit ''s'' \<and> list_all (slot_reply (snd answered) (ask ''a'' ''b'' ''s'')) (aw_replies yes) \<and>
   shape_ok (ask ''a'' ''b'' ''s'') yes"
  using await_results_genuine [OF answered_reachable answered_distinct, of 0 "ask ''a'' ''b'' ''s''" yes]
  by (simp add: answered_tasks list_all_iff)

text \<open>C22. A parked call can always return: from every reachable configuration its outcome can be reached by sections of tasks
  that are already there, its idle monitor at the latest, without any further call.\<close>

theorem parked_call_can_return:
  assumes "await_reachable cfg (m, ts)" and "ids_distinct ts" and "i < length ts" and "ts ! i = (StartCall c, Park c)"
  shows "\<exists>m' ts' out. rtranclp (await_step cfg) (m, ts) (m', ts') \<and> map fst ts' = map fst ts \<and>
    ts' ! i = (StartCall c, Return (StartAnswer out))"
proof -
  have park: "\<exists>m' ts' out. rtranclp (await_step cfg) (m, ts) (m', ts') \<and> map fst ts' = map fst ts \<and>
      ts' ! i = (StartCall c, Return (StartAnswer out))"
    if us: "rtranclp (await_step cfg) (m, ts) (m1, us)" "map fst us = map fst ts" "us ! i = ts ! i" "i \<in> fst ` set (am_sent m1)" for m1 us
  proof -
    have i: "i < length us" "us ! i = (StartCall c, Park c)" using us assms(3,4) by (metis length_map)+
    from run_park [OF i us(4)] obtain out
      where "rtranclp (await_step cfg) (m1, us) (m1, us[i := (StartCall c, Return (StartAnswer out))])" by blast
    with us(1) have "rtranclp (await_step cfg) (m, ts) (m1, us[i := (StartCall c, Return (StartAnswer out))])" by (rule rtranclp_trans)
    moreover have "map fst (us[i := (StartCall c, Return (StartAnswer out))]) = map fst ts"
      using us(2) i by (simp add: map_update) (metis fst_conv length_map list_update_id nth_map)
    moreover have "us[i := (StartCall c, Return (StartAnswer out))] ! i = (StartCall c, Return (StartAnswer out))" using i by simp
    ultimately show ?thesis by blast
  qed
  have tail: "\<exists>m' ts' out. rtranclp (await_step cfg) (m, ts) (m', ts') \<and> map fst ts' = map fst ts \<and>
      ts' ! i = (StartCall c, Return (StartAnswer out))"
    if us: "rtranclp (await_step cfg) (m, ts) (m1, us)" "map fst us = map fst ts" "us ! i = ts ! i"
      and j: "j < length us" "us ! j = (k, p)" "resolving p = Some r" "rs_token r = i" for m1 us j k p r
  proof -
    have "j \<noteq> i" using us(3) assms(4) j by auto
    from run_tail [OF j(1-3), of cfg m1] obtain m2 q where q: "rtranclp (await_step cfg) (m1, us) (m2, us[j := (k, q)])"
      "(rs_token r, rs_outcome r) \<in> set (am_sent m2)" by blast
    have "map fst (us[j := (k, q)]) = map fst ts"
      using us(2) j by (simp add: map_update) (metis fst_conv length_map list_update_id nth_map)
    then show ?thesis
      using park [OF rtranclp_trans [OF us(1) q(1)]] q(2) j(4) us(3) \<open>j \<noteq> i\<close> by (force simp: image_iff)
  qed
  have "count (channels m ts) i = 1" using reachable_chans [OF assms(1,2)] assms(3,4) by (auto simp: chan_ok_def)
  then have "i \<in># channels m ts" by (metis count_inI one_neq_zero)
  from channel_cases [OF this] show ?thesis
  proof
    assume "i \<in> fst ` set (am_sent m)"
    then show ?thesis using park [OF rtranclp.rtrancl_refl] by blast
  next
    assume "sender_held m ts i"
    then consider j k p r where "j < length ts" "ts ! j = (k, p)" "resolving p = Some r" "rs_token r = i"
      | sid s where "(sid, s, i) \<in> set (am_sessions m)"
      unfolding sender_held_def list_ex_iff by (auto simp: in_set_conv_nth split: option.splits)
    then show ?thesis
    proof cases
      case 1
      with tail [OF rtranclp.rtrancl_refl] show ?thesis by blast
    next
      case (2 sid s)
      have "map_of (am_sessions m) sid = Some (s, i)"
        using reachable_entries [OF assms(1,2)] 2 by (simp add: entries_ok_def)
      moreover from this have "monitored m ts sid"
        using reachable_mon [OF assms(1,2)] assms(4) unfolding mon_ok_def by fastforce
      then obtain j secs where j: "j < length ts" "fst (ts ! j) = MonitorTask sid secs"
        "(snd (ts ! j) = Begin \<or> snd (ts ! j) = Sleep sid secs) \<and> map_of (am_liveness m) sid \<noteq> None \<or> snd (ts ! j) = Claimed sid secs"
        unfolding monitored_def call_at_def by blast
      ultimately obtain m1 r where r: "rtranclp (await_step cfg) (m, ts) (m1, ts[j := (MonitorTask sid secs, Evict sid r TaskEnd)])" "rs_token r = i"
        using run_monitor [of j ts sid secs "snd (ts ! j)" m s i cfg] by (metis prod.collapse)
      have "j \<noteq> i" using j assms(4) by auto
      have "map fst (ts[j := (MonitorTask sid secs, Evict sid r TaskEnd)]) = map fst ts"
        using j by (simp add: map_update) (metis list_update_id nth_map)
      then show ?thesis
        using tail [OF r(1), of j "MonitorTask sid secs" "Evict sid r TaskEnd" r] r(2) j \<open>j \<noteq> i\<close> by simp
    qed
  qed
qed

theorem parked_call_can_return_witness:
  "\<exists>m' ts' out. rtranclp (await_step sample_options) (fst parked, snd parked) (m', ts') \<and>
     ts' ! 0 = (StartCall (ask ''a'' ''b'' ''s''), Return (StartAnswer out))"
proof -
  have "0 < length (snd parked)" "snd parked ! 0 = (StartCall (ask ''a'' ''b'' ''s''), Park (ask ''a'' ''b'' ''s''))"
    by (simp_all add: parked_tasks)
  then show ?thesis
    using parked_call_can_return [OF parked_reachable parked_distinct, of 0 "ask ''a'' ''b'' ''s''"] by blast
qed

section \<open>The ancestry walk and the cycles it prevents\<close>

definition parent_rel :: "ancestry \<Rightarrow> (rstr \<times> rstr) set" where
  "parent_rel snapshot = {(x, y). map_of (ts_parent_of snapshot) x = Some (Some y)}"

lemma cycle_walk_relpow:
  "cycle_walk n snapshot x t \<longleftrightarrow> (\<exists>k. 0 < k \<and> k \<le> n \<and> (x, t) \<in> parent_rel snapshot ^^ k)"
proof (induction n arbitrary: x)
  case (Suc n)
  show ?case
  proof (cases "map_of (ts_parent_of snapshot) x")
    case None
    then have "(x, y) \<notin> parent_rel snapshot" for y by (simp add: parent_rel_def)
    then have "(x, t) \<notin> parent_rel snapshot ^^ k" if "0 < k" for k using that by (metis gr0_conv_Suc relpow_Suc_D2)
    with None show ?thesis by auto
  next
    case (Some v)
    then have "(x, y) \<in> parent_rel snapshot \<longleftrightarrow> v = Some y" for y by (simp add: parent_rel_def)
    then have step: "(x, t) \<in> parent_rel snapshot ^^ Suc k \<longleftrightarrow> (\<exists>y. v = Some y \<and> (y, t) \<in> parent_rel snapshot ^^ k)" for k
      by (metis relpow_Suc_D2 relpow_Suc_I2)
    have "(\<exists>k. 0 < k \<and> k \<le> Suc n \<and> (x, t) \<in> parent_rel snapshot ^^ k) \<longleftrightarrow>
        (\<exists>k\<le>n. (x, t) \<in> parent_rel snapshot ^^ Suc k)"
      by (metis Suc_le_mono gr0_conv_Suc zero_less_Suc)
    also have "\<dots> \<longleftrightarrow> (\<exists>y. v = Some y \<and> (y = t \<or> (\<exists>k. 0 < k \<and> k \<le> n \<and> (y, t) \<in> parent_rel snapshot ^^ k)))"
      unfolding step by (metis le0 not_gr0 pair_in_Id_conv relpow.simps(1))
    finally show ?thesis using Some by (auto simp: Suc.IH split: option.splits)
  qed
qed simp

lemma parent_rel_card: "finite (parent_rel snapshot) \<and> card (parent_rel snapshot) \<le> max_hops snapshot"
proof -
  have sub: "parent_rel snapshot \<subseteq> (\<lambda>(x, v). (x, the v)) ` set (ts_parent_of snapshot)"
    unfolding parent_rel_def by (force dest: map_of_SomeD)
  have "card (parent_rel snapshot) \<le> length (ts_parent_of snapshot)"
    by (rule le_trans [OF card_mono [OF _ sub]]) (auto intro: le_trans [OF card_image_le] card_length)
  then show ?thesis using finite_subset [OF sub] by (auto simp: max_hops_def)
qed

lemma forms_cycle_rtrancl: "forms_cycle snapshot caller target \<longleftrightarrow> (caller, target) \<in> (parent_rel snapshot)\<^sup>*"
proof -
  have "(caller, target) \<in> (parent_rel snapshot)\<^sup>+ \<longleftrightarrow> cycle_walk (max_hops snapshot) snapshot caller target" (is "?l \<longleftrightarrow> ?r")
  proof
    assume ?l
    then obtain k where "0 < k" "k \<le> card (parent_rel snapshot)" "(caller, target) \<in> parent_rel snapshot ^^ k"
      using trancl_finite_eq_relpow [of "parent_rel snapshot"] parent_rel_card by auto
    then show ?r unfolding cycle_walk_relpow using parent_rel_card le_trans by blast
  next
    assume ?r
    then show ?l unfolding cycle_walk_relpow by (auto simp: trancl_power)
  qed
  then show ?thesis by (auto simp: forms_cycle_def rtrancl_eq_or_trancl)
qed

definition parent_chain :: "ancestry \<Rightarrow> rstr list \<Rightarrow> bool" where
  "parent_chain snapshot path \<longleftrightarrow> path \<noteq> [] \<and> successively (\<lambda>x y. map_of (ts_parent_of snapshot) x = Some (Some y)) path"

lemma parent_chain_snoc:
  "parent_chain snapshot path \<Longrightarrow> map_of (ts_parent_of snapshot) (last path) = Some (Some y) \<Longrightarrow> parent_chain snapshot (path @ [y])"
  by (simp add: parent_chain_def successively_append_iff)

lemma path_walk_chain:
  assumes "parent_chain snapshot path" and "last path = x" and "x \<noteq> t"
  shows "parent_chain snapshot (path_walk n snapshot x t path) \<and> hd (path_walk n snapshot x t path) = hd path \<and>
    (last (path_walk n snapshot x t path) = t \<longleftrightarrow> cycle_walk n snapshot x t)"
  using assms
proof (induction n arbitrary: x path)
  case (Suc n)
  have "path \<noteq> []" using Suc.prems(1) by (simp add: parent_chain_def)
  moreover have "parent_chain snapshot (path @ [y])" if "map_of (ts_parent_of snapshot) x = Some (Some y)" for y
    using that Suc.prems by (simp add: parent_chain_snoc)
  ultimately show ?case using Suc.prems Suc.IH [of "path @ [_]" _] by (simp split: option.split)
qed simp

text \<open>C20. The bounded walk up the agent tree is exact on every snapshot, malformed ones included: it refuses an await exactly when
  the target is the caller or one of its ancestors, so the hop bound cuts no real ancestor off. The path it reports is always
  a chain of parent links from the caller, and ends at the target exactly when the await is refused.\<close>

theorem forms_cycle_exact:
  "(forms_cycle snapshot caller target \<longleftrightarrow> (caller, target) \<in> (parent_rel snapshot)\<^sup>*) \<and>
   parent_chain snapshot (cycle_path snapshot caller target) \<and> hd (cycle_path snapshot caller target) = caller \<and>
   (last (cycle_path snapshot caller target) = target \<longleftrightarrow> forms_cycle snapshot caller target)"
proof -
  have "parent_chain snapshot [caller]" by (simp add: parent_chain_def)
  then show ?thesis
    using forms_cycle_rtrancl [of snapshot caller target] path_walk_chain [of snapshot "[caller]" caller target "max_hops snapshot"]
    by (auto simp: cycle_path_def forms_cycle_def)
qed

lemma bare_agent [simp]: "bare_agent_name (lit ''agent:'' @ x) = x"
  by (simp add: bare_agent_name_def strip_prefix_def)

lemma parent_rel_step: "map_of (ts_parent_of snapshot) x = Some (Some p) \<Longrightarrow> (x, y) \<in> parent_rel snapshot \<longleftrightarrow> y = p"
  by (auto simp: parent_rel_def)

lemma sibling_no_cycle:
  assumes "acyclic (parent_rel snapshot)" "map_of (ts_parent_of snapshot) a = Some (Some p)"
    "map_of (ts_parent_of snapshot) b = Some (Some p)" "a \<noteq> b"
  shows "\<not> forms_cycle snapshot a b"
proof
  assume "forms_cycle snapshot a b"
  then have "(p, b) \<in> (parent_rel snapshot)\<^sup>*"
    using assms(2,4) unfolding forms_cycle_rtrancl by (metis converse_rtranclE parent_rel_step)
  moreover have "(b, p) \<in> parent_rel snapshot" using assms(3) by (simp add: parent_rel_def)
  ultimately have "(b, b) \<in> (parent_rel snapshot)\<^sup>+" by (rule rtrancl_into_trancl2 [rotated])
  then show False using assms(1) by (simp add: acyclic_def)
qed

lemma deadlock_check_single:
  assumes "aq_target q = lit ''agent:'' @ b" "is_safe_id (lit ''agent:'' @ b)" "\<not> forms_cycle snapshot caller b"
  shows "deadlock_check cfg snapshot caller [AgentRequest q] = Inr \<lparr>dg_slots = [], dg_emit = []\<rparr>"
  using assms by (simp add: deadlock_check_def agent_slots_def agent_target_def List.map_filter_simps Let_def)

lemma checks_no_tree [simp]:
  "check_targets (cfg\<lparr>mo_agent_tree := x\<rparr>) rs = check_targets cfg rs" "check_fanout (cfg\<lparr>mo_agent_tree := x\<rparr>) rs = check_fanout cfg rs"
  "check_idle_cap (cfg\<lparr>mo_agent_tree := x\<rparr>) opts = check_idle_cap cfg opts"
  by (simp_all add: check_targets_def check_fanout_def check_idle_cap_def)

lemma admission_tree:
  assumes "admission (cfg\<lparr>mo_agent_tree := False\<rparr>) snapshot c = Inr g"
  shows "admission cfg snapshot c = deadlock_check cfg snapshot (sc_caller c) (sc_requests c)"
    and "is_safe_id (lit ''agent:'' @ sc_caller c)"
proof -
  note a = assms [unfolded admission_def rbind_Inr_iff]
  then show "admission cfg snapshot c = deadlock_check cfg snapshot (sc_caller c) (sc_requests c)"
    by (auto simp: admission_def)
  show "is_safe_id (lit ''agent:'' @ sc_caller c)" using a by (auto simp: check_basic_def split: if_splits)
qed

lemma start_parks:
  assumes "admission cfg (rd_snapshot E) c = Inr \<lparr>dg_slots = [], dg_emit = []\<rparr>" "length (am_sessions m) < MAX_SESSIONS_GLOBAL"
    "\<forall>r. sc_run_id c = Some r \<longrightarrow> is_safe_opaque_id r" "cc_max_depth (mo_capability cfg) = None"
    "is_safe_id (lit ''agent:'' @ sc_id c)" "count_of (am_counts m) (sc_caller c) < effective_max_inflight cfg"
    "sc_requests c = [AgentRequest q]" "is_safe_id (aq_target q)" "\<forall>msg. mg_from msg = lit ''agent:'' @ sc_caller c \<longrightarrow> rd_deliver E (aq_target q) msg = None"
  shows "\<exists>m' s. play cfg (Arrive (StartCall c) # replicate 8 (Run (length ts) E) @ xs) (m, ts)
      = play cfg xs (m', ts @ [(StartCall c, Park c), (MonitorTask (sc_id c) (effective_idle_timeout cfg c), Begin)])
    \<and> am_sent m' = am_sent m \<and> am_sessions m' = AList.update (sc_id c) (s, length ts) (am_sessions m)
    \<and> am_counts m' = AList.update (sc_caller c) (Suc (count_of (am_counts m) (sc_caller c))) (am_counts m)"
proof -
  have "\<exists>parent. parent_block cfg E c m = Inr parent"
    using assms(3,4) by (auto simp: parent_block_def Let_def split: option.split prod.split)
  then obtain parent where parent: "parent_block cfg E c m = Inr parent" ..
  have disp: "dispatch_slots (rd_deliver E) (sc_caller c) (sc_requests c) (sc_id c) [] = ([slot_message (sc_caller c) (sc_id c) 0 q], [None])"
    using assms(7-9) by (simp add: dispatch_slots_def dispatch_slot_def Let_def slot_message_def)
  have pend: "\<not> is_complete (session_of_call c parent (rd_instant E)\<lparr>as_parent_session := k\<rparr>)" for k
    using assms(7) by (simp add: is_complete_def session_of_call_def new_session_def won_def split: await_mode.split)
  show ?thesis
    using assms(1,2,5,6) parent disp pend
    by (simp add: eval_nat_numeral global_cap_block_def count_block_def insert_block_def register_block_def emit_all_def
        record_block_def Let_def list_update_append)
      (intro conjI impI exI, (rule refl | simp; fail)+)
qed

lemma length_update_le: "length (AList.update k v xs) \<le> Suc (length xs)"
  by (induction xs) auto

lemma fresh_channel:
  assumes "await_reachable cfg (m, ts)" "ids_distinct ts" "length ts \<le> i"
  shows "map_of (am_sent m) i = None"
proof -
  have "count (channels m ts) i = 0" using reachable_chans [OF assms(1,2)] assms(3) by (simp add: chan_ok_def)
  then have "i \<notin> fst ` set (am_sent m)" by (auto simp: channels_def count_eq_zero_iff)
  then show ?thesis by (simp add: map_of_eq_None_iff)
qed

lemma parked_waits:
  assumes "map_of (am_sent m) i = None" "map_of (am_sessions m) sid = Some (s, i)"
  shows "exec cfg E (sender_held m ts i) i k (Park c) m = None"
proof -
  have "sender_held m ts i" using map_of_SomeD [OF assms(2)] by (force simp: sender_held_def list_ex_iff)
  then show ?thesis using assms(1) by simp
qed

text \<open>A call with one agent request that passes every check but the one on the tree, with room for it.\<close>

definition asks :: "manager_options \<Rightarrow> readings \<Rightarrow> await_manager \<Rightarrow> start_call \<Rightarrow> rstr \<Rightarrow> bool" where
  "asks cfg E m c target \<longleftrightarrow>
     (\<exists>q. sc_requests c = [AgentRequest q] \<and> aq_target q = lit ''agent:'' @ target)
     \<and> (\<exists>g. admission (cfg\<lparr>mo_agent_tree := False\<rparr>) (rd_snapshot E) c = Inr g)
     \<and> (\<forall>r. sc_run_id c = Some r \<longrightarrow> is_safe_opaque_id r) \<and> is_safe_id (lit ''agent:'' @ sc_id c)
     \<and> count_of (am_counts m) (sc_caller c) < effective_max_inflight cfg"

text \<open>The dispatcher takes every message that the routing rules allow.\<close>

definition delivers :: "readings \<Rightarrow> (rstr \<Rightarrow> bool) \<Rightarrow> (rstr \<Rightarrow> rstr option) \<Rightarrow> bool" where
  "delivers E ex par \<longleftrightarrow> (\<forall>to msg. validate_routing ex par (mg_from msg) to = Inr () \<longrightarrow> rd_deliver E to msg = None)"

lemma siblings_route:
  assumes "is_safe_id (lit ''agent:'' @ a)" "is_safe_id (lit ''agent:'' @ b)" "a \<noteq> b" "ex (lit ''agent:'' @ b)"
    "par (lit ''agent:'' @ a) = Some p" "par (lit ''agent:'' @ b) = Some p"
  shows "validate_routing ex par (lit ''agent:'' @ a) (lit ''agent:'' @ b) = Inr ()"
  using assms by (simp add: validate_routing_def)

lemma sibling_parks:
  assumes "asks cfg E m c b" "asks cfg E m d a" "sc_caller c = a" "sc_caller d = b" "a \<noteq> b"
    "acyclic (parent_rel (rd_snapshot E))" "map_of (ts_parent_of (rd_snapshot E)) a = Some (Some p)"
    "map_of (ts_parent_of (rd_snapshot E)) b = Some (Some p)" "delivers E ex par" "ex (lit ''agent:'' @ b)"
    "par (lit ''agent:'' @ a) = Some p'" "par (lit ''agent:'' @ b) = Some p'"
    "cc_max_depth (mo_capability cfg) = None" "length (am_sessions m1) < MAX_SESSIONS_GLOBAL"
    "count_of (am_counts m1) a = count_of (am_counts m) a"
  shows "\<exists>m' s. play cfg (Arrive (StartCall c) # replicate 8 (Run (length ts) E) @ xs) (m1, ts)
      = play cfg xs (m', ts @ [(StartCall c, Park c), (MonitorTask (sc_id c) (effective_idle_timeout cfg c), Begin)])
    \<and> am_sent m' = am_sent m1 \<and> am_sessions m' = AList.update (sc_id c) (s, length ts) (am_sessions m1)
    \<and> am_counts m' = AList.update (sc_caller c) (Suc (count_of (am_counts m1) (sc_caller c))) (am_counts m1)"
proof -
  obtain q g h where c: "sc_requests c = [AgentRequest q]" "aq_target q = lit ''agent:'' @ b"
    "admission (cfg\<lparr>mo_agent_tree := False\<rparr>) (rd_snapshot E) c = Inr g"
    and d: "admission (cfg\<lparr>mo_agent_tree := False\<rparr>) (rd_snapshot E) d = Inr h"
    using assms(1,2) by (auto simp: asks_def)
  have safe: "is_safe_id (lit ''agent:'' @ a)" "is_safe_id (lit ''agent:'' @ b)"
    using admission_tree(2) [OF c(3)] admission_tree(2) [OF d] assms(3,4) by simp_all
  have "admission cfg (rd_snapshot E) c = Inr \<lparr>dg_slots = [], dg_emit = []\<rparr>"
    using admission_tree(1) [OF c(3)] deadlock_check_single [OF c(2) safe(2) sibling_no_cycle [OF assms(6-8,5)]] assms(3) c(1) by simp
  moreover have "\<forall>msg. mg_from msg = lit ''agent:'' @ sc_caller c \<longrightarrow> rd_deliver E (aq_target q) msg = None"
    using siblings_route [OF safe assms(5), of ex par p'] assms(3,9-12) c(2) by (simp add: delivers_def)
  ultimately show ?thesis
    using assms(1,3,13-) c safe by (intro start_parks [where q = q]) (auto simp: asks_def)
qed

text \<open>C39. The admission gate does not keep awaits acyclic. Take any snapshot of the agent tree whose parent links have no cycle, any two
  children \<open>a\<close> and \<open>b\<close> of one agent in it, and any reachable configuration with room for two more calls: a call of \<open>a\<close> that awaits \<open>b\<close> and one of
  \<open>b\<close> that awaits \<open>a\<close>, each of which passes the checks other than the one on the tree. With the tree wired the gate sees no cycle in either, the
  routing rules allow the messages, and running the sections of the two calls one after the other parks both: no outcome is sent,
  and neither can take another step before somebody answers or its idle monitor ends the wait.\<close>

theorem sibling_awaits_deadlock:
  assumes "await_reachable cfg (m, ts)" "ids_distinct (ts @ [(StartCall c, Begin), (StartCall d, Begin)])"
    "mo_agent_tree cfg" "cc_max_depth (mo_capability cfg) = None" "Suc (length (am_sessions m)) < MAX_SESSIONS_GLOBAL"
    "acyclic (parent_rel (rd_snapshot E))" "a \<noteq> b"
    "map_of (ts_parent_of (rd_snapshot E)) a = Some (Some p)" "map_of (ts_parent_of (rd_snapshot E)) b = Some (Some p)"
    "sc_caller c = a" "asks cfg E m c b" "sc_caller d = b" "asks cfg E m d a"
    "delivers E ex par" "ex (lit ''agent:'' @ a)" "ex (lit ''agent:'' @ b)"
    "par (lit ''agent:'' @ a) = Some p'" "par (lit ''agent:'' @ b) = Some p'"
  shows "\<not> forms_cycle (rd_snapshot E) a b \<and> \<not> forms_cycle (rd_snapshot E) b a
    \<and> (\<exists>m' ts'. ts' = ts @ [(StartCall c, Park c), (MonitorTask (sc_id c) (effective_idle_timeout cfg c), Begin),
             (StartCall d, Park d), (MonitorTask (sc_id d) (effective_idle_timeout cfg d), Begin)]
        \<and> play cfg (Arrive (StartCall c) # replicate 8 (Run (length ts) E)
             @ Arrive (StartCall d) # replicate 8 (Run (length ts + 2) E)) (m, ts) = Some (m', ts')
        \<and> await_reachable cfg (m', ts') \<and> ids_distinct ts' \<and> am_sent m' = am_sent m
        \<and> (\<forall>E'. exec cfg E' (sender_held m' ts' (length ts)) (length ts) (StartCall c) (Park c) m' = None)
        \<and> (\<forall>E'. exec cfg E' (sender_held m' ts' (length ts + 2)) (length ts + 2) (StartCall d) (Park d) m' = None))"
proof -
  let ?n = "length ts"
  let ?ts1 = "ts @ [(StartCall c, Park c), (MonitorTask (sc_id c) (effective_idle_timeout cfg c), Begin)]"
  let ?ts2 = "?ts1 @ [(StartCall d, Park d), (MonitorTask (sc_id d) (effective_idle_timeout cfg d), Begin)]"
  let ?ys = "Arrive (StartCall d) # replicate 8 (Run (?n + 2) E) @ []"
  have ids: "ids_distinct ts" "ids_distinct ?ts2" "sc_id c \<noteq> sc_id d" using assms(2) by (auto simp: ids_distinct_def)
  obtain m1 s1 where c: "play cfg (Arrive (StartCall c) # replicate 8 (Run ?n E) @ ?ys) (m, ts) = play cfg ?ys (m1, ?ts1)"
    "am_sent m1 = am_sent m" "am_sessions m1 = AList.update (sc_id c) (s1, ?n) (am_sessions m)"
    "am_counts m1 = AList.update (sc_caller c) (Suc (count_of (am_counts m) (sc_caller c))) (am_counts m)"
    using sibling_parks [OF assms(11,13,10,12,7,6,8,9,14,16-18,4), of m ts ?ys] assms(5) by auto
  have "length (am_sessions m1) < MAX_SESSIONS_GLOBAL" using assms(5) length_update_le c(3) by (metis le_less_trans)
  moreover have "count_of (am_counts m1) b = count_of (am_counts m) b" using assms(7,10) by (simp add: c(4) count_of_def update_conv')
  ultimately obtain m2 s2 where d: "play cfg ?ys (m1, ?ts1) = play cfg [] (m2, ?ts2)"
    "am_sent m2 = am_sent m1" "am_sessions m2 = AList.update (sc_id d) (s2, ?n + 2) (am_sessions m1)"
    using sibling_parks [OF assms(13,11,12,10) _ assms(6,9,8,14,15,18,17,4), of m1 ?ts1 "[]"] assms(7) by auto
  have p: "play cfg (Arrive (StartCall c) # replicate 8 (Run ?n E) @ Arrive (StartCall d) # replicate 8 (Run (?n + 2) E)) (m, ts)
      = Some (m2, ?ts2)" using c(1) d(1) by simp
  have sent: "map_of (am_sent m2) i = None" if "?n \<le> i" for i using fresh_channel [OF assms(1) ids(1) that] c(2) d(2) by simp
  have "map_of (am_sessions m2) (sc_id c) = Some (s1, ?n)" "map_of (am_sessions m2) (sc_id d) = Some (s2, ?n + 2)"
    using ids(3) by (simp_all add: c(3) d(3) update_conv')
  then have w: "exec cfg E' (sender_held m2 ?ts2 ?n) ?n (StartCall c) (Park c) m2 = None"
    "exec cfg E' (sender_held m2 ?ts2 (?n + 2)) (?n + 2) (StartCall d) (Park d) m2 = None" for E'
    using parked_waits sent by (meson le_add1 le_refl)+
  show ?thesis
    using sibling_no_cycle [OF assms(6,8,9,7)] sibling_no_cycle [OF assms(6,9,8)] assms(7) p play_reachable [OF assms(1) p] ids(2) w c(2) d(2)
    by auto
qed

lemma sample_tree_acyclic: "acyclic (parent_rel sample_tree)"
proof -
  have p: "(x, y) \<in> parent_rel sample_tree \<Longrightarrow> x \<noteq> lit ''r'' \<and> y = lit ''r''" for x y
    by (auto simp: parent_rel_def sample_tree_def lit_def split: if_splits)
  have "(x, x) \<notin> (parent_rel sample_tree)\<^sup>+" for x
    using p by (metis converse_rtranclE tranclD)
  then show ?thesis by (simp add: acyclic_def)
qed

lemma sample_asks:
  "asks sample_options sample_readings await_manager_new (ask ''a'' ''b'' ''s'') (lit ''b'')"
  "asks sample_options sample_readings await_manager_new (ask ''b'' ''a'' ''t'') (lit ''a'')"
  by (simp_all add: asks_def admission_eval count_of_def await_manager_new_def effective_max_inflight_def MAX_INFLIGHT_def)

lemma sample_delivers:
  "delivers sample_readings (\<lambda>_. True) (\<lambda>x. if x = lit ''agent:a'' \<or> x = lit ''agent:b'' then Some (lit ''agent:r'') else None)"
  by (simp add: delivers_def sample_readings_def split: sum.splits)

theorem sibling_awaits_deadlock_witness:
  "\<exists>m' ts'. await_reachable sample_options (m', ts') \<and> ids_distinct ts' \<and> am_sent m' = [] \<and> length ts' = 4
     \<and> ts' ! 0 = (StartCall (ask ''a'' ''b'' ''s''), Park (ask ''a'' ''b'' ''s''))
     \<and> ts' ! 2 = (StartCall (ask ''b'' ''a'' ''t''), Park (ask ''b'' ''a'' ''t''))
     \<and> exec sample_options sample_readings (sender_held m' ts' 0) 0 (StartCall (ask ''a'' ''b'' ''s'')) (Park (ask ''a'' ''b'' ''s'')) m' = None"
proof -
  have "ids_distinct ([] @ [(StartCall (ask ''a'' ''b'' ''s''), Begin), (StartCall (ask ''b'' ''a'' ''t''), Begin)])"
    "Suc (length (am_sessions await_manager_new)) < MAX_SESSIONS_GLOBAL" "lit ''a'' \<noteq> lit ''b''"
    "map_of (ts_parent_of sample_tree) (lit ''a'') = Some (Some (lit ''r''))"
    "map_of (ts_parent_of sample_tree) (lit ''b'') = Some (Some (lit ''r''))" "mo_agent_tree sample_options"
    by (simp_all add: ids_distinct_def await_manager_new_def MAX_SESSIONS_GLOBAL_def sample_tree_def sample_options_def)
  note h = this
  obtain m' ts' where m': "ts' = [] @ [(StartCall (ask ''a'' ''b'' ''s''), Park (ask ''a'' ''b'' ''s'')),
      (MonitorTask (lit ''s'') (effective_idle_timeout sample_options (ask ''a'' ''b'' ''s'')), Begin),
      (StartCall (ask ''b'' ''a'' ''t''), Park (ask ''b'' ''a'' ''t'')),
      (MonitorTask (lit ''t'') (effective_idle_timeout sample_options (ask ''b'' ''a'' ''t'')), Begin)]"
    "await_reachable sample_options (m', ts')" "ids_distinct ts'" "am_sent m' = am_sent await_manager_new"
    "\<forall>E'. exec sample_options E' (sender_held m' ts' (length ([] :: task list))) (length ([] :: task list))
       (StartCall (ask ''a'' ''b'' ''s'')) (Park (ask ''a'' ''b'' ''s'')) m' = None"
    using sibling_awaits_deadlock [OF await_reachable.initial h(1,6) sample_option_simps(4) h(2) _ h(3) _ _ _ sample_asks(1) _ sample_asks(2)
        sample_delivers, of "lit ''r''" "lit ''agent:r''"] h sample_tree_acyclic
    by (auto simp: lit_append)
  show ?thesis using m' by (intro exI [of _ m'] exI [of _ ts']) (simp add: await_manager_new_def)
qed

end
