(* ===== verification/Spec2Isabelle.thy ===== *)
theory Spec2Isabelle
  imports Startup AgentGrantProps RunDisk RunRounds RunGrants RepetitionProps AwaitSafety
begin

text \<open>
  \<^bold>\<open>The grant layer, the run manager and the await manager of advance-agents.\<close>

  advance-agents is a runtime for trees of agents. An agent reaches a resource (files, HTTP, tools, models,
  secrets) only through host functions, and each call passes the gate of the grant layer, the crate
  \<open>src/crates/capabilities/cap-grant\<close>. A grant names a capability, its parameters, a lifetime, its issuer and
  where it came from. The layer compiles static grants from the configuration, lets agents request, delegate,
  narrow and revoke grants, keeps them in memory with a durable copy in SQLite, cascades revocations over the
  provenance, expires them by a sweeper, and asks a chain of resolvers, the last of which is a human operator,
  about each new request. This development models that crate in full, with the pattern language it shares with
  other crates (\<open>shared-types/src/mcp.rs\<close>) and the chain that \<open>runtime-compose/src/wiring.rs\<close> assembles.

  The work of an agent on a task is a run. The crate \<open>src/crates/run-manager\<close> keeps the runs: at most one live run per task, a state
  machine (active, suspended on an await session, paused, and the three ends), budgets of tokens, cost and rounds, requests to pause or cancel
  that a round settles, a cascade that cancels the runs of the agents below, one file per task for restarts, and a guard against
  repeated calls and outputs. It is modelled in full too. The two meet in the chain, whose budget resolver asks the run manager.

  An agent that needs answers from others, or the end of a component, awaits them. The crate \<open>src/crates/messaging/reply-tracker\<close> keeps
  the await sessions: a call is admitted through a series of gates, sends one message for each request and waits until all or any of its slots
  are answered, a peer closes the session, or an idle monitor gives up. Many such calls run at the same time over three locked maps. The manager
  is modelled with its dispatch, reply routing, idle monitor and deadlock gate; the turn mailbox that may stand behind it is not.

  \<^bold>\<open>Theories and sources\<close> (paths below \<open>src/crates\<close>; files without a directory are in \<open>capabilities/cap-grant/src\<close>).

  \<^item> \<open>Prelude\<close>: Rust strings as lists of scalar values (\<open>split\<close>, \<open>trim\<close>, \<open>strip_prefix\<close>, \<open>starts_with\<close>, byte lengths),
    hash maps as association lists with distinct keys, JSON values, results; their lemmas and the collections
    \<open>rust_str\<close> and \<open>gate_simps\<close>.
  \<^item> \<open>GrantData\<close>: \<open>data.rs\<close>, \<open>error.rs\<close>, \<open>events.rs\<close>. Structs are records, enums are datatypes.
  \<^item> \<open>McpPatterns\<close>: \<open>shared-types/src/mcp.rs\<close>. Tool patterns, their matching and their subsumption.
  \<^item> \<open>SubsetRules\<close>, \<open>SubsetProps\<close>: \<open>subset.rs\<close>. The rule of each capability family at issuance (\<open>validate\<close>) and at a
    call (\<open>covers_request\<close>). The contract of a subset validator is the locale \<open>subset_validator\<close>, extended by
    \<open>call_coverage\<close>; both are interpreted on the rules of the code.
  \<^item> \<open>CapabilitySubset\<close>: \<open>capability_subset.rs\<close>. The fail-closed projection of JSON capabilities and the admission of
    the capabilities of a spawned agent.
  \<^item> \<open>Cascade\<close>: \<open>cascade.rs\<close>. The bounded walk over the provenance index.
  \<^item> \<open>GrantIndex\<close>: \<open>sqlite.rs\<close>. Rows, their codec and the statements, over a table whose calls may fail. The locale
    \<open>durable_index\<close> states what the store relies on and proves the refinement of an abstract map once.
  \<^item> \<open>GrantStore\<close>: \<open>store.rs\<close>. Every method of \<open>GrantStore\<close>, in state-passing form. \<open>StoreInv\<close> holds the locale
    \<open>store_relation\<close> (a reflexive and transitive relation kept by the elementary updates is kept by every method),
    its special case \<open>store_property\<close>, and the interpretations that give key consistency, index exactness, evolution of
    statuses, agreement of memory and rows, and the range of lifetimes. \<open>StoreProps\<close> and \<open>Governance\<close> hold the
    properties of single methods and of runs.
  \<^item> \<open>GrantCheck\<close>: \<open>check.rs\<close> (gate, audit event, listing readers) and the tick of \<open>sweeper.rs\<close>.
  \<^item> \<open>ConfigCompile\<close>, \<open>Startup\<close>: \<open>compile.rs\<close> and \<open>register_cap_grant\<close> of \<open>lib.rs\<close>.
  \<^item> \<open>Presets\<close>: \<open>preset.rs\<close>. Registry, loader and application of presets.
  \<^item> \<open>Resolvers\<close>, \<open>ResolverProps\<close>: \<open>resolver.rs\<close> and \<open>build_grant_resolver_chain\<close> of \<open>runtime-compose/src/wiring.rs\<close>. The
    five resolvers, the cache of delivered requests and the chain. The port behind the channel resolver is the
    locale \<open>approval_backend\<close>.
  \<^item> \<open>ApprovalIntake\<close>: \<open>approval_intake.rs\<close>, the operator's side, which interprets \<open>approval_backend\<close>. \<open>ApprovalProps\<close>
    and \<open>ApprovalRuns\<close> compose it with the channel resolver.
  \<^item> \<open>AgentGrant\<close>, \<open>AgentGrantProps\<close>: \<open>wit_impl.rs\<close>. The seven host functions of the \<open>agent-grant\<close> interface, from the
    values at the boundary down to the store and the chain.


  Files of the run manager are in \<open>run-manager/src\<close>.

  \<^item> \<open>Floats\<close>: \<open>f64\<close> with the operations of the budget (IEEE 754 binary64, exact sums followed by rounding to nearest even) and
    saturating addition of words.
  \<^item> \<open>RunData\<close>: \<open>identifier.rs\<close>, \<open>retry.rs\<close>, \<open>wit_types.rs\<close>, \<open>events.rs\<close>, the data of \<open>run.rs\<close> and \<open>shared-types/src/run.rs\<close>.
  \<^item> \<open>RunStore\<close>: \<open>store.rs\<close>, the rows and the index of live runs, and \<open>persist.rs\<close>, the state directory.
  \<^item> \<open>RunManager\<close>: \<open>run.rs\<close>. Every method, section by section.
  \<^item> \<open>RunBudget\<close>: \<open>budget.rs\<close> and \<open>recovery.rs\<close>. \<open>AgentRun\<close>: \<open>wit_impl.rs\<close>, the \<open>agent-run\<close> interface.
  \<^item> \<open>RepetitionGuard\<close>, \<open>RepetitionProps\<close>: \<open>repetition_guard.rs\<close>, with \<open>shared-types/src/repetition.rs\<close>.
  \<^item> \<open>RunInv\<close>: what a section may do to a row (\<open>row_step\<close>) and to the store (\<open>store_step\<close>), the lemmas that every method is a sequence of
    such steps whatever the environment does in between (collection \<open>steps\<close>), runs of method calls (\<open>manager_run\<close>), and the locale
    \<open>run_invariant\<close>: a predicate of the store kept by the four kinds of step holds in every interleaving. \<open>RunProps\<close> interprets it for
    the index of live runs, the evolution of a run and the well-formedness of rows; \<open>RunSafety\<close> applies the interpretations.
  \<^item> \<open>RunCascade\<close> (walk and cascade), \<open>RunRounds\<close> (settling of requests), \<open>RunDisk\<close> (restarts) and \<open>RunGrants\<close> (the grant chain on top of
    the budget).

  Files of the await manager are in \<open>messaging/reply-tracker/src\<close>.

  \<^item> \<open>AwaitData\<close>: \<open>session.rs\<close>, \<open>detach.rs\<close>, \<open>error.rs\<close>, \<open>events.rs\<close>, \<open>deadlock.rs\<close>, the data of \<open>shared-types/src/await_session.rs\<close> and
    \<open>mailbox.rs\<close>, the id grammar (\<open>messaging/src/id_validation.rs\<close>) and the routing rule (\<open>messaging/src/hierarchy.rs\<close>).
  \<^item> \<open>AwaitManager\<close>: \<open>manager.rs\<close>, \<open>dispatch.rs\<close>, \<open>idle.rs\<close>, \<open>session_context.rs\<close>, \<open>component_resolution.rs\<close>. The sections of the calls, \<open>exec\<close>,
    and the relation \<open>await_step\<close> of their interleavings.
  \<^item> \<open>AwaitSteps\<close>: the locale \<open>await_invariant\<close> (a predicate of the maps and the tasks kept by arrivals and sections holds in every
    interleaving) and the effect of a section. \<open>AwaitInv\<close>, \<open>AwaitResults\<close>, \<open>AwaitProps\<close> and \<open>AwaitSafety\<close> interpret it for the entries, the channels,
    the counters, the recorded replies, the outcomes and the monitors; \<open>AwaitSafety\<close> states the properties.

  \<^bold>\<open>How code and model correspond.\<close> A \<open>&mut self\<close> or locked method is a function from the state to its result and
  the state it leaves, on errors too. \<open>Result\<close> is a sum whose left side is the error; an error keeps its variant
  and has a tag for its message. Strings are lists of scalar values and every length limit counts UTF-8 bytes, as
  the code does. Instants are integers; the arithmetic of \<open>chrono\<close> that may fail is a checked operation. Clock readings and fresh
  UUIDs are arguments of the operation that reads them. The event bus is the list of events emitted so far. Each
  call to SQLite takes one entry of a script of faults, so a theorem quantified over the script covers every pattern of
  database failures.

  The methods of the run manager release their locks between critical sections and at await points. There the model applies the
  function \<open>e_others\<close> of the environment record \<open>run_env\<close>, numbered by a counter in the state, and every reading of the outside (clock, UUID, agent
  tree, await sessions, advancer, cost tracker, file-system faults) is a function of the same counter. \<open>interleaved\<close> asks of the environment only
  that it acts by steps of the methods themselves, so a theorem with this hypothesis covers every interleaving of calls; \<open>alone\<close> is
  the environment that does nothing. \<open>sound_env\<close> adds that UUIDs are fresh and that no write of a state file fails: a failed first write
  takes the new row back. What the files of the state directory hold is left open: \<open>files_typed\<close> only says that the parser returns numbers of
  the type \<open>f64\<close>, and the theorems on rows say what the checks on loading ensure and what a loaded row may keep. The rollback and the late write are
  shown to break what holds under \<open>sound_env\<close> otherwise.

  The calls of the await manager are tasks. A task has a program counter that names its next critical section and holds the values the code
  carries there; a configuration is the three maps with all tasks, and a step is the arrival of a call or one section of one task with
  any readings (clock, UUID, dispatcher, agent tree, session context, iteration order of the session map). The messages of one call are handed to
  the dispatcher in one section: the code does not touch the maps in between. A one-shot channel is named by the index of the task that
  waits on it. \<open>ids_distinct\<close>, that the session ids minted so far differ, is what the UUIDs promise. A monitor may look at its clock at any
  time; the code does so every five seconds, which is one of the interleavings.

  \<^bold>\<open>What is shown.\<close>

  \<^item> Attenuation: the validator is sound for calls and composes along chains; the url and tool pattern languages
    are decided exactly; listed paths stay inside the parent's; in every reachable store derived grants cover less than
    their ancestors, through delegation, narrowing, presets and the host functions.
  \<^item> The gate allows exactly the calls that a live grant covers, before and after a cascade, an expiry, a
    termination and a start of the runtime.
  \<^item> Revocation: the walk is exact within its bound, a cascade revokes exactly what the walk reaches, which is the whole subtree up to 10000
    descendants and at least that many grants beyond; terminal statuses are final unless the start inserts a static grant over its old id; a single-use
    grant is consumed once.
  \<^item> Durability: the rows refine an abstract map under any faults; recovery gives back what memory held, for instants
    with years of four digits, and a stored deadline beyond them is shown to make it fail; a start is idempotent. The places where memory runs ahead of the rows are stated as well.
  \<^item> Approval: the chain is decided by its first resolver that does not abstain; the cache delivers a request once
    and is bounded; in every interleaving of retries and decisions approvals are consumed at most once, for the request
    the operator saw or a narrower one; and a run that loses a decision at the registry limit.
  \<^item> The boundary: foreign grants can be neither changed nor probed; \<open>delegate-grant\<close> and \<open>request-capability\<close> add exactly
    the grant they answer for.

  \<^item> Runs, in every interleaving: one live run per task, found by the lookup; a cancellation that succeeds is not lost; identity and limits
    are fixed, counters grow, an ended run is final; tokens spent and reserved stay within the limit and rows are well formed, but for rows
    whose files were not; a foreign run can be
    neither changed nor probed.
  \<^item> Runs without interference: the walk over the tree is exact and fails on cycles only, the cascade cancels exactly the runs
    below, a round settles what is pending, a restart reads back exactly the files; and two interleavings in which a failed or late
    write loses a live run.
  \<^item> The guard detects exactly the repetitions of its specification over histories, and warns and terminates in turn. An exhausted run is
    denied new grants.

  \<^item> Awaits, in every interleaving: each call is sent at most one outcome and returns it; results are for the call, in its mode and of the shape
    their status promises, and completed replies were sent by whom was awaited; the counter of a caller is exact and within its limit; a parked
    call can always return by tasks that exist. The deadlock gate refuses exactly awaits on the caller and its ancestors; any two
    siblings that await each other are admitted and parked.

  \<^bold>\<open>Bounds.\<close> No function needs fuel. The retries of \<open>cancel_run\<close> (3), of the cascade (3 scans, 2 retries for a run) and of \<open>cancel_all_runs_for_agent\<close>
  (3 scans) are the loops of the code with its limits; \<open>visit\<close> ends because the depth that is left decreases. \<open>cycle_walk\<close>, \<open>path_walk\<close> and \<open>depth_walk\<close> count down the hop bounds
  of the code, of which the first is shown to cut nothing off. \<open>walk_loop\<close> ends by a measure: an iteration pops a visited id or adds one to the
  result, which never exceeds \<open>MAX_CASCADE_SIZE\<close> (10000). The other loops of the sources run over finite lists. The limits of the
  code are constants of the model with the values of the code (1024 delivered requests in the cache, 1024
  parked requests and 64 per caller, 256 capabilities and 16 keys per projection, 1024 grants in a listing); the runs in
  \<open>ApprovalRuns\<close> are carried out at these values.

  \<^bold>\<open>Parameters.\<close> \<open>chrono\<close> (checked addition, RFC 3339 text), \<open>serde_json\<close> of the parameters and of the request
  fingerprint, the YAML parser and the file system below the compiler and the preset loader, Unicode lower case,
  the budget check of the run manager (given in \<open>RunGrants\<close>), the delivery thread (whether it answers within the time limit), and for the run manager the YAML
  text of a row, await sessions, agent tree, round advancer, cost tracker and sanitising helpers. What a
  theorem relies on is a hypothesis such as \<open>codec_ok\<close> (texts of instants with four-digit years read back, \<open>four_digit_year\<close> of the record \<open>chrono\<close>; other
  texts need not), and the witness of the theorem discharges it at a concrete instance.

  \<^bold>\<open>Not modelled.\<close> Interleavings of the phases of two concurrent calls on the grant store: calls run one after the
  other (the cache and the intake, whose interleaving matters, are step relations). A crash of the process between two sections of a
  method of the run manager, a cancelled task of the await manager, poisoned locks, accessors that exist for tests only. The SQL engine, texts of messages,
  warnings on standard error, local tags of YAML, the timer loop around the sweeper's tick and the registration of the
  host functions. Of the await manager the turn mailbox, with the replies claimed for a turn (\<open>turn_attribution.rs\<close>), and the marshalling of
  its host functions (\<open>host_fn.rs\<close>). The other crates: the listing \<open>PROJECT.json\<close> names each with the reason.
\<close>

end
